(* ===== verification/Prelude.thy ===== *)
theory Prelude
  imports Complex_Main "HOL-Library.Word" "HOL-Library.Monad_Syntax"
begin

text \<open>
  What every component of the development shares: the machine types of the C sources, the
  reading of a C function as a function into \<open>option\<close>, list arrays with bounds-checked
  access, intrusive pointer chains over an explicit heap, and the generic lemmas on lists and
  words the component proofs use.

  \<^bold>\<open>Outcomes.\<close> A C function becomes a HOL function that takes the state it reads and
  returns \<open>Some\<close> of its result and of the new state. \<open>None\<close> stands for every way in which
  the call does not return normally: a failed \<^verbatim>\<open>assert\<close>, a call of \<^verbatim>\<open>abort\<close>, a
  dereference of \<^verbatim>\<open>NULL\<close>, an array access out of bounds, or a loop that never ends.
  A theorem that a call is \<open>Some\<close> of something is therefore a safety and a termination
  theorem at once.
\<close>

section \<open>Machine types\<close>

type_synonym byte = "8 word"
type_synonym u8 = "8 word"
type_synonym u16 = "16 word"
type_synonym u32 = "32 word"
type_synonym u64 = "64 word"

text \<open>A pointer is a natural number; the null pointer is 0.\<close>

type_synonym ptr = nat

abbreviation (input) NULL :: ptr where "NULL \<equiv> 0"

text \<open>A key as the protocol layer passes it: \<^verbatim>\<open>nkey\<close> bytes.\<close>

type_synonym key = "byte list"

named_theorems frame_simps \<open>what an operation leaves unchanged\<close>
named_theorems run_simps \<open>evaluation of one step of the model\<close>

section \<open>Guards and arrays\<close>

text \<open>A C \<^verbatim>\<open>assert\<close>, or the side condition of an access.\<close>

definition guard :: "bool \<Rightarrow> unit option" where
  "guard b = (if b then Some () else None)"

lemma guard_simps [simp]: "guard True = Some ()" "guard False = None"
  by (simp_all add: guard_def)

lemma guard_eq_Some [simp]: "guard b = Some u \<longleftrightarrow> b"
  by (simp add: guard_def)

lemma guard_bind_eq_Some: "(guard b \<bind> f) = Some r \<longleftrightarrow> b \<and> f () = Some r"
  by (cases b) auto

definition arr_get :: "'a list \<Rightarrow> nat \<Rightarrow> 'a option" where
  "arr_get xs i = (if i < length xs then Some (xs ! i) else None)"

definition arr_set :: "'a list \<Rightarrow> nat \<Rightarrow> 'a \<Rightarrow> 'a list option" where
  "arr_set xs i v = (if i < length xs then Some (xs[i := v]) else None)"

lemma arr_get_Some [simp]: "i < length xs \<Longrightarrow> arr_get xs i = Some (xs ! i)"
  by (simp add: arr_get_def)

lemma arr_set_Some [simp]: "i < length xs \<Longrightarrow> arr_set xs i v = Some (xs[i := v])"
  by (simp add: arr_set_def)

lemma arr_get_eq_Some: "arr_get xs i = Some v \<longleftrightarrow> i < length xs \<and> v = xs ! i"
  by (auto simp: arr_get_def)

lemma arr_set_eq_Some: "arr_set xs i v = Some ys \<longleftrightarrow> i < length xs \<and> ys = xs[i := v]"
  by (auto simp: arr_set_def)

section \<open>Lists of lists\<close>

lemma concat_update_split:
  "i < length xss \<Longrightarrow>
   concat (xss[i := ys]) = concat (take i xss) @ ys @ concat (drop (Suc i) xss)"
  by (simp add: upd_conv_take_nth_drop)

lemma concat_nth_split:
  "i < length xss \<Longrightarrow>
   concat xss = concat (take i xss) @ xss ! i @ concat (drop (Suc i) xss)"
  by (subst id_take_nth_drop [of i xss]) auto

lemma set_nth_subset_concat: "i < length xss \<Longrightarrow> set (xss ! i) \<subseteq> set (concat xss)"
  by (metis UN_upper nth_mem set_concat)

lemma in_set_concat_nth:
  "x \<in> set (concat xss) \<longleftrightarrow> (\<exists>i < length xss. x \<in> set (xss ! i))"
  by (metis UN_iff in_set_conv_nth set_concat)

lemma length_remove1_Suc: "x \<in> set xs \<Longrightarrow> Suc (length (remove1 x xs)) = length xs"
  by (simp add: length_remove1) (metis Suc_pred length_pos_if_in_set)

section \<open>Words\<close>

lemma unat_pow2: "n < LENGTH('a) \<Longrightarrow> unat (2 ^ n :: 'a::len word) = 2 ^ n"
  using unat_of_nat [of "2 ^ n", where 'a = 'a] by simp

lemma unat_push_bit_one:
  "n < LENGTH('a) \<Longrightarrow> unat (push_bit n 1 :: 'a::len word) = 2 ^ n"
  by (simp add: push_bit_eq_mult unat_pow2)

lemma unat_and_pow2_mask:
  fixes w :: "'a::len word"
  assumes "n < LENGTH('a)"
  shows "unat (and w (push_bit n 1 - 1)) = unat w mod 2 ^ n"
proof -
  have "push_bit n 1 - 1 = (mask n :: 'a word)"
    by (simp add: mask_eq_exp_minus_1 push_bit_eq_mult)
  then have "and w (push_bit n 1 - 1) = take_bit n w"
    by (simp add: take_bit_eq_mask)
  then show ?thesis
    using assms by (simp add: take_bit_eq_mod unat_mod unat_pow2)
qed

end
