(* ===== verification/Engine_State.thy ===== *)
theory Engine_State
  imports Prelude
begin

unbundle bit_operations_syntax

text \<open>
  The data model of the default storage engine: the structs of
  \<^verbatim>\<open>memcached/engines/default_engine/{items,assoc,slabs,default_engine}.h\<close> as records, the
  heap of item structs, and the two interfaces the engine is given from outside: the server
  API (\<^verbatim>\<open>SERVER_HANDLE_V1\<close>: hash function, clock, cookies, the eviction callback) and
  the operating system (\<^verbatim>\<open>malloc\<close>, \<^verbatim>\<open>calloc\<close>, \<^verbatim>\<open>realloc\<close>, \<^verbatim>\<open>pthread_create\<close>), whose
  answers are functions of the number of the call, so that every theorem holds for every
  behaviour of them.
\<close>

section \<open>Result codes\<close>

datatype ENGINE_ERROR_CODE =
    ENGINE_SUCCESS | ENGINE_KEY_ENOENT | ENGINE_KEY_EEXISTS | ENGINE_ENOMEM
  | ENGINE_NOT_STORED | ENGINE_EINVAL | ENGINE_ENOTSUP | ENGINE_EWOULDBLOCK
  | ENGINE_E2BIG | ENGINE_WANT_MORE | ENGINE_DISCONNECT | ENGINE_EACCESS
  | ENGINE_NOT_MY_VBUCKET | ENGINE_TMPFAIL | ENGINE_FAILED

datatype ENGINE_STORE_OPERATION =
    OPERATION_ADD | OPERATION_SET | OPERATION_REPLACE
  | OPERATION_APPEND | OPERATION_PREPEND | OPERATION_CAS

section \<open>Items\<close>

text \<open>
  The struct \<^verbatim>\<open>hash_item\<close> and the bytes behind it. In C the bytes behind the struct are the
  CAS word (present when \<^verbatim>\<open>ITEM_WITH_CAS\<close> is set), then the key, then the value; the model
  keeps the three apart. The reads go through \<open>item_get_cas\<close>, \<open>item_get_key\<close> and
  \<open>item_get_data\<close>, which look at \<^verbatim>\<open>iflag\<close>, \<^verbatim>\<open>nkey\<close> and \<^verbatim>\<open>nbytes\<close> as the C code does.
\<close>

record hash_item =
  it_next :: ptr
  it_prev :: ptr
  h_next :: ptr
  it_time :: u32
  it_exptime :: u32
  it_nbytes :: u32
  it_flags :: u32
  it_nkey :: u16
  it_iflag :: u16
  it_refcount :: u16
  it_clsid :: u8
  it_cas :: u64
  it_key :: "byte list"
  it_data :: "byte list"

type_synonym item_mem = "ptr \<Rightarrow> hash_item"

text \<open>The item that \<^verbatim>\<open>memset(ptr, 0, len)\<close> leaves behind.\<close>

definition zero_item :: hash_item where
  "zero_item = \<lparr>it_next = NULL, it_prev = NULL, h_next = NULL, it_time = 0, it_exptime = 0,
     it_nbytes = 0, it_flags = 0, it_nkey = 0, it_iflag = 0, it_refcount = 0, it_clsid = 0,
     it_cas = 0, it_key = [], it_data = []\<rparr>"

definition ITEM_WITH_CAS :: u16 where "ITEM_WITH_CAS = 1"
definition ITEM_LINKED :: u16 where "ITEM_LINKED = push_bit 8 1"
definition ITEM_SLABBED :: u16 where "ITEM_SLABBED = push_bit 8 2"

abbreviation linked :: "hash_item \<Rightarrow> bool" where
  "linked it \<equiv> it_iflag it AND ITEM_LINKED \<noteq> 0"

abbreviation slabbed :: "hash_item \<Rightarrow> bool" where
  "slabbed it \<equiv> it_iflag it AND ITEM_SLABBED \<noteq> 0"

definition item_get_cas :: "hash_item \<Rightarrow> u64" where
  "item_get_cas it = (if it_iflag it AND ITEM_WITH_CAS \<noteq> 0 then it_cas it else 0)"

definition item_set_cas :: "u64 \<Rightarrow> hash_item \<Rightarrow> hash_item" where
  "item_set_cas v it = (if it_iflag it AND ITEM_WITH_CAS \<noteq> 0 then it\<lparr>it_cas := v\<rparr> else it)"

definition item_get_key :: "hash_item \<Rightarrow> key" where
  "item_get_key it = take (unat (it_nkey it)) (it_key it)"

definition item_get_data :: "hash_item \<Rightarrow> byte list" where
  "item_get_data it = take (unat (it_nbytes it)) (it_data it)"

section \<open>Hash table, slabs, LRU queues\<close>

text \<open>
  The lengths and fill counts of the two pointer arrays of a slab class (\<^verbatim>\<open>sl_total\<close>, \<^verbatim>\<open>sl_curr\<close>,
  \<^verbatim>\<open>slabs\<close>, \<^verbatim>\<open>list_size\<close>) are natural numbers: they count chunks and pages of one class, and an
  array of more than \<open>2 ^ 31\<close> pointers is outside the model. Sizes, statistics, times, reference
  counts and hash values keep their width.
\<close>

record assoc =
  hashpower :: nat
  primary_hashtable :: "ptr list"
  old_hashtable :: "ptr list"
  hash_items :: u32
  expanding :: bool
  expand_bucket :: u32

record slabclass =
  sc_size :: u32
  perslab :: u32
  slots :: "ptr list"
  sl_total :: nat
  sl_curr :: nat
  end_page_ptr :: ptr
  end_page_free :: u32
  sc_slabs :: nat
  slab_list :: "ptr list"
  list_size :: nat
  requested :: u64

record slabs =
  slabclasses :: "slabclass list"
  mem_limit :: u64
  mem_malloced :: u64
  power_largest :: nat
  mem_base :: ptr
  mem_current :: ptr
  mem_avail :: u64

record itemstats =
  evicted :: u32
  evicted_nonzero :: u32
  evicted_time :: u32
  outofmemory :: u32
  tailrepairs :: u32
  reclaimed :: u32

record items =
  heads :: "ptr list"
  tails :: "ptr list"
  itemstats :: "itemstats list"
  sizes :: "u32 list"

definition POWER_SMALLEST :: nat where "POWER_SMALLEST = 1"
definition POWER_LARGEST :: nat where "POWER_LARGEST = 200"
definition CHUNK_ALIGN_BYTES :: nat where "CHUNK_ALIGN_BYTES = 8"
definition MAX_NUMBER_OF_SLAB_CLASSES :: nat where "MAX_NUMBER_OF_SLAB_CLASSES = POWER_LARGEST + 1"

section \<open>The engine and what it is given\<close>

record config =
  use_cas :: bool
  verbose :: u64
  oldest_live :: u32
  evict_to_free :: bool
  maxbytes :: u64
  preallocate :: bool
  factor :: rat
  chunk_size :: u64
  item_size_max :: u64
  ignore_vbucket :: bool
  vb0 :: bool

record engine_stats =
  st_evictions :: u64
  st_reclaimed :: u64
  st_curr_bytes :: u64
  st_curr_items :: u64
  st_total_items :: u64

record engine_scrubber =
  sr_running :: bool
  sr_visited :: u64
  sr_cleaned :: u64
  sr_started :: int
  sr_stopped :: int

text \<open>
  \<open>srv_hash\<close>, \<open>srv_time\<close> and \<open>srv_realtime\<close> are the \<^verbatim>\<open>core\<close> callbacks \<^verbatim>\<open>hash(key, nkey, 0)\<close>,
  \<^verbatim>\<open>get_current_time()\<close> and \<^verbatim>\<open>realtime(t)\<close>; \<open>srv_wallclock\<close> is \<^verbatim>\<open>time(NULL)\<close>;
  \<open>srv_specific\<close> is the per-cookie word of \<^verbatim>\<open>get/store_engine_specific\<close>;
  \<open>srv_evicting\<close> records the calls of \<^verbatim>\<open>stat->evicting\<close>, latest first.
\<close>

record server =
  srv_hash :: "key \<Rightarrow> u32"
  srv_time :: u32
  srv_realtime :: "int \<Rightarrow> u32"
  srv_wallclock :: int
  srv_specific :: "nat \<Rightarrow> ptr"
  srv_evicting :: "key list"

text \<open>
  \<open>os_malloc n s\<close> is what the \<open>n\<close>-th call into the C library returns when it is
  \<^verbatim>\<open>malloc(s)\<close>; \<open>os_ok n\<close> says whether the \<open>n\<close>-th call succeeds when it is a
  \<^verbatim>\<open>calloc\<close>, \<^verbatim>\<open>realloc\<close> or thread creation.
\<close>

record os =
  os_malloc :: "nat \<Rightarrow> nat \<Rightarrow> ptr"
  os_ok :: "nat \<Rightarrow> bool"
  os_tick :: nat

text \<open>
  \<open>cas_id\<close> is the static counter of \<^verbatim>\<open>get_cas_id\<close>; \<open>tap_it\<close> gives, for the address of a \<^verbatim>\<open>tap_client\<close>,
  its field \<^verbatim>\<open>it\<close> (its field \<^verbatim>\<open>cursor\<close> is the item at that address).
\<close>

record default_engine =
  srv :: server
  os :: os
  mem :: item_mem
  initialized :: bool
  assoc :: assoc
  slabs :: slabs
  items :: items
  config :: config
  stats :: engine_stats
  scrubber :: engine_scrubber
  tap_clients :: "nat list"
  vbucket_infos :: "u16 \<Rightarrow> u8"
  num_features :: nat
  cas_id :: u64
  tap_it :: "ptr \<Rightarrow> ptr"

section \<open>Access to the heap and to the environment\<close>

definition upd_item :: "ptr \<Rightarrow> (hash_item \<Rightarrow> hash_item) \<Rightarrow> default_engine \<Rightarrow> default_engine" where
  "upd_item p f e = e\<lparr>mem := (mem e)(p := f (mem e p))\<rparr>"

definition deref :: "default_engine \<Rightarrow> ptr \<Rightarrow> hash_item option" where
  "deref e p = (if p = NULL then None else Some (mem e p))"

definition hash_of :: "default_engine \<Rightarrow> ptr \<Rightarrow> u32" where
  "hash_of e p = srv_hash (srv e) (item_get_key (mem e p))"

definition current_time :: "default_engine \<Rightarrow> u32" where
  "current_time e = srv_time (srv e)"

definition os_call :: "default_engine \<Rightarrow> bool \<times> default_engine" where
  "os_call e = (os_ok (os e) (os_tick (os e)), e\<lparr>os := (os e)\<lparr>os_tick := Suc (os_tick (os e))\<rparr>\<rparr>)"

definition malloc :: "nat \<Rightarrow> default_engine \<Rightarrow> ptr \<times> default_engine" where
  "malloc n e = (os_malloc (os e) (os_tick (os e)) n,
     e\<lparr>os := (os e)\<lparr>os_tick := Suc (os_tick (os e))\<rparr>\<rparr>)"

section \<open>A small engine\<close>

text \<open>
  A concrete engine for the examples of the development: two hash buckets, slab classes of 96, 192,
  384 and 1024 bytes in pages of 1024 bytes, one item at address 8 under the key \<open>[97]\<close> that is not
  in any structure, and a system that hands out blocks of at most
  65536 bytes, the \<open>n\<close>-th at address \<open>65536 * (n + 1)\<close>.
\<close>

definition sample_class :: "u32 \<Rightarrow> u32 \<Rightarrow> slabclass" where
  "sample_class sz per = \<lparr>sc_size = sz, perslab = per, slots = [], sl_total = 0, sl_curr = 0,
     end_page_ptr = NULL, end_page_free = 0, sc_slabs = 0, slab_list = [], list_size = 0,
     requested = 0\<rparr>"

definition sample_engine :: default_engine where
  "sample_engine = \<lparr>
     srv = \<lparr>srv_hash = (\<lambda>k. of_nat (length k)), srv_time = 100, srv_realtime = of_int,
            srv_wallclock = 1000, srv_specific = (\<lambda>_. NULL), srv_evicting = []\<rparr>,
     os = \<lparr>os_malloc = (\<lambda>n s. if s \<le> 65536 then 65536 * (n + 1) else NULL), os_ok = (\<lambda>_. True), os_tick = 0\<rparr>,
     mem = (\<lambda>_. zero_item)(8 := zero_item\<lparr>it_nkey := 1, it_key := [97]\<rparr>),
     initialized = True,
     assoc = \<lparr>hashpower = 1, primary_hashtable = [NULL, NULL], old_hashtable = [],
              hash_items = 0, expanding = False, expand_bucket = 0\<rparr>,
     slabs = \<lparr>slabclasses = (replicate MAX_NUMBER_OF_SLAB_CLASSES (sample_class 0 0))
                 [1 := sample_class 96 10, 2 := sample_class 192 5, 3 := sample_class 384 2,
                  4 := sample_class 1024 1],
              mem_limit = 8192, mem_malloced = 0, power_largest = 4,
              mem_base = NULL, mem_current = NULL, mem_avail = 0\<rparr>,
     items = \<lparr>heads = replicate POWER_LARGEST NULL, tails = replicate POWER_LARGEST NULL,
              itemstats = replicate POWER_LARGEST \<lparr>evicted = 0, evicted_nonzero = 0,
                evicted_time = 0, outofmemory = 0, tailrepairs = 0, reclaimed = 0\<rparr>,
              sizes = replicate POWER_LARGEST 0\<rparr>,
     config = \<lparr>use_cas = True, verbose = 0, oldest_live = 0, evict_to_free = True,
               maxbytes = 8192, preallocate = False, factor = 2, chunk_size = 48,
               item_size_max = 1024, ignore_vbucket = False, vb0 = True\<rparr>,
     stats = \<lparr>st_evictions = 0, st_reclaimed = 0, st_curr_bytes = 0, st_curr_items = 0,
              st_total_items = 0\<rparr>,
     scrubber = \<lparr>sr_running = False, sr_visited = 0, sr_cleaned = 0, sr_started = 0,
                 sr_stopped = 0\<rparr>,
     tap_clients = replicate 10 0,
     vbucket_infos = (\<lambda>_. 0)(0 := 1),
     num_features = 0,
     cas_id = 0,
     tap_it = (\<lambda>_. NULL)\<rparr>"

end
