(* ===== verification/Chains.thy ===== *)
theory Chains
  imports Prelude
begin

text \<open>
  Intrusive linked lists over an explicit heap. \<open>chain nx p xs\<close> says that following the link
  \<open>nx\<close> from \<open>p\<close> visits exactly the addresses \<open>xs\<close> and then reaches the null pointer;
  \<open>seg nx p xs q\<close> says the same of a segment that ends in front of \<open>q\<close>; \<open>dll\<close> adds the
  back links of a doubly linked list. The hash chains (\<^verbatim>\<open>h_next\<close>) and the LRU queues
  (\<^verbatim>\<open>next\<close>, \<^verbatim>\<open>prev\<close>) of the engine are instances.
\<close>

section \<open>Singly linked chains\<close>

fun seg :: "(ptr \<Rightarrow> ptr) \<Rightarrow> ptr \<Rightarrow> ptr list \<Rightarrow> ptr \<Rightarrow> bool" where
  "seg nx p [] q = (p = q)"
| "seg nx p (x # xs) q = (p = x \<and> x \<noteq> NULL \<and> seg nx (nx x) xs q)"

abbreviation chain :: "(ptr \<Rightarrow> ptr) \<Rightarrow> ptr \<Rightarrow> ptr list \<Rightarrow> bool" where
  "chain nx p xs \<equiv> seg nx p xs NULL"

lemma seg_append: "seg nx p (xs @ ys) q \<longleftrightarrow> (\<exists>r. seg nx p xs r \<and> seg nx r ys q)"
  by (induction xs arbitrary: p) auto

lemma seg_cong: "(\<And>x. x \<in> set xs \<Longrightarrow> nx' x = nx x) \<Longrightarrow> seg nx' p xs q \<longleftrightarrow> seg nx p xs q"
  by (induction xs arbitrary: p) auto

lemma seg_upd [simp]: "x \<notin> set xs \<Longrightarrow> seg (nx(x := v)) p xs q \<longleftrightarrow> seg nx p xs q"
  by (rule seg_cong) auto

lemma seg_not_NULL: "seg nx p xs q \<Longrightarrow> NULL \<notin> set xs"
  by (induction xs arbitrary: p) auto

lemma chain_NULL [simp]: "chain nx NULL xs \<longleftrightarrow> xs = []"
  by (cases xs) auto

lemma chain_nonnull:
  "p \<noteq> NULL \<Longrightarrow> chain nx p xs \<longleftrightarrow> (\<exists>ys. xs = p # ys \<and> chain nx (nx p) ys)"
  by (cases xs) auto

lemma chain_unique: "chain nx p xs \<Longrightarrow> chain nx p ys \<Longrightarrow> xs = ys"
  by (induction xs arbitrary: p ys) (auto simp: chain_nonnull)

lemma chain_distinct: "chain nx p xs \<Longrightarrow> distinct xs"
proof (induction xs arbitrary: p)
  case (Cons x xs)
  have "x \<notin> set xs"
  proof
    assume "x \<in> set xs"
    then obtain ys zs where "xs = ys @ x # zs" by (auto simp: in_set_conv_decomp)
    with Cons.prems have "chain nx x (x # ys @ x # zs)" and "chain nx x (x # zs)"
      by (auto simp: seg_append)
    then have "x # ys @ x # zs = x # zs" by (rule chain_unique)
    then show False by simp
  qed
  with Cons show ?case by auto
qed simp

lemma chain_head_in: "chain nx p xs \<Longrightarrow> p \<noteq> NULL \<Longrightarrow> p \<in> set xs"
  by (cases xs) auto

section \<open>Doubly linked lists\<close>

text \<open>\<open>pr\<close> is what the back link of the first cell holds.\<close>

fun dll :: "(ptr \<Rightarrow> ptr) \<Rightarrow> (ptr \<Rightarrow> ptr) \<Rightarrow> ptr \<Rightarrow> ptr \<Rightarrow> ptr list \<Rightarrow> ptr \<Rightarrow> bool" where
  "dll nx pv pr p [] q = (p = q)"
| "dll nx pv pr p (x # xs) q = (p = x \<and> x \<noteq> NULL \<and> pv x = pr \<and> dll nx pv x (nx x) xs q)"

definition last_or :: "ptr \<Rightarrow> ptr list \<Rightarrow> ptr" where
  "last_or d xs = (if xs = [] then d else last xs)"

lemma last_or_simps [simp]:
  "last_or d [] = d" "last_or d (x # xs) = last_or x xs" "last_or d (xs @ [y]) = y"
  by (auto simp: last_or_def)

lemma last_or_append: "last_or d (xs @ ys) = last_or (last_or d xs) ys"
  by (auto simp: last_or_def)

lemma last_or_nonempty: "xs \<noteq> [] \<Longrightarrow> last_or d xs \<in> set xs"
  by (simp add: last_or_def)

lemma dll_append:
  "dll nx pv pr p (xs @ ys) q \<longleftrightarrow> (\<exists>r. dll nx pv pr p xs r \<and> dll nx pv (last_or pr xs) r ys q)"
  by (induction xs arbitrary: p pr) auto

lemma dll_cong:
  "(\<And>x. x \<in> set xs \<Longrightarrow> nx' x = nx x \<and> pv' x = pv x) \<Longrightarrow>
   dll nx' pv' pr p xs q \<longleftrightarrow> dll nx pv pr p xs q"
  by (induction xs arbitrary: p pr) auto

lemma dll_seg: "dll nx pv pr p xs q \<Longrightarrow> seg nx p xs q"
  by (induction xs arbitrary: p pr) auto

lemma dll_distinct: "dll nx pv pr p xs NULL \<Longrightarrow> distinct xs"
  by (blast intro: chain_distinct dll_seg)

lemma dll_not_NULL: "dll nx pv pr p xs q \<Longrightarrow> NULL \<notin> set xs"
  by (blast dest: dll_seg seg_not_NULL)

lemma dll_NULL [simp]: "dll nx pv pr NULL xs NULL \<longleftrightarrow> xs = []"
  by (cases xs) auto

lemma dll_head: "dll nx pv pr p xs NULL \<Longrightarrow> p = (case xs of [] \<Rightarrow> NULL | x # _ \<Rightarrow> x)"
  by (cases xs) auto

text \<open>The link fields of a cell in the middle point at its neighbours.\<close>

lemma dll_middle:
  assumes "dll nx pv pr p (xs @ x # ys) NULL"
  shows "pv x = last_or pr xs" "nx x = (case ys of [] \<Rightarrow> NULL | y # _ \<Rightarrow> y)" "x \<noteq> NULL"
  using assms by (auto simp: dll_append dest: dll_head)

end
