(* ===== verification/Interfaces.thy ===== *)
theory Interfaces
  imports Prelude
begin

text \<open>
  The contracts between the components of the storage engine, as locales. A component that
  relies on another is proved against the contract; the theory of the provider interprets the
  locale on the definitions that model the code.
\<close>

section \<open>An index of items by key\<close>

text \<open>
  What the item layer relies on of the hash table: \<open>rep e S\<close> says that the index of the state
  \<open>e\<close> holds the items \<open>S\<close>, \<open>keyof e x\<close> is the key of an item, \<open>frame e e'\<close> says that only the
  index itself changed, and \<open>room e it\<close> is what an insertion may assume.
\<close>

locale item_index =
  fixes rep :: "'s \<Rightarrow> ptr set \<Rightarrow> bool"
    and keyof :: "'s \<Rightarrow> ptr \<Rightarrow> 'k"
    and frame :: "'s \<Rightarrow> 's \<Rightarrow> bool"
    and room :: "'s \<Rightarrow> ptr \<Rightarrow> bool"
    and find :: "'s \<Rightarrow> 'k \<Rightarrow> ptr option"
    and ins :: "'s \<Rightarrow> ptr \<Rightarrow> 's option"
    and del :: "'s \<Rightarrow> 'k \<Rightarrow> 's option"
  assumes rep_null: "rep e S \<Longrightarrow> NULL \<notin> S"
    and rep_inj: "rep e S \<Longrightarrow> inj_on (keyof e) S"
    and frame_keyof: "frame e e' \<Longrightarrow> keyof e' x = keyof e x"
    and find_present: "rep e S \<Longrightarrow> x \<in> S \<Longrightarrow> find e (keyof e x) = Some x"
    and find_absent: "rep e S \<Longrightarrow> \<forall>x\<in>S. keyof e x \<noteq> k \<Longrightarrow> find e k = Some NULL"
    and ins_rep: "rep e S \<Longrightarrow> room e it \<Longrightarrow> it \<notin> S \<Longrightarrow> \<forall>x\<in>S. keyof e x \<noteq> keyof e it \<Longrightarrow>
        \<exists>e'. ins e it = Some e' \<and> rep e' (insert it S) \<and> frame e e'"
    and del_rep: "rep e S \<Longrightarrow> x \<in> S \<Longrightarrow>
        \<exists>e'. del e (keyof e x) = Some e' \<and> rep e' (S - {x}) \<and> frame e e'"
begin

lemma find_iff:
  assumes "rep e S"
  shows "find e k = Some p \<longleftrightarrow>
    (p = NULL \<and> (\<forall>x\<in>S. keyof e x \<noteq> k)) \<or> (p \<in> S \<and> keyof e p = k)"
proof (cases "\<exists>x\<in>S. keyof e x = k")
  case True
  then obtain x where x: "x \<in> S" "keyof e x = k" by blast
  then have "find e k = Some x" using find_present [OF assms] by auto
  moreover have "p \<in> S \<and> keyof e p = k \<longleftrightarrow> p = x"
    using x inj_onD [OF rep_inj [OF assms]] by auto
  ultimately show ?thesis using x by auto
next
  case False
  then show ?thesis using find_absent [OF assms] by auto
qed

lemma find_defined: "rep e S \<Longrightarrow> \<exists>p. find e k = Some p"
  using find_present find_absent by metis

text \<open>A lookup after an insertion finds the new item, and every other key as before.\<close>

lemma find_after_ins:
  assumes "rep e S" "room e it" "it \<notin> S" "\<forall>x\<in>S. keyof e x \<noteq> keyof e it"
  shows "\<exists>e'. ins e it = Some e' \<and> rep e' (insert it S)
    \<and> find e' (keyof e it) = Some it
    \<and> (\<forall>k. k \<noteq> keyof e it \<longrightarrow> find e' k = find e k)"
proof -
  obtain e' where e': "ins e it = Some e'" "rep e' (insert it S)" "frame e e'"
    using ins_rep [OF assms] by blast
  note key = frame_keyof [OF e'(3)]
  have "find e' k = find e k" if "k \<noteq> keyof e it" for k
  proof -
    obtain p where p: "find e k = Some p" using find_defined [OF assms(1)] by blast
    then have "find e' k = Some p"
      using that find_iff [OF assms(1)] find_iff [OF e'(2)] key by auto
    with p show ?thesis by simp
  qed
  moreover have "find e' (keyof e it) = Some it"
    using find_iff [OF e'(2)] key by auto
  ultimately show ?thesis using e' by blast
qed

text \<open>A lookup after a deletion misses the deleted key, and finds every other key as before.\<close>

lemma find_after_del:
  assumes "rep e S" "x \<in> S"
  shows "\<exists>e'. del e (keyof e x) = Some e' \<and> rep e' (S - {x})
    \<and> find e' (keyof e x) = Some NULL
    \<and> (\<forall>k. k \<noteq> keyof e x \<longrightarrow> find e' k = find e k)"
proof -
  obtain e' where e': "del e (keyof e x) = Some e'" "rep e' (S - {x})" "frame e e'"
    using del_rep [OF assms] by blast
  note key = frame_keyof [OF e'(3)]
  have "find e' k = find e k" if "k \<noteq> keyof e x" for k
  proof -
    obtain p where p: "find e k = Some p" using find_defined [OF assms(1)] by blast
    then have "find e' k = Some p"
      using that find_iff [OF assms(1)] find_iff [OF e'(2)] key by auto
    with p show ?thesis by simp
  qed
  moreover have "\<forall>y \<in> S - {x}. keyof e' y \<noteq> keyof e x"
    using inj_onD [OF rep_inj [OF assms(1)]] assms(2) key by auto
  then have "find e' (keyof e x) = Some NULL"
    by (rule find_absent [OF e'(2)])
  ultimately show ?thesis using e' by blast
qed

end

section \<open>An allocator of chunks\<close>

text \<open>
  What the item layer relies on of the slab allocator: \<open>rep e A\<close> says that exactly the chunks \<open>dom A\<close>
  are in use, each in the class \<open>A\<close> gives; \<open>bytes e p c\<close> are the bytes of the chunk \<open>p\<close> of class \<open>c\<close>;
  \<open>idle e p\<close> is what a client has to establish before it gives a chunk back.
\<close>

locale chunk_allocator =
  fixes rep :: "'s \<Rightarrow> (ptr \<rightharpoonup> nat) \<Rightarrow> bool"
    and classes :: "'s \<Rightarrow> nat set"
    and alloc :: "'s \<Rightarrow> u64 \<Rightarrow> nat \<Rightarrow> (ptr \<times> 's) option"
    and release :: "'s \<Rightarrow> ptr \<Rightarrow> u64 \<Rightarrow> nat \<Rightarrow> 's option"
    and bytes :: "'s \<Rightarrow> ptr \<Rightarrow> nat \<Rightarrow> ptr set"
    and idle :: "'s \<Rightarrow> ptr \<Rightarrow> bool"
  assumes alloc_rep: "rep e A \<Longrightarrow> c \<in> classes e \<Longrightarrow>
        \<exists>p e'. alloc e sz c = Some (p, e') \<and> (p = NULL \<longrightarrow> rep e' A)
          \<and> (p \<noteq> NULL \<longrightarrow> p \<notin> dom A \<and> rep e' (A(p \<mapsto> c)))"
    and release_rep: "rep e A \<Longrightarrow> A p = Some c \<Longrightarrow> idle e p \<Longrightarrow>
        \<exists>e'. release e p sz c = Some e' \<and> rep e' (A(p := None))"
    and apart: "rep e A \<Longrightarrow> A p = Some c \<Longrightarrow> A q = Some d \<Longrightarrow> p \<noteq> q \<Longrightarrow>
        bytes e p c \<inter> bytes e q d = {}"
begin

text \<open>A new chunk shares no byte with a chunk that is already in use.\<close>

lemma alloc_apart:
  assumes "rep e A" "c \<in> classes e" "alloc e sz c = Some (p, e')" "p \<noteq> NULL" "A q = Some d"
  shows "p \<noteq> q" "bytes e' p c \<inter> bytes e' q d = {}" "rep e' (A(p \<mapsto> c))"
proof -
  have "p \<notin> dom A" "rep e' (A(p \<mapsto> c))"
    using alloc_rep [OF assms(1,2), of sz] assms(3,4) by auto
  moreover from this assms(5) show "p \<noteq> q" by auto
  ultimately show "rep e' (A(p \<mapsto> c))" "bytes e' p c \<inter> bytes e' q d = {}"
    using apart [of e' "A(p \<mapsto> c)" p c q d] assms(5) by auto
qed

text \<open>A chunk that was given back can be handed out again without overlap.\<close>

lemma release_then_alloc:
  assumes "rep e A" "A p = Some c" "idle e p" "release e p sz c = Some e1" "d \<in> classes e1"
    "alloc e1 sz' d = Some (q, e2)" "q \<noteq> NULL" "r \<noteq> p" "A r = Some b"
  shows "q \<noteq> r" "bytes e2 q d \<inter> bytes e2 r b = {}"
proof -
  have "rep e1 (A(p := None))" using release_rep [OF assms(1-3), of sz] assms(4) by auto
  then show "q \<noteq> r" "bytes e2 q d \<inter> bytes e2 r b = {}"
    using alloc_apart [of e1 "A(p := None)" d sz' q e2 r b] assms by auto
qed

end

end
