(* ===== verification/Assoc.thy ===== *)
theory Assoc
  imports Engine_State Chains Interfaces
begin

unbundle bit_operations_syntax

text \<open>
  The hash table of the default engine, \<^verbatim>\<open>memcached/engines/default_engine/assoc.c\<close>:
  chained buckets, and incremental doubling of the table by a maintenance thread while finds,
  inserts and deletes go on. All functions run under \<^verbatim>\<open>cache_lock\<close>; the maintenance thread
  takes the lock once per pass, so one pass is one atomic step.
\<close>

section \<open>The code\<close>

definition hashsize :: "nat \<Rightarrow> u32" where
  "hashsize n = push_bit n 1"

definition hashmask :: "nat \<Rightarrow> u32" where
  "hashmask n = hashsize n - 1"

text \<open>
  A position that holds a chain pointer: \<^verbatim>\<open>&old_hashtable[b]\<close>, \<^verbatim>\<open>&primary_hashtable[b]\<close> or
  \<^verbatim>\<open>&it->h_next\<close> (the C type \<^verbatim>\<open>hash_item **\<close>).
\<close>

datatype hashpos = OldBucket nat | PrimaryBucket nat | HNext ptr

definition bucket_pos :: "assoc \<Rightarrow> u32 \<Rightarrow> hashpos" where
  "bucket_pos a h =
     (if expanding a \<and> h AND hashmask (hashpower a - 1) \<ge> expand_bucket a
      then OldBucket (unat (h AND hashmask (hashpower a - 1)))
      else PrimaryBucket (unat (h AND hashmask (hashpower a))))"

fun load_pos :: "default_engine \<Rightarrow> hashpos \<Rightarrow> ptr option" where
  "load_pos e (OldBucket b) = arr_get (old_hashtable (assoc e)) b"
| "load_pos e (PrimaryBucket b) = arr_get (primary_hashtable (assoc e)) b"
| "load_pos e (HNext p) = map_option h_next (deref e p)"

fun store_pos :: "hashpos \<Rightarrow> ptr \<Rightarrow> default_engine \<Rightarrow> default_engine option" where
  "store_pos (OldBucket b) v e =
     map_option (\<lambda>t. e\<lparr>assoc := (assoc e)\<lparr>old_hashtable := t\<rparr>\<rparr>)
       (arr_set (old_hashtable (assoc e)) b v)"
| "store_pos (PrimaryBucket b) v e =
     map_option (\<lambda>t. e\<lparr>assoc := (assoc e)\<lparr>primary_hashtable := t\<rparr>\<rparr>)
       (arr_set (primary_hashtable (assoc e)) b v)"
| "store_pos (HNext p) v e =
     (if p = NULL then None else Some (upd_item p (\<lambda>it. it\<lparr>h_next := v\<rparr>) e))"

definition assoc_init :: "default_engine \<Rightarrow> ENGINE_ERROR_CODE \<times> default_engine" where
  "assoc_init e =
     (let (ok, e) = os_call e in
      if ok then (ENGINE_SUCCESS,
                  e\<lparr>assoc := (assoc e)\<lparr>primary_hashtable :=
                      replicate (unat (hashsize (hashpower (assoc e)))) NULL\<rparr>\<rparr>)
      else (ENGINE_ENOMEM, e\<lparr>assoc := (assoc e)\<lparr>primary_hashtable := []\<rparr>\<rparr>))"

definition key_matches :: "key \<Rightarrow> hash_item \<Rightarrow> bool" where
  "key_matches k it = (length k = unat (it_nkey it) \<and> k = item_get_key it)"

partial_function (option) assoc_find_loop :: "item_mem \<Rightarrow> key \<Rightarrow> ptr \<Rightarrow> ptr option" where
  "assoc_find_loop m k it =
     (if it = NULL then Some NULL
      else if key_matches k (m it) then Some it
      else assoc_find_loop m k (h_next (m it)))"

definition assoc_find :: "default_engine \<Rightarrow> u32 \<Rightarrow> key \<Rightarrow> ptr option" where
  "assoc_find e h k =
     do {
       it \<leftarrow> load_pos e (bucket_pos (assoc e) h);
       assoc_find_loop (mem e) k it
     }"

partial_function (option) hashitem_before_loop ::
    "default_engine \<Rightarrow> key \<Rightarrow> hashpos \<Rightarrow> hashpos option" where
  "hashitem_before_loop e k pos =
     do {
       p \<leftarrow> load_pos e pos;
       if p \<noteq> NULL \<and> \<not> key_matches k (mem e p)
       then hashitem_before_loop e k (HNext p)
       else Some pos
     }"

definition hashitem_before :: "default_engine \<Rightarrow> u32 \<Rightarrow> key \<Rightarrow> hashpos option" where
  "hashitem_before e h k = hashitem_before_loop e k (bucket_pos (assoc e) h)"

definition assoc_expand :: "default_engine \<Rightarrow> default_engine" where
  "assoc_expand e =
     (let old = primary_hashtable (assoc e);
          e = e\<lparr>assoc := (assoc e)\<lparr>old_hashtable := old\<rparr>\<rparr>;
          (ok, e) = os_call e in
      if ok then
        (let e = e\<lparr>assoc := (assoc e)\<lparr>
                 primary_hashtable := replicate (unat (hashsize (hashpower (assoc e) + 1))) NULL,
                 hashpower := hashpower (assoc e) + 1,
                 expanding := True,
                 expand_bucket := 0\<rparr>\<rparr>;
             (created, e) = os_call e in
         if created then e
         else e\<lparr>assoc := (assoc e)\<lparr>
                 hashpower := hashpower (assoc e) - 1,
                 expanding := False,
                 primary_hashtable := old_hashtable (assoc e)\<rparr>\<rparr>)
      else e\<lparr>assoc := (assoc e)\<lparr>primary_hashtable := old_hashtable (assoc e)\<rparr>\<rparr>)"

definition assoc_insert :: "default_engine \<Rightarrow> u32 \<Rightarrow> ptr \<Rightarrow> default_engine option" where
  "assoc_insert e h it =
     do {
       dup \<leftarrow> assoc_find e h (item_get_key (mem e it));
       guard (dup = NULL);
       first \<leftarrow> load_pos e (bucket_pos (assoc e) h);
       let e = upd_item it (\<lambda>i. i\<lparr>h_next := first\<rparr>) e;
       e \<leftarrow> store_pos (bucket_pos (assoc e) h) it e;
       let e = e\<lparr>assoc := (assoc e)\<lparr>hash_items := hash_items (assoc e) + 1\<rparr>\<rparr>;
       Some (if \<not> expanding (assoc e)
                \<and> hash_items (assoc e) > (hashsize (hashpower (assoc e)) * 3) div 2
             then assoc_expand e else e)
     }"

definition assoc_delete :: "default_engine \<Rightarrow> u32 \<Rightarrow> key \<Rightarrow> default_engine option" where
  "assoc_delete e h k =
     do {
       before \<leftarrow> hashitem_before e h k;
       p \<leftarrow> load_pos e before;
       guard (p \<noteq> NULL);
       let e = e\<lparr>assoc := (assoc e)\<lparr>hash_items := hash_items (assoc e) - 1\<rparr>\<rparr>;
       let nxt = h_next (mem e p);
       let e = upd_item p (\<lambda>i. i\<lparr>h_next := NULL\<rparr>) e;
       store_pos before nxt e
     }"

definition hash_bulk_move :: nat where
  "hash_bulk_move = 1"

partial_function (option) assoc_move_chain :: "ptr \<Rightarrow> default_engine \<Rightarrow> default_engine option" where
  "assoc_move_chain it e =
     (if it = NULL then Some e
      else do {
        let nxt = h_next (mem e it);
        let bucket = unat (hash_of e it AND hashmask (hashpower (assoc e)));
        first \<leftarrow> load_pos e (PrimaryBucket bucket);
        let e = upd_item it (\<lambda>i. i\<lparr>h_next := first\<rparr>) e;
        e \<leftarrow> store_pos (PrimaryBucket bucket) it e;
        assoc_move_chain nxt e
      })"

definition assoc_move_bucket :: "default_engine \<Rightarrow> default_engine option" where
  "assoc_move_bucket e =
     do {
       it \<leftarrow> load_pos e (OldBucket (unat (expand_bucket (assoc e))));
       e \<leftarrow> assoc_move_chain it e;
       e \<leftarrow> store_pos (OldBucket (unat (expand_bucket (assoc e)))) NULL e;
       let e = e\<lparr>assoc := (assoc e)\<lparr>expand_bucket := expand_bucket (assoc e) + 1\<rparr>\<rparr>;
       Some (if expand_bucket (assoc e) = hashsize (hashpower (assoc e) - 1)
             then e\<lparr>assoc := (assoc e)\<lparr>expanding := False, old_hashtable := []\<rparr>\<rparr>
             else e)
     }"

fun assoc_bulk_move :: "nat \<Rightarrow> default_engine \<Rightarrow> default_engine option" where
  "assoc_bulk_move 0 e = Some e"
| "assoc_bulk_move (Suc n) e =
     (if expanding (assoc e)
      then do { e \<leftarrow> assoc_move_bucket e; assoc_bulk_move n e }
      else Some e)"

text \<open>One pass of the thread under the lock, and the thread when nothing else runs.\<close>

definition assoc_maintenance_pass :: "default_engine \<Rightarrow> default_engine option" where
  "assoc_maintenance_pass e = assoc_bulk_move hash_bulk_move e"

partial_function (option) assoc_maintenance_thread :: "default_engine \<Rightarrow> default_engine option" where
  "assoc_maintenance_thread e =
     do {
       e \<leftarrow> assoc_maintenance_pass e;
       if \<not> expanding (assoc e) then Some e else assoc_maintenance_thread e
     }"

section \<open>What the table represents\<close>

text \<open>
  \<open>assoc_rep e S\<close>: the table of \<open>e\<close> holds exactly the items \<open>S\<close>. Every bucket a hash can
  select is a null-terminated chain of the items that hash there; during an expansion the
  buckets of the old table below \<open>expand_bucket\<close> are out of use. No two items share a key.
\<close>

abbreviation hn :: "default_engine \<Rightarrow> ptr \<Rightarrow> ptr" where
  "hn e \<equiv> \<lambda>x. h_next (mem e x)"

abbreviation ikey :: "default_engine \<Rightarrow> ptr \<Rightarrow> key" where
  "ikey e x \<equiv> item_get_key (mem e x)"

definition key_ok :: "hash_item \<Rightarrow> bool" where
  "key_ok it = (unat (it_nkey it) \<le> length (it_key it))"

fun table_pos :: "assoc \<Rightarrow> hashpos \<Rightarrow> bool" where
  "table_pos a (OldBucket b) =
     (expanding a \<and> unat (expand_bucket a) \<le> b \<and> b < 2 ^ (hashpower a - 1))"
| "table_pos a (PrimaryBucket b) = (b < 2 ^ hashpower a)"
| "table_pos a (HNext p) = False"

definition assoc_ok :: "assoc \<Rightarrow> bool" where
  "assoc_ok a = (1 \<le> hashpower a \<and> hashpower a \<le> 31
     \<and> length (primary_hashtable a) = 2 ^ hashpower a
     \<and> (expanding a \<longrightarrow> length (old_hashtable a) = 2 ^ (hashpower a - 1)
                        \<and> unat (expand_bucket a) < 2 ^ (hashpower a - 1)))"

definition bucket_holds :: "default_engine \<Rightarrow> hashpos \<Rightarrow> ptr set \<Rightarrow> bool" where
  "bucket_holds e pos X = (\<exists>p xs. load_pos e pos = Some p \<and> chain (hn e) p xs \<and> set xs = X)"

abbreviation item_pos :: "default_engine \<Rightarrow> ptr \<Rightarrow> hashpos" where
  "item_pos e x \<equiv> bucket_pos (assoc e) (hash_of e x)"

definition assoc_rep :: "default_engine \<Rightarrow> ptr set \<Rightarrow> bool" where
  "assoc_rep e S \<longleftrightarrow> assoc_ok (assoc e) \<and> finite S \<and> inj_on (ikey e) S
     \<and> (\<forall>x\<in>S. key_ok (mem e x))
     \<and> hash_items (assoc e) = of_nat (card S)
     \<and> (\<forall>pos. table_pos (assoc e) pos \<longrightarrow> bucket_holds e pos {x \<in> S. item_pos e x = pos})"

lemma unat_hashsize: "n < 32 \<Longrightarrow> unat (hashsize n) = 2 ^ n"
  unfolding hashsize_def by (rule unat_push_bit_one) simp

lemma unat_hashmask: "n < 32 \<Longrightarrow> unat (h AND hashmask n) = unat h mod 2 ^ n"
  unfolding hashmask_def hashsize_def by (rule unat_and_pow2_mask) simp

lemma bucket_pos_alt:
  assumes "assoc_ok a"
  shows "bucket_pos a h =
    (if expanding a \<and> unat (expand_bucket a) \<le> unat h mod 2 ^ (hashpower a - 1)
     then OldBucket (unat h mod 2 ^ (hashpower a - 1))
     else PrimaryBucket (unat h mod 2 ^ hashpower a))"
proof -
  have "hashpower a < 32" "hashpower a - 1 < 32" using assms by (auto simp: assoc_ok_def)
  then show ?thesis
    by (simp add: bucket_pos_def unat_hashmask word_le_nat_alt)
qed

lemma table_pos_bucket_pos [simp]: "assoc_ok a \<Longrightarrow> table_pos a (bucket_pos a h)"
  by (simp add: bucket_pos_alt)

lemma load_table_pos:
  "assoc_ok (assoc e) \<Longrightarrow> table_pos (assoc e) pos \<Longrightarrow> \<exists>p. load_pos e pos = Some p"
  by (cases pos) (auto simp: assoc_ok_def)

lemma assoc_repD:
  assumes "assoc_rep e S"
  shows "assoc_ok (assoc e)" "finite S" "inj_on (ikey e) S" "x \<in> S \<Longrightarrow> key_ok (mem e x)"
    "hash_items (assoc e) = of_nat (card S)"
    "table_pos (assoc e) pos \<Longrightarrow> bucket_holds e pos {x \<in> S. item_pos e x = pos}"
  using assms by (auto simp: assoc_rep_def)

lemma bucket_holds_not_NULL: "bucket_holds e pos X \<Longrightarrow> NULL \<notin> X"
  by (auto simp: bucket_holds_def dest: seg_not_NULL)

lemma assoc_rep_not_NULL: "assoc_rep e S \<Longrightarrow> NULL \<notin> S"
  using bucket_holds_not_NULL assoc_repD(6) [OF _ table_pos_bucket_pos] assoc_repD(1)
  by (metis (mono_tags, lifting) mem_Collect_eq)

lemma key_matches_iff: "key_ok it \<Longrightarrow> key_matches k it \<longleftrightarrow> k = item_get_key it"
  by (auto simp: key_matches_def key_ok_def item_get_key_def)

section \<open>Finding\<close>

lemma assoc_find_loop_chain:
  "chain (\<lambda>x. h_next (m x)) p xs \<Longrightarrow>
   assoc_find_loop m k p =
     Some (case find (\<lambda>x. key_matches k (m x)) xs of None \<Rightarrow> NULL | Some x \<Rightarrow> x)"
  by (induction xs arbitrary: p) (auto simp: assoc_find_loop.simps)

lemma bucket_items:
  assumes "assoc_rep e S"
  obtains p xs where "load_pos e (bucket_pos (assoc e) h) = Some p" "chain (hn e) p xs"
    "set xs = {x \<in> S. item_pos e x = bucket_pos (assoc e) h}"
  using assoc_repD(6) [OF assms] assoc_repD(1) [OF assms] unfolding bucket_holds_def
  by (metis table_pos_bucket_pos)

lemma find_unique:
  assumes "\<And>x. x \<in> set xs \<Longrightarrow> P x \<longleftrightarrow> x = y"
  shows "find P xs = (if y \<in> set xs then Some y else None)"
  using assms by (induction xs) auto

lemma assoc_find_present:
  assumes rep: "assoc_rep e S" and x: "x \<in> S"
  shows "assoc_find e (hash_of e x) (ikey e x) = Some x"
proof -
  obtain p xs where p: "load_pos e (item_pos e x) = Some p" "chain (hn e) p xs"
    and xs: "set xs = {y \<in> S. item_pos e y = item_pos e x}"
    using bucket_items [OF rep] .
  have "find (\<lambda>y. key_matches (ikey e x) (mem e y)) xs = Some x"
  proof (subst find_unique [where y = x])
    fix y assume "y \<in> set xs"
    with xs have y: "y \<in> S" by auto
    then show "key_matches (ikey e x) (mem e y) \<longleftrightarrow> y = x"
      using assoc_repD(3,4) [OF rep] x by (auto simp: key_matches_iff dest: inj_onD)
  qed (use xs x in auto)
  with p show ?thesis
    by (simp add: assoc_find_def assoc_find_loop_chain)
qed

lemma assoc_find_absent:
  assumes rep: "assoc_rep e S" and k: "\<forall>x\<in>S. ikey e x \<noteq> k"
  shows "assoc_find e h k = Some NULL"
proof -
  obtain p xs where p: "load_pos e (bucket_pos (assoc e) h) = Some p" "chain (hn e) p xs"
    and xs: "set xs = {y \<in> S. item_pos e y = bucket_pos (assoc e) h}"
    using bucket_items [OF rep] .
  have "find (\<lambda>y. key_matches k (mem e y)) xs = None"
    using xs k assoc_repD(4) [OF rep] by (auto simp: find_None_iff key_matches_iff)
  with p show ?thesis
    by (simp add: assoc_find_def assoc_find_loop_chain)
qed

section \<open>Frames\<close>

text \<open>
  What the table operations may change: the table itself, the \<^verbatim>\<open>h_next\<close> links and the
  number of library calls made.
\<close>

definition same_but_h :: "item_mem \<Rightarrow> item_mem \<Rightarrow> bool" where
  "same_but_h m m' = (\<forall>x. (m' x)\<lparr>h_next := NULL\<rparr> = (m x)\<lparr>h_next := NULL\<rparr>)"

definition assoc_frame :: "default_engine \<Rightarrow> default_engine \<Rightarrow> bool" where
  "assoc_frame e e' = (srv e' = srv e \<and> slabs e' = slabs e \<and> items e' = items e
     \<and> config e' = config e \<and> stats e' = stats e \<and> scrubber e' = scrubber e
     \<and> cas_id e' = cas_id e \<and> same_but_h (mem e) (mem e')
     \<and> os_malloc (os e') = os_malloc (os e) \<and> os_ok (os e') = os_ok (os e)
     \<and> os_tick (os e) \<le> os_tick (os e')
     \<and> initialized e' = initialized e \<and> tap_clients e' = tap_clients e
     \<and> vbucket_infos e' = vbucket_infos e \<and> num_features e' = num_features e)"

definition same_shape :: "assoc \<Rightarrow> assoc \<Rightarrow> bool" where
  "same_shape a a' = (hashpower a' = hashpower a \<and> expanding a' = expanding a
     \<and> expand_bucket a' = expand_bucket a
     \<and> length (primary_hashtable a') = length (primary_hashtable a)
     \<and> length (old_hashtable a') = length (old_hashtable a))"

lemma same_but_h_fields:
  assumes "same_but_h m m'"
  shows "it_next (m' x) = it_next (m x)" "it_prev (m' x) = it_prev (m x)"
    "it_time (m' x) = it_time (m x)" "it_exptime (m' x) = it_exptime (m x)"
    "it_nbytes (m' x) = it_nbytes (m x)" "it_flags (m' x) = it_flags (m x)"
    "it_nkey (m' x) = it_nkey (m x)" "it_iflag (m' x) = it_iflag (m x)"
    "it_refcount (m' x) = it_refcount (m x)" "it_clsid (m' x) = it_clsid (m x)"
    "it_cas (m' x) = it_cas (m x)" "it_key (m' x) = it_key (m x)" "it_data (m' x) = it_data (m x)"
proof -
  have eq: "(m' x)\<lparr>h_next := NULL\<rparr> = (m x)\<lparr>h_next := NULL\<rparr>"
    using assms by (simp add: same_but_h_def)
  show "it_next (m' x) = it_next (m x)" "it_prev (m' x) = it_prev (m x)"
    "it_time (m' x) = it_time (m x)" "it_exptime (m' x) = it_exptime (m x)"
    "it_nbytes (m' x) = it_nbytes (m x)" "it_flags (m' x) = it_flags (m x)"
    "it_nkey (m' x) = it_nkey (m x)" "it_iflag (m' x) = it_iflag (m x)"
    "it_refcount (m' x) = it_refcount (m x)" "it_clsid (m' x) = it_clsid (m x)"
    "it_cas (m' x) = it_cas (m x)" "it_key (m' x) = it_key (m x)" "it_data (m' x) = it_data (m x)"
    using arg_cong [OF eq, of it_next] arg_cong [OF eq, of it_prev]
      arg_cong [OF eq, of it_time] arg_cong [OF eq, of it_exptime]
      arg_cong [OF eq, of it_nbytes] arg_cong [OF eq, of it_flags]
      arg_cong [OF eq, of it_nkey] arg_cong [OF eq, of it_iflag]
      arg_cong [OF eq, of it_refcount] arg_cong [OF eq, of it_clsid]
      arg_cong [OF eq, of it_cas] arg_cong [OF eq, of it_key] arg_cong [OF eq, of it_data]
    by simp_all
qed

lemma same_but_h_refl [simp]: "same_but_h m m"
  by (simp add: same_but_h_def)

lemma same_but_h_trans: "same_but_h m m' \<Longrightarrow> same_but_h m' m'' \<Longrightarrow> same_but_h m m''"
  by (simp add: same_but_h_def)

lemma same_but_h_upd [simp]: "same_but_h m (m(x := (m x)\<lparr>h_next := v\<rparr>))"
  by (simp add: same_but_h_def)

lemma assoc_frame_refl [simp]: "assoc_frame e e"
  by (simp add: assoc_frame_def)

lemma assoc_frame_trans [trans]:
  "assoc_frame e e' \<Longrightarrow> assoc_frame e' e'' \<Longrightarrow> assoc_frame e e''"
  by (auto simp: assoc_frame_def intro: same_but_h_trans)

lemma assoc_frame_assoc [simp]: "assoc_frame e (e\<lparr>assoc := a\<rparr>)"
  by (simp add: assoc_frame_def)

lemma assoc_frame_hnext [simp]: "assoc_frame e (upd_item x (\<lambda>i. i\<lparr>h_next := v\<rparr>) e)"
  by (simp add: assoc_frame_def upd_item_def)

lemma assoc_frame_os_call [simp]: "assoc_frame e (snd (os_call e))"
  by (simp add: assoc_frame_def os_call_def)

lemma assoc_frameD [frame_simps]:
  assumes "assoc_frame e e'"
  shows "srv e' = srv e" "slabs e' = slabs e" "items e' = items e" "config e' = config e"
    "stats e' = stats e" "scrubber e' = scrubber e" "cas_id e' = cas_id e"
    "same_but_h (mem e) (mem e')"
    "os_malloc (os e') = os_malloc (os e)" "os_ok (os e') = os_ok (os e)"
    "initialized e' = initialized e" "tap_clients e' = tap_clients e"
    "vbucket_infos e' = vbucket_infos e" "num_features e' = num_features e"
    "os_tick (os e) \<le> os_tick (os e')"
  using assms by (auto simp: assoc_frame_def)

lemma assoc_frame_keys [frame_simps]:
  assumes "assoc_frame e e'"
  shows "ikey e' x = ikey e x" "key_ok (mem e' x) = key_ok (mem e x)" "hash_of e' x = hash_of e x"
  using same_but_h_fields [OF assoc_frameD(8) [OF assms], of x] assoc_frameD(1) [OF assms]
  by (simp_all add: item_get_key_def key_ok_def hash_of_def)

lemma same_shape_simps:
  assumes "same_shape a a'"
  shows "assoc_ok a' = assoc_ok a" "bucket_pos a' h = bucket_pos a h"
    "table_pos a' pos = table_pos a pos"
  using assms by (simp_all add: same_shape_def assoc_ok_def bucket_pos_def)
    (cases pos; simp)

lemma same_shape_refl [simp]: "same_shape a a"
  by (simp add: same_shape_def)

lemma same_shape_trans: "same_shape a a' \<Longrightarrow> same_shape a' a'' \<Longrightarrow> same_shape a a''"
  by (simp add: same_shape_def)

lemma bucket_holds_frame:
  assumes "bucket_holds e pos X" "load_pos e' pos = load_pos e pos"
    and "\<And>x. x \<in> X \<Longrightarrow> hn e' x = hn e x"
  shows "bucket_holds e' pos X"
  using assms seg_cong [of _ "hn e'" "hn e"] unfolding bucket_holds_def by metis

lemma hn_upd_item [simp]: "hn (upd_item x (\<lambda>i. i\<lparr>h_next := v\<rparr>) e) = (hn e)(x := v)"
  by (auto simp: upd_item_def)

lemma load_pos_upd_item [simp]:
  "table_pos a pos \<Longrightarrow> load_pos (upd_item x f e) pos = load_pos e pos"
  by (cases pos) (auto simp: upd_item_def)

lemma upd_item_assoc [simp]: "assoc (upd_item x f e) = assoc e"
  by (simp add: upd_item_def)

lemma store_table_pos:
  assumes "assoc_ok (assoc e)" "table_pos (assoc e) pos"
  obtains e' where "store_pos pos v e = Some e'" "assoc_frame e e'" "mem e' = mem e"
    "same_shape (assoc e) (assoc e')" "hash_items (assoc e') = hash_items (assoc e)"
    "os e' = os e"
    "\<And>pos'. table_pos (assoc e) pos' \<Longrightarrow>
       load_pos e' pos' = (if pos' = pos then Some v else load_pos e pos')"
proof (cases pos)
  case (OldBucket b)
  let ?e = "e\<lparr>assoc := (assoc e)\<lparr>old_hashtable := (old_hashtable (assoc e))[b := v]\<rparr>\<rparr>"
  have "load_pos ?e pos' = (if pos' = pos then Some v else load_pos e pos')"
    if "table_pos (assoc e) pos'" for pos'
    using that assms OldBucket by (cases pos') (auto simp: assoc_ok_def arr_get_def)
  then show thesis using assms OldBucket
    by (intro that [of ?e]) (auto simp: assoc_ok_def same_shape_def)
next
  case (PrimaryBucket b)
  let ?e = "e\<lparr>assoc := (assoc e)\<lparr>primary_hashtable := (primary_hashtable (assoc e))[b := v]\<rparr>\<rparr>"
  have "load_pos ?e pos' = (if pos' = pos then Some v else load_pos e pos')"
    if "table_pos (assoc e) pos'" for pos'
    using that assms PrimaryBucket by (cases pos') (auto simp: assoc_ok_def arr_get_def)
  then show thesis using assms PrimaryBucket
    by (intro that [of ?e]) (auto simp: assoc_ok_def same_shape_def)
qed (use assms in simp)

section \<open>Inserting\<close>

text \<open>Pushing an item on the front of a bucket.\<close>

lemma push_front:
  assumes ok: "assoc_ok (assoc e)" "table_pos (assoc e) pos" and it: "it \<noteq> NULL"
    and first: "load_pos e pos = Some first"
  obtains e' where "store_pos pos it (upd_item it (\<lambda>i. i\<lparr>h_next := first\<rparr>) e) = Some e'"
    "assoc_frame e e'" "same_shape (assoc e) (assoc e')"
    "hash_items (assoc e') = hash_items (assoc e)" "os e' = os e"
    "hn e' = (hn e)(it := first)"
    "\<And>pos' X. table_pos (assoc e) pos' \<Longrightarrow> it \<notin> X \<Longrightarrow> bucket_holds e pos' X \<Longrightarrow>
       bucket_holds e' pos' (if pos' = pos then insert it X else X)"
proof -
  let ?e1 = "upd_item it (\<lambda>i. i\<lparr>h_next := first\<rparr>) e"
  obtain e' where st: "store_pos pos it ?e1 = Some e'" "assoc_frame ?e1 e'" "mem e' = mem ?e1"
    "same_shape (assoc ?e1) (assoc e')" "hash_items (assoc e') = hash_items (assoc ?e1)"
    "os e' = os ?e1"
    and ld: "\<And>pos'. table_pos (assoc ?e1) pos' \<Longrightarrow>
       load_pos e' pos' = (if pos' = pos then Some it else load_pos ?e1 pos')"
    using store_table_pos [of ?e1 pos it] ok by (metis upd_item_assoc)
  have hn: "hn e' = (hn e)(it := first)"
    using st(3) hn_upd_item [of it first e] by simp
  have "bucket_holds e' pos' (if pos' = pos then insert it X else X)"
    if pos': "table_pos (assoc e) pos'" and X: "it \<notin> X" "bucket_holds e pos' X" for pos' X
  proof -
    obtain p xs where p: "load_pos e pos' = Some p" "chain (hn e) p xs" "set xs = X"
      using X(2) by (auto simp: bucket_holds_def)
    then have "chain (hn e') p xs" using X(1) by (simp add: hn)
    moreover have "load_pos e' pos' = (if pos' = pos then Some it else load_pos e pos')"
      using ld pos' load_pos_upd_item by simp
    ultimately show ?thesis
      using p first it unfolding bucket_holds_def hn
      by (cases "pos' = pos")
         (simp, rule exI [of _ "it # xs"], simp, rule exI [of _ p], rule exI [of _ xs], simp)
  qed
  moreover have "os ?e1 = os e" by (simp add: upd_item_def)
  ultimately show thesis
    using that st hn assoc_frame_trans [OF assoc_frame_hnext st(2)] by simp
qed

lemma assoc_expand_frame: "assoc_frame e (assoc_expand e)"
  unfolding assoc_expand_def assoc_frame_def os_call_def Let_def
  by simp

lemma assoc_expand_rep:
  assumes rep: "assoc_rep e S" and not_exp: "\<not> expanding (assoc e)" and hp: "hashpower (assoc e) < 31"
  shows "assoc_rep (assoc_expand e) S"
proof -
  let ?a = "assoc e" and ?e' = "assoc_expand e"
  let ?a' = "assoc ?e'"
  note ok = assoc_repD(1) [OF rep]
  have frame: "assoc_frame e ?e'" by (rule assoc_expand_frame)
  note [simp] = assoc_frame_keys [OF frame]
  have mem [simp]: "mem ?e' = mem e"
    by (simp add: assoc_expand_def os_call_def Let_def)
  have hi: "hash_items ?a' = hash_items ?a"
    by (simp add: assoc_expand_def os_call_def Let_def)
  have pos: "item_pos e x = PrimaryBucket (unat (hash_of e x) mod 2 ^ hashpower ?a)" for x
    using not_exp by (simp add: bucket_pos_alt [OF ok])
  consider (grown) "?a' = ?a\<lparr>old_hashtable := primary_hashtable ?a,
        primary_hashtable := replicate (2 ^ Suc (hashpower ?a)) NULL,
        hashpower := Suc (hashpower ?a), expanding := True, expand_bucket := 0\<rparr>"
    | (kept) b where "?a' = ?a\<lparr>old_hashtable := primary_hashtable ?a, expand_bucket := b\<rparr>"
  proof (cases "os_ok (os e) (os_tick (os e))")
    case True
    then show thesis
      using that(1) that(2) [of 0] hp not_exp
      by (cases "os_ok (os e) (Suc (os_tick (os e)))")
         (simp_all add: assoc_expand_def os_call_def unat_hashsize)
  next
    case False
    then show thesis
      using that(2) [of "expand_bucket ?a"] by (simp add: assoc_expand_def os_call_def)
  qed
  then have "assoc_ok ?a' \<and>
    (\<forall>pos. table_pos ?a' pos \<longrightarrow> bucket_holds ?e' pos {x \<in> S. item_pos ?e' x = pos})"
  proof cases
    case grown
    have ok': "assoc_ok ?a'" using ok hp by (simp add: grown assoc_ok_def)
    have pos': "item_pos ?e' x = OldBucket (unat (hash_of e x) mod 2 ^ hashpower ?a)" for x
      by (simp add: bucket_pos_alt [OF ok']) (simp add: grown)
    have "bucket_holds ?e' q {x \<in> S. item_pos ?e' x = q}" if "table_pos ?a' q" for q
    proof (cases q)
      case (OldBucket b)
      with that have "table_pos ?a (PrimaryBucket b)" by (simp add: grown)
      then have "bucket_holds e (PrimaryBucket b) {x \<in> S. item_pos e x = PrimaryBucket b}"
        by (rule assoc_repD(6) [OF rep])
      then show ?thesis
        unfolding bucket_holds_def pos' pos OldBucket by (simp add: grown)
    next
      case (PrimaryBucket b)
      with that show ?thesis
        unfolding bucket_holds_def pos' by (simp add: grown arr_get_def)
    qed (use that in simp)
    with ok' show ?thesis by blast
  next
    case kept
    have same: "bucket_pos ?a' h = bucket_pos ?a h" "table_pos ?a' q = table_pos ?a q" for h q
      using not_exp by (simp_all add: kept bucket_pos_def) (cases q; simp add: kept)
    have "load_pos ?e' q = load_pos e q" if "table_pos ?a q" for q
      using that not_exp by (cases q) (simp_all add: kept)
    then have "bucket_holds ?e' q {x \<in> S. item_pos ?e' x = q}" if "table_pos ?a q" for q
      using bucket_holds_frame [OF assoc_repD(6) [OF rep that], of ?e'] that by (simp add: same)
    moreover have "assoc_ok ?a'" using ok not_exp by (simp add: kept assoc_ok_def)
    ultimately show ?thesis by (simp add: same)
  qed
  then show ?thesis
    using rep hi by (auto simp: assoc_rep_def)
qed

lemma assoc_rep_insert_core:
  assumes rep: "assoc_rep e S" and it: "it \<noteq> NULL" "it \<notin> S" "key_ok (mem e it)"
    and fresh: "\<forall>x\<in>S. ikey e x \<noteq> ikey e it"
    and frame: "assoc_frame e e'" and shape: "same_shape (assoc e) (assoc e')"
    and items: "hash_items (assoc e') = hash_items (assoc e) + 1"
    and holds: "\<And>pos X. table_pos (assoc e) pos \<Longrightarrow> it \<notin> X \<Longrightarrow> bucket_holds e pos X \<Longrightarrow>
       bucket_holds e' pos (if pos = item_pos e it then insert it X else X)"
  shows "assoc_rep e' (insert it S)"
proof -
  note [simp] = assoc_frame_keys [OF frame] same_shape_simps [OF shape]
  have "bucket_holds e' pos {x \<in> insert it S. item_pos e' x = pos}"
    if "table_pos (assoc e) pos" for pos
  proof -
    have "{x \<in> insert it S. item_pos e' x = pos} =
        (if pos = item_pos e it then insert it {x \<in> S. item_pos e x = pos}
         else {x \<in> S. item_pos e x = pos})"
      by auto
    then show ?thesis
      using holds [OF that _ assoc_repD(6) [OF rep that]] it(2) by simp
  qed
  moreover have "inj_on (ikey e') (insert it S)"
    using assoc_repD(3) [OF rep] fresh it(2) by (auto simp: inj_on_def)
  moreover have "of_nat (card (insert it S)) = (of_nat (card S) + 1 :: u32)"
    using assoc_repD(2) [OF rep] it(2) by simp
  ultimately show ?thesis
    using rep it(3) items unfolding assoc_rep_def by (simp add: add.commute)
qed

text \<open>The table never grows beyond \<open>2 ^ 30\<close> buckets while it holds at most \<open>2 ^ 30\<close> items.\<close>

lemma hashpower_assoc_expand: "hashpower (assoc (assoc_expand e)) \<le> Suc (hashpower (assoc e))"
  by (simp add: assoc_expand_def os_call_def Let_def)

lemma no_growth_at_30:
  assumes "assoc_rep e S" "card S \<le> 2 ^ 30" "hashpower (assoc e) = 30"
  shows "\<not> hash_items (assoc e) > (hashsize (hashpower (assoc e)) * 3) div 2"
proof -
  have "(hashsize 30 * 3) div 2 = (0x60000000 :: u32)"
    by (simp add: hashsize_def push_bit_eq_mult)
  moreover have "hash_items (assoc e) \<le> 0x40000000"
    using assms(2) by (simp add: assoc_repD(5) [OF assms(1)] word_le_nat_alt unat_of_nat)
  ultimately show ?thesis
    using order.trans [of _ "0x40000000 :: u32" "0x60000000"] by (simp add: assms(3) not_less)
qed

text \<open>
  An insertion under a fresh key succeeds, whatever the library calls answer, and adds exactly
  the new item.
\<close>

lemma assoc_insert_rep:
  assumes rep: "assoc_rep e S" and it: "it \<noteq> NULL" "it \<notin> S" "key_ok (mem e it)"
    and fresh: "\<forall>x\<in>S. ikey e x \<noteq> ikey e it" and hp: "hashpower (assoc e) < 31"
  obtains e' where "assoc_insert e (hash_of e it) it = Some e'" "assoc_rep e' (insert it S)"
    "assoc_frame e e'" "card S < 2 ^ 30 \<Longrightarrow> hashpower (assoc e') < 31"
proof -
  note ok = assoc_repD(1) [OF rep]
  obtain first where first: "load_pos e (item_pos e it) = Some first"
    using load_table_pos [OF ok table_pos_bucket_pos [OF ok]] by auto
  obtain e1 where e1: "store_pos (item_pos e it) it (upd_item it (\<lambda>i. i\<lparr>h_next := first\<rparr>) e) = Some e1"
    and fr1: "assoc_frame e e1" and sh1: "same_shape (assoc e) (assoc e1)"
    and hi1: "hash_items (assoc e1) = hash_items (assoc e)"
    and holds: "\<And>pos X. table_pos (assoc e) pos \<Longrightarrow> it \<notin> X \<Longrightarrow> bucket_holds e pos X \<Longrightarrow>
       bucket_holds e1 pos (if pos = item_pos e it then insert it X else X)"
    using push_front [OF ok table_pos_bucket_pos [OF ok] it(1) first] by metis
  define e2 where "e2 = e1\<lparr>assoc := (assoc e1)\<lparr>hash_items := hash_items (assoc e1) + 1\<rparr>\<rparr>"
  have fr2: "assoc_frame e e2"
    unfolding e2_def by (rule assoc_frame_trans [OF fr1 assoc_frame_assoc])
  have sh2: "same_shape (assoc e) (assoc e2)"
    using sh1 by (simp add: e2_def same_shape_def)
  have holds2: "bucket_holds e1 pos X \<Longrightarrow> table_pos (assoc e) pos \<Longrightarrow> bucket_holds e2 pos X" for pos X
    by (rule bucket_holds_frame) (cases pos; simp add: e2_def)+
  have rep2: "assoc_rep e2 (insert it S)"
    using holds2 [OF holds] by (rule_tac assoc_rep_insert_core [OF rep it fresh fr2 sh2])
       (simp add: e2_def hi1, blast)
  define grow where "grow = (\<not> expanding (assoc e2)
      \<and> hash_items (assoc e2) > (hashsize (hashpower (assoc e2)) * 3) div 2)"
  have "assoc_insert e (hash_of e it) it = Some (if grow then assoc_expand e2 else e2)"
    using assoc_find_absent [OF rep fresh, of "hash_of e it"] first e1
    by (simp add: assoc_insert_def e2_def grow_def Let_def)
  moreover have "hashpower (assoc e2) < 31" using hp sh2 by (simp add: same_shape_def)
  then have "assoc_rep (if grow then assoc_expand e2 else e2) (insert it S)"
    using rep2 by (simp add: grow_def assoc_expand_rep)
  moreover have "assoc_frame e (if grow then assoc_expand e2 else e2)"
    using assoc_frame_trans [OF fr2 assoc_expand_frame] fr2 by simp
  moreover have "hashpower (assoc (if grow then assoc_expand e2 else e2)) < 31" if "card S < 2 ^ 30"
    using no_growth_at_30 [OF rep2] that hp sh2 it(2) assoc_repD(2) [OF rep]
      hashpower_assoc_expand [of e2]
    by (cases "hashpower (assoc e2) = 30") (auto simp: grow_def same_shape_def)
  ultimately show thesis by (rule that)
qed

text \<open>The duplicate check of \<^verbatim>\<open>assoc_insert\<close> is an \<^verbatim>\<open>assert\<close>.\<close>

lemma assoc_insert_duplicate:
  assumes rep: "assoc_rep e S" and x: "x \<in> S" "ikey e x = ikey e it"
  shows "assoc_insert e (hash_of e it) it = None"
proof -
  have "hash_of e it = hash_of e x" using x(2) by (simp add: hash_of_def)
  moreover have "x \<noteq> NULL" using x(1) assoc_rep_not_NULL [OF rep] by metis
  ultimately show ?thesis
    using assoc_find_present [OF rep x(1)] x(2) by (simp add: assoc_insert_def)
qed

section \<open>Deleting\<close>

lemma hashitem_before_chain:
  assumes "load_pos e pos = Some p" "chain (hn e) p (ys @ x # zs)"
    and "key_matches k (mem e x)" "\<And>y. y \<in> set ys \<Longrightarrow> \<not> key_matches k (mem e y)"
  shows "hashitem_before_loop e k pos = Some (if ys = [] then pos else HNext (last ys))"
  using assms
proof (induction ys arbitrary: pos p)
  case Nil
  then show ?case by (simp add: hashitem_before_loop.simps)
next
  case (Cons y ys)
  from Cons.prems have p: "p = y" "y \<noteq> NULL" "chain (hn e) (hn e y) (ys @ x # zs)"
    by auto
  have "hashitem_before_loop e k (HNext y) = Some (if ys = [] then HNext y else HNext (last ys))"
    by (rule Cons.IH [of _ "hn e y"]) (use p Cons.prems in \<open>auto simp: deref_def\<close>)
  then show ?case
    using Cons.prems p by (subst hashitem_before_loop.simps) simp
qed

lemma hashitem_before_absent:
  assumes "load_pos e pos = Some p" "chain (hn e) p xs"
    and "\<And>y. y \<in> set xs \<Longrightarrow> \<not> key_matches k (mem e y)"
  shows "\<exists>pos'. hashitem_before_loop e k pos = Some pos' \<and> load_pos e pos' = Some NULL"
  using assms
proof (induction xs arbitrary: pos p)
  case Nil
  then show ?case by (simp add: hashitem_before_loop.simps)
next
  case (Cons y ys)
  then have p: "p = y" "y \<noteq> NULL" "chain (hn e) (hn e y) ys" by auto
  have "\<exists>pos'. hashitem_before_loop e k (HNext y) = Some pos' \<and> load_pos e pos' = Some NULL"
    by (rule Cons.IH [of _ "hn e y"]) (use p Cons.prems in \<open>auto simp: deref_def\<close>)
  then show ?case
    using Cons.prems p by (subst hashitem_before_loop.simps) simp
qed

lemma chain_unlink_first:
  "chain nx p (x # zs) \<Longrightarrow> chain (nx(x := NULL)) (nx x) zs"
  using chain_distinct [of nx p "x # zs"] by auto

lemma chain_unlink_middle:
  assumes "chain nx p (ys @ x # zs)" "ys \<noteq> []"
  shows "chain (nx(x := NULL, last ys := nx x)) p (ys @ zs)"
proof -
  obtain us u where ys: "ys = us @ [u]" using assms(2) by (metis rev_exhaust)
  have d: "distinct (ys @ x # zs)" by (rule chain_distinct [OF assms(1)])
  then show ?thesis
    using assms(1) by (auto simp: ys seg_append)
qed

text \<open>Writing the successor of \<open>x\<close> over the pointer to \<open>x\<close> takes \<open>x\<close> out of its chain.\<close>

lemma store_before:
  assumes ok: "assoc_ok (assoc e)" "table_pos (assoc e) pos"
    and ld: "load_pos e pos = Some p" and ch: "chain (hn e) p (ys @ x # zs)"
  obtains e' where
    "store_pos (if ys = [] then pos else HNext (last ys)) (hn e x)
       (upd_item x (\<lambda>i. i\<lparr>h_next := NULL\<rparr>) e) = Some e'"
    "assoc_frame e e'" "same_shape (assoc e) (assoc e')" "os e' = os e"
    "hash_items (assoc e') = hash_items (assoc e)"
    "bucket_holds e' pos (set ys \<union> set zs)"
    "\<And>q. table_pos (assoc e) q \<Longrightarrow> q \<noteq> pos \<Longrightarrow> load_pos e' q = load_pos e q"
    "\<And>y. y \<notin> set (ys @ x # zs) \<Longrightarrow> hn e' y = hn e y"
proof (cases "ys = []")
  case True
  let ?e1 = "upd_item x (\<lambda>i. i\<lparr>h_next := NULL\<rparr>) e"
  obtain e' where st: "store_pos pos (hn e x) ?e1 = Some e'" "assoc_frame ?e1 e'"
    "mem e' = mem ?e1" "same_shape (assoc ?e1) (assoc e')"
    "hash_items (assoc e') = hash_items (assoc ?e1)" "os e' = os ?e1"
    and ld': "\<And>q. table_pos (assoc ?e1) q \<Longrightarrow>
       load_pos e' q = (if q = pos then Some (hn e x) else load_pos ?e1 q)"
    using store_table_pos [of ?e1 pos "hn e x"] ok by (metis upd_item_assoc)
  have hn: "hn e' = (hn e)(x := NULL)" using st(3) hn_upd_item [of x NULL e] by simp
  have "chain (hn e') (hn e x) zs"
    using chain_unlink_first [of "hn e" p x zs] ch True by (simp add: hn)
  then have "bucket_holds e' pos (set ys \<union> set zs)"
    using ld' ok(2) True unfolding bucket_holds_def by auto
  moreover have "load_pos e' q = load_pos e q" if "table_pos (assoc e) q" "q \<noteq> pos" for q
    using ld' that by simp
  moreover have "os ?e1 = os e" by (simp add: upd_item_def)
  moreover have "hn e' y = hn e y" if "y \<notin> set (ys @ x # zs)" for y
    using that fun_cong [OF hn, of y] by simp
  ultimately show thesis
    using st True assoc_frame_trans [OF assoc_frame_hnext st(2)] by (intro that [of e']) auto
next
  case False
  then obtain us u where ys: "ys = us @ [u]" by (metis rev_exhaust)
  let ?e1 = "upd_item x (\<lambda>i. i\<lparr>h_next := NULL\<rparr>) e"
  let ?e' = "upd_item u (\<lambda>i. i\<lparr>h_next := hn e x\<rparr>) ?e1"
  have "u \<noteq> NULL" using seg_not_NULL [OF ch] by (auto simp: ys)
  then have st: "store_pos (if ys = [] then pos else HNext (last ys)) (hn e x) ?e1 = Some ?e'"
    by (simp add: ys)
  have hn: "hn ?e' = (hn e)(x := NULL, u := hn e x)"
    by (simp only: hn_upd_item)
  have "chain (hn ?e') p (ys @ zs)"
    using chain_unlink_middle [OF ch False] by (simp only: hn) (simp add: ys)
  then have "bucket_holds ?e' pos (set ys \<union> set zs)"
    unfolding bucket_holds_def using ld ok(2) by (auto intro!: exI [of _ p] exI [of _ "ys @ zs"])
  moreover have "hn ?e' y = hn e y" if "y \<notin> set (ys @ x # zs)" for y
    using that fun_cong [OF hn, of y] by (simp add: ys)
  moreover have "os ?e' = os e" by (simp add: upd_item_def)
  ultimately show thesis
    using st assoc_frame_trans [OF assoc_frame_hnext assoc_frame_hnext]
    by (intro that [of ?e']) auto
qed

text \<open>Deleting the key of an item in the table removes exactly this item.\<close>

lemma assoc_delete_rep:
  assumes rep: "assoc_rep e S" and x: "x \<in> S"
  obtains e' where "assoc_delete e (hash_of e x) (ikey e x) = Some e'" "assoc_frame e e'"
    "assoc_rep e' (S - {x})" "same_shape (assoc e) (assoc e')" "os e' = os e"
proof -
  note ok = assoc_repD(1) [OF rep]
  let ?pos = "item_pos e x" and ?B = "{y \<in> S. item_pos e y = item_pos e x}"
  define e1 where "e1 = e\<lparr>assoc := (assoc e)\<lparr>hash_items := hash_items (assoc e) - 1\<rparr>\<rparr>"
  have sh1: "same_shape (assoc e) (assoc e1)" and fr1: "assoc_frame e e1" and hn1: "hn e1 = hn e"
    by (simp_all add: e1_def same_shape_def)
  have ld1: "load_pos e1 q = load_pos e q" for q
    by (cases q) (simp_all add: e1_def deref_def)
  obtain p xs where p: "load_pos e ?pos = Some p" "chain (hn e) p xs" and xs: "set xs = ?B"
    using bucket_items [OF rep] .
  have "x \<in> set xs" using x xs by simp
  then obtain ys zs where split: "xs = ys @ x # zs" by (metis split_list)
  note ch = p(2) [unfolded split]
  have dist: "distinct (ys @ x # zs)" by (rule chain_distinct [OF ch])
  have "key_matches (ikey e x) (mem e y) \<longleftrightarrow> y = x" if "y \<in> set xs" for y
    using that xs assoc_repD(3,4) [OF rep] x by (auto simp: key_matches_iff dest: inj_onD)
  then have before: "hashitem_before e (hash_of e x) (ikey e x) = Some (if ys = [] then ?pos else HNext (last ys))"
    unfolding hashitem_before_def
    by (intro hashitem_before_chain [OF p(1) ch]) (use dist in \<open>auto simp: split\<close>)
  have loaded: "load_pos e (if ys = [] then ?pos else HNext (last ys)) = Some x" and nn: "x \<noteq> NULL"
    using p(1) ch by (cases ys rule: rev_cases; auto simp: seg_append deref_def)+
  obtain e' where st: "store_pos (if ys = [] then ?pos else HNext (last ys)) (hn e1 x)
       (upd_item x (\<lambda>i. i\<lparr>h_next := NULL\<rparr>) e1) = Some e'"
    and fr2: "assoc_frame e1 e'" and sh2: "same_shape (assoc e1) (assoc e')" and os: "os e' = os e1"
    and hi: "hash_items (assoc e') = hash_items (assoc e1)"
    and hd: "bucket_holds e' ?pos (set ys \<union> set zs)"
    and ld: "\<And>q. table_pos (assoc e1) q \<Longrightarrow> q \<noteq> ?pos \<Longrightarrow> load_pos e' q = load_pos e1 q"
    and hn: "\<And>y. y \<notin> set (ys @ x # zs) \<Longrightarrow> hn e' y = hn e1 y"
    using store_before [of e1 ?pos p ys x zs] ok p(1) ch same_shape_simps [OF sh1]
    unfolding hn1 ld1 by (metis table_pos_bucket_pos)
  have run: "assoc_delete e (hash_of e x) (ikey e x) = Some e'"
    using before loaded st nn by (simp add: assoc_delete_def e1_def Let_def)
  have fr: "assoc_frame e e'" and sh: "same_shape (assoc e) (assoc e')"
    using assoc_frame_trans [OF fr1 fr2] same_shape_trans [OF sh1 sh2] by blast+
  note [simp] = assoc_frame_keys [OF fr] same_shape_simps [OF sh]
  have "bucket_holds e' q {y \<in> S - {x}. item_pos e' y = q}" if q: "table_pos (assoc e) q" for q
  proof (cases "q = ?pos")
    case True
    moreover have "{y \<in> S - {x}. item_pos e' y = ?pos} = set ys \<union> set zs"
      using xs dist by (auto simp: split)
    ultimately show ?thesis using hd by simp
  next
    case False
    then have "{y \<in> S - {x}. item_pos e' y = q} = {y \<in> S. item_pos e y = q}" by auto
    moreover have "bucket_holds e' q {y \<in> S. item_pos e y = q}"
    proof (rule bucket_holds_frame [OF assoc_repD(6) [OF rep q]])
      show "load_pos e' q = load_pos e q"
        using ld q False ld1 same_shape_simps [OF sh1] by simp
      show "hn e' y = hn e y" if "y \<in> {y \<in> S. item_pos e y = q}" for y
        using hn [of y] that False xs by (auto simp: split e1_def)
    qed
    ultimately show ?thesis by simp
  qed
  moreover have "hash_items (assoc e') = of_nat (card (S - {x}))"
  proof -
    have "card S = Suc (card (S - {x}))"
      using x assoc_repD(2) [OF rep] by (simp add: card_Suc_Diff1 del: card_Diff_insert)
    then show ?thesis using hi assoc_repD(5) [OF rep] by (simp add: e1_def)
  qed
  ultimately have "assoc_rep e' (S - {x})"
    using rep unfolding assoc_rep_def by (auto intro: inj_on_subset)
  with run fr sh os show thesis by (intro that [of e']) (simp_all add: e1_def)
qed

text \<open>Deleting a key that is not in the table fails the final \<^verbatim>\<open>assert\<close>.\<close>

lemma assoc_delete_absent:
  assumes rep: "assoc_rep e S" and k: "\<forall>x\<in>S. ikey e x \<noteq> k"
  shows "assoc_delete e h k = None"
proof -
  obtain p xs where p: "load_pos e (bucket_pos (assoc e) h) = Some p" "chain (hn e) p xs"
    and xs: "set xs = {y \<in> S. item_pos e y = bucket_pos (assoc e) h}"
    using bucket_items [OF rep] .
  have "\<not> key_matches k (mem e y)" if "y \<in> set xs" for y
    using that xs k assoc_repD(4) [OF rep] by (auto simp: key_matches_iff)
  then have "\<exists>pos'. hashitem_before e h k = Some pos' \<and> load_pos e pos' = Some NULL"
    unfolding hashitem_before_def by (rule hashitem_before_absent [OF p])
  then show ?thesis by (auto simp: assoc_delete_def)
qed

section \<open>The maintenance thread\<close>

lemma two_pow_pred: "0 < n \<Longrightarrow> 2 * (2::nat) ^ (n - 1) = 2 ^ n"
  by (cases n) auto

text \<open>
  While the chain of an old bucket is moved, item by item, every primary bucket holds the items
  moved so far and those it held before. \<open>T\<close> is the set of items already in the primary table.
\<close>

definition primary_slot :: "default_engine \<Rightarrow> ptr \<Rightarrow> nat" where
  "primary_slot e x = unat (hash_of e x) mod 2 ^ hashpower (assoc e)"

definition primary_holds :: "default_engine \<Rightarrow> ptr set \<Rightarrow> bool" where
  "primary_holds e T = (\<forall>b < 2 ^ hashpower (assoc e).
     bucket_holds e (PrimaryBucket b) {x \<in> T. primary_slot e x = b})"

lemma assoc_move_chain_holds:
  assumes "assoc_ok (assoc e)" "primary_holds e T" "chain (hn e) p xs" "set xs \<inter> T = {}"
  shows "\<exists>e'. assoc_move_chain p e = Some e' \<and> assoc_frame e e' \<and> same_shape (assoc e) (assoc e')
    \<and> hash_items (assoc e') = hash_items (assoc e) \<and> os e' = os e
    \<and> primary_holds e' (T \<union> set xs)
    \<and> (\<forall>b. load_pos e' (OldBucket b) = load_pos e (OldBucket b))
    \<and> (\<forall>y. y \<notin> set xs \<longrightarrow> hn e' y = hn e y)"
  using assms
proof (induction xs arbitrary: p e T)
  case Nil
  then show ?case by (simp add: assoc_move_chain.simps)
next
  case (Cons x xs)
  note ok = Cons.prems(1)
  have p: "p = x" "x \<noteq> NULL" "chain (hn e) (hn e x) xs" and xT: "x \<notin> T"
    using Cons.prems(3,4) by auto
  have dist: "x \<notin> set xs" using chain_distinct [OF Cons.prems(3)] by simp
  let ?b = "unat (hash_of e x AND hashmask (hashpower (assoc e)))"
  have b: "?b = primary_slot e x" "table_pos (assoc e) (PrimaryBucket ?b)"
    using ok by (auto simp: primary_slot_def unat_hashmask assoc_ok_def)
  obtain first where first: "load_pos e (PrimaryBucket ?b) = Some first"
    using load_table_pos [OF ok b(2)] by auto
  obtain e1 where st: "store_pos (PrimaryBucket ?b) x (upd_item x (\<lambda>i. i\<lparr>h_next := first\<rparr>) e) = Some e1"
    and fr: "assoc_frame e e1" and sh: "same_shape (assoc e) (assoc e1)"
    and hi: "hash_items (assoc e1) = hash_items (assoc e)" and os: "os e1 = os e"
    and hn: "hn e1 = (hn e)(x := first)"
    and holds: "\<And>pos X. table_pos (assoc e) pos \<Longrightarrow> x \<notin> X \<Longrightarrow> bucket_holds e pos X \<Longrightarrow>
       bucket_holds e1 pos (if pos = PrimaryBucket ?b then insert x X else X)"
    using push_front [OF ok b(2) p(2) first] by metis
  have old: "load_pos e1 (OldBucket c) = load_pos e (OldBucket c)" for c
    using st by (auto simp: arr_set_eq_Some upd_item_def)
  note [simp] = assoc_frame_keys [OF fr] same_shape_simps [OF sh]
  have hp: "hashpower (assoc e1) = hashpower (assoc e)" using sh by (simp add: same_shape_def)
  have ps: "primary_slot e1 y = primary_slot e y" for y by (simp add: primary_slot_def hp)
  have "primary_holds e1 (insert x T)"
    unfolding primary_holds_def hp ps
  proof (intro allI impI)
    fix c :: nat assume c: "c < 2 ^ hashpower (assoc e)"
    have "bucket_holds e (PrimaryBucket c) {y \<in> T. primary_slot e y = c}"
      using Cons.prems(2) c by (simp add: primary_holds_def)
    then have "bucket_holds e1 (PrimaryBucket c)
        (if c = ?b then insert x {y \<in> T. primary_slot e y = c} else {y \<in> T. primary_slot e y = c})"
      using holds [of "PrimaryBucket c" "{y \<in> T. primary_slot e y = c}"] c xT by simp
    moreover have "{y \<in> insert x T. primary_slot e y = c} =
        (if c = ?b then insert x {y \<in> T. primary_slot e y = c} else {y \<in> T. primary_slot e y = c})"
      using b(1) by auto
    ultimately show "bucket_holds e1 (PrimaryBucket c) {y \<in> insert x T. primary_slot e y = c}"
      by simp
  qed
  moreover have "chain (hn e1) (hn e x) xs" using p(3) dist by (simp add: hn)
  moreover have "set xs \<inter> insert x T = {}" using Cons.prems(4) dist by auto
  ultimately obtain e' where run: "assoc_move_chain (hn e x) e1 = Some e'"
    and fr': "assoc_frame e1 e'" and sh': "same_shape (assoc e1) (assoc e')"
    and hi': "hash_items (assoc e') = hash_items (assoc e1)" and os': "os e' = os e1"
    and ph: "primary_holds e' (insert x T \<union> set xs)"
    and old': "\<forall>b. load_pos e' (OldBucket b) = load_pos e1 (OldBucket b)"
    and hn': "\<forall>y. y \<notin> set xs \<longrightarrow> hn e' y = hn e1 y"
    using Cons.IH [of e1 "insert x T" "hn e x"] ok by auto
  have "assoc_move_chain p e = Some e'"
    using run st first p(1,2) by (subst assoc_move_chain.simps)
      (simp add: Let_def del: load_pos.simps store_pos.simps)
  moreover have "insert x T \<union> set xs = T \<union> set (x # xs)" by auto
  moreover have "\<forall>y. y \<notin> set (x # xs) \<longrightarrow> hn e' y = hn e y"
    using hn' fun_cong [OF hn] by auto
  ultimately show ?case
    using assoc_frame_trans [OF fr fr'] same_shape_trans [OF sh sh'] hi hi' os os' ph old old' by auto
qed

text \<open>The old bucket of an item; the items below \<open>expand_bucket\<close> have been moved.\<close>

definition old_slot :: "default_engine \<Rightarrow> ptr \<Rightarrow> nat" where
  "old_slot e x = unat (hash_of e x) mod 2 ^ (hashpower (assoc e) - 1)"

abbreviation moved_to :: "default_engine \<Rightarrow> nat" where
  "moved_to e \<equiv> unat (expand_bucket (assoc e))"

lemma old_slot_less: "old_slot e x < 2 ^ (hashpower (assoc e) - 1)"
  by (simp add: old_slot_def)

lemma item_pos_expanding:
  assumes "assoc_ok (assoc e)"
  shows "item_pos e x = (if expanding (assoc e) \<and> moved_to e \<le> old_slot e x
     then OldBucket (old_slot e x) else PrimaryBucket (primary_slot e x))"
  by (simp add: bucket_pos_alt [OF assms] old_slot_def primary_slot_def)

lemma primary_holds_moved:
  assumes rep: "assoc_rep e S" and ex: "expanding (assoc e)"
  shows "primary_holds e {x \<in> S. old_slot e x < moved_to e}"
  unfolding primary_holds_def
proof (intro allI impI)
  fix c :: nat assume "c < 2 ^ hashpower (assoc e)"
  then have "bucket_holds e (PrimaryBucket c) {x \<in> S. item_pos e x = PrimaryBucket c}"
    using assoc_repD(6) [OF rep, of "PrimaryBucket c"] by simp
  moreover have "{x \<in> S. item_pos e x = PrimaryBucket c} =
      {x \<in> {x \<in> S. old_slot e x < moved_to e}. primary_slot e x = c}"
    using ex by (auto simp: item_pos_expanding [OF assoc_repD(1) [OF rep]])
  ultimately show "bucket_holds e (PrimaryBucket c)
      {x \<in> {x \<in> S. old_slot e x < moved_to e}. primary_slot e x = c}" by simp
qed

lemma old_bucket_holds:
  assumes rep: "assoc_rep e S" and ex: "expanding (assoc e)"
    and c: "moved_to e \<le> c" "c < 2 ^ (hashpower (assoc e) - 1)"
  shows "bucket_holds e (OldBucket c) {x \<in> S. old_slot e x = c}"
proof -
  have "{x \<in> S. item_pos e x = OldBucket c} = {x \<in> S. old_slot e x = c}"
    using ex c by (auto simp: item_pos_expanding [OF assoc_repD(1) [OF rep]])
  then show ?thesis
    using assoc_repD(6) [OF rep, of "OldBucket c"] ex c by simp
qed

text \<open>
  Advancing \<open>expand_bucket\<close> past a bucket whose items are all in the primary table.
\<close>

lemma advance_bucket_rep:
  assumes rep: "assoc_rep e S" and ex: "expanding (assoc e)"
    and frame: "assoc_frame e e'" and ok': "assoc_ok (assoc e')"
    and hp: "hashpower (assoc e') = hashpower (assoc e)"
    and eb: "moved_to e' = Suc (moved_to e)"
    and ex': "expanding (assoc e') \<longleftrightarrow> Suc (moved_to e) < 2 ^ (hashpower (assoc e) - 1)"
    and items: "hash_items (assoc e') = hash_items (assoc e)"
    and prim: "primary_holds e' {x \<in> S. old_slot e x \<le> moved_to e}"
    and old: "\<And>c. expanding (assoc e') \<Longrightarrow> moved_to e < c \<Longrightarrow>
       load_pos e' (OldBucket c) = load_pos e (OldBucket c)"
    and links: "\<And>x. x \<in> S \<Longrightarrow> moved_to e < old_slot e x \<Longrightarrow> hn e' x = hn e x"
  shows "assoc_rep e' S"
proof -
  have slots: "old_slot e' x = old_slot e x" "primary_slot e' x = primary_slot e x" for x
    by (simp_all add: old_slot_def primary_slot_def hp assoc_frame_keys [OF frame])
  have pos': "item_pos e' x = (if moved_to e < old_slot e x then OldBucket (old_slot e x)
      else PrimaryBucket (primary_slot e x))" for x
    using old_slot_less [of e x] ex' eb unfolding item_pos_expanding [OF ok'] slots by auto
  have "bucket_holds e' q {x \<in> S. item_pos e' x = q}" if q: "table_pos (assoc e') q" for q
  proof (cases q)
    case (PrimaryBucket c)
    have "{x \<in> S. item_pos e' x = q} =
        {x \<in> {x \<in> S. old_slot e x \<le> moved_to e}. primary_slot e' x = c}"
      by (auto simp: pos' slots PrimaryBucket)
    with prim q show ?thesis by (simp add: primary_holds_def PrimaryBucket)
  next
    case (OldBucket c)
    with q eb hp have c: "moved_to e < c" "c < 2 ^ (hashpower (assoc e) - 1)" "expanding (assoc e')"
      by auto
    have "{x \<in> S. item_pos e' x = q} = {x \<in> S. old_slot e x = c}"
      using c by (auto simp: pos' OldBucket)
    moreover have "bucket_holds e' q {x \<in> S. old_slot e x = c}"
      unfolding OldBucket
      by (rule bucket_holds_frame [OF old_bucket_holds [OF rep ex]]) (use c old links in auto)
    ultimately show ?thesis by simp
  qed (use q in simp)
  then show ?thesis
    using rep ok' items unfolding assoc_rep_def by (simp add: assoc_frame_keys [OF frame])
qed

text \<open>One turn of the inner loop moves one old bucket and keeps the represented set.\<close>

lemma assoc_move_bucket_rep:
  assumes rep: "assoc_rep e S" and ex: "expanding (assoc e)"
  obtains e' where "assoc_move_bucket e = Some e'" "assoc_rep e' S" "assoc_frame e e'" "os e' = os e"
    "hashpower (assoc e') = hashpower (assoc e)"
    "expanding (assoc e') \<longleftrightarrow> Suc (moved_to e) < 2 ^ (hashpower (assoc e) - 1)"
    "moved_to e' = Suc (moved_to e)"
proof -
  note ok = assoc_repD(1) [OF rep]
  let ?n = "hashpower (assoc e)" and ?b = "moved_to e" and ?B = "{x \<in> S. old_slot e x = moved_to e}"
  have n: "?n \<le> 31" "?b < 2 ^ (?n - 1)" using ok ex by (auto simp: assoc_ok_def)
  obtain p xs where p: "load_pos e (OldBucket ?b) = Some p" "chain (hn e) p xs" and xs: "set xs = ?B"
    using old_bucket_holds [OF rep ex order.refl n(2)] unfolding bucket_holds_def by blast
  have "set xs \<inter> {x \<in> S. old_slot e x < ?b} = {}" using xs by auto
  then obtain e1 where run1: "assoc_move_chain p e = Some e1" and fr1: "assoc_frame e e1"
    and sh1: "same_shape (assoc e) (assoc e1)" and hi1: "hash_items (assoc e1) = hash_items (assoc e)"
    and os1: "os e1 = os e" and ph1: "primary_holds e1 ({x \<in> S. old_slot e x < ?b} \<union> ?B)"
    and old1: "\<And>c. load_pos e1 (OldBucket c) = load_pos e (OldBucket c)"
    and hn1: "\<And>y. y \<notin> ?B \<Longrightarrow> hn e1 y = hn e y"
    using assoc_move_chain_holds [OF ok primary_holds_moved [OF rep ex] p(2)] unfolding xs by blast
  note a1 = sh1 [unfolded same_shape_def]
  define fin where "fin = (Suc ?b = 2 ^ (?n - 1))"
  define e' where "e' = e1\<lparr>assoc := (if fin
      then (assoc e1)\<lparr>old_hashtable := [], expand_bucket := expand_bucket (assoc e1) + 1, expanding := False\<rparr>
      else (assoc e1)\<lparr>old_hashtable := (old_hashtable (assoc e1))[?b := NULL],
             expand_bucket := expand_bucket (assoc e1) + 1\<rparr>)\<rparr>"
  have "(2::nat) ^ (?n - 1) \<le> 2 ^ 31" using n(1) by (intro power_increasing) auto
  then have eb: "unat (expand_bucket (assoc e1) + 1) = Suc ?b"
    using n(2) a1 by (simp add: unat_word_ariths)
  have "expand_bucket (assoc e1) + 1 = hashsize (?n - 1) \<longleftrightarrow> fin"
    using eb n(1) by (simp add: word_unat_eq_iff unat_hashsize fin_def)
  then have run: "assoc_move_bucket e = Some e'"
    using p(1) run1 a1 n ok ex by (simp add: assoc_move_bucket_def e'_def Let_def assoc_ok_def)
  have fr: "assoc_frame e e'"
    using assoc_frame_trans [OF fr1 assoc_frame_assoc] by (simp add: e'_def)
  have a': "hashpower (assoc e') = ?n" "moved_to e' = Suc ?b" "assoc_ok (assoc e')"
    "expanding (assoc e') \<longleftrightarrow> Suc ?b < 2 ^ (?n - 1)"
    "hash_items (assoc e') = hash_items (assoc e)"
    using a1 n hi1 eb ok ex by (auto simp: e'_def fin_def assoc_ok_def)
  have "{x \<in> S. old_slot e x < ?b} \<union> ?B = {x \<in> S. old_slot e x \<le> ?b}" by auto
  then have "primary_holds e' {x \<in> S. old_slot e x \<le> ?b}"
    using ph1 unfolding primary_holds_def
    by (auto simp: e'_def bucket_holds_def primary_slot_def hash_of_def)
  moreover have "load_pos e' (OldBucket c) = load_pos e (OldBucket c)"
    if "expanding (assoc e')" "?b < c" for c
    using that old1 [of c] a'(4) by (simp add: e'_def fin_def arr_get_def split: if_splits)
  moreover have "hn e' x = hn e x" if "?b < old_slot e x" for x
    using that hn1 [of x] by (simp add: e'_def)
  ultimately have "assoc_rep e' S"
    using a' by (intro advance_bucket_rep [OF rep ex fr]) auto
  with run fr a' os1 show thesis by (intro that [of e']) (simp_all add: e'_def)
qed

lemma assoc_maintenance_pass_rep:
  assumes rep: "assoc_rep e S"
  obtains e' where "assoc_maintenance_pass e = Some e'" "assoc_rep e' S" "assoc_frame e e'" "os e' = os e"
    "expanding (assoc e) \<Longrightarrow> expanding (assoc e') \<Longrightarrow>
       hashpower (assoc e') = hashpower (assoc e) \<and> moved_to e' = Suc (moved_to e)"
    "\<not> expanding (assoc e) \<Longrightarrow> e' = e" "hashpower (assoc e') = hashpower (assoc e)"
proof (cases "expanding (assoc e)")
  case True
  obtain e' where "assoc_move_bucket e = Some e'" "assoc_rep e' S" "assoc_frame e e'" "os e' = os e"
    "hashpower (assoc e') = hashpower (assoc e)" "moved_to e' = Suc (moved_to e)"
    using assoc_move_bucket_rep [OF rep True] .
  with True show thesis
    by (intro that [of e']) (simp_all add: assoc_maintenance_pass_def hash_bulk_move_def)
next
  case False
  with rep show thesis
    by (intro that [of e]) (simp_all add: assoc_maintenance_pass_def hash_bulk_move_def)
qed

text \<open>The thread, left alone, ends, and leaves a table that is not expanding.\<close>

lemma assoc_maintenance_thread_rep:
  assumes "assoc_rep e S"
  shows "\<exists>e'. assoc_maintenance_thread e = Some e' \<and> assoc_rep e' S \<and> assoc_frame e e'
    \<and> \<not> expanding (assoc e')"
  using assms
proof (induction "2 ^ (hashpower (assoc e) - 1) - moved_to e" arbitrary: e rule: less_induct)
  case less
  obtain e1 where e1: "assoc_maintenance_pass e = Some e1" "assoc_rep e1 S" "assoc_frame e e1"
    and progress: "expanding (assoc e) \<Longrightarrow> expanding (assoc e1) \<Longrightarrow>
       hashpower (assoc e1) = hashpower (assoc e) \<and> moved_to e1 = Suc (moved_to e)"
    and idle: "\<not> expanding (assoc e) \<Longrightarrow> e1 = e"
    using assoc_maintenance_pass_rep [OF less.prems] by blast
  show ?case
  proof (cases "expanding (assoc e1)")
    case True
    with idle have ex: "expanding (assoc e)" by auto
    have "moved_to e < 2 ^ (hashpower (assoc e) - 1)"
      using assoc_repD(1) [OF less.prems] ex by (simp add: assoc_ok_def)
    then have "2 ^ (hashpower (assoc e1) - 1) - moved_to e1 < 2 ^ (hashpower (assoc e) - 1) - moved_to e"
      using progress [OF ex True] by simp
    from less.hyps [OF this e1(2)] obtain e' where "assoc_maintenance_thread e1 = Some e'"
      "assoc_rep e' S" "assoc_frame e1 e'" "\<not> expanding (assoc e')" by blast
    moreover have "assoc_frame e e'" using e1(3) \<open>assoc_frame e1 e'\<close> by (rule assoc_frame_trans)
    ultimately show ?thesis
      using e1(1) True by (subst assoc_maintenance_thread.simps) simp
  next
    case False
    with e1 show ?thesis by (subst assoc_maintenance_thread.simps) simp
  qed
qed

section \<open>The hash table is an index\<close>

definition assoc_room :: "default_engine \<Rightarrow> ptr \<Rightarrow> bool" where
  "assoc_room e it = (it \<noteq> NULL \<and> key_ok (mem e it) \<and> hashpower (assoc e) < 31)"

definition find_key :: "default_engine \<Rightarrow> key \<Rightarrow> ptr option" where
  "find_key e k = assoc_find e (srv_hash (srv e) k) k"

definition insert_item :: "default_engine \<Rightarrow> ptr \<Rightarrow> default_engine option" where
  "insert_item e it = assoc_insert e (hash_of e it) it"

definition delete_key :: "default_engine \<Rightarrow> key \<Rightarrow> default_engine option" where
  "delete_key e k = assoc_delete e (srv_hash (srv e) k) k"

lemma hash_of_ikey: "hash_of e x = srv_hash (srv e) (ikey e x)"
  by (simp add: hash_of_def)

interpretation ix: item_index assoc_rep ikey assoc_frame assoc_room find_key insert_item delete_key
proof unfold_locales
  fix e S x
  assume "assoc_rep e S" "x \<in> S"
  then show "find_key e (ikey e x) = Some x"
    using assoc_find_present by (simp add: find_key_def hash_of_ikey)
next
  fix e S it
  assume "assoc_rep e S" "assoc_room e it" "it \<notin> S" "\<forall>x\<in>S. ikey e x \<noteq> ikey e it"
  then show "\<exists>e'. insert_item e it = Some e' \<and> assoc_rep e' (insert it S) \<and> assoc_frame e e'"
    using assoc_insert_rep by (metis assoc_room_def insert_item_def)
next
  fix e S x
  assume "assoc_rep e S" "x \<in> S"
  then show "\<exists>e'. delete_key e (ikey e x) = Some e' \<and> assoc_rep e' (S - {x}) \<and> assoc_frame e e'"
    using assoc_delete_rep by (metis delete_key_def hash_of_ikey)
qed (simp_all add: assoc_rep_not_NULL assoc_repD assoc_frame_keys find_key_def assoc_find_absent)

lemma insert_item_hashpower:
  assumes "assoc_rep e S" "assoc_room e it" "it \<notin> S" "\<forall>x\<in>S. ikey e x \<noteq> ikey e it"
    "card S < 2 ^ 30" "insert_item e it = Some e'"
  shows "hashpower (assoc e') < 31"
  using assoc_insert_rep [OF assms(1) _ assms(3) _ assms(4)] assms(2,5,6)
  unfolding assoc_room_def insert_item_def by (metis option.inject)

text \<open>What \<^verbatim>\<open>assoc_init\<close> builds is the empty index.\<close>

lemma assoc_init_rep:
  assumes "assoc_init e = (ENGINE_SUCCESS, e')" "1 \<le> hashpower (assoc e)" "hashpower (assoc e) \<le> 31"
    "\<not> expanding (assoc e)" "hash_items (assoc e) = 0"
  shows "assoc_rep e' {}"
proof -
  have e': "e' = (snd (os_call e))\<lparr>assoc := (assoc e)\<lparr>primary_hashtable :=
      replicate (2 ^ hashpower (assoc e)) NULL\<rparr>\<rparr>"
    using assms by (auto simp: assoc_init_def os_call_def unat_hashsize split: if_splits)
  have "bucket_holds e' pos {}" if "table_pos (assoc e') pos" for pos
    using that assms by (cases pos) (auto simp: e' bucket_holds_def)
  then show ?thesis
    using assms by (auto simp: assoc_rep_def assoc_ok_def e')
qed

section \<open>Every interleaving\<close>

text \<open>
  The clients of the table and the maintenance thread take turns under \<^verbatim>\<open>cache_lock\<close>. The abstract
  state is a finite map from keys to items; a client inserts an item under a key the map does not
  have, or deletes a key the map has; the thread makes a pass.
\<close>

inductive table_step ::
    "default_engine \<times> (key \<rightharpoonup> ptr) \<Rightarrow> default_engine \<times> (key \<rightharpoonup> ptr) \<Rightarrow> bool" where
  step_insert: "it \<noteq> NULL \<Longrightarrow> it \<notin> ran m \<Longrightarrow> key_ok (mem e it) \<Longrightarrow> m (ikey e it) = None
     \<Longrightarrow> card (dom m) < 2 ^ 30
     \<Longrightarrow> insert_item e it = Some e' \<Longrightarrow> table_step (e, m) (e', m(ikey e it \<mapsto> it))"
| step_delete: "m k = Some x \<Longrightarrow> delete_key e k = Some e'
     \<Longrightarrow> table_step (e, m) (e', m(k := None))"
| step_pass: "assoc_maintenance_pass e = Some e' \<Longrightarrow> table_step (e, m) (e', m)"

definition table_map :: "default_engine \<Rightarrow> (key \<rightharpoonup> ptr) \<Rightarrow> bool" where
  "table_map e m \<longleftrightarrow> assoc_rep e (ran m) \<and> hashpower (assoc e) < 31
     \<and> (\<forall>k x. m k = Some x \<longrightarrow> ikey e x = k)"

lemma ran_delete_inj: "inj_on m (dom m) \<Longrightarrow> m k = Some x \<Longrightarrow> ran (m(k := None)) = ran m - {x}"
  by (auto simp: ran_def inj_on_def dom_def) (metis option.inject)

lemma table_map_key_unique: "table_map e m \<Longrightarrow> m k = Some x \<Longrightarrow> m k' = Some x \<Longrightarrow> k = k'"
  unfolding table_map_def by metis

lemma table_map_inj: "table_map e m \<Longrightarrow> inj_on m (dom m)"
  by (rule inj_onI) (auto dest: table_map_key_unique)

lemma table_map_card: "table_map e m \<Longrightarrow> card (ran m) = card (dom m)"
proof -
  assume "table_map e m"
  then have "inj_on (the \<circ> m) (dom m)" by (auto intro!: inj_onI dest: table_map_key_unique)
  moreover have "(the \<circ> m) ` dom m = ran m" by (force simp: ran_def image_iff)
  ultimately show ?thesis using card_image by metis
qed

lemma table_map_keyD: "table_map e m \<Longrightarrow> x \<in> ran m \<Longrightarrow> m (ikey e x) = Some x"
  by (auto simp: table_map_def ran_def)

lemma table_map_find:
  assumes "table_map e m"
  shows "find_key e k = Some (case m k of None \<Rightarrow> NULL | Some x \<Rightarrow> x)"
proof (cases "m k")
  case None
  then have "\<forall>x\<in>ran m. ikey e x \<noteq> k" using table_map_keyD [OF assms] by force
  moreover have "assoc_rep e (ran m)" using assms by (simp add: table_map_def)
  ultimately have "find_key e k = Some NULL" by (intro ix.find_absent)
  then show ?thesis using None by simp
next
  case (Some x)
  then have "x \<in> ran m" "ikey e x = k" using assms by (auto simp: table_map_def intro: ranI)
  then show ?thesis using ix.find_present [of e "ran m" x] assms Some by (simp add: table_map_def)
qed

lemma table_step_map:
  assumes "table_step (e, m) (e', m')" "table_map e m"
  shows "table_map e' m'"
  using assms(1)
proof (cases rule: table_step.cases)
  case (step_insert it)
  have fresh: "\<forall>x\<in>ran m. ikey e x \<noteq> ikey e it"
    using table_map_keyD [OF assms(2)] step_insert by force
  have rep: "assoc_rep e (ran m)" and room: "assoc_room e it"
    using assms(2) step_insert by (auto simp: table_map_def assoc_room_def)
  have "assoc_rep e' (insert it (ran m))" "assoc_frame e e'"
    using ix.ins_rep [OF rep room _ fresh] step_insert by auto
  moreover have "hashpower (assoc e') < 31"
    using insert_item_hashpower [OF rep room _ fresh] step_insert table_map_card [OF assms(2)] by simp
  ultimately show ?thesis
    using assms(2) step_insert by (auto simp: table_map_def assoc_frame_keys)
next
  case (step_delete k x)
  then have x: "x \<in> ran m" "ikey e x = k" using assms(2) by (auto simp: table_map_def intro: ranI)
  have rep: "assoc_rep e (ran m)" using assms(2) by (simp add: table_map_def)
  have e': "assoc_rep e' (ran m - {x})" "assoc_frame e e'" "same_shape (assoc e) (assoc e')"
    using assoc_delete_rep [OF rep x(1)] step_delete(3) x(2)
    unfolding delete_key_def hash_of_ikey by (metis option.inject)+
  then show ?thesis
    using assms(2) step_delete ran_delete_inj [OF table_map_inj [OF assms(2)] step_delete(2)]
    by (auto simp: table_map_def assoc_frame_keys same_shape_def)
next
  case step_pass
  have rep: "assoc_rep e (ran m)" using assms(2) by (simp add: table_map_def)
  have "assoc_rep e' (ran m)" "assoc_frame e e'" "hashpower (assoc e') = hashpower (assoc e)"
    using assoc_maintenance_pass_rep [OF rep] step_pass(2) by (metis option.inject)+
  then show ?thesis
    using assms(2) step_pass by (simp add: table_map_def assoc_frame_keys)
qed

lemma table_run_map:
  assumes "table_step\<^sup>*\<^sup>* (e, m) (e', m')" "table_map e m"
  shows "table_map e' m'"
  using assms by (induction rule: rtranclp_induct2) (auto intro: table_step_map)

text \<open>No enabled turn is refused: inserting a fresh key, deleting a key and a pass all return.\<close>

lemma table_map_progress:
  assumes "table_map e m"
  shows "it \<noteq> NULL \<Longrightarrow> it \<notin> ran m \<Longrightarrow> key_ok (mem e it) \<Longrightarrow> m (ikey e it) = None
           \<Longrightarrow> \<exists>e'. insert_item e it = Some e'"
    and "m k = Some x \<Longrightarrow> \<exists>e'. delete_key e k = Some e'"
    and "\<exists>e'. assoc_maintenance_pass e = Some e'"
proof -
  have rep: "assoc_rep e (ran m)" and hp: "hashpower (assoc e) < 31"
    using assms by (auto simp: table_map_def)
  show "\<exists>e'. insert_item e it = Some e'"
    if "it \<noteq> NULL" "it \<notin> ran m" "key_ok (mem e it)" "m (ikey e it) = None"
  proof -
    have "\<forall>x\<in>ran m. ikey e x \<noteq> ikey e it" using table_map_keyD [OF assms] that by force
    then show ?thesis
      using ix.ins_rep [OF rep, of it] that hp by (auto simp: assoc_room_def)
  qed
  show "\<exists>e'. delete_key e k = Some e'" if "m k = Some x"
  proof -
    have "x \<in> ran m" "ikey e x = k" using assms that by (auto simp: table_map_def intro: ranI)
    then show ?thesis using ix.del_rep [OF rep] by blast
  qed
  show "\<exists>e'. assoc_maintenance_pass e = Some e'"
    using assoc_maintenance_pass_rep [OF rep] by metis
qed

section \<open>Examples\<close>

lemma sample_assoc_ok [simp]: "assoc_ok (assoc sample_engine)"
  by (simp add: sample_engine_def assoc_ok_def)

lemma sample_empty: "assoc_rep sample_engine {}"
proof -
  have "bucket_holds sample_engine pos {}" if "table_pos (assoc sample_engine) pos" for pos
    using that by (cases pos) (auto simp: sample_engine_def bucket_holds_def less_2_cases_iff)
  then show ?thesis by (simp add: assoc_rep_def) (simp add: sample_engine_def)
qed

lemma sample_item: "ikey sample_engine 8 = [97]" "key_ok (mem sample_engine 8)"
  "assoc_room sample_engine 8"
  by (simp_all add: sample_engine_def zero_item_def item_get_key_def key_ok_def assoc_room_def)

definition sample_one :: default_engine where
  "sample_one = the (insert_item sample_engine 8)"

lemma sample_one: "insert_item sample_engine 8 = Some sample_one" "assoc_rep sample_one {8}"
  "ikey sample_one 8 = [97]" "ikey sample_one 0 = []" "hashpower (assoc sample_one) < 31"
proof -
  obtain e' where e': "insert_item sample_engine 8 = Some e'" "assoc_rep e' {8}"
    "assoc_frame sample_engine e'"
    using ix.ins_rep [OF sample_empty sample_item(3)] by auto
  then have [simp]: "sample_one = e'" by (simp add: sample_one_def)
  show "insert_item sample_engine 8 = Some sample_one" "assoc_rep sample_one {8}"
    using e' by simp_all
  show "ikey sample_one 8 = [97]" "ikey sample_one 0 = []"
    by (simp_all add: assoc_frame_keys [OF e'(3)] sample_item)
       (simp add: sample_engine_def item_get_key_def zero_item_def)
  show "hashpower (assoc sample_one) < 31"
    using insert_item_hashpower [OF sample_empty sample_item(3) _ _ _ e'(1)] by simp
qed

section \<open>Properties of the hash table\<close>

text \<open>
  C1. A lookup always returns, and returns an item exactly when that item is in the table under
  the key looked for, and the null pointer exactly when no item of the table has the key, also
  while the table is being expanded.
\<close>

theorem assoc_find_correct:
  assumes "assoc_rep e S"
  shows "\<exists>p. assoc_find e (srv_hash (srv e) k) k = Some p
    \<and> (p = NULL \<longrightarrow> (\<forall>x\<in>S. ikey e x \<noteq> k)) \<and> (p \<noteq> NULL \<longrightarrow> p \<in> S \<and> ikey e p = k)"
  using ix.find_defined [OF assms, of k] ix.find_iff [OF assms] ix.rep_null [OF assms]
  unfolding find_key_def by (metis (no_types, lifting))

theorem assoc_find_correct_witness:
  "assoc_rep sample_one {8} \<and>
   (\<exists>p. assoc_find sample_one (srv_hash (srv sample_one) [97]) [97] = Some p
     \<and> (p = NULL \<longrightarrow> (\<forall>x\<in>{8}. ikey sample_one x \<noteq> [97]))
     \<and> (p \<noteq> NULL \<longrightarrow> p \<in> {8} \<and> ikey sample_one p = [97]))"
  using assoc_find_correct [OF sample_one(2), of "[97]"] sample_one(2) by blast

text \<open>
  C2. Inserting an item under a key the table does not have returns, whatever the allocations and
  the thread creation of an expansion answer; the table then holds the old items and the new one,
  a lookup of its key finds it and every other lookup is as before.
\<close>

theorem assoc_insert_correct:
  assumes "assoc_rep e S" "it \<noteq> NULL" "it \<notin> S" "key_ok (mem e it)" "hashpower (assoc e) < 31"
    and "\<forall>x\<in>S. ikey e x \<noteq> ikey e it"
  shows "\<exists>e'. assoc_insert e (hash_of e it) it = Some e' \<and> assoc_rep e' (insert it S)
    \<and> assoc_find e' (hash_of e it) (ikey e it) = Some it
    \<and> (\<forall>k. k \<noteq> ikey e it \<longrightarrow>
         assoc_find e' (srv_hash (srv e') k) k = assoc_find e (srv_hash (srv e) k) k)"
proof -
  have room: "assoc_room e it" using assms by (simp add: assoc_room_def)
  obtain e' where e': "insert_item e it = Some e'" "assoc_rep e' (insert it S)" "assoc_frame e e'"
    using ix.ins_rep [OF assms(1) room assms(3,6)] by blast
  moreover have "srv e' = srv e" using e'(3) by (simp add: frame_simps)
  ultimately show ?thesis
    using ix.find_after_ins [OF assms(1) room assms(3,6)]
    by (auto simp: insert_item_def find_key_def hash_of_ikey)
qed

theorem assoc_insert_correct_witness:
  "\<exists>e'. assoc_insert sample_engine (hash_of sample_engine 8) 8 = Some e' \<and> assoc_rep e' {8}
    \<and> assoc_find e' (hash_of sample_engine 8) [97] = Some 8"
  using assoc_insert_correct [OF sample_empty, of 8] sample_item
  by (auto simp: assoc_room_def)

text \<open>
  C3. Deleting the key of an item of the table returns; the table then holds the other items, a
  lookup of the key finds nothing and every other lookup is as before.
\<close>

theorem assoc_delete_correct:
  assumes "assoc_rep e S" "x \<in> S"
  shows "\<exists>e'. assoc_delete e (hash_of e x) (ikey e x) = Some e' \<and> assoc_rep e' (S - {x})
    \<and> assoc_find e' (hash_of e x) (ikey e x) = Some NULL
    \<and> (\<forall>k. k \<noteq> ikey e x \<longrightarrow>
         assoc_find e' (srv_hash (srv e') k) k = assoc_find e (srv_hash (srv e) k) k)"
proof -
  obtain e' where e': "delete_key e (ikey e x) = Some e'" "assoc_rep e' (S - {x})" "assoc_frame e e'"
    using ix.del_rep [OF assms] by blast
  moreover have "srv e' = srv e" using e'(3) by (simp add: frame_simps)
  ultimately show ?thesis
    using ix.find_after_del [OF assms]
    by (auto simp: delete_key_def find_key_def hash_of_ikey)
qed

theorem assoc_delete_correct_witness:
  "\<exists>e'. assoc_delete sample_one (hash_of sample_one 8) [97] = Some e' \<and> assoc_rep e' {}
    \<and> assoc_find e' (hash_of sample_one 8) [97] = Some NULL"
  using assoc_delete_correct [OF sample_one(2), of 8] sample_one(3) by auto

text \<open>
  The two misuses end in an assertion: inserting an item whose key is already in the table,
  and deleting a key that is not in it.
\<close>

theorem assoc_misuse_aborts:
  assumes "assoc_rep e S"
  shows "(\<forall>it. (\<exists>x\<in>S. ikey e x = ikey e it) \<longrightarrow> assoc_insert e (hash_of e it) it = None)
    \<and> (\<forall>k h. (\<forall>x\<in>S. ikey e x \<noteq> k) \<longrightarrow> assoc_delete e h k = None)"
  using assoc_insert_duplicate [OF assms] assoc_delete_absent [OF assms] by auto

theorem assoc_misuse_aborts_witness:
  "assoc_insert sample_one (hash_of sample_one 8) 8 = None \<and> assoc_delete sample_one 0 [98] = None"
  using assoc_misuse_aborts [OF sample_one(2)] sample_one(3) by simp

text \<open>
  C4. The maintenance thread, left alone, ends: it leaves a table that is not expanding, that holds
  the same items, and in which every lookup gives what it gave before.
\<close>

theorem assoc_maintenance_correct:
  assumes "assoc_rep e S"
  shows "\<exists>e'. assoc_maintenance_thread e = Some e' \<and> \<not> expanding (assoc e') \<and> assoc_rep e' S
    \<and> (\<forall>k. assoc_find e' (srv_hash (srv e') k) k = assoc_find e (srv_hash (srv e) k) k)"
proof -
  obtain e' where e': "assoc_maintenance_thread e = Some e'" "assoc_rep e' S" "assoc_frame e e'"
    "\<not> expanding (assoc e')"
    using assoc_maintenance_thread_rep [OF assms] by blast
  have "find_key e' k = find_key e k" for k
  proof -
    obtain p where p: "find_key e k = Some p" using ix.find_defined [OF assms] by blast
    then have "find_key e' k = Some p"
      unfolding ix.find_iff [OF assms] ix.find_iff [OF e'(2)] assoc_frame_keys(1) [OF e'(3)] .
    with p show ?thesis by simp
  qed
  with e' show ?thesis by (auto simp: find_key_def)
qed

theorem assoc_maintenance_correct_witness:
  "\<exists>e'. assoc_maintenance_thread (assoc_expand sample_one) = Some e' \<and> \<not> expanding (assoc e')"
proof -
  have "assoc sample_one = (assoc sample_engine)\<lparr>primary_hashtable := [NULL, 8], hash_items := 1\<rparr>"
    by (simp add: sample_one_def insert_item_def assoc_insert_def assoc_find_def bucket_pos_def
        hash_of_def item_get_key_def sample_engine_def zero_item_def hashmask_def hashsize_def
        push_bit_eq_mult upd_item_def assoc_find_loop.simps)
  then have "\<not> expanding (assoc sample_one)" by (simp add: sample_engine_def)
  then have "assoc_rep (assoc_expand sample_one) {8}"
    by (rule assoc_expand_rep [OF sample_one(2) _ sample_one(5)])
  from assoc_maintenance_correct [OF this] show ?thesis by blast
qed

text \<open>
  C5. Whatever the order in which clients and the maintenance thread take their turns, the table
  implements a finite map: after any run from an empty table the lookup of a key returns exactly
  what the map holds, and every turn the map allows goes through.
\<close>

theorem assoc_interleaving_refines_map:
  assumes "table_step\<^sup>*\<^sup>* (e, Map.empty) (e', m)" "assoc_rep e {}" "hashpower (assoc e) < 31"
  shows "(\<forall>k. assoc_find e' (srv_hash (srv e') k) k = Some (case m k of None \<Rightarrow> NULL | Some x \<Rightarrow> x))
    \<and> (\<exists>e''. assoc_maintenance_pass e' = Some e'')
    \<and> (\<forall>k \<in> dom m. \<exists>e''. assoc_delete e' (srv_hash (srv e') k) k = Some e'')
    \<and> (\<forall>it. it \<noteq> NULL \<and> it \<notin> ran m \<and> key_ok (mem e' it) \<and> m (ikey e' it) = None \<longrightarrow>
         (\<exists>e''. assoc_insert e' (hash_of e' it) it = Some e''))"
proof -
  have "table_map e Map.empty" using assms by (simp add: table_map_def)
  then have map: "table_map e' m" using table_run_map [OF assms(1)] by simp
  show ?thesis
    using table_map_find [OF map] table_map_progress [OF map]
    by (auto simp: find_key_def delete_key_def insert_item_def)
qed

theorem assoc_interleaving_refines_map_witness:
  "assoc_find sample_one (srv_hash (srv sample_one) [97]) [97] = Some 8"
proof -
  have "table_step (sample_engine, Map.empty) (sample_one, Map.empty(ikey sample_engine 8 \<mapsto> 8))"
    by (rule table_step.step_insert) (use sample_one(1) sample_item in auto)
  then have "table_step\<^sup>*\<^sup>* (sample_engine, Map.empty) (sample_one, [[97] \<mapsto> 8])"
    by (simp add: sample_item)
  from assoc_interleaving_refines_map [OF this sample_empty]
  show ?thesis by (simp add: sample_engine_def)
qed

end
