(* ===== verification/Slabs.thy ===== *)
theory Slabs
  imports Engine_State
begin

unbundle bit_operations_syntax

text \<open>
  The slab allocator, \<^verbatim>\<open>memcached/engines/default_engine/slabs.c\<close>: size classes, pages cut into
  chunks of one size, a free list per class, and the limit on the memory taken from the
  system. \<^verbatim>\<open>DONT_PREALLOC_SLABS\<close> is defined and \<^verbatim>\<open>USE_SYSTEM_MALLOC\<close> is not.
\<close>

section \<open>Size classes\<close>

function slabs_clsid_loop :: "slabs \<Rightarrow> u64 \<Rightarrow> nat \<Rightarrow> nat option" where
  "slabs_clsid_loop s sz res =
     do {
       p \<leftarrow> arr_get (slabclasses s) res;
       if unat sz > unat (sc_size p)
       then (if res = power_largest s then Some 0 else slabs_clsid_loop s sz (res + 1))
       else Some res
     }"
  by pat_completeness auto
termination
  by (relation "measure (\<lambda>(s, sz, res). length (slabclasses s) - res)")
     (auto simp: arr_get_def split: if_splits)

declare slabs_clsid_loop.simps [simp del]

definition slabs_clsid :: "default_engine \<Rightarrow> u64 \<Rightarrow> nat option" where
  "slabs_clsid e sz = (if sz = 0 then Some 0 else slabs_clsid_loop (slabs e) sz POWER_SMALLEST)"

definition sizeof_hash_item :: u64 where
  "sizeof_hash_item = 48"

definition align_chunk :: "u32 \<Rightarrow> u32" where
  "align_chunk sz =
     (if sz mod of_nat CHUNK_ALIGN_BYTES \<noteq> 0
      then sz + (of_nat CHUNK_ALIGN_BYTES - sz mod of_nat CHUNK_ALIGN_BYTES) else sz)"

text \<open>
  The growth factor is a \<^verbatim>\<open>double\<close>. \<open>rnd\<close> is the rounding of the hardware, applied to the exact
  result of each operation; the theorems hold for every such function. A conversion back to
  \<^verbatim>\<open>unsigned int\<close> out of range and a division by a zero chunk size are undefined.
\<close>

definition within_factor :: "(rat \<Rightarrow> rat) \<Rightarrow> u64 \<Rightarrow> rat \<Rightarrow> u32 \<Rightarrow> bool" where
  "within_factor rnd item_max f sz =
     (f = 0 \<or> of_nat (unat sz) \<le> rnd (rnd (of_nat (unat item_max)) / f))"

definition times_factor :: "(rat \<Rightarrow> rat) \<Rightarrow> rat \<Rightarrow> u32 \<Rightarrow> u32 option" where
  "times_factor rnd f sz =
     (let v = rnd (of_nat (unat sz) * f) in
      if - 1 < v \<and> v < 2 ^ 32 then Some (of_int \<lfloor>if v < 0 then 0 else v\<rfloor>) else None)"

definition zero_slabclass :: slabclass where
  "zero_slabclass = \<lparr>sc_size = 0, perslab = 0, slots = [], sl_total = 0, sl_curr = 0,
     end_page_ptr = NULL, end_page_free = 0, sc_slabs = 0, slab_list = [], list_size = 0,
     requested = 0\<rparr>"

function slabs_init_loop ::
    "(rat \<Rightarrow> rat) \<Rightarrow> rat \<Rightarrow> u64 \<Rightarrow> nat \<Rightarrow> u32 \<Rightarrow> slabclass list \<Rightarrow> (nat \<times> slabclass list) option" where
  "slabs_init_loop rnd f item_max i sz cs =
     (if i + 1 < POWER_LARGEST \<and> within_factor rnd item_max f sz then
        do {
          let sz = align_chunk sz;
          guard (sz \<noteq> 0);
          c \<leftarrow> arr_get cs (i + 1);
          let per = ucast (item_max div ucast sz);
          sz' \<leftarrow> times_factor rnd f sz;
          slabs_init_loop rnd f item_max (i + 1) sz' (cs[i + 1 := c\<lparr>sc_size := sz, perslab := per\<rparr>])
        }
      else Some (i + 1, cs))"
  by pat_completeness auto
termination
  by (relation "measure (\<lambda>(rnd, f, m, i, sz, cs). POWER_LARGEST - i)") auto

declare slabs_init_loop.simps [simp del]

definition slabs_init ::
    "(rat \<Rightarrow> rat) \<Rightarrow> u64 option \<Rightarrow> default_engine \<Rightarrow> u64 \<Rightarrow> rat \<Rightarrow> bool
     \<Rightarrow> (ENGINE_ERROR_CODE \<times> default_engine) option" where
  "slabs_init rnd t_initial_malloc e limit f prealloc =
     (let sz = ucast (sizeof_hash_item + chunk_size (config e));
          e = e\<lparr>slabs := (slabs e)\<lparr>mem_limit := limit\<rparr>\<rparr>;
          (ok, e) =
            (if prealloc then
               (let (p, e) = malloc (unat limit) e in
                if p \<noteq> NULL
                then (True, e\<lparr>slabs := (slabs e)\<lparr>mem_base := p, mem_current := p, mem_avail := limit\<rparr>\<rparr>)
                else (False, e\<lparr>slabs := (slabs e)\<lparr>mem_base := p\<rparr>\<rparr>))
             else (True, e))
      in if \<not> ok then Some (ENGINE_ENOMEM, e)
         else do {
           (i, cs) \<leftarrow> slabs_init_loop rnd f (item_size_max (config e)) (POWER_SMALLEST - 1) sz
                       (replicate MAX_NUMBER_OF_SLAB_CLASSES zero_slabclass);
           c \<leftarrow> arr_get cs i;
           let cs = cs[i := c\<lparr>sc_size := ucast (item_size_max (config e)), perslab := 1\<rparr>];
           let e = e\<lparr>slabs := (slabs e)\<lparr>slabclasses := cs, power_largest := i\<rparr>\<rparr>;
           Some (ENGINE_SUCCESS,
                 case t_initial_malloc of None \<Rightarrow> e
                 | Some v \<Rightarrow> e\<lparr>slabs := (slabs e)\<lparr>mem_malloced := v\<rparr>\<rparr>)
         })"

section \<open>Allocating and freeing\<close>

definition upd_class :: "nat \<Rightarrow> (slabclass \<Rightarrow> slabclass) \<Rightarrow> default_engine \<Rightarrow> default_engine" where
  "upd_class i g e = e\<lparr>slabs := (slabs e)\<lparr>slabclasses :=
     (slabclasses (slabs e))[i := g (slabclasses (slabs e) ! i)]\<rparr>\<rparr>"

text \<open>An array of pointers grown by \<^verbatim>\<open>realloc\<close>: the new cells are not initialised.\<close>

definition grown :: "ptr list \<Rightarrow> nat \<Rightarrow> ptr list" where
  "grown xs n = take n xs @ replicate (n - length xs) NULL"

definition grow_slab_list :: "default_engine \<Rightarrow> nat \<Rightarrow> (bool \<times> default_engine) option" where
  "grow_slab_list e cid =
     do {
       p \<leftarrow> arr_get (slabclasses (slabs e)) cid;
       if sc_slabs p = list_size p then
         (let new_size = (if list_size p \<noteq> 0 then list_size p * 2 else 16);
              (ok, e) = os_call e
          in if \<not> ok then Some (False, e)
             else Some (True, upd_class cid (\<lambda>p. p\<lparr>list_size := new_size,
                                slab_list := grown (slab_list p) new_size\<rparr>) e))
       else Some (True, e)
     }"

definition memory_allocate :: "default_engine \<Rightarrow> u64 \<Rightarrow> ptr \<times> default_engine" where
  "memory_allocate e sz =
     (if mem_base (slabs e) = NULL then malloc (unat sz) e
      else
        (let ret = mem_current (slabs e) in
         if sz > mem_avail (slabs e) then (NULL, e)
         else
           (let sz = (if sz mod of_nat CHUNK_ALIGN_BYTES \<noteq> 0
                      then sz + (of_nat CHUNK_ALIGN_BYTES - sz mod of_nat CHUNK_ALIGN_BYTES) else sz)
            in (ret, e\<lparr>slabs := (slabs e)\<lparr>
                  mem_current := mem_current (slabs e) + unat sz,
                  mem_avail := (if sz < mem_avail (slabs e) then mem_avail (slabs e) - sz else 0)\<rparr>\<rparr>))))"

definition zero_range :: "ptr \<Rightarrow> nat \<Rightarrow> default_engine \<Rightarrow> default_engine" where
  "zero_range p n e = e\<lparr>mem := (\<lambda>a. if p \<le> a \<and> a < p + n then zero_item else mem e a)\<rparr>"

definition do_slabs_newslab :: "default_engine \<Rightarrow> nat \<Rightarrow> (bool \<times> default_engine) option" where
  "do_slabs_newslab e cid =
     do {
       p \<leftarrow> arr_get (slabclasses (slabs e)) cid;
       let len = (scast (sc_size p * perslab p) :: u64);
       if mem_limit (slabs e) \<noteq> 0 \<and> mem_malloced (slabs e) + len > mem_limit (slabs e)
          \<and> sc_slabs p > 0
       then Some (False, e)
       else do {
         (ok, e) \<leftarrow> grow_slab_list e cid;
         if \<not> ok then Some (False, e)
         else (let (pg, e) = memory_allocate e len in
           if pg = NULL then Some (False, e)
           else do {
             let e = zero_range pg (unat len) e;
             q \<leftarrow> arr_get (slabclasses (slabs e)) cid;
             sl \<leftarrow> arr_set (slab_list q) (sc_slabs q) pg;
             let e = upd_class cid (\<lambda>q. q\<lparr>end_page_ptr := pg, end_page_free := perslab q,
                       slab_list := sl, sc_slabs := sc_slabs q + 1\<rparr>) e;
             Some (True, e\<lparr>slabs := (slabs e)\<lparr>mem_malloced := mem_malloced (slabs e) + len\<rparr>\<rparr>)
           })
       }
     }"

text \<open>A chunk off the free list of a class that has one, or else from the end of its last page.\<close>

definition take_chunk :: "default_engine \<Rightarrow> nat \<Rightarrow> (ptr \<times> default_engine) option" where
  "take_chunk e cid =
     do {
       p \<leftarrow> arr_get (slabclasses (slabs e)) cid;
       if sl_curr p \<noteq> 0 then do {
         r \<leftarrow> arr_get (slots p) (sl_curr p - 1);
         Some (r, upd_class cid (\<lambda>p. p\<lparr>sl_curr := sl_curr p - 1\<rparr>) e)
       }
       else do {
         guard (end_page_ptr p \<noteq> NULL);
         Some (end_page_ptr p, upd_class cid (\<lambda>p. p\<lparr>
           end_page_free := end_page_free p - 1,
           end_page_ptr := (if end_page_free p - 1 \<noteq> 0
                            then end_page_ptr p + unat (sc_size p) else NULL)\<rparr>) e)
       }
     }"

definition do_slabs_alloc :: "default_engine \<Rightarrow> u64 \<Rightarrow> nat \<Rightarrow> (ptr \<times> default_engine) option" where
  "do_slabs_alloc e sz cid =
     (if cid < POWER_SMALLEST \<or> cid > power_largest (slabs e) then Some (NULL, e)
      else do {
        p \<leftarrow> arr_get (slabclasses (slabs e)) cid;
        (more, e) \<leftarrow> (if end_page_ptr p \<noteq> NULL \<or> sl_curr p \<noteq> 0 then Some (True, e)
                       else do_slabs_newslab e cid);
        (ret, e) \<leftarrow> (if \<not> more then Some (NULL, e) else take_chunk e cid);
        Some (ret, if ret \<noteq> NULL then upd_class cid (\<lambda>p. p\<lparr>requested := requested p + sz\<rparr>) e else e)
      })"

definition do_slabs_free :: "default_engine \<Rightarrow> ptr \<Rightarrow> u64 \<Rightarrow> nat \<Rightarrow> default_engine option" where
  "do_slabs_free e ptr sz cid =
     (if cid < POWER_SMALLEST \<or> cid > power_largest (slabs e) then Some e
      else do {
        p \<leftarrow> arr_get (slabclasses (slabs e)) cid;
        let (ok, e) =
          (if sl_curr p = sl_total p then
             (let new_size = (if sl_total p \<noteq> 0 then sl_total p * 2 else 16);
                  (ok, e) = os_call e
              in if \<not> ok then (False, e)
                 else (True, upd_class cid (\<lambda>p. p\<lparr>slots := grown (slots p) new_size,
                                             sl_total := new_size\<rparr>) e))
           else (True, e));
        if \<not> ok then Some e
        else do {
          p \<leftarrow> arr_get (slabclasses (slabs e)) cid;
          sl \<leftarrow> arr_set (slots p) (sl_curr p) ptr;
          Some (upd_class cid (\<lambda>p. p\<lparr>slots := sl, sl_curr := sl_curr p + 1,
                                requested := requested p - sz\<rparr>) e)
        }
      })"

text \<open>The public functions take \<^verbatim>\<open>slabs.lock\<close> around the ones above.\<close>

definition slabs_alloc :: "default_engine \<Rightarrow> u64 \<Rightarrow> nat \<Rightarrow> (ptr \<times> default_engine) option" where
  "slabs_alloc e sz cid = do_slabs_alloc e sz cid"

definition slabs_free :: "default_engine \<Rightarrow> ptr \<Rightarrow> u64 \<Rightarrow> nat \<Rightarrow> default_engine option" where
  "slabs_free e ptr sz cid = do_slabs_free e ptr sz cid"

definition slabs_adjust_mem_requested :: "default_engine \<Rightarrow> nat \<Rightarrow> u64 \<Rightarrow> u64 \<Rightarrow> default_engine option" where
  "slabs_adjust_mem_requested e cid old ntotal =
     (if cid < POWER_SMALLEST \<or> cid > power_largest (slabs e) then None
      else do {
        p \<leftarrow> arr_get (slabclasses (slabs e)) cid;
        Some (upd_class cid (\<lambda>p. p\<lparr>requested := requested p - old + ntotal\<rparr>) e)
      })"

end
