(* ===== verification/Util.thy ===== *)
theory Util
  imports Prelude
begin

unbundle bit_operations_syntax

text \<open>
  Number parsing and byte order, \<^verbatim>\<open>memcached/utilities/util.c\<close>, with the C library functions it
  calls: \<^verbatim>\<open>isspace\<close> in the C locale, \<^verbatim>\<open>strtoull\<close>, \<^verbatim>\<open>strtoll\<close>, \<^verbatim>\<open>strtoul\<close>, \<^verbatim>\<open>strtol\<close> in base 10
  on an LP64 system (\<^verbatim>\<open>long\<close> has 64 bits), and \<^verbatim>\<open>snprintf\<close> of an unsigned decimal.
  A C string is the list of its bytes in front of the terminating zero.
\<close>

section \<open>The C library\<close>

definition isspace :: "byte \<Rightarrow> bool" where
  "isspace c = (c = 32 \<or> (9 \<le> c \<and> c \<le> 13))"

definition isdigit :: "byte \<Rightarrow> bool" where
  "isdigit c = (48 \<le> c \<and> c \<le> 57)"

definition digit_value :: "byte \<Rightarrow> nat" where
  "digit_value c = unat c - 48"

definition digit_char :: "nat \<Rightarrow> byte" where
  "digit_char d = of_nat (48 + d)"

definition c_string :: "byte list \<Rightarrow> byte list" where
  "c_string bs = takeWhile (\<lambda>b. b \<noteq> 0) bs"

fun print_decimal :: "nat \<Rightarrow> byte list" where
  "print_decimal n =
     (if n < 10 then [digit_char n] else print_decimal (n div 10) @ [digit_char (n mod 10)])"

declare print_decimal.simps [simp del]

definition decimal_value :: "byte list \<Rightarrow> nat" where
  "decimal_value ds = foldl (\<lambda>v d. 10 * v + digit_value d) 0 ds"

text \<open>
  The subject sequence of the \<^verbatim>\<open>strto\<close> functions: white space, an optional sign, digits. The
  result is the sign, the magnitude and the rest of the string, or nothing when there are no
  digits.
\<close>

definition strto_scan :: "byte list \<Rightarrow> (bool \<times> nat \<times> byte list) option" where
  "strto_scan str =
     (let s = dropWhile isspace str;
          neg = (s \<noteq> [] \<and> hd s = 45);
          s1 = (if s \<noteq> [] \<and> (hd s = 45 \<or> hd s = 43) then tl s else s);
          ds = takeWhile isdigit s1
      in if ds = [] then None else Some (neg, decimal_value ds, dropWhile isdigit s1))"

text \<open>Value, rest of the string (\<^verbatim>\<open>*endptr\<close>), and whether \<^verbatim>\<open>errno\<close> is \<^verbatim>\<open>ERANGE\<close>.\<close>

definition strtoull :: "byte list \<Rightarrow> u64 \<times> byte list \<times> bool" where
  "strtoull str =
     (case strto_scan str of
        None \<Rightarrow> (0, str, False)
      | Some (neg, v, rest) \<Rightarrow>
          if v \<ge> 2 ^ 64 then (- 1, rest, True)
          else (if neg then - of_nat v else of_nat v, rest, False))"

definition strtoll :: "byte list \<Rightarrow> int \<times> byte list \<times> bool" where
  "strtoll str =
     (case strto_scan str of
        None \<Rightarrow> (0, str, False)
      | Some (neg, v, rest) \<Rightarrow>
          if neg \<and> v > 2 ^ 63 then (- (2 ^ 63), rest, True)
          else if \<not> neg \<and> v \<ge> 2 ^ 63 then (2 ^ 63 - 1, rest, True)
          else (if neg then - int v else int v, rest, False))"

section \<open>The safe parsers\<close>

text \<open>\<^verbatim>\<open>xisspace(*endptr) || (*endptr == 0 && endptr != str)\<close>\<close>

definition ends_well :: "byte list \<Rightarrow> byte list \<Rightarrow> bool" where
  "ends_well str rest = (case rest of [] \<Rightarrow> rest \<noteq> str | c # _ \<Rightarrow> isspace c)"

definition safe_strtoull :: "byte list \<Rightarrow> bool \<times> u64" where
  "safe_strtoull str =
     (let (ull, rest, erange) = strtoull str in
      if erange then (False, 0)
      else if ends_well str rest then
        (if bit ull 63 \<and> 45 \<in> set str then (False, 0) else (True, ull))
      else (False, 0))"

definition safe_strtoll :: "byte list \<Rightarrow> bool \<times> int" where
  "safe_strtoll str =
     (let (ll, rest, erange) = strtoll str in
      if erange then (False, 0)
      else if ends_well str rest then (True, ll)
      else (False, 0))"

definition safe_strtoul :: "byte list \<Rightarrow> bool \<times> u32" where
  "safe_strtoul str =
     (let (l, rest, erange) = strtoull str in
      if erange then (False, 0)
      else if ends_well str rest then
        (if bit l 63 \<and> 45 \<in> set str then (False, 0) else (True, ucast l))
      else (False, 0))"

definition safe_strtol :: "byte list \<Rightarrow> bool \<times> 32 word" where
  "safe_strtol str =
     (let (l, rest, erange) = strtoll str in
      if erange then (False, 0)
      else if ends_well str rest then (True, word_of_int l)
      else (False, 0))"

section \<open>Byte order\<close>

fun mc_swap64_loop :: "nat \<Rightarrow> u64 \<Rightarrow> u64 \<Rightarrow> u64" where
  "mc_swap64_loop 0 rv inp = rv"
| "mc_swap64_loop (Suc i) rv inp =
     mc_swap64_loop i (push_bit 8 rv OR (inp AND 255)) (drop_bit 8 inp)"

definition mc_swap64 :: "u64 \<Rightarrow> u64" where
  "mc_swap64 inp = mc_swap64_loop 8 0 inp"

definition ntohll :: "u64 \<Rightarrow> u64" where "ntohll v = mc_swap64 v"
definition htonll :: "u64 \<Rightarrow> u64" where "htonll v = mc_swap64 v"

section \<open>Printing and parsing\<close>

lemma digit_char: "d < 10 \<Longrightarrow> isdigit (digit_char d)" "d < 10 \<Longrightarrow> digit_value (digit_char d) = d"
proof -
  assume d: "d < 10"
  then have "unat (digit_char d) = 48 + d" unfolding digit_char_def by (subst unat_of_nat) simp
  then show "isdigit (digit_char d)" "digit_value (digit_char d) = d"
    using d by (simp_all add: isdigit_def digit_value_def word_le_nat_alt)
qed

lemma print_decimal_digits: "\<forall>c \<in> set (print_decimal n). isdigit c"
proof (induction n rule: print_decimal.induct)
  case (1 n)
  then show ?case by (subst print_decimal.simps) (auto simp: digit_char)
qed

lemma print_decimal_not_Nil [simp]: "print_decimal n \<noteq> []" "[] \<noteq> print_decimal n"
  by (subst print_decimal.simps; simp)+

lemma decimal_value_snoc: "decimal_value (ds @ [d]) = 10 * decimal_value ds + digit_value d"
  by (simp add: decimal_value_def)

lemma decimal_value_print [simp]: "decimal_value (print_decimal n) = n"
proof (induction n rule: print_decimal.induct)
  case (1 n)
  show ?case
  proof (cases "n < 10")
    case True
    then show ?thesis by (subst print_decimal.simps) (simp add: decimal_value_def digit_char)
  next
    case False
    then show ?thesis using 1 by (subst print_decimal.simps) (simp add: decimal_value_snoc digit_char)
  qed
qed

lemma isdigit_not: "isdigit c \<Longrightarrow> \<not> isspace c" "isdigit c \<Longrightarrow> c \<noteq> 45" "isdigit c \<Longrightarrow> c \<noteq> 43" "isdigit c \<Longrightarrow> c \<noteq> 0"
  by (auto simp: isdigit_def isspace_def word_le_nat_alt)

lemma isspace_not_digit: "isspace c \<Longrightarrow> \<not> isdigit c" using isdigit_not(1) by blast

lemma strto_scan_print:
  assumes "rest = [] \<or> \<not> isdigit (hd rest)"
  shows "strto_scan (print_decimal n @ rest) = Some (False, n, rest)"
proof -
  let ?p = "print_decimal n"
  obtain c cs where p: "?p = c # cs" by (cases ?p) auto
  have c: "isdigit c" using print_decimal_digits [of n] p by simp
  have d: "dropWhile isspace (?p @ rest) = ?p @ rest"
    using isdigit_not [OF c] by (simp add: p)
  have "takeWhile isdigit (?p @ rest) = ?p @ takeWhile isdigit rest"
    "dropWhile isdigit (?p @ rest) = dropWhile isdigit rest"
    using print_decimal_digits [of n] by (simp_all add: takeWhile_append2 dropWhile_append2)
  moreover have "takeWhile isdigit rest = []" "dropWhile isdigit rest = rest" using assms by (cases rest; simp)+
  ultimately show ?thesis
    unfolding strto_scan_def Let_def d using isdigit_not [OF c] p decimal_value_print [of n] by auto
qed

lemma safe_strtoull_print:
  assumes "rest = [] \<or> isspace (hd rest)" "45 \<notin> set rest"
  shows "safe_strtoull (print_decimal (unat v) @ rest) = (True, v)"
proof -
  have r: "rest = [] \<or> \<not> isdigit (hd rest)" using assms(1) isspace_not_digit by blast
  have "unat v < 2 ^ LENGTH(64)" by (rule unsigned_less)
  then have "strtoull (print_decimal (unat v) @ rest) = (v, rest, False)"
    by (simp add: strtoull_def strto_scan_print [OF r])
  moreover have "ends_well (print_decimal (unat v) @ rest) rest"
    using assms(1) by (cases rest) (auto simp: ends_well_def)
  moreover have "45 \<notin> set (print_decimal (unat v) @ rest)"
    using assms(2) print_decimal_digits [of "unat v"] isdigit_not(2) by auto
  ultimately show ?thesis by (simp add: safe_strtoull_def)
qed

lemma c_string_id: "0 \<notin> set bs \<Longrightarrow> c_string bs = bs"
  by (auto simp: c_string_def takeWhile_eq_all_conv)

lemma bit_mask8: "bit (255 :: u64) n \<longleftrightarrow> n < 8"
  using bit_mask_iff [of 8 n, where 'a = u64] by (auto simp: mask_eq_exp_minus_1)

lemma bit_mc_swap64_loop:
  "bit (mc_swap64_loop k rv inp) n \<longleftrightarrow>
     n < 64 \<and> (if n < 8 * k then bit inp (8 * (k - 1 - n div 8) + n mod 8) else bit rv (n - 8 * k))"
proof (induction k arbitrary: rv inp)
  case 0
  then show ?case using bit_imp_le_length [of rv n] by auto
next
  case (Suc k)
  have rv: "bit (push_bit 8 rv OR (inp AND 255)) j \<longleftrightarrow> (if j < 8 then bit inp j else j < 64 \<and> bit rv (j - 8))" for j
    using bit_mask8 [of j] by (auto simp: bit_or_iff bit_and_iff bit_push_bit_iff)
  consider "n < 8 * k" | "8 * k \<le> n" "n < 8 * Suc k" | "8 * Suc k \<le> n" by linarith
  then show ?case
  proof cases
    case 1
    then have "n div 8 < k" by (simp add: div_less_iff_less_mult mult.commute)
    then have "8 + (8 * (k - 1 - n div 8) + n mod 8) = 8 * (Suc k - 1 - n div 8) + n mod 8" by simp
    then have "bit (drop_bit 8 inp) (8 * (k - 1 - n div 8) + n mod 8) = bit inp (8 * (Suc k - 1 - n div 8) + n mod 8)"
      by (simp only: bit_drop_bit_eq comp_apply)
    with 1 show ?thesis by (simp add: Suc)
  next
    case 2
    then have "n div 8 = k" "n mod 8 = n - 8 * k" "n - 8 * k < 8"
      by (auto simp: div_nat_eqI minus_mult_div_eq_mod [symmetric])
    with 2 show ?thesis by (simp add: Suc rv)
  next
    case 3
    then have "n - 8 * k - 8 = n - 8 * Suc k" by simp
    with 3 show ?thesis by (auto simp: Suc rv)
  qed
qed

lemma bit_mc_swap64: "bit (mc_swap64 v) n \<longleftrightarrow> n < 64 \<and> bit v (8 * (7 - n div 8) + n mod 8)"
  by (auto simp: mc_swap64_def bit_mc_swap64_loop)

lemma mc_swap64_involution: "mc_swap64 (mc_swap64 v) = v"
proof (rule bit_word_eqI)
  fix n assume "n < LENGTH(64)"
  then have n: "n < 64" by simp
  let ?m = "8 * (7 - n div 8) + n mod 8"
  have "n div 8 \<le> 7" using n by simp
  then have "?m < 64" "?m div 8 = 7 - n div 8" "?m mod 8 = n mod 8" by auto
  moreover have "8 * (7 - (7 - n div 8)) + n mod 8 = n" using \<open>n div 8 \<le> 7\<close> by simp
  ultimately show "bit (mc_swap64 (mc_swap64 v)) n = bit v n" using n by (simp add: bit_mc_swap64)
qed

lemma length_print_decimal: "n < 10 ^ m \<Longrightarrow> 0 < m \<Longrightarrow> length (print_decimal n) \<le> m"
proof (induction n arbitrary: m rule: print_decimal.induct)
  case (1 n)
  show ?case
  proof (cases "n < 10")
    case True
    then show ?thesis using 1(3) by (subst print_decimal.simps) simp
  next
    case False
    then obtain m' where m: "m = Suc m'" "0 < m'"
      using 1(2,3) by (cases m) (auto simp: less_eq_Suc_le [symmetric], metis gr0I not_less power_0 less_Suc0 One_nat_def mult_1_right less_trans_Suc less_one)
    then have "n div 10 < 10 ^ m'" using 1(2) by (simp add: less_mult_imp_div_less mult.commute)
    then show ?thesis using 1(1) [OF False _ m(2)] False m by (subst print_decimal.simps) simp
  qed
qed

lemma length_print_u64: "length (print_decimal (unat (v :: u64))) \<le> 20"
proof (rule length_print_decimal)
  have "unat v < 2 ^ LENGTH(64)" by (rule unsigned_less)
  then show "unat v < 10 ^ 20" by simp
qed simp

lemma safe_strtoull_too_big:
  assumes "rest = [] \<or> isspace (hd rest)" "2 ^ 64 \<le> n"
  shows "safe_strtoull (print_decimal n @ rest) = (False, 0)"
proof -
  have "rest = [] \<or> \<not> isdigit (hd rest)" using assms(1) isspace_not_digit by blast
  then have "strtoull (print_decimal n @ rest) = (- 1, rest, True)"
    using assms(2) by (simp add: strtoull_def strto_scan_print)
  then show ?thesis by (simp add: safe_strtoull_def)
qed

text \<open>
  C40. Reading back a printed number, at the end of the text or followed by white space, gives the
  number when it fits 64 bits and is refused when it does not.
\<close>

theorem safe_strtoull_reads_printed:
  assumes "rest = [] \<or> isspace (hd rest)" "45 \<notin> set rest"
  shows "safe_strtoull (print_decimal n @ rest) = (if n < 2 ^ 64 then (True, of_nat n) else (False, 0))"
proof (cases "n < 2 ^ 64")
  case True
  then have "unat (of_nat n :: u64) = n" by (simp add: unat_of_nat take_bit_nat_eq_self)
  with True safe_strtoull_print [OF assms, of "of_nat n"] show ?thesis by simp
next
  case False
  then show ?thesis using safe_strtoull_too_big [OF assms(1), of n] by simp
qed

theorem safe_strtoull_reads_printed_witness:
  "safe_strtoull (print_decimal 18446744073709551615 @ [32, 48]) = (True, - 1)
   \<and> safe_strtoull (print_decimal 18446744073709551616) = (False, 0)"
  using safe_strtoull_reads_printed [of "[32, 48]" 18446744073709551615] safe_strtoull_reads_printed [of "[]" 18446744073709551616]
  by (simp add: isspace_def)

text \<open>
  The conversions between host and network byte order are inverse to each other, and they
  reverse the order of the eight bytes without touching the bits of a byte.
\<close>

theorem byte_order_roundtrip:
  "ntohll (htonll v) = v \<and> htonll (ntohll v) = v
   \<and> (\<forall>i j. i < 8 \<and> j < 8 \<longrightarrow> bit (htonll v) (8 * i + j) = bit v (8 * (7 - i) + j))"
proof -
  have "bit (htonll v) (8 * i + j) = bit v (8 * (7 - i) + j)" if "i < 8" "j < 8" for i j
  proof -
    have "(8 * i + j) div 8 = i" "(8 * i + j) mod 8 = j" "8 * i + j < 64" using that by auto
    then show ?thesis by (simp add: htonll_def bit_mc_swap64)
  qed
  then show ?thesis by (simp add: ntohll_def htonll_def mc_swap64_involution)
qed

theorem byte_order_roundtrip_witness: "ntohll (htonll 0x0102030405060708) = 0x0102030405060708 \<and> bit (htonll 1) 56"
proof -
  have "bit (htonll 1) (8 * 7 + 0)"
    by (subst byte_order_roundtrip [THEN conjunct2, THEN conjunct2, rule_format]) simp_all
  then show ?thesis using byte_order_roundtrip [of "0x0102030405060708"] by simp
qed

end
