(* ===== verification/Items.thy ===== *)
theory Items
  imports Assoc Slabs Util
begin

unbundle bit_operations_syntax

text \<open>
  The item layer, \<^verbatim>\<open>memcached/engines/default_engine/items.c\<close>: allocation with reclaiming and
  eviction, the LRU queues, linking and unlinking, reference counts, lazy expiry, the store
  operations and arithmetic. Every function here runs under \<^verbatim>\<open>cache_lock\<close>. Logging and the
  DTrace probes are left out.
\<close>

section \<open>Small helpers\<close>

definition ITEM_UPDATE_INTERVAL :: u32 where "ITEM_UPDATE_INTERVAL = 60"
definition TAIL_REPAIR_TIME :: u32 where "TAIL_REPAIR_TIME = 3 * 3600"
definition search_items :: nat where "search_items = 50"

definition ITEM_ntotal :: "default_engine \<Rightarrow> hash_item \<Rightarrow> u64" where
  "ITEM_ntotal e it =
     (let ret = sizeof_hash_item + ucast (it_nkey it) + ucast (it_nbytes it) in
      if use_cas (config e) then ret + 8 else ret)"

definition get_cas_id :: "default_engine \<Rightarrow> u64 \<times> default_engine" where
  "get_cas_id e = (cas_id e + 1, e\<lparr>cas_id := cas_id e + 1\<rparr>)"

definition item_stats_reset :: "default_engine \<Rightarrow> default_engine" where
  "item_stats_reset e = e\<lparr>items := (items e)\<lparr>itemstats :=
     map (\<lambda>_. \<lparr>evicted = 0, evicted_nonzero = 0, evicted_time = 0, outofmemory = 0,
               tailrepairs = 0, reclaimed = 0\<rparr>) (itemstats (items e))\<rparr>\<rparr>"

definition upd_itemstats :: "nat \<Rightarrow> (itemstats \<Rightarrow> itemstats) \<Rightarrow> default_engine \<Rightarrow> default_engine option" where
  "upd_itemstats cid g e =
     do {
       st \<leftarrow> arr_get (itemstats (items e)) cid;
       Some (e\<lparr>items := (items e)\<lparr>itemstats := (itemstats (items e))[cid := g st]\<rparr>\<rparr>)
     }"

definition upd_stats :: "(engine_stats \<Rightarrow> engine_stats) \<Rightarrow> default_engine \<Rightarrow> default_engine" where
  "upd_stats g e = e\<lparr>stats := g (stats e)\<rparr>"

text \<open>\<^verbatim>\<open>memcpy(item_get_data(it) + off, bs, n)\<close>\<close>

definition data_write :: "nat \<Rightarrow> byte list \<Rightarrow> hash_item \<Rightarrow> hash_item" where
  "data_write off bs it = it\<lparr>it_data :=
     take off (it_data it @ replicate (off - length (it_data it)) 0)
     @ bs @ drop (off + length bs) (it_data it)\<rparr>"

section \<open>LRU queues\<close>

definition item_link_q :: "default_engine \<Rightarrow> ptr \<Rightarrow> default_engine option" where
  "item_link_q e it =
     do {
       let c = unat (it_clsid (mem e it));
       guard (c < POWER_LARGEST);
       guard (\<not> slabbed (mem e it));
       head \<leftarrow> arr_get (heads (items e)) c;
       tail \<leftarrow> arr_get (tails (items e)) c;
       guard (it \<noteq> head);
       guard ((head \<noteq> NULL \<and> tail \<noteq> NULL) \<or> (head = NULL \<and> tail = NULL));
       let e = upd_item it (\<lambda>i. i\<lparr>it_prev := NULL, it_next := head\<rparr>) e;
       let e = (if head \<noteq> NULL then upd_item head (\<lambda>i. i\<lparr>it_prev := it\<rparr>) e else e);
       n \<leftarrow> arr_get (sizes (items e)) c;
       Some (e\<lparr>items := (items e)\<lparr>
               heads := (heads (items e))[c := it],
               tails := (if tail = NULL then (tails (items e))[c := it] else tails (items e)),
               sizes := (sizes (items e))[c := n + 1]\<rparr>\<rparr>)
     }"

definition item_unlink_q :: "default_engine \<Rightarrow> ptr \<Rightarrow> default_engine option" where
  "item_unlink_q e it =
     do {
       let c = unat (it_clsid (mem e it));
       guard (c < POWER_LARGEST);
       head \<leftarrow> arr_get (heads (items e)) c;
       tail \<leftarrow> arr_get (tails (items e)) c;
       guard (head = it \<longrightarrow> it_prev (mem e it) = NULL);
       let e = (if head = it
                then e\<lparr>items := (items e)\<lparr>heads := (heads (items e))[c := it_next (mem e it)]\<rparr>\<rparr> else e);
       guard (tail = it \<longrightarrow> it_next (mem e it) = NULL);
       let e = (if tail = it
                then e\<lparr>items := (items e)\<lparr>tails := (tails (items e))[c := it_prev (mem e it)]\<rparr>\<rparr> else e);
       guard (it_next (mem e it) \<noteq> it);
       guard (it_prev (mem e it) \<noteq> it);
       let nxt = it_next (mem e it);
       let e = (if nxt \<noteq> NULL then upd_item nxt (\<lambda>i. i\<lparr>it_prev := it_prev (mem e it)\<rparr>) e else e);
       let prv = it_prev (mem e it);
       let e = (if prv \<noteq> NULL then upd_item prv (\<lambda>i. i\<lparr>it_next := it_next (mem e it)\<rparr>) e else e);
       n \<leftarrow> arr_get (sizes (items e)) c;
       Some (e\<lparr>items := (items e)\<lparr>sizes := (sizes (items e))[c := n - 1]\<rparr>\<rparr>)
     }"

text \<open>
  The three searches of \<^verbatim>\<open>do_item_alloc\<close> walk a queue from its tail along \<^verbatim>\<open>prev\<close>, look at no
  more than \<^verbatim>\<open>tries\<close> items, and act on the first that satisfies a test.
\<close>

fun lru_search :: "(hash_item \<Rightarrow> bool) \<Rightarrow> nat \<Rightarrow> item_mem \<Rightarrow> ptr \<Rightarrow> ptr" where
  "lru_search P 0 m search = NULL"
| "lru_search P (Suc tries) m search =
     (if search = NULL then NULL
      else if P (m search) then search
      else lru_search P tries m (it_prev (m search)))"

section \<open>Linking, unlinking, releasing\<close>

definition item_free :: "default_engine \<Rightarrow> ptr \<Rightarrow> default_engine option" where
  "item_free e it =
     do {
       let ntotal = ITEM_ntotal e (mem e it);
       guard (\<not> linked (mem e it));
       let clsid = unat (it_clsid (mem e it));
       head \<leftarrow> arr_get (heads (items e)) clsid;
       guard (it \<noteq> head);
       tail \<leftarrow> arr_get (tails (items e)) clsid;
       guard (it \<noteq> tail);
       guard (it_refcount (mem e it) = 0);
       let e = upd_item it (\<lambda>i. i\<lparr>it_clsid := 0, it_iflag := it_iflag i OR ITEM_SLABBED\<rparr>) e;
       slabs_free e it ntotal clsid
     }"

definition do_item_link :: "default_engine \<Rightarrow> ptr \<Rightarrow> default_engine option" where
  "do_item_link e it =
     do {
       guard (it_iflag (mem e it) AND (ITEM_LINKED OR ITEM_SLABBED) = 0);
       guard (it_nbytes (mem e it) < 1024 * 1024);
       let e = upd_item it (\<lambda>i. i\<lparr>it_iflag := it_iflag i OR ITEM_LINKED,
                                 it_time := current_time e\<rparr>) e;
       e \<leftarrow> assoc_insert e (hash_of e it) it;
       let e = upd_stats (\<lambda>s. s\<lparr>st_curr_bytes := st_curr_bytes s + ITEM_ntotal e (mem e it),
                               st_curr_items := st_curr_items s + 1,
                               st_total_items := st_total_items s + 1\<rparr>) e;
       let (cas, e) = get_cas_id e;
       let e = upd_item it (item_set_cas cas) e;
       item_link_q e it
     }"

definition do_item_unlink :: "default_engine \<Rightarrow> ptr \<Rightarrow> default_engine option" where
  "do_item_unlink e it =
     (if linked (mem e it) then
        do {
          let e = upd_item it (\<lambda>i. i\<lparr>it_iflag := it_iflag i AND NOT ITEM_LINKED\<rparr>) e;
          let e = upd_stats (\<lambda>s. s\<lparr>st_curr_bytes := st_curr_bytes s - ITEM_ntotal e (mem e it),
                                  st_curr_items := st_curr_items s - 1\<rparr>) e;
          e \<leftarrow> assoc_delete e (hash_of e it) (item_get_key (mem e it));
          e \<leftarrow> item_unlink_q e it;
          if it_refcount (mem e it) = 0 then item_free e it else Some e
        }
      else Some e)"

definition do_item_release :: "default_engine \<Rightarrow> ptr \<Rightarrow> default_engine option" where
  "do_item_release e it =
     (let e = (if it_refcount (mem e it) \<noteq> 0
               then upd_item it (\<lambda>i. i\<lparr>it_refcount := it_refcount i - 1\<rparr>) e else e)
      in if it_refcount (mem e it) = 0 \<and> \<not> linked (mem e it) then item_free e it else Some e)"

definition do_item_update :: "default_engine \<Rightarrow> ptr \<Rightarrow> default_engine option" where
  "do_item_update e it =
     (if it_time (mem e it) < current_time e - ITEM_UPDATE_INTERVAL then
        do {
          guard (\<not> slabbed (mem e it));
          if linked (mem e it) then
            do {
              e \<leftarrow> item_unlink_q e it;
              item_link_q (upd_item it (\<lambda>i. i\<lparr>it_time := current_time e\<rparr>) e) it
            }
          else Some e
        }
      else Some e)"

definition do_item_replace :: "default_engine \<Rightarrow> ptr \<Rightarrow> ptr \<Rightarrow> default_engine option" where
  "do_item_replace e it new_it =
     do {
       guard (\<not> slabbed (mem e it));
       e \<leftarrow> do_item_unlink e it;
       do_item_link e new_it
     }"

section \<open>Allocating\<close>

definition alloc_size :: "default_engine \<Rightarrow> key \<Rightarrow> u32 \<Rightarrow> u64" where
  "alloc_size e k nbytes =
     (let ntotal = sizeof_hash_item + of_nat (length k) + scast nbytes in
      if use_cas (config e) then ntotal + 8 else ntotal)"

definition reclaimable :: "u32 \<Rightarrow> hash_item \<Rightarrow> bool" where
  "reclaimable now it = (it_refcount it = 0 \<and> it_exptime it \<noteq> 0 \<and> it_exptime it < now)"

text \<open>Stealing an expired item found near the tail.\<close>

definition steal_item :: "default_engine \<Rightarrow> nat \<Rightarrow> u64 \<Rightarrow> ptr \<Rightarrow> default_engine option" where
  "steal_item e cid ntotal it =
     do {
       let e = upd_stats (\<lambda>s. s\<lparr>st_reclaimed := st_reclaimed s + 1\<rparr>) e;
       e \<leftarrow> upd_itemstats cid (\<lambda>s. s\<lparr>reclaimed := reclaimed s + 1\<rparr>) e;
       let e = upd_item it (\<lambda>i. i\<lparr>it_refcount := 1\<rparr>) e;
       e \<leftarrow> slabs_adjust_mem_requested e (unat (it_clsid (mem e it))) (ITEM_ntotal e (mem e it)) ntotal;
       e \<leftarrow> do_item_unlink e it;
       Some (upd_item it (\<lambda>i. i\<lparr>it_clsid := 0, it_refcount := 0\<rparr>) e)
     }"

text \<open>Evicting the least recently used item that nobody holds.\<close>

definition evict_item :: "default_engine \<Rightarrow> nat \<Rightarrow> ptr \<Rightarrow> default_engine option" where
  "evict_item e cid search =
     do {
       let it = mem e search;
       e \<leftarrow> (if it_exptime it = 0 \<or> it_exptime it > current_time e then
              do {
                e \<leftarrow> upd_itemstats cid (\<lambda>s. s\<lparr>evicted := evicted s + 1,
                        evicted_time := current_time e - it_time it,
                        evicted_nonzero := (if it_exptime it \<noteq> 0 then evicted_nonzero s + 1
                                            else evicted_nonzero s)\<rparr>) e;
                let e = upd_stats (\<lambda>s. s\<lparr>st_evictions := st_evictions s + 1\<rparr>) e;
                Some (e\<lparr>srv := (srv e)\<lparr>srv_evicting := item_get_key it # srv_evicting (srv e)\<rparr>\<rparr>)
              }
            else
              do {
                e \<leftarrow> upd_itemstats cid (\<lambda>s. s\<lparr>reclaimed := reclaimed s + 1\<rparr>) e;
                Some (upd_stats (\<lambda>s. s\<lparr>st_reclaimed := st_reclaimed s + 1\<rparr>) e)
              });
       do_item_unlink e search
     }"

definition count_oom :: "nat \<Rightarrow> default_engine \<Rightarrow> default_engine option" where
  "count_oom cid = upd_itemstats cid (\<lambda>s. s\<lparr>outofmemory := outofmemory s + 1\<rparr>)"

text \<open>The last resort: an item that has been held for more than three hours.\<close>

definition repair_tail :: "default_engine \<Rightarrow> nat \<Rightarrow> default_engine option" where
  "repair_tail e cid =
     do {
       tail \<leftarrow> arr_get (tails (items e)) cid;
       let search = lru_search (\<lambda>i. it_refcount i \<noteq> 0 \<and> it_time i + TAIL_REPAIR_TIME < current_time e)
                      search_items (mem e) tail;
       if search = NULL then Some e
       else do {
         e \<leftarrow> upd_itemstats cid (\<lambda>s. s\<lparr>tailrepairs := tailrepairs s + 1\<rparr>) e;
         do_item_unlink (upd_item search (\<lambda>i. i\<lparr>it_refcount := 0\<rparr>) e) search
       }
     }"

text \<open>The part of \<^verbatim>\<open>do_item_alloc\<close> that runs when the first \<^verbatim>\<open>slabs_alloc\<close> fails.\<close>

definition alloc_by_evicting :: "default_engine \<Rightarrow> nat \<Rightarrow> u64 \<Rightarrow> (ptr \<times> default_engine) option" where
  "alloc_by_evicting e cid ntotal =
     (if \<not> evict_to_free (config e) then do { e \<leftarrow> count_oom cid e; Some (NULL, e) }
      else do {
        tail \<leftarrow> arr_get (tails (items e)) cid;
        if tail = NULL then do { e \<leftarrow> count_oom cid e; Some (NULL, e) }
        else do {
          let search = lru_search (\<lambda>i. it_refcount i = 0) search_items (mem e) tail;
          e \<leftarrow> (if search = NULL then Some e else evict_item e cid search);
          (it, e) \<leftarrow> slabs_alloc e ntotal cid;
          if it \<noteq> NULL then Some (it, e)
          else do {
            e \<leftarrow> count_oom cid e;
            e \<leftarrow> repair_tail e cid;
            slabs_alloc e ntotal cid
          }
        }
      })"

definition init_item :: "default_engine \<Rightarrow> nat \<Rightarrow> key \<Rightarrow> u32 \<Rightarrow> u32 \<Rightarrow> u32 \<Rightarrow> ptr \<Rightarrow> default_engine option" where
  "init_item e cid k flags exptime nbytes it =
     do {
       guard (it_clsid (mem e it) = 0);
       let e = upd_item it (\<lambda>i. i\<lparr>it_clsid := of_nat cid\<rparr>) e;
       head \<leftarrow> arr_get (heads (items e)) (unat (it_clsid (mem e it)));
       guard (it \<noteq> head);
       Some (upd_item it (\<lambda>i. i\<lparr>it_next := NULL, it_prev := NULL, h_next := NULL,
               it_refcount := 1,
               it_iflag := (if use_cas (config e) then ITEM_WITH_CAS else 0),
               it_nkey := of_nat (length k), it_nbytes := nbytes, it_flags := flags,
               it_key := k, it_exptime := exptime\<rparr>) e)
     }"

definition do_item_alloc ::
    "default_engine \<Rightarrow> key \<Rightarrow> u32 \<Rightarrow> u32 \<Rightarrow> u32 \<Rightarrow> (ptr \<times> default_engine) option" where
  "do_item_alloc e k flags exptime nbytes =
     do {
       let ntotal = alloc_size e k nbytes;
       cid \<leftarrow> slabs_clsid e ntotal;
       if cid = 0 then Some (NULL, e)
       else do {
         tail \<leftarrow> arr_get (tails (items e)) cid;
         let search = lru_search (reclaimable (current_time e)) search_items (mem e) tail;
         (it, e) \<leftarrow>
           (if search \<noteq> NULL then do { e \<leftarrow> steal_item e cid ntotal search; Some (search, e) }
            else do {
              (it, e) \<leftarrow> slabs_alloc e ntotal cid;
              if it \<noteq> NULL then Some (it, e) else alloc_by_evicting e cid ntotal
            });
         if it = NULL then Some (NULL, e)
         else do { e \<leftarrow> init_item e cid k flags exptime nbytes it; Some (it, e) }
       }
     }"

section \<open>Getting\<close>

definition flushed :: "default_engine \<Rightarrow> hash_item \<Rightarrow> bool" where
  "flushed e it = (oldest_live (config e) \<noteq> 0 \<and> oldest_live (config e) \<le> current_time e
     \<and> it_time it \<le> oldest_live (config e))"

definition do_item_get :: "default_engine \<Rightarrow> key \<Rightarrow> (ptr \<times> default_engine) option" where
  "do_item_get e k =
     do {
       it \<leftarrow> assoc_find e (srv_hash (srv e) k) k;
       (it, e) \<leftarrow> (if it \<noteq> NULL \<and> flushed e (mem e it)
                    then do { e \<leftarrow> do_item_unlink e it; Some (NULL, e) } else Some (it, e));
       (it, e) \<leftarrow> (if it \<noteq> NULL \<and> it_exptime (mem e it) \<noteq> 0 \<and> it_exptime (mem e it) \<le> current_time e
                    then do { e \<leftarrow> do_item_unlink e it; Some (NULL, e) } else Some (it, e));
       if it \<noteq> NULL
       then do {
         e \<leftarrow> do_item_update (upd_item it (\<lambda>i. i\<lparr>it_refcount := it_refcount i + 1\<rparr>) e) it;
         Some (it, e)
       }
       else Some (NULL, e)
     }"

section \<open>Storing\<close>

text \<open>Append and prepend: a new item with both values.\<close>

definition combine_items ::
    "default_engine \<Rightarrow> ENGINE_STORE_OPERATION \<Rightarrow> ptr \<Rightarrow> ptr \<Rightarrow> (ptr \<times> default_engine) option" where
  "combine_items e operation it old_it =
     do {
       (new_it, e) \<leftarrow> do_item_alloc e (item_get_key (mem e it)) (it_flags (mem e old_it))
          (it_exptime (mem e old_it)) (it_nbytes (mem e it) + it_nbytes (mem e old_it));
       if new_it = NULL then Some (NULL, e)
       else (let new = item_get_data (mem e it); old = item_get_data (mem e old_it);
                 (a, b, n) = (if operation = OPERATION_APPEND
                   then (old, new, unat (it_nbytes (mem e old_it)))
                   else (new, old, unat (it_nbytes (mem e it))))
             in Some (new_it, upd_item new_it (\<lambda>i. data_write n b (data_write 0 a i)) e))
     }"

definition do_store_item ::
    "default_engine \<Rightarrow> ptr \<Rightarrow> u64 \<Rightarrow> ENGINE_STORE_OPERATION
     \<Rightarrow> (ENGINE_ERROR_CODE \<times> u64 \<times> default_engine) option" where
  "do_store_item e it cas operation =
     do {
       (old_it, e) \<leftarrow> do_item_get e (item_get_key (mem e it));
       if old_it \<noteq> NULL \<and> operation = OPERATION_ADD then
         do {
           e \<leftarrow> do_item_update e old_it;
           e \<leftarrow> do_item_release e old_it;
           Some (ENGINE_NOT_STORED, cas, e)
         }
       else if old_it = NULL \<and> operation \<in> {OPERATION_REPLACE, OPERATION_APPEND, OPERATION_PREPEND} then
         Some (ENGINE_NOT_STORED, cas, e)
       else if operation = OPERATION_CAS then
         (if old_it = NULL then Some (ENGINE_KEY_ENOENT, cas, e)
          else if item_get_cas (mem e it) = item_get_cas (mem e old_it) then
            do {
              e \<leftarrow> do_item_replace e old_it it;
              e \<leftarrow> do_item_release e old_it;
              Some (ENGINE_SUCCESS, item_get_cas (mem e it), e)
            }
          else do { e \<leftarrow> do_item_release e old_it; Some (ENGINE_KEY_EEXISTS, cas, e) })
       else if operation \<in> {OPERATION_APPEND, OPERATION_PREPEND} then
         (if item_get_cas (mem e it) \<noteq> 0 \<and> item_get_cas (mem e it) \<noteq> item_get_cas (mem e old_it) then
            do { e \<leftarrow> do_item_release e old_it; Some (ENGINE_KEY_EEXISTS, cas, e) }
          else
            do {
              (new_it, e) \<leftarrow> combine_items e operation it old_it;
              if new_it = NULL then
                do { e \<leftarrow> do_item_release e old_it; Some (ENGINE_NOT_STORED, cas, e) }
              else
                do {
                  e \<leftarrow> do_item_replace e old_it new_it;
                  e \<leftarrow> do_item_release e old_it;
                  e \<leftarrow> do_item_release e new_it;
                  Some (ENGINE_SUCCESS, item_get_cas (mem e new_it), e)
                }
            })
       else
         do {
           e \<leftarrow> (if old_it \<noteq> NULL
                 then do { e \<leftarrow> do_item_replace e old_it it; do_item_release e old_it }
                 else do_item_link e it);
           Some (ENGINE_SUCCESS, item_get_cas (mem e it), e)
         }
     }"

section \<open>Arithmetic\<close>

text \<open>Result code, CAS, numeric result.\<close>

definition do_add_delta ::
    "default_engine \<Rightarrow> ptr \<Rightarrow> bool \<Rightarrow> u64 \<Rightarrow> u64 \<Rightarrow> u64
     \<Rightarrow> (ENGINE_ERROR_CODE \<times> u64 \<times> u64 \<times> default_engine) option" where
  "do_add_delta e it incr delta rcas result =
     (if unat (it_nbytes (mem e it)) \<ge> 80 - 1 then Some (ENGINE_EINVAL, rcas, result, e)
      else
        (let (ok, val) = safe_strtoull (c_string (item_get_data (mem e it))) in
         if \<not> ok then Some (ENGINE_EINVAL, rcas, result, e)
         else
           (let val = (if incr then val + delta else if delta > val then 0 else val - delta);
                buf = print_decimal (unat val);
                res = length buf
            in if it_refcount (mem e it) = 1 \<and> res \<le> unat (it_nbytes (mem e it)) then
                 (let e = upd_item it (\<lambda>i. data_write res
                            (replicate (unat (it_nbytes i) - res) 32) (data_write 0 buf i)) e;
                      (c, e) = get_cas_id e;
                      e = upd_item it (item_set_cas c) e
                  in Some (ENGINE_SUCCESS, item_get_cas (mem e it), val, e))
               else
                 do {
                   (new_it, e) \<leftarrow> do_item_alloc e (item_get_key (mem e it)) (it_flags (mem e it))
                                   (it_exptime (mem e it)) (of_nat res);
                   if new_it = NULL then
                     do { e \<leftarrow> do_item_unlink e it; Some (ENGINE_ENOMEM, rcas, val, e) }
                   else
                     do {
                       let e = upd_item new_it (data_write 0 buf) e;
                       e \<leftarrow> do_item_replace e it new_it;
                       let c = item_get_cas (mem e new_it);
                       e \<leftarrow> do_item_release e new_it;
                       Some (ENGINE_SUCCESS, c, val, e)
                     }
                 })))"

definition do_arithmetic ::
    "default_engine \<Rightarrow> key \<Rightarrow> bool \<Rightarrow> bool \<Rightarrow> u64 \<Rightarrow> u64 \<Rightarrow> u32 \<Rightarrow> u64 \<Rightarrow> u64
     \<Rightarrow> (ENGINE_ERROR_CODE \<times> u64 \<times> u64 \<times> default_engine) option" where
  "do_arithmetic e k increment create delta initial exptime cas result =
     do {
       (item, e) \<leftarrow> do_item_get e k;
       if item = NULL then
         (if \<not> create then Some (ENGINE_KEY_ENOENT, cas, result, e)
          else
            do {
              let buffer = print_decimal (unat initial);
              (item, e) \<leftarrow> do_item_alloc e k 0 exptime (of_nat (length buffer));
              if item = NULL then Some (ENGINE_ENOMEM, cas, result, e)
              else
                do {
                  let e = upd_item item (data_write 0 buffer) e;
                  (ret, cas, e) \<leftarrow> do_store_item e item cas OPERATION_ADD;
                  let (cas, result) = (if ret = ENGINE_SUCCESS
                                       then (item_get_cas (mem e item), initial) else (cas, result));
                  e \<leftarrow> do_item_release e item;
                  Some (ret, cas, result, e)
                }
            })
       else
         do {
           (ret, cas, result, e) \<leftarrow> do_add_delta e item increment delta cas result;
           e \<leftarrow> do_item_release e item;
           Some (ret, cas, result, e)
         }
     }"

section \<open>Touching and flushing\<close>

definition do_touch_item :: "default_engine \<Rightarrow> key \<Rightarrow> u32 \<Rightarrow> (ptr \<times> default_engine) option" where
  "do_touch_item e k exptime =
     do {
       (it, e) \<leftarrow> do_item_get e k;
       Some (it, if it \<noteq> NULL then upd_item it (\<lambda>i. i\<lparr>it_exptime := exptime\<rparr>) e else e)
     }"

partial_function (option) flush_queue :: "ptr \<Rightarrow> default_engine \<Rightarrow> default_engine option" where
  "flush_queue iter e =
     (if iter = NULL then Some e
      else if it_time (mem e iter) \<ge> oldest_live (config e) then
        do {
          let nxt = it_next (mem e iter);
          e \<leftarrow> (if \<not> slabbed (mem e iter) then do_item_unlink e iter else Some e);
          flush_queue nxt e
        }
      else Some e)"

fun flush_classes :: "nat list \<Rightarrow> default_engine \<Rightarrow> default_engine option" where
  "flush_classes [] e = Some e"
| "flush_classes (i # is) e =
     do {
       head \<leftarrow> arr_get (heads (items e)) i;
       e \<leftarrow> flush_queue head e;
       flush_classes is e
     }"

definition item_flush_expired :: "default_engine \<Rightarrow> int \<Rightarrow> default_engine option" where
  "item_flush_expired e when =
     (let live = (if when = 0 then current_time e - 1 else srv_realtime (srv e) when - 1);
          e = e\<lparr>config := (config e)\<lparr>oldest_live := live\<rparr>\<rparr>
      in if oldest_live (config e) \<noteq> 0 then flush_classes [0..<POWER_LARGEST] e else Some e)"

end
