(* ===== verification/LRU.thy ===== *)
theory LRU
  imports Items
begin

unbundle bit_operations_syntax

text \<open>
  The LRU queues of the item layer: one doubly linked list per slab class, most recently used
  item first. The theory gives the representation of the queues, and shows that linking and
  unlinking an item add and remove exactly that item.
\<close>

section \<open>What a queue represents\<close>

text \<open>
  \<open>lru_queue e c xs\<close>: the queue of class \<open>c\<close>, from head to tail, is the doubly linked list \<open>xs\<close>,
  and the counter of the class is its length.
\<close>

abbreviation nxt :: "default_engine \<Rightarrow> ptr \<Rightarrow> ptr" where
  "nxt e \<equiv> \<lambda>x. it_next (mem e x)"

abbreviation prv :: "default_engine \<Rightarrow> ptr \<Rightarrow> ptr" where
  "prv e \<equiv> \<lambda>x. it_prev (mem e x)"

abbreviation clsid :: "default_engine \<Rightarrow> ptr \<Rightarrow> nat" where
  "clsid e x \<equiv> unat (it_clsid (mem e x))"

definition items_ok :: "items \<Rightarrow> bool" where
  "items_ok q = (length (heads q) = POWER_LARGEST \<and> length (tails q) = POWER_LARGEST
     \<and> length (itemstats q) = POWER_LARGEST \<and> length (sizes q) = POWER_LARGEST)"

definition lru_queue :: "default_engine \<Rightarrow> nat \<Rightarrow> ptr list \<Rightarrow> bool" where
  "lru_queue e c xs \<longleftrightarrow> dll (nxt e) (prv e) NULL (heads (items e) ! c) xs NULL
     \<and> tails (items e) ! c = last_or NULL xs
     \<and> sizes (items e) ! c = of_nat (length xs)"

definition same_but_q :: "item_mem \<Rightarrow> item_mem \<Rightarrow> bool" where
  "same_but_q m m' = (\<forall>x. (m' x)\<lparr>it_next := NULL, it_prev := NULL\<rparr> =
     (m x)\<lparr>it_next := NULL, it_prev := NULL\<rparr>)"

lemma same_but_q_fields:
  assumes "same_but_q m m'"
  shows "h_next (m' x) = h_next (m x)"
    "it_time (m' x) = it_time (m x)" "it_exptime (m' x) = it_exptime (m x)"
    "it_nbytes (m' x) = it_nbytes (m x)" "it_flags (m' x) = it_flags (m x)"
    "it_nkey (m' x) = it_nkey (m x)" "it_iflag (m' x) = it_iflag (m x)"
    "it_refcount (m' x) = it_refcount (m x)" "it_clsid (m' x) = it_clsid (m x)"
    "it_cas (m' x) = it_cas (m x)" "it_key (m' x) = it_key (m x)" "it_data (m' x) = it_data (m x)"
proof -
  have eq: "(m' x)\<lparr>it_next := NULL, it_prev := NULL\<rparr> = (m x)\<lparr>it_next := NULL, it_prev := NULL\<rparr>"
    using assms by (simp add: same_but_q_def)
  show "h_next (m' x) = h_next (m x)"
    "it_time (m' x) = it_time (m x)" "it_exptime (m' x) = it_exptime (m x)"
    "it_nbytes (m' x) = it_nbytes (m x)" "it_flags (m' x) = it_flags (m x)"
    "it_nkey (m' x) = it_nkey (m x)" "it_iflag (m' x) = it_iflag (m x)"
    "it_refcount (m' x) = it_refcount (m x)" "it_clsid (m' x) = it_clsid (m x)"
    "it_cas (m' x) = it_cas (m x)" "it_key (m' x) = it_key (m x)" "it_data (m' x) = it_data (m x)"
    using arg_cong [OF eq, of h_next]
      arg_cong [OF eq, of it_time] arg_cong [OF eq, of it_exptime]
      arg_cong [OF eq, of it_nbytes] arg_cong [OF eq, of it_flags]
      arg_cong [OF eq, of it_nkey] arg_cong [OF eq, of it_iflag]
      arg_cong [OF eq, of it_refcount] arg_cong [OF eq, of it_clsid]
      arg_cong [OF eq, of it_cas] arg_cong [OF eq, of it_key] arg_cong [OF eq, of it_data]
    by simp_all
qed

lemma same_but_q_refl [simp]: "same_but_q m m"
  by (simp add: same_but_q_def)

lemma same_but_q_trans: "same_but_q m m' \<Longrightarrow> same_but_q m' m'' \<Longrightarrow> same_but_q m m''"
  by (simp add: same_but_q_def)

text \<open>What the queue operations change: links, heads, tails and counters of one class.\<close>

definition queue_frame :: "nat \<Rightarrow> default_engine \<Rightarrow> default_engine \<Rightarrow> bool" where
  "queue_frame c e e' \<longleftrightarrow> srv e' = srv e \<and> os e' = os e \<and> slabs e' = slabs e \<and> assoc e' = assoc e
     \<and> config e' = config e \<and> stats e' = stats e \<and> scrubber e' = scrubber e \<and> cas_id e' = cas_id e
     \<and> initialized e' = initialized e \<and> tap_clients e' = tap_clients e
     \<and> vbucket_infos e' = vbucket_infos e \<and> num_features e' = num_features e
     \<and> same_but_q (mem e) (mem e')
     \<and> itemstats (items e') = itemstats (items e) \<and> items_ok (items e') = items_ok (items e)
     \<and> (\<forall>d. d \<noteq> c \<longrightarrow> heads (items e') ! d = heads (items e) ! d
              \<and> tails (items e') ! d = tails (items e) ! d
              \<and> sizes (items e') ! d = sizes (items e) ! d)"

lemma queue_frameD:
  assumes "queue_frame c e e'"
  shows "srv e' = srv e" "os e' = os e" "slabs e' = slabs e" "assoc e' = assoc e"
    "config e' = config e" "stats e' = stats e" "scrubber e' = scrubber e" "cas_id e' = cas_id e"
    "same_but_q (mem e) (mem e')" "items_ok (items e') = items_ok (items e)"
    "initialized e' = initialized e" "tap_clients e' = tap_clients e"
    "vbucket_infos e' = vbucket_infos e" "num_features e' = num_features e"
    "itemstats (items e') = itemstats (items e)"
    "d \<noteq> c \<Longrightarrow> heads (items e') ! d = heads (items e) ! d"
    "d \<noteq> c \<Longrightarrow> tails (items e') ! d = tails (items e) ! d"
    "d \<noteq> c \<Longrightarrow> sizes (items e') ! d = sizes (items e) ! d"
  using assms by (simp_all add: queue_frame_def)

lemma lru_queue_other:
  assumes "lru_queue e d ys" "queue_frame c e e'" "d \<noteq> c"
    and "\<And>y. y \<in> set ys \<Longrightarrow> mem e' y = mem e y"
  shows "lru_queue e' d ys"
proof -
  have "dll (nxt e') (prv e') NULL (heads (items e') ! d) ys NULL \<longleftrightarrow>
        dll (nxt e) (prv e) NULL (heads (items e) ! d) ys NULL"
    unfolding queue_frameD(16) [OF assms(2,3)] by (rule dll_cong) (simp add: assms(4))
  then show ?thesis
    using assms(1) queue_frameD(17,18) [OF assms(2,3)] by (simp add: lru_queue_def)
qed

lemma dll_push:
  assumes "dll nx pv NULL p xs NULL" "it \<noteq> NULL" "it \<notin> set xs"
    and "nx' it = p" "pv' it = NULL"
    and "\<And>y. y \<in> set xs \<Longrightarrow> nx' y = nx y"
    and "\<And>y. y \<in> set xs \<Longrightarrow> pv' y = (if y = p then it else pv y)"
  shows "dll nx' pv' NULL it (it # xs) NULL"
proof (cases xs)
  case Nil
  with assms show ?thesis by simp
next
  case (Cons x ys)
  have "x \<notin> set ys" using dll_distinct [OF assms(1)] Cons by simp
  with assms Cons have "dll nx' pv' x (nx x) ys NULL"
    by (subst dll_cong [where nx = nx and pv = pv]) auto
  with assms Cons show ?thesis by auto
qed

lemma item_link_q_queue:
  assumes q: "lru_queue e (clsid e it) xs" and ok: "items_ok (items e)"
    and it: "it \<noteq> NULL" "it \<notin> set xs" "clsid e it < POWER_LARGEST" "\<not> slabbed (mem e it)"
  obtains e' where "item_link_q e it = Some e'" "lru_queue e' (clsid e it) (it # xs)"
    "queue_frame (clsid e it) e e'" "\<And>y. y \<notin> set (it # xs) \<Longrightarrow> mem e' y = mem e y"
proof -
  let ?c = "clsid e it"
  let ?h = "heads (items e) ! ?c" and ?t = "tails (items e) ! ?c"
  let ?e1 = "upd_item it (\<lambda>i. i\<lparr>it_prev := NULL, it_next := ?h\<rparr>) e"
  define e2 where "e2 = (if ?h \<noteq> NULL then upd_item ?h (\<lambda>i. i\<lparr>it_prev := it\<rparr>) ?e1 else ?e1)"
  define e' where "e' = e2\<lparr>items := (items e2)\<lparr>
     heads := (heads (items e2))[?c := it],
     tails := (if ?t = NULL then (tails (items e2))[?c := it] else tails (items e2)),
     sizes := (sizes (items e2))[?c := sizes (items e2) ! ?c + 1]\<rparr>\<rparr>"
  have d: "dll (nxt e) (prv e) NULL ?h xs NULL" and t: "?t = last_or NULL xs"
    and n: "sizes (items e) ! ?c = of_nat (length xs)"
    using q by (auto simp: lru_queue_def)
  have h: "?h = (case xs of [] \<Rightarrow> NULL | x # _ \<Rightarrow> x)" by (rule dll_head [OF d])
  have nn: "NULL \<notin> set xs" by (rule dll_not_NULL [OF d])
  have "xs \<noteq> [] \<Longrightarrow> last xs \<noteq> NULL" using nn last_in_set by metis
  then have ht: "?h \<noteq> it" "(?h = NULL) = (xs = [])" "(?t = NULL) = (xs = [])"
    "(0 < ?h) = (xs \<noteq> [])" "(0 < ?t) = (xs \<noteq> [])"
    using it nn by (auto simp: h t last_or_def split: list.splits)
  have items2 [simp]: "items e2 = items e" by (simp add: e2_def upd_item_def)
  have run: "item_link_q e it = Some e'"
    using it ok ht by (simp add: item_link_q_def items_ok_def e'_def e2_def upd_item_def Let_def)
  have fields: "nxt e' it = ?h" "prv e' it = NULL"
    "\<And>y. y \<in> set xs \<Longrightarrow> nxt e' y = nxt e y"
    "\<And>y. y \<in> set xs \<Longrightarrow> prv e' y = (if y = ?h then it else prv e y)"
    using it nn ht by (auto simp: e'_def e2_def upd_item_def)
  have "dll (nxt e') (prv e') NULL it (it # xs) NULL"
    by (rule dll_push [OF d it(1,2)]) (use fields in auto)
  then have "lru_queue e' ?c (it # xs)"
    using ok it ht n t by (auto simp: lru_queue_def e'_def items_ok_def last_or_def)
  moreover have "queue_frame ?c e e'"
    using ok by (auto simp: queue_frame_def e'_def e2_def upd_item_def same_but_q_def items_ok_def)
  moreover have "mem e' y = mem e y" if "y \<notin> set (it # xs)" for y
    using that ht by (auto simp: e'_def e2_def upd_item_def h split: list.splits)
  ultimately show thesis using run by (intro that [of e'])
qed


lemma dll_remove:
  assumes d: "dll nx pv pr p (xs @ x # ys) NULL"
    and nx': "\<And>y. y \<in> set (xs @ ys) \<Longrightarrow> nx' y = (if y = last_or NULL xs then nx x else nx y)"
    and pv': "\<And>y. y \<in> set (xs @ ys) \<Longrightarrow> pv' y = (if y = nx x then pv x else pv y)"
  shows "dll nx' pv' pr (if xs = [] then nx x else p) (xs @ ys) NULL"
proof -
  have dist: "distinct (xs @ x # ys)" by (rule dll_distinct [OF d])
  have nn: "NULL \<notin> set (xs @ x # ys)" by (rule dll_not_NULL [OF d])
  obtain r where r: "dll nx pv pr p xs r" "r = x" "pv x = last_or pr xs" "dll nx pv x (nx x) ys NULL"
    using d by (auto simp: dll_append)
  have nxx: "nx x = (case ys of [] \<Rightarrow> NULL | y # _ \<Rightarrow> y)" by (rule dll_head [OF r(4)])
  have tail: "dll nx' pv' (last_or pr xs) (nx x) ys NULL"
  proof (cases ys)
    case (Cons z zs)
    have "z \<noteq> last_or NULL xs" "last_or NULL xs \<notin> set zs"
      using dist nn Cons last_or_nonempty [of xs NULL] by (cases "xs = []"; auto)+
    moreover have "dll nx' pv' z (nx z) zs NULL \<longleftrightarrow> dll nx pv z (nx z) zs NULL"
      by (rule dll_cong) (use Cons nx' pv' nxx dist calculation in auto)
    ultimately show ?thesis
      using r Cons nx' [of z] pv' [of z] nxx by auto
  qed (use r in auto)
  show ?thesis
  proof (cases xs rule: rev_cases)
    case Nil
    then show ?thesis using tail by simp
  next
    case (snoc us u)
    have "dll nx pv pr p us u" "nx u = x" "pv u = last_or pr us" "u \<noteq> NULL"
      using r snoc by (auto simp: dll_append)
    moreover have "dll nx' pv' pr p us u \<longleftrightarrow> dll nx pv pr p us u"
      by (rule dll_cong) (use snoc nx' pv' nxx dist nn in \<open>auto split: list.splits\<close>)
    moreover have "nx' u = nx x" "pv' u = pv u"
      using nx' [of u] pv' [of u] snoc nxx dist nn by (auto split: list.splits)
    ultimately show ?thesis
      using tail snoc by (simp add: dll_append)
  qed
qed

lemma item_unlink_q_queue:
  assumes q: "lru_queue e (clsid e it) (xs @ it # ys)" and ok: "items_ok (items e)"
    and c: "clsid e it < POWER_LARGEST"
  obtains e' where "item_unlink_q e it = Some e'" "lru_queue e' (clsid e it) (xs @ ys)"
    "queue_frame (clsid e it) e e'" "\<And>y. y \<notin> set (xs @ ys) \<Longrightarrow> mem e' y = mem e y"
proof -
  let ?c = "clsid e it"
  let ?h = "heads (items e) ! ?c" and ?t = "tails (items e) ! ?c"
  have d: "dll (nxt e) (prv e) NULL ?h (xs @ it # ys) NULL" and t: "?t = last_or NULL (xs @ it # ys)"
    and n: "sizes (items e) ! ?c = of_nat (length (xs @ it # ys))"
    using q by (auto simp: lru_queue_def)
  have h: "?h = (case xs @ it # ys of [] \<Rightarrow> NULL | x # _ \<Rightarrow> x)" by (rule dll_head [OF d])
  have dist: "distinct (xs @ it # ys)" and nn: "NULL \<notin> set (xs @ it # ys)"
    using dll_distinct [OF d] dll_not_NULL [OF d] .
  define a b where "a = last_or NULL xs" and "b = (case ys of [] \<Rightarrow> NULL | y # _ \<Rightarrow> y)"
  have it: "prv e it = a" "nxt e it = b" "it \<noteq> NULL"
    using dll_middle [OF d] by (simp_all add: a_def b_def)
  have a: "a \<in> set xs \<or> xs = [] \<and> a = 0"
    using last_or_nonempty [of xs NULL] by (cases "xs = []") (auto simp: a_def)
  have b: "b \<in> set ys \<or> ys = [] \<and> b = 0" by (cases ys) (auto simp: b_def)
  have "last_or it ys \<in> set ys \<or> ys = []" using last_or_nonempty [of ys it] by blast
  then have ht: "?h = it \<longleftrightarrow> xs = []" "?t = it \<longleftrightarrow> ys = []"
    using dist by (cases xs; auto simp: h t last_or_append)+
  have ab: "a \<noteq> it" "b \<noteq> it" "a = 0 \<longleftrightarrow> xs = []" "b = 0 \<longleftrightarrow> ys = []" "xs \<noteq> [] \<Longrightarrow> a \<noteq> b"
    using dist nn a b it(3) by auto
  define e1 where "e1 = e\<lparr>items := (items e)\<lparr>
      heads := (if xs = [] then (heads (items e))[?c := b] else heads (items e)),
      tails := (if ys = [] then (tails (items e))[?c := a] else tails (items e))\<rparr>\<rparr>"
  define e2 where "e2 = (if b \<noteq> 0 then upd_item b (\<lambda>i. i\<lparr>it_prev := a\<rparr>) e1 else e1)"
  define e3 where "e3 = (if a \<noteq> 0 then upd_item a (\<lambda>i. i\<lparr>it_next := b\<rparr>) e2 else e2)"
  define e' where "e' = e3\<lparr>items := (items e3)\<lparr>sizes := (sizes (items e3))[?c := sizes (items e3) ! ?c - 1]\<rparr>\<rparr>"
  have run: "item_unlink_q e it = Some e'"
    using c ok ht it ab
    by (cases "xs = []"; cases "ys = []")
       (simp_all add: item_unlink_q_def items_ok_def e'_def e3_def e2_def e1_def upd_item_def Let_def)
  have mem': "mem e' y = (if y = a \<and> a \<noteq> 0 then (mem e y)\<lparr>it_next := b\<rparr>
      else if y = b \<and> b \<noteq> 0 then (mem e y)\<lparr>it_prev := a\<rparr> else mem e y)" for y
    using ab by (auto simp: e'_def e3_def e2_def e1_def upd_item_def)
  have "dll (nxt e') (prv e') NULL (if xs = [] then nxt e it else ?h) (xs @ ys) NULL"
  proof (rule dll_remove [OF d])
    fix y assume "y \<in> set (xs @ ys)"
    then have "y \<noteq> 0" using nn by (intro notI) auto
    then show "nxt e' y = (if y = last_or NULL xs then nxt e it else nxt e y)"
      "prv e' y = (if y = nxt e it then prv e it else prv e y)"
      using it ab by (auto simp: mem' simp flip: a_def)
  qed
  moreover have "heads (items e') ! ?c = (if xs = [] then b else ?h)"
    "tails (items e') ! ?c = (if ys = [] then a else ?t)"
    "sizes (items e') ! ?c = sizes (items e) ! ?c - 1"
    using ok c by (simp_all add: e'_def e3_def e2_def e1_def upd_item_def items_ok_def)
  moreover have "(if ys = [] then a else ?t) = last_or NULL (xs @ ys)"
    unfolding t a_def by (cases ys) (simp_all add: last_or_append)
  ultimately have "lru_queue e' ?c (xs @ ys)"
    using n it(2) unfolding lru_queue_def by (cases "xs = []") simp_all
  moreover have "queue_frame ?c e e'"
    using ok ab by (auto simp: queue_frame_def mem' same_but_q_def)
       (auto simp: e'_def e3_def e2_def e1_def upd_item_def items_ok_def)
  moreover have "mem e' y = mem e y" if "y \<notin> set (xs @ ys)" for y
    using that a b by (auto simp: mem')
  ultimately show thesis using run by (intro that [of e'])
qed

section \<open>All queues together\<close>

text \<open>
  \<open>lru_rep e Q\<close>: the queues hold exactly the items \<open>Q\<close>, each in the queue of its class.
\<close>

definition lru_holds :: "default_engine \<Rightarrow> nat \<Rightarrow> ptr set \<Rightarrow> bool" where
  "lru_holds e c X = (\<exists>xs. lru_queue e c xs \<and> set xs = X)"

definition lru_rep :: "default_engine \<Rightarrow> ptr set \<Rightarrow> bool" where
  "lru_rep e Q \<longleftrightarrow> items_ok (items e) \<and> (\<forall>x\<in>Q. clsid e x < POWER_LARGEST)
     \<and> (\<forall>c < POWER_LARGEST. lru_holds e c {x \<in> Q. clsid e x = c})"

lemma lru_repD:
  assumes "lru_rep e Q"
  shows "items_ok (items e)" "x \<in> Q \<Longrightarrow> clsid e x < POWER_LARGEST"
    "c < POWER_LARGEST \<Longrightarrow> lru_holds e c {x \<in> Q. clsid e x = c}"
  using assms by (auto simp: lru_rep_def)

lemma lru_rep_not_NULL: "lru_rep e Q \<Longrightarrow> NULL \<notin> Q"
proof
  assume rep: "lru_rep e Q" and "NULL \<in> Q"
  then obtain xs where "lru_queue e (clsid e NULL) xs" "NULL \<in> set xs"
    using lru_repD(3) [OF rep lru_repD(2) [OF rep]] by (auto simp: lru_holds_def)
  then show False by (auto simp: lru_queue_def dest: dll_not_NULL)
qed

text \<open>Only the links, the classes and the queue heads matter.\<close>

lemma lru_rep_cong:
  assumes "lru_rep e Q" "items e' = items e"
    and "\<And>x. x \<in> Q \<Longrightarrow> nxt e' x = nxt e x \<and> prv e' x = prv e x \<and> clsid e' x = clsid e x"
  shows "lru_rep e' Q"
proof -
  have "lru_holds e' c {x \<in> Q. clsid e' x = c}" if c: "c < POWER_LARGEST" for c
  proof -
    obtain xs where xs: "lru_queue e c xs" "set xs = {x \<in> Q. clsid e x = c}"
      using lru_repD(3) [OF assms(1) c] by (auto simp: lru_holds_def)
    have "dll (nxt e') (prv e') NULL p xs NULL \<longleftrightarrow> dll (nxt e) (prv e) NULL p xs NULL" for p
      by (rule dll_cong) (use assms(3) xs(2) in auto)
    moreover have "{x \<in> Q. clsid e' x = c} = {x \<in> Q. clsid e x = c}" using assms(3) by auto
    ultimately show ?thesis
      using xs assms(2) by (auto simp: lru_holds_def lru_queue_def)
  qed
  then show ?thesis
    using lru_repD(1,2) [OF assms(1)] assms(2,3) by (simp add: lru_rep_def)
qed

lemma lru_rep_itemstats:
  assumes "lru_rep e Q" "mem e' = mem e" "items e' = (items e)\<lparr>itemstats := s\<rparr>"
    "length s = length (itemstats (items e))"
  shows "lru_rep e' Q"
  using assms by (simp add: lru_rep_def lru_holds_def lru_queue_def items_ok_def)

lemma lru_rep_frame:
  assumes rep: "lru_rep e Q" and fr: "queue_frame c e e'" and c: "c < POWER_LARGEST"
    and holds: "lru_holds e' c {x \<in> Q'. clsid e x = c}"
    and mem: "\<And>y. y \<in> Q \<Longrightarrow> clsid e y \<noteq> c \<Longrightarrow> mem e' y = mem e y"
    and Q': "\<And>x. clsid e x \<noteq> c \<Longrightarrow> x \<in> Q' \<longleftrightarrow> x \<in> Q"
  shows "lru_rep e' Q'"
proof -
  have cls: "clsid e' x = clsid e x" for x
    using same_but_q_fields(9) [OF queue_frameD(9) [OF fr]] by simp
  have "lru_holds e' d {x \<in> Q'. clsid e x = d}" if d: "d < POWER_LARGEST" "d \<noteq> c" for d
  proof -
    obtain ys where ys: "lru_queue e d ys" "set ys = {x \<in> Q. clsid e x = d}"
      using lru_repD(3) [OF rep d(1)] by (auto simp: lru_holds_def)
    then have "lru_queue e' d ys"
      by (intro lru_queue_other [OF _ fr d(2)] mem) (use d in auto)
    moreover have "{x \<in> Q'. clsid e x = d} = {x \<in> Q. clsid e x = d}" using Q' d(2) by auto
    ultimately show ?thesis using ys by (auto simp: lru_holds_def)
  qed
  then have "\<forall>d < POWER_LARGEST. lru_holds e' d {x \<in> Q'. clsid e x = d}"
    using holds by metis
  moreover have "clsid e x < POWER_LARGEST" if "x \<in> Q'" for x
    using that Q' [of x] lru_repD(2) [OF rep] c by (cases "clsid e x = c") auto
  ultimately show ?thesis
    using lru_repD(1) [OF rep] queue_frameD(10) [OF fr] by (simp add: lru_rep_def cls)
qed

lemma item_link_q_rep:
  assumes rep: "lru_rep e Q" and it: "it \<noteq> NULL" "it \<notin> Q" "clsid e it < POWER_LARGEST" "\<not> slabbed (mem e it)"
  obtains e' where "item_link_q e it = Some e'" "lru_rep e' (insert it Q)" "queue_frame (clsid e it) e e'"
proof -
  obtain xs where xs: "lru_queue e (clsid e it) xs" "set xs = {x \<in> Q. clsid e x = clsid e it}"
    using lru_repD(3) [OF rep it(3)] by (auto simp: lru_holds_def)
  have "it \<notin> set xs" using it(2) xs(2) by simp
  then obtain e' where e': "item_link_q e it = Some e'" "lru_queue e' (clsid e it) (it # xs)"
    "queue_frame (clsid e it) e e'" and mem: "\<And>y. y \<notin> set (it # xs) \<Longrightarrow> mem e' y = mem e y"
    using item_link_q_queue [OF xs(1) lru_repD(1) [OF rep] it(1) _ it(3,4)] by metis
  have "{x \<in> insert it Q. clsid e x = clsid e it} = set (it # xs)" using xs(2) by auto
  then have "lru_holds e' (clsid e it) {x \<in> insert it Q. clsid e x = clsid e it}"
    using e'(2) unfolding lru_holds_def by metis
  then have "lru_rep e' (insert it Q)"
  proof (rule lru_rep_frame [OF rep e'(3) it(3)])
    fix y assume "y \<in> Q" "clsid e y \<noteq> clsid e it"
    then show "mem e' y = mem e y" using xs(2) it(2) by (intro mem) auto
  qed auto
  with e' show thesis by (intro that)
qed

lemma item_unlink_q_rep:
  assumes rep: "lru_rep e Q" and it: "it \<in> Q"
  obtains e' where "item_unlink_q e it = Some e'" "lru_rep e' (Q - {it})" "queue_frame (clsid e it) e e'"
    "mem e' it = mem e it"
proof -
  note c = lru_repD(2) [OF rep it]
  obtain zs where zs: "lru_queue e (clsid e it) zs" "set zs = {x \<in> Q. clsid e x = clsid e it}"
    using lru_repD(3) [OF rep c] by (auto simp: lru_holds_def)
  have "it \<in> set zs" using it zs(2) by simp
  then obtain xs ys where split: "zs = xs @ it # ys" by (metis split_list)
  have dist: "distinct zs" using zs(1) dll_distinct by (auto simp: lru_queue_def)
  obtain e' where e': "item_unlink_q e it = Some e'" "lru_queue e' (clsid e it) (xs @ ys)"
    "queue_frame (clsid e it) e e'" and mem: "\<And>y. y \<notin> set (xs @ ys) \<Longrightarrow> mem e' y = mem e y"
    using item_unlink_q_queue [OF zs(1) [unfolded split] lru_repD(1) [OF rep] c] by metis
  have "{x \<in> Q - {it}. clsid e x = clsid e it} = set (xs @ ys)"
    using zs(2) dist by (auto simp: split)
  then have "lru_holds e' (clsid e it) {x \<in> Q - {it}. clsid e x = clsid e it}"
    using e'(2) unfolding lru_holds_def by metis
  then have "lru_rep e' (Q - {it})"
  proof (rule lru_rep_frame [OF rep e'(3) c])
    fix y assume "y \<in> Q" "clsid e y \<noteq> clsid e it"
    then show "mem e' y = mem e y" using zs(2) split by (intro mem) auto
  qed auto
  moreover have "mem e' it = mem e it" using mem dist by (simp add: split)
  ultimately show thesis using e' by (intro that)
qed

end
