(* ===== verification/Slabs_Rep.thy ===== *)
theory Slabs_Rep
  imports Slabs Interfaces "HOL-Library.Disjoint_Sets"
begin

unbundle bit_operations_syntax

text \<open>
  Correctness of the slab allocator. \<open>slab_rep e A R\<close> relates the allocator of \<open>e\<close> to an abstract
  allocation \<open>A\<close>, a finite map from the chunks in use to their classes; \<open>R\<close> are addresses that belong
  to somebody else. Allocation adds a chunk nobody uses, freeing removes one, the byte ranges of
  the chunks in use never overlap.
\<close>

section \<open>Pages and chunks\<close>

definition region :: "ptr \<Rightarrow> nat \<Rightarrow> ptr set" where
  "region p n = {p..<p + n}"

definition page_len :: "slabclass \<Rightarrow> nat" where
  "page_len k = unat (sc_size k) * unat (perslab k)"

definition chunks :: "slabclass \<Rightarrow> ptr set" where
  "chunks k = {p. \<exists>i < sc_slabs k. \<exists>j < unat (perslab k). p = slab_list k ! i + j * unat (sc_size k)}"

definition end_chunks :: "slabclass \<Rightarrow> ptr list" where
  "end_chunks k = (if end_page_ptr k = NULL then []
     else map (\<lambda>i. end_page_ptr k + i * unat (sc_size k)) [0..<unat (end_page_free k)])"

definition free_chunks :: "slabclass \<Rightarrow> ptr list" where
  "free_chunks k = take (sl_curr k) (slots k) @ end_chunks k"

definition class_ok :: "slabclass \<Rightarrow> bool" where
  "class_ok k \<longleftrightarrow> 0 < sc_size k \<and> 0 < perslab k \<and> page_len k < 2 ^ 31
     \<and> length (slots k) = sl_total k \<and> sl_curr k \<le> sl_total k
     \<and> length (slab_list k) = list_size k \<and> sc_slabs k \<le> list_size k
     \<and> (end_page_ptr k \<noteq> NULL \<longrightarrow> 0 < end_page_free k)"

abbreviation cls :: "slabs \<Rightarrow> nat \<Rightarrow> slabclass" where
  "cls s c \<equiv> slabclasses s ! c"

definition slab_ok :: "slabs \<Rightarrow> bool" where
  "slab_ok s \<longleftrightarrow> length (slabclasses s) = MAX_NUMBER_OF_SLAB_CLASSES
     \<and> 1 \<le> power_largest s \<and> power_largest s < POWER_LARGEST
     \<and> (\<forall>c \<in> {1..power_largest s}. class_ok (cls s c))
     \<and> (mem_base s \<noteq> NULL \<longrightarrow> mem_current s \<noteq> NULL)"

text \<open>The pages of all classes, and the bytes they cover.\<close>

definition page_ids :: "slabs \<Rightarrow> (nat \<times> nat) set" where
  "page_ids s = {(c, i). c \<in> {1..power_largest s} \<and> i < sc_slabs (cls s c)}"

definition block :: "slabs \<Rightarrow> nat \<times> nat \<Rightarrow> ptr set" where
  "block s = (\<lambda>(c, i). region (slab_list (cls s c) ! i) (page_len (cls s c)))"

definition page_bytes :: "slabs \<Rightarrow> ptr set" where
  "page_bytes s = (\<Union>p \<in> page_ids s. block s p)"

text \<open>
  The memory the allocator may still get: what later calls of \<^verbatim>\<open>malloc\<close> return, or what is left of
  the block allocated in advance. \<open>malloc_wf\<close> is what is assumed of \<^verbatim>\<open>malloc\<close>: the blocks of two
  different calls do not overlap.
\<close>

definition malloc_wf :: "os \<Rightarrow> bool" where
  "malloc_wf l \<longleftrightarrow> (\<forall>n m s t. n \<noteq> m \<and> os_malloc l n s \<noteq> NULL \<and> os_malloc l m t \<noteq> NULL \<longrightarrow>
     region (os_malloc l n s) s \<inter> region (os_malloc l m t) t = {})"

definition fresh_mem :: "default_engine \<Rightarrow> ptr set" where
  "fresh_mem e = (if mem_base (slabs e) = NULL
     then {a. \<exists>n s. os_tick (os e) \<le> n \<and> os_malloc (os e) n s \<noteq> NULL
                \<and> a \<in> region (os_malloc (os e) n s) s}
     else region (mem_current (slabs e)) (unat (mem_avail (slabs e))))"

definition free_set :: "slabs \<Rightarrow> ptr set" where
  "free_set s = (\<Union>c \<in> {1..power_largest s}. set (free_chunks (cls s c)))"

definition slab_rep :: "default_engine \<Rightarrow> (ptr \<rightharpoonup> nat) \<Rightarrow> ptr set \<Rightarrow> bool" where
  "slab_rep e A R \<longleftrightarrow> slab_ok (slabs e) \<and> malloc_wf (os e)
     \<and> disjoint_family_on (block (slabs e)) (page_ids (slabs e))
     \<and> (\<forall>c \<in> {1..power_largest (slabs e)}.
          distinct (free_chunks (cls (slabs e) c))
          \<and> set (free_chunks (cls (slabs e) c)) \<subseteq> chunks (cls (slabs e) c))
     \<and> (\<forall>p c. A p = Some c \<longrightarrow> c \<in> {1..power_largest (slabs e)}
          \<and> p \<in> chunks (cls (slabs e) c) \<and> p \<notin> free_set (slabs e))
     \<and> NULL \<notin> page_bytes (slabs e)
     \<and> page_bytes (slabs e) \<inter> fresh_mem e = {}
     \<and> R \<inter> (page_bytes (slabs e) \<union> fresh_mem e) = {}
     \<and> (\<forall>p \<in> free_set (slabs e). it_clsid (mem e p) = 0)"

lemma slab_repD:
  assumes "slab_rep e A R"
  shows "slab_ok (slabs e)" "malloc_wf (os e)"
    "disjoint_family_on (block (slabs e)) (page_ids (slabs e))"
    "c \<in> {1..power_largest (slabs e)} \<Longrightarrow> distinct (free_chunks (cls (slabs e) c))"
    "c \<in> {1..power_largest (slabs e)} \<Longrightarrow>
       set (free_chunks (cls (slabs e) c)) \<subseteq> chunks (cls (slabs e) c)"
    "A p = Some c \<Longrightarrow> c \<in> {1..power_largest (slabs e)}"
    "A p = Some c \<Longrightarrow> p \<in> chunks (cls (slabs e) c)"
    "A p = Some c \<Longrightarrow> p \<notin> free_set (slabs e)"
    "NULL \<notin> page_bytes (slabs e)" "page_bytes (slabs e) \<inter> fresh_mem e = {}"
    "R \<inter> (page_bytes (slabs e) \<union> fresh_mem e) = {}"
    "p \<in> free_set (slabs e) \<Longrightarrow> it_clsid (mem e p) = 0"
  using assms by (auto simp: slab_rep_def)

lemma slab_okD:
  assumes "slab_ok s" "c \<in> {1..power_largest s}"
  shows "c < length (slabclasses s)" "class_ok (cls s c)" "0 < c" "c < POWER_LARGEST"
  using assms by (auto simp: slab_ok_def POWER_LARGEST_def MAX_NUMBER_OF_SLAB_CLASSES_def)

lemma class_okD:
  assumes "class_ok k"
  shows "0 < unat (sc_size k)" "0 < unat (perslab k)" "page_len k < 2 ^ 31"
    "length (slots k) = sl_total k" "sl_curr k \<le> sl_total k"
    "length (slab_list k) = list_size k" "sc_slabs k \<le> list_size k"
    "end_page_ptr k \<noteq> NULL \<Longrightarrow> 0 < unat (end_page_free k)"
  using assms by (auto simp: class_ok_def word_less_nat_alt)

text \<open>A chunk lies in its page, and a page determines its class.\<close>

lemma chunk_in_page:
  assumes "j < unat (perslab k)"
  shows "region (pg + j * unat (sc_size k)) (unat (sc_size k)) \<subseteq> region pg (page_len k)"
proof -
  have "Suc j * unat (sc_size k) \<le> unat (perslab k) * unat (sc_size k)"
    using assms by (intro mult_right_mono) auto
  then show ?thesis by (auto simp: region_def page_len_def algebra_simps)
qed

lemma chunkE:
  assumes "p \<in> chunks (cls s c)" "c \<in> {1..power_largest s}"
  obtains i j where "(c, i) \<in> page_ids s" "j < unat (perslab (cls s c))"
    "p = slab_list (cls s c) ! i + j * unat (sc_size (cls s c))"
    "region p (unat (sc_size (cls s c))) \<subseteq> block s (c, i)"
proof -
  obtain i j where "i < sc_slabs (cls s c)" "j < unat (perslab (cls s c))"
    "p = slab_list (cls s c) ! i + j * unat (sc_size (cls s c))"
    using assms(1) by (auto simp: chunks_def)
  moreover from this have "region p (unat (sc_size (cls s c))) \<subseteq> block s (c, i)"
    by (simp add: block_def chunk_in_page)
  ultimately show thesis using assms(2) by (intro that [of i j]) (auto simp: page_ids_def)
qed

lemma region_self: "0 < n \<Longrightarrow> p \<in> region p n"
  by (simp add: region_def)

lemma chunk_in_page_bytes:
  assumes "p \<in> chunks (cls s c)" "c \<in> {1..power_largest s}" "slab_ok s"
  shows "p \<in> page_bytes s" "region p (unat (sc_size (cls s c))) \<subseteq> page_bytes s"
proof -
  obtain i where i: "(c, i) \<in> page_ids s" "region p (unat (sc_size (cls s c))) \<subseteq> block s (c, i)"
    using chunkE [OF assms(1,2)] by metis
  then show r: "region p (unat (sc_size (cls s c))) \<subseteq> page_bytes s"
    by (auto simp: page_bytes_def)
  then show "p \<in> page_bytes s"
    using region_self [OF class_okD(1) [OF slab_okD(2) [OF assms(3,2)]]] by blast
qed

lemma chunk_class_unique:
  assumes "slab_ok s" "disjoint_family_on (block s) (page_ids s)"
    "p \<in> chunks (cls s c)" "c \<in> {1..power_largest s}"
    "p \<in> chunks (cls s d)" "d \<in> {1..power_largest s}"
  shows "c = d"
proof -
  obtain i where i: "(c, i) \<in> page_ids s" "region p (unat (sc_size (cls s c))) \<subseteq> block s (c, i)"
    using chunkE [OF assms(3,4)] by metis
  obtain j where j: "(d, j) \<in> page_ids s" "region p (unat (sc_size (cls s d))) \<subseteq> block s (d, j)"
    using chunkE [OF assms(5,6)] by metis
  have "p \<in> block s (c, i)" "p \<in> block s (d, j)"
    using i j region_self class_okD(1) [OF slab_okD(2) [OF assms(1)]] assms(4,6) by blast+
  then have "(c, i) = (d, j)"
    using disjoint_family_onD [OF assms(2) i(1) j(1)] by blast
  then show ?thesis by simp
qed

text \<open>The bytes of two different chunks do not overlap.\<close>

lemma chunks_apart:
  assumes ok: "slab_ok s" and disj: "disjoint_family_on (block s) (page_ids s)"
    and p: "p \<in> chunks (cls s c)" "c \<in> {1..power_largest s}"
    and q: "q \<in> chunks (cls s d)" "d \<in> {1..power_largest s}" and neq: "p \<noteq> q"
  shows "region p (unat (sc_size (cls s c))) \<inter> region q (unat (sc_size (cls s d))) = {}"
proof -
  obtain i j where i: "(c, i) \<in> page_ids s"
    and pj: "p = slab_list (cls s c) ! i + j * unat (sc_size (cls s c))"
    and pb: "region p (unat (sc_size (cls s c))) \<subseteq> block s (c, i)"
    using chunkE [OF p] by metis
  obtain i' j' where i': "(d, i') \<in> page_ids s"
    and qj: "q = slab_list (cls s d) ! i' + j' * unat (sc_size (cls s d))"
    and qb: "region q (unat (sc_size (cls s d))) \<subseteq> block s (d, i')"
    using chunkE [OF q] by metis
  show ?thesis
  proof (cases "(c, i) = (d, i')")
    case True
    let ?z = "unat (sc_size (cls s c))"
    from True neq pj qj have "j \<noteq> j'" by auto
    then have "Suc j * ?z \<le> j' * ?z \<or> Suc j' * ?z \<le> j * ?z"
      by (cases "j < j'") (auto intro!: mult_right_mono simp del: mult_Suc)
    then show ?thesis using True pj qj by (auto simp: region_def)
  next
    case False
    then show ?thesis using disjoint_family_onD [OF disj i i'] pb qb by blast
  qed
qed

section \<open>Frames\<close>

definition slab_frame :: "default_engine \<Rightarrow> default_engine \<Rightarrow> bool" where
  "slab_frame e e' \<longleftrightarrow> srv e' = srv e \<and> assoc e' = assoc e \<and> items e' = items e
     \<and> config e' = config e \<and> stats e' = stats e \<and> scrubber e' = scrubber e
     \<and> cas_id e' = cas_id e \<and> initialized e' = initialized e \<and> tap_clients e' = tap_clients e
     \<and> vbucket_infos e' = vbucket_infos e \<and> num_features e' = num_features e
     \<and> os_malloc (os e') = os_malloc (os e) \<and> os_ok (os e') = os_ok (os e)
     \<and> os_tick (os e) \<le> os_tick (os e')
     \<and> power_largest (slabs e') = power_largest (slabs e)
     \<and> (\<forall>c. sc_size (cls (slabs e') c) = sc_size (cls (slabs e) c))"

lemma slab_frameD:
  assumes "slab_frame e e'"
  shows "srv e' = srv e" "assoc e' = assoc e" "items e' = items e" "config e' = config e"
    "stats e' = stats e" "scrubber e' = scrubber e" "cas_id e' = cas_id e"
    "initialized e' = initialized e" "tap_clients e' = tap_clients e"
    "vbucket_infos e' = vbucket_infos e" "num_features e' = num_features e"
    "os_malloc (os e') = os_malloc (os e)" "os_ok (os e') = os_ok (os e)"
    "os_tick (os e) \<le> os_tick (os e')" "power_largest (slabs e') = power_largest (slabs e)"
    "sc_size (cls (slabs e') c) = sc_size (cls (slabs e) c)"
  using assms by (auto simp: slab_frame_def)

lemma slab_frame_refl [simp]: "slab_frame e e"
  by (simp add: slab_frame_def)

lemma slab_frame_trans [trans]: "slab_frame e e' \<Longrightarrow> slab_frame e' e'' \<Longrightarrow> slab_frame e e''"
  by (simp add: slab_frame_def)

lemma slab_frame_os_call [simp]: "slab_frame e (snd (os_call e))"
  by (simp add: slab_frame_def os_call_def)

lemma nth_list_update_if:
  "xs[i := v] ! j = (if i = j \<and> j < length xs then v else xs ! j)"
  by (cases "i < length xs") (auto simp: nth_list_update list_update_beyond)

lemma slab_frame_upd_class [simp]:
  "(\<And>k. sc_size (g k) = sc_size k) \<Longrightarrow> slab_frame e (upd_class c g e)"
  by (simp add: slab_frame_def upd_class_def nth_list_update_if)

lemma slab_frame_zero_range [simp]: "slab_frame e (zero_range p n e)"
  by (simp add: slab_frame_def zero_range_def)

lemma malloc_wf_cong: "os_malloc l' = os_malloc l \<Longrightarrow> malloc_wf l' = malloc_wf l"
  by (simp add: malloc_wf_def)

lemma fresh_mem_mono:
  "mem_base (slabs e') = mem_base (slabs e) \<Longrightarrow> mem_current (slabs e') = mem_current (slabs e) \<Longrightarrow>
   mem_avail (slabs e') = mem_avail (slabs e) \<Longrightarrow> os_malloc (os e') = os_malloc (os e) \<Longrightarrow>
   os_tick (os e) \<le> os_tick (os e') \<Longrightarrow> fresh_mem e' \<subseteq> fresh_mem e"
  by (auto simp: fresh_mem_def) (meson order.trans)+

text \<open>Outside the allocator nothing but the class byte of free chunks matters.\<close>

lemma free_set_subset:
  assumes "slab_rep e A R"
  shows "free_set (slabs e) \<subseteq> page_bytes (slabs e)"
  using slab_repD(5) [OF assms] chunk_in_page_bytes(1) [OF _ _ slab_repD(1) [OF assms]]
  unfolding free_set_def by blast

lemma free_not_used:
  assumes "slab_rep e A R" "p \<in> free_set (slabs e)"
  shows "p \<notin> dom A" "p \<notin> R"
  using slab_repD(8,11) [OF assms(1)] free_set_subset [OF assms(1)] assms(2) by (auto simp: dom_def)

lemma used_not_NULL:
  assumes "slab_rep e A R" "A p = Some c"
  shows "p \<noteq> NULL" "p \<notin> R" "p \<in> page_bytes (slabs e)"
  using chunk_in_page_bytes(1) [OF slab_repD(7) [OF assms] slab_repD(6) [OF assms] slab_repD(1) [OF assms(1)]]
    slab_repD(9,11) [OF assms(1)] by (metis, blast, blast)

lemma slab_rep_cong:
  assumes "slab_rep e A R" "slabs e' = slabs e" "os_malloc (os e') = os_malloc (os e)"
    "os_tick (os e) \<le> os_tick (os e')"
    and "\<And>p. p \<notin> dom A \<Longrightarrow> p \<notin> R \<Longrightarrow> it_clsid (mem e' p) = it_clsid (mem e p)"
  shows "slab_rep e' A R"
proof -
  have "fresh_mem e' \<subseteq> fresh_mem e" using assms by (intro fresh_mem_mono) auto
  moreover have "it_clsid (mem e' p) = 0" if "p \<in> free_set (slabs e)" for p
    using assms(5) free_not_used [OF assms(1) that] slab_repD(12) [OF assms(1) that] by simp
  ultimately show ?thesis
    using assms(1-3) malloc_wf_cong [OF assms(3)] unfolding slab_rep_def by auto
qed

section \<open>Changing one class\<close>

definition same_pages :: "slabclass \<Rightarrow> slabclass \<Rightarrow> bool" where
  "same_pages k k' \<longleftrightarrow> sc_size k' = sc_size k \<and> perslab k' = perslab k \<and> sc_slabs k' = sc_slabs k
     \<and> (\<forall>i < sc_slabs k. slab_list k' ! i = slab_list k ! i)"

lemma same_pages_chunks: "same_pages k k' \<Longrightarrow> chunks k' = chunks k"
  unfolding chunks_def same_pages_def by (intro Collect_cong) (metis (no_types, lifting))

lemma same_pages_block:
  assumes "same_pages (cls s c) k" "c < length (slabclasses s)"
  shows "page_ids (s\<lparr>slabclasses := (slabclasses s)[c := k]\<rparr>) = page_ids s"
    "p \<in> page_ids s \<Longrightarrow> block (s\<lparr>slabclasses := (slabclasses s)[c := k]\<rparr>) p = block s p"
    "page_bytes (s\<lparr>slabclasses := (slabclasses s)[c := k]\<rparr>) = page_bytes s"
proof -
  let ?s = "s\<lparr>slabclasses := (slabclasses s)[c := k]\<rparr>"
  show ids: "page_ids ?s = page_ids s"
    using assms by (auto simp: page_ids_def nth_list_update_if same_pages_def split: if_splits)
  show blk: "block ?s p = block s p" if "p \<in> page_ids s" for p
    using that assms by (cases "fst p = c")
      (auto simp: page_ids_def block_def nth_list_update_if same_pages_def page_len_def)
  show "page_bytes ?s = page_bytes s"
    unfolding page_bytes_def ids using blk by auto
qed

lemma slab_rep_class:
  assumes rep: "slab_rep e A R" and c: "c \<in> {1..power_largest (slabs e)}"
    and s': "slabs e' = (slabs e)\<lparr>slabclasses := (slabclasses (slabs e))[c := k]\<rparr>"
    and os: "os_malloc (os e') = os_malloc (os e)" "os_tick (os e) \<le> os_tick (os e')"
    and k: "class_ok k" "same_pages (cls (slabs e) c) k"
    and free: "distinct (free_chunks k)" "set (free_chunks k) \<subseteq> chunks (cls (slabs e) c)"
    and A': "\<And>p d. A' p = Some d \<Longrightarrow> d = c \<and> p \<in> chunks (cls (slabs e) c) \<and> p \<notin> set (free_chunks k)
       \<or> d \<noteq> c \<and> A p = Some d"
    and zero: "\<And>p. p \<in> set (free_chunks k) \<Longrightarrow> it_clsid (mem e' p) = 0"
      "\<And>p. p \<in> free_set (slabs e) \<Longrightarrow> it_clsid (mem e' p) = 0"
  shows "slab_rep e' A' R"
proof -
  let ?s = "slabs e" and ?s' = "slabs e'"
  note ok = slab_repD(1) [OF rep]
  note cl = slab_okD(1) [OF ok c]
  have pl: "power_largest ?s' = power_largest ?s" by (simp add: s')
  have cls': "cls ?s' d = (if d = c then k else cls ?s d)" for d
    using cl by (auto simp: s' nth_list_update_if)
  have ch: "chunks (cls ?s' d) = chunks (cls ?s d)" for d
    using same_pages_chunks [OF k(2)] by (simp add: cls')
  note pages = same_pages_block [OF k(2) cl, folded s']
  have fr: "fresh_mem e' \<subseteq> fresh_mem e" using os by (intro fresh_mem_mono) (simp_all add: s')
  have sub: "set (free_chunks (cls ?s' d)) \<subseteq> chunks (cls ?s d)"
    if "d \<in> {1..power_largest ?s}" for d
    using that free(2) slab_repD(5) [OF rep that] by (simp add: cls')
  have used: "d \<in> {1..power_largest ?s} \<and> p \<in> chunks (cls ?s d) \<and> p \<notin> free_set ?s'"
    if pd: "A' p = Some d" for p d
  proof -
    from A' [OF pd] slab_repD(6,7) [OF rep] c
    have d: "d \<in> {1..power_largest ?s}" "p \<in> chunks (cls ?s d)" by auto
    have "p \<notin> set (free_chunks (cls ?s' x))" if x: "x \<in> {1..power_largest ?s}" for x
    proof
      assume px: "p \<in> set (free_chunks (cls ?s' x))"
      with sub [OF x] have "x = d"
        using chunk_class_unique [OF ok slab_repD(3) [OF rep] _ x d(2,1)] by blast
      with px A' [OF pd] slab_repD(8) [OF rep, of p d] d(1) show False
        by (auto simp: cls' free_set_def split: if_splits)
    qed
    with d show ?thesis by (auto simp: free_set_def pl)
  qed
  have "slab_ok ?s'"
    using ok k(1) unfolding slab_ok_def pl by (auto simp: cls') (simp_all add: s')
  moreover have "disjoint_family_on (block ?s') (page_ids ?s')"
    using slab_repD(3) [OF rep] pages(1,2) by (auto simp: disjoint_family_on_def)
  moreover have "distinct (free_chunks (cls ?s' d))" if "d \<in> {1..power_largest ?s}" for d
    using that free(1) slab_repD(4) [OF rep that] by (simp add: cls')
  moreover have "it_clsid (mem e' p) = 0" if "p \<in> free_set ?s'" for p
    using that zero by (auto simp: free_set_def pl cls' split: if_splits)
  ultimately show ?thesis
    using slab_repD(2,9-11) [OF rep] fr used sub malloc_wf_cong [OF os(1)]
    unfolding slab_rep_def pl pages(3) ch by blast
qed

section \<open>A new page\<close>

lemma align_up:
  fixes sz :: u64
  assumes "unat sz < 2 ^ 31"
  shows "unat sz \<le> unat (if sz mod of_nat CHUNK_ALIGN_BYTES \<noteq> 0
     then sz + (of_nat CHUNK_ALIGN_BYTES - sz mod of_nat CHUNK_ALIGN_BYTES) else sz)"
proof -
  have "unat (sz mod 8) = unat sz mod 8" by (simp add: unat_mod)
  then have m: "unat (8 - sz mod 8) = 8 - unat sz mod 8"
    by (subst unat_sub) (auto simp: word_le_nat_alt)
  have "unat (sz + (8 - sz mod 8)) = unat sz + (8 - unat sz mod 8)"
    unfolding unat_word_ariths m using assms by (intro mod_less) simp
  then have "unat sz \<le> unat (sz + (8 - sz mod 8))" by (simp only: le_add1)
  then show ?thesis by (simp add: CHUNK_ALIGN_BYTES_def)
qed

lemma memory_allocate_fresh:
  assumes run: "memory_allocate e sz = (p, e')" and ok: "slab_ok (slabs e)" "malloc_wf (os e)"
    and sz: "unat sz < 2 ^ 31"
  shows "slab_frame e e'" "mem e' = mem e" "slabclasses (slabs e') = slabclasses (slabs e)"
    "slab_ok (slabs e')" "fresh_mem e' \<subseteq> fresh_mem e"
    "p \<noteq> NULL \<Longrightarrow> region p (unat sz) \<subseteq> fresh_mem e"
    "p \<noteq> NULL \<Longrightarrow> region p (unat sz) \<inter> fresh_mem e' = {}"
proof -
  let ?s = "slabs e"
  define sz' where "sz' = (if sz mod of_nat CHUNK_ALIGN_BYTES \<noteq> 0
     then sz + (of_nat CHUNK_ALIGN_BYTES - sz mod of_nat CHUNK_ALIGN_BYTES) else sz)"
  have le: "unat sz \<le> unat sz'" unfolding sz'_def by (rule align_up [OF sz])
  consider (system) "mem_base ?s = NULL" "(p, e') = malloc (unat sz) e"
    | (full) "mem_base ?s \<noteq> NULL" "p = NULL" "e' = e"
    | (cut) "mem_base ?s \<noteq> NULL" "p = mem_current ?s" "sz \<le> mem_avail ?s"
        "e' = e\<lparr>slabs := ?s\<lparr>mem_current := mem_current ?s + unat sz',
            mem_avail := (if sz' < mem_avail ?s then mem_avail ?s - sz' else 0)\<rparr>\<rparr>"
    using run unfolding memory_allocate_def sz'_def [symmetric] Let_def
    by (auto split: if_splits simp: not_less)
  then have "slab_frame e e' \<and> mem e' = mem e \<and> slabclasses (slabs e') = slabclasses ?s
    \<and> slab_ok (slabs e') \<and> fresh_mem e' \<subseteq> fresh_mem e
    \<and> (p \<noteq> NULL \<longrightarrow> region p (unat sz) \<subseteq> fresh_mem e \<and> region p (unat sz) \<inter> fresh_mem e' = {})"
  proof cases
    case system
    then have p: "p = os_malloc (os e) (os_tick (os e)) (unat sz)"
      and e': "e' = e\<lparr>os := (os e)\<lparr>os_tick := Suc (os_tick (os e))\<rparr>\<rparr>"
      by (simp_all add: malloc_def)
    have "region p (unat sz) \<inter> fresh_mem e' = {}" if "p \<noteq> NULL"
    proof -
      have "region p (unat sz) \<inter> region (os_malloc (os e) n t) t = {}"
        if "Suc (os_tick (os e)) \<le> n" "os_malloc (os e) n t \<noteq> NULL" for n t
        using ok(2) that \<open>p \<noteq> NULL\<close> unfolding malloc_wf_def p by (metis Suc_n_not_le_n)
      then show ?thesis using system(1) by (auto simp: fresh_mem_def e')
    qed
    moreover have "region p (unat sz) \<subseteq> fresh_mem e" if "p \<noteq> NULL"
      using that system(1) by (auto simp: fresh_mem_def p)
    moreover have "fresh_mem e' \<subseteq> fresh_mem e" by (rule fresh_mem_mono) (simp_all add: e')
    ultimately show ?thesis using ok by (simp add: e' slab_frame_def)
  next
    case full
    then show ?thesis using ok by simp
  next
    case cut
    have "fresh_mem e' \<subseteq> region (mem_current ?s + unat sz') (unat (mem_avail ?s) - unat sz')"
      using cut(1) unat_sub [of sz' "mem_avail ?s"]
      by (auto simp: fresh_mem_def cut(4) region_def word_less_nat_alt word_le_nat_alt)
    then show ?thesis
      using ok cut le by (auto simp: slab_frame_def slab_ok_def fresh_mem_def region_def word_le_nat_alt)
  qed
  then show "slab_frame e e'" "mem e' = mem e" "slabclasses (slabs e') = slabclasses ?s"
    "slab_ok (slabs e')" "fresh_mem e' \<subseteq> fresh_mem e"
    "p \<noteq> NULL \<Longrightarrow> region p (unat sz) \<subseteq> fresh_mem e"
    "p \<noteq> NULL \<Longrightarrow> region p (unat sz) \<inter> fresh_mem e' = {}"
    by auto
qed

lemma slab_rep_fresh:
  assumes rep: "slab_rep e A R" and ok: "slab_ok (slabs e')" and fr: "fresh_mem e' \<subseteq> fresh_mem e"
    and s: "slabclasses (slabs e') = slabclasses (slabs e)" "power_largest (slabs e') = power_largest (slabs e)"
    and os: "os_malloc (os e') = os_malloc (os e)" and mem: "mem e' = mem e"
  shows "slab_rep e' A R"
proof -
  have "page_ids (slabs e') = page_ids (slabs e)" "block (slabs e') = block (slabs e)"
    "free_set (slabs e') = free_set (slabs e)"
    by (simp_all add: page_ids_def block_def free_set_def s)
  moreover from this have "page_bytes (slabs e') = page_bytes (slabs e)"
    by (simp add: page_bytes_def)
  ultimately show ?thesis
    using rep ok fr malloc_wf_cong [OF os] unfolding slab_rep_def s mem by auto
qed

lemma page_insert:
  assumes c: "c \<in> {1..power_largest s}" "c < length (slabclasses s)"
    and k: "sc_slabs k = Suc (sc_slabs (cls s c))" "sc_size k = sc_size (cls s c)"
      "perslab k = perslab (cls s c)" "\<And>i. i < sc_slabs (cls s c) \<Longrightarrow> slab_list k ! i = slab_list (cls s c) ! i"
    and s': "s' = s\<lparr>slabclasses := (slabclasses s)[c := k]\<rparr>"
  shows "page_ids s' = insert (c, sc_slabs (cls s c)) (page_ids s)"
    "p \<in> page_ids s \<Longrightarrow> block s' p = block s p"
    "page_bytes s' = page_bytes s \<union> region (slab_list k ! sc_slabs (cls s c)) (page_len k)"
proof -
  have cls': "cls s' d = (if d = c then k else cls s d)" for d
    using c by (auto simp: s' nth_list_update_if)
  show ids: "page_ids s' = insert (c, sc_slabs (cls s c)) (page_ids s)"
    using c k(1) by (auto simp: page_ids_def cls') (auto simp: s' split: if_splits)
  show blk: "block s' p = block s p" if "p \<in> page_ids s" for p
    using that k by (cases "fst p = c") (auto simp: page_ids_def block_def cls' page_len_def)
  have "block s' (c, sc_slabs (cls s c)) = region (slab_list k ! sc_slabs (cls s c)) (page_len k)"
    by (simp add: block_def cls')
  then show "page_bytes s' = page_bytes s \<union> region (slab_list k ! sc_slabs (cls s c)) (page_len k)"
    unfolding page_bytes_def ids using blk by auto
qed

text \<open>A class without free chunks gets a page of fresh memory.\<close>

lemma slab_rep_new_page:
  assumes rep: "slab_rep e A R" and c: "c \<in> {1..power_largest (slabs e)}"
    and empty: "free_chunks (cls (slabs e) c) = []"
    and e': "slab_ok (slabs e')" "slabclasses (slabs e') = (slabclasses (slabs e))[c := k]"
      "power_largest (slabs e') = power_largest (slabs e)" "os_malloc (os e') = os_malloc (os e)"
    and k: "sc_slabs k = Suc (sc_slabs (cls (slabs e) c))" "sc_size k = sc_size (cls (slabs e) c)"
      "perslab k = perslab (cls (slabs e) c)"
      "\<And>i. i < sc_slabs (cls (slabs e) c) \<Longrightarrow> slab_list k ! i = slab_list (cls (slabs e) c) ! i"
      "slab_list k ! sc_slabs (cls (slabs e) c) = pg"
      "sl_curr k = 0" "end_page_ptr k = pg" "end_page_free k = perslab k"
    and pg: "pg \<noteq> NULL" "region pg (page_len k) \<subseteq> fresh_mem e" "region pg (page_len k) \<inter> fresh_mem e' = {}"
    and fr: "fresh_mem e' \<subseteq> fresh_mem e"
    and mem: "\<And>x. mem e' x = (if x \<in> region pg (page_len k) then zero_item else mem e x)"
  shows "slab_rep e' A R"
proof -
  let ?s = "slabs e" and ?s' = "slabs e'"
  note ok = slab_repD(1) [OF rep]
  note cl = slab_okD(1) [OF ok c]
  define s1 where "s1 = ?s\<lparr>slabclasses := (slabclasses ?s)[c := k]\<rparr>"
  have same: "page_ids ?s' = page_ids s1" "block ?s' = block s1"
    by (simp_all add: page_ids_def block_def e'(2,3) s1_def)
  then have same3: "page_bytes ?s' = page_bytes s1" by (simp add: page_bytes_def)
  note ins = page_insert [where s = ?s, OF c cl k(1-4) s1_def]
  have pages: "page_ids ?s' = insert (c, sc_slabs (cls ?s c)) (page_ids ?s)"
    "\<And>p. p \<in> page_ids ?s \<Longrightarrow> block ?s' p = block ?s p"
    "page_bytes ?s' = page_bytes ?s \<union> region pg (page_len k)"
    using ins same same3 k(5) by simp_all
  have cls': "cls ?s' d = (if d = c then k else cls ?s d)" for d
    using cl by (auto simp: e'(2) nth_list_update_if)
  have kok: "class_ok k" using slab_okD(2) [OF e'(1), of c] c e'(3) cls' [of c] by simp
  have blk: "block ?s' (c, sc_slabs (cls ?s c)) = region pg (page_len k)"
    by (simp add: block_def cls' k(5))
  have old: "page_bytes ?s \<inter> region pg (page_len k) = {}"
    using slab_repD(10) [OF rep] pg(2) by blast
  have endc: "end_chunks k = map (\<lambda>i. pg + i * unat (sc_size k)) [0..<unat (perslab k)]"
    using pg(1) by (simp add: end_chunks_def k)
  have fc: "free_chunks (cls ?s' d) = (if d = c then end_chunks k else free_chunks (cls ?s d))" for d
    using k(6) by (simp add: cls' free_chunks_def)
  have kch: "set (end_chunks k) \<subseteq> chunks k" unfolding endc chunks_def using k(1,5) by force
  have kreg: "set (end_chunks k) \<subseteq> region pg (page_len k)"
    using chunk_in_page [of _ k pg] region_self [OF class_okD(1) [OF kok]] unfolding endc by fastforce
  have mono: "chunks (cls ?s d) \<subseteq> chunks (cls ?s' d)" for d
    using k(1-4) by (auto simp: cls' chunks_def) (metis less_SucI)
  have fs: "free_set ?s' = free_set ?s \<union> set (end_chunks k)"
    using c empty unfolding free_set_def fc e'(3) by (auto split: if_splits) (metis atLeastAtMost_iff One_nat_def empty_iff list.set(1))
  have new: "(c, sc_slabs (cls ?s c)) \<notin> page_ids ?s" by (simp add: page_ids_def)
  have "disjoint_family_on (block ?s') (page_ids ?s)"
    using slab_repD(3) [OF rep] pages(2) by (auto simp: disjoint_family_on_def)
  moreover have "block ?s' (c, sc_slabs (cls ?s c)) \<inter> (\<Union>p \<in> page_ids ?s. block ?s' p) = {}"
    using old pages(2) unfolding blk page_bytes_def by auto
  ultimately have "disjoint_family_on (block ?s') (page_ids ?s')"
    using disjoint_family_on_insert [OF new, of "block ?s'"] pages(1) by simp
  moreover have "distinct (free_chunks (cls ?s' d)) \<and> set (free_chunks (cls ?s' d)) \<subseteq> chunks (cls ?s' d)"
    if "d \<in> {1..power_largest ?s}" for d
  proof (cases "d = c")
    case True
    have "distinct (end_chunks k)"
      using class_okD(1) [OF kok] by (simp add: endc distinct_map inj_on_def)
    with True kch fc [of d] cls' [of d] show ?thesis by simp
  next
    case False
    then show ?thesis using slab_repD(4,5) [OF rep that] cls' [of d] by simp
  qed
  moreover have "d \<in> {1..power_largest ?s} \<and> p \<in> chunks (cls ?s' d) \<and> p \<notin> free_set ?s'"
    if "A p = Some d" for p d
    using slab_repD(6-8) [OF rep that] mono used_not_NULL(3) [OF rep that] kreg old fs by blast
  moreover have "it_clsid (mem e' p) = 0" if "p \<in> free_set ?s'" for p
    using that kreg slab_repD(12) [OF rep, of p] by (auto simp: fs mem zero_item_def)
  moreover have "NULL \<notin> region pg (page_len k)" using pg(1) by (simp add: region_def)
  ultimately show ?thesis
    using e'(1,3) slab_repD(2,9-11) [OF rep] pg(2,3) fr malloc_wf_cong [OF e'(4)]
    unfolding slab_rep_def pages(3) e'(3) by blast
qed

lemma unat_scast_small:
  fixes w :: u32
  assumes "unat w < 2 ^ 31"
  shows "unat (scast w :: u64) = unat w"
proof -
  have "- (2 ^ 31) \<le> int (unat w)" by (rule order.trans [of _ 0]) simp_all
  moreover have "int (unat w) < 2 ^ 31" using assms by (metis of_nat_less_numeral_power_cancel_iff of_nat_numeral of_nat_power of_nat_less_iff)
  ultimately have "signed_take_bit 31 (int (unat w)) = int (unat w)"
    by (rule signed_take_bit_int_eq_self)
  then have "sint w = int (unat w)" by (simp add: sint_uint)
  then have "(scast w :: u64) = word_of_nat (unat w)"
    by (metis of_int_of_nat_eq scast_eq)
  moreover have "unat (word_of_nat (unat w) :: u64) = unat w"
    unfolding unat_of_nat using assms by (intro mod_less) simp
  ultimately show ?thesis by metis
qed

lemma free_setI: "p \<in> set (free_chunks (cls s c)) \<Longrightarrow> c \<in> {1..power_largest s} \<Longrightarrow> p \<in> free_set s"
  by (auto simp: free_set_def)

lemma page_len_word:
  assumes "class_ok k"
  shows "unat (scast (sc_size k * perslab k) :: u64) = page_len k" "0 < page_len k"
proof -
  have "unat (sc_size k * perslab k) = page_len k"
    using class_okD(3) [OF assms] by (simp add: unat_word_ariths page_len_def)
  then show "unat (scast (sc_size k * perslab k) :: u64) = page_len k"
    using class_okD(3) [OF assms] by (simp add: unat_scast_small)
  show "0 < page_len k" using class_okD(1,2) [OF assms] by (simp add: page_len_def)
qed

lemma length_grown [simp]: "length (grown xs n) = n"
  by (simp add: grown_def)

lemma nth_grown: "i < length xs \<Longrightarrow> i < n \<Longrightarrow> grown xs n ! i = xs ! i"
  by (simp add: grown_def nth_append)

lemma take_grown: "m \<le> length xs \<Longrightarrow> m \<le> n \<Longrightarrow> take m (grown xs n) = take m xs"
  by (simp add: grown_def min_def)

lemma upd_class_slabs:
  "slabs (upd_class c g e) = (slabs e)\<lparr>slabclasses := (slabclasses (slabs e))[c := g (cls (slabs e) c)]\<rparr>"
  "mem (upd_class c g e) = mem e" "os (upd_class c g e) = os e"
  by (simp_all add: upd_class_def)

lemma upd_class_upd_class:
  "upd_class c g (upd_class c f e) = upd_class c (g \<circ> f) e"
  by (cases "c < length (slabclasses (slabs e))") (simp_all add: upd_class_def list_update_beyond)

lemma grow_slab_list_rep:
  assumes rep: "slab_rep e A R" and c: "c \<in> {1..power_largest (slabs e)}"
  shows "\<exists>ok e'. grow_slab_list e c = Some (ok, e') \<and> slab_rep e' A R \<and> slab_frame e e'
    \<and> mem e' = mem e \<and> fresh_mem e' \<subseteq> fresh_mem e
    \<and> same_pages (cls (slabs e) c) (cls (slabs e') c)
    \<and> free_chunks (cls (slabs e') c) = free_chunks (cls (slabs e) c)
    \<and> (ok \<longrightarrow> sc_slabs (cls (slabs e') c) < list_size (cls (slabs e') c))"
proof -
  let ?k = "cls (slabs e) c"
  note ok = slab_repD(1) [OF rep]
  note cl = slab_okD(1) [OF ok c] and kok = slab_okD(2) [OF ok c]
  consider (room) "sc_slabs ?k < list_size ?k" | (full) "sc_slabs ?k = list_size ?k"
    using class_okD(7) [OF kok] by linarith
  then show ?thesis
  proof cases
    case room
    then show ?thesis using rep cl by (auto simp: grow_slab_list_def same_pages_def)
  next
    case full
    define n where "n = (if list_size ?k \<noteq> 0 then list_size ?k * 2 else 16)"
    define k' where "k' = ?k\<lparr>list_size := n, slab_list := grown (slab_list ?k) n\<rparr>"
    define e1 where "e1 = snd (os_call e)"
    define e2 where "e2 = upd_class c (\<lambda>k. k\<lparr>list_size := n, slab_list := grown (slab_list k) n\<rparr>) e1"
    have n: "list_size ?k < n" by (simp add: n_def)
    have run: "grow_slab_list e c = Some (if fst (os_call e) then (True, e2) else (False, e1))"
      using cl full
      by (simp add: grow_slab_list_def e1_def e2_def n_def Let_def split: prod.split)
    have fr1: "slab_frame e e1" "mem e1 = mem e" "slabs e1 = slabs e"
      by (simp_all add: e1_def) (simp_all add: os_call_def)
    have rep1: "slab_rep e1 A R"
      using fr1 slab_frameD [OF fr1(1)] by (intro slab_rep_cong [OF rep]) auto
    have sp: "same_pages ?k k'"
      using n class_okD(6,7) [OF kok] by (auto simp: same_pages_def k'_def nth_grown)
    have fc: "free_chunks k' = free_chunks ?k" by (simp add: free_chunks_def end_chunks_def k'_def)
    have s2: "slabs e2 = (slabs e)\<lparr>slabclasses := (slabclasses (slabs e))[c := k']\<rparr>"
      using fr1 by (simp add: e2_def upd_class_slabs k'_def)
    have kok': "class_ok k'"
      using kok n by (auto simp: class_ok_def k'_def page_len_def)
    have "slab_rep e2 A R"
    proof (rule slab_rep_class [OF rep c s2 _ _ kok' sp])
      show "os_malloc (os e2) = os_malloc (os e)" "os_tick (os e) \<le> os_tick (os e2)"
        using slab_frameD(12,14) [OF fr1(1)] by (simp_all add: e2_def upd_class_slabs)
      show "distinct (free_chunks k')" "set (free_chunks k') \<subseteq> chunks ?k"
        using slab_repD(4,5) [OF rep c] by (simp_all add: fc)
      show "d = c \<and> p \<in> chunks ?k \<and> p \<notin> set (free_chunks k') \<or> d \<noteq> c \<and> A p = Some d"
        if "A p = Some d" for p d
        using slab_repD(6-8) [OF rep that] that c by (auto simp: fc free_set_def)
      show "it_clsid (mem e2 p) = 0" if "p \<in> free_set (slabs e)" for p
        using slab_repD(12) [OF rep that] fr1 by (simp add: e2_def upd_class_slabs)
      then show "it_clsid (mem e2 p) = 0" if "p \<in> set (free_chunks k')" for p
        using that free_setI [OF _ c] by (simp add: fc)
    qed
    moreover have "slab_frame e e2"
      unfolding e2_def by (rule slab_frame_trans [OF fr1(1)]) simp
    moreover have "cls (slabs e2) c = k'" using cl by (simp add: s2)
    moreover have "fresh_mem e1 \<subseteq> fresh_mem e" "fresh_mem e2 \<subseteq> fresh_mem e"
      using fr1 slab_frameD(12,14) [OF fr1(1)]
      by (intro fresh_mem_mono; simp add: e2_def upd_class_slabs)+
    moreover have "mem e2 = mem e"
      using fr1 by (simp add: e2_def upd_class_slabs)
    ultimately show ?thesis
      using run rep1 fr1 sp fc n full by (auto simp: k'_def same_pages_def)
  qed
qed


lemma do_slabs_newslab_rep:
  assumes rep: "slab_rep e A R" and c: "c \<in> {1..power_largest (slabs e)}"
    and empty: "free_chunks (cls (slabs e) c) = []"
  shows "\<exists>ok e'. do_slabs_newslab e c = Some (ok, e') \<and> slab_rep e' A R \<and> slab_frame e e'
    \<and> (\<forall>x. x \<notin> fresh_mem e \<longrightarrow> mem e' x = mem e x)
    \<and> (ok \<longrightarrow> free_chunks (cls (slabs e') c) \<noteq> [])"
proof -
  let ?k = "cls (slabs e) c" and ?len = "scast (sc_size (cls (slabs e) c) * perslab (cls (slabs e) c)) :: u64"
  note ok = slab_repD(1) [OF rep]
  note cl = slab_okD(1) [OF ok c] and kok = slab_okD(2) [OF ok c]
  note len = page_len_word [OF kok]
  define over where "over = (mem_limit (slabs e) \<noteq> 0
      \<and> mem_malloced (slabs e) + ?len > mem_limit (slabs e) \<and> sc_slabs ?k > 0)"
  note run0 = do_slabs_newslab_def [of e c, unfolded arr_get_Some [OF cl] Option.bind.simps Let_def,
      folded over_def]
  show ?thesis
  proof (cases over)
    case True
    then have "do_slabs_newslab e c = Some (False, e)" by (simp only: run0 if_True)
    then show ?thesis using rep by auto
  next
    case roomy: False
    note run1 = run0 [unfolded if_not_P [OF roomy]]
    obtain ok1 e1 where g: "grow_slab_list e c = Some (ok1, e1)" "slab_rep e1 A R" "slab_frame e e1"
      "mem e1 = mem e" and sp: "same_pages ?k (cls (slabs e1) c)"
      and fc1: "free_chunks (cls (slabs e1) c) = []"
      and fm1: "fresh_mem e1 \<subseteq> fresh_mem e"
      and room: "ok1 \<Longrightarrow> sc_slabs (cls (slabs e1) c) < list_size (cls (slabs e1) c)"
      using grow_slab_list_rep [OF rep c] empty by auto
    show ?thesis
    proof (cases ok1)
      case False
      then have "do_slabs_newslab e c = Some (False, e1)" by (simp add: run1 g(1))
      then show ?thesis using g by auto
    next
      case True
      obtain pg e2 where ma: "memory_allocate e1 ?len = (pg, e2)" by force
      have "unat ?len < 2 ^ 31" using class_okD(3) [OF kok] by (simp only: len(1))
      note m = memory_allocate_fresh [OF ma slab_repD(1,2) [OF g(2)] this]
      have c1: "c \<in> {1..power_largest (slabs e1)}" using c slab_frameD(15) [OF g(3)] by simp
      have rep2: "slab_rep e2 A R"
        using m slab_frameD(12,15) [OF m(1)] by (intro slab_rep_fresh [OF g(2)]) auto
      have fr2: "slab_frame e e2" using slab_frame_trans [OF g(3) m(1)] .
      show ?thesis
      proof (cases "pg = NULL")
        case True
        then have "do_slabs_newslab e c = Some (False, e2)" using \<open>ok1\<close> by (simp add: run1 g(1) ma)
        then show ?thesis using rep2 fr2 m(2) g(4) by auto
      next
        case False
        let ?k1 = "cls (slabs e1) c"
        define k' where "k' = ?k1\<lparr>end_page_ptr := pg, end_page_free := perslab ?k1,
          slab_list := (slab_list ?k1)[sc_slabs ?k1 := pg], sc_slabs := sc_slabs ?k1 + 1\<rparr>"
        define e3 where "e3 = zero_range pg (unat ?len) e2"
        define e4 where "e4 = upd_class c (\<lambda>_. k') e3"
        define e' where "e' = e4\<lparr>slabs := (slabs e4)\<lparr>mem_malloced := mem_malloced (slabs e4) + ?len\<rparr>\<rparr>"
        note k1ok = slab_okD(2) [OF slab_repD(1) [OF g(2)] c1]
        note cl1 = slab_okD(1) [OF slab_repD(1) [OF g(2)] c1]
        have s3: "slabs e3 = slabs e2" "os e3 = os e2" by (simp_all add: e3_def zero_range_def)
        have k2: "cls (slabs e3) c = ?k1" by (simp add: s3 m(3))
        have cl3: "c < length (slabclasses (slabs e3))" using cl1 by (simp add: s3 m(3))
        have sl: "length (slab_list ?k1) = list_size ?k1" by (rule class_okD(6) [OF k1ok])
        have run: "do_slabs_newslab e c = Some (True, e')"
          using \<open>ok1\<close> False cl3 k2 room [OF \<open>ok1\<close>] sl
          by (simp add: run1 g(1) ma e3_def [symmetric] e'_def e4_def k'_def upd_class_def)
        have pl: "page_len k' = page_len ?k" "page_len k' = unat ?len"
          using sp len(1) by (simp_all add: page_len_def k'_def same_pages_def)
        have s': "slabclasses (slabs e') = (slabclasses (slabs e1))[c := k']"
          "power_largest (slabs e') = power_largest (slabs e1)" "mem_base (slabs e') = mem_base (slabs e2)"
          "mem_current (slabs e') = mem_current (slabs e2)" "mem_avail (slabs e') = mem_avail (slabs e2)"
          "os e' = os e2"
          using m(3) slab_frameD(15) [OF m(1)]
          by (simp_all add: e'_def e4_def upd_class_slabs s3)
        have "class_ok k'"
          using k1ok room [OF \<open>ok1\<close>] by (auto simp: class_ok_def k'_def page_len_def)
        then have okS: "slab_ok (slabs e')"
          using slab_repD(1) [OF g(2)] m(4) s' unfolding slab_ok_def
          by (auto simp: nth_list_update_if)
        have fr': "fresh_mem e' = fresh_mem e2" by (simp add: fresh_mem_def s')
        have memx: "mem e' x = (if x \<in> region pg (page_len k') then zero_item else mem e1 x)" for x
          by (simp add: e'_def e4_def upd_class_slabs e3_def zero_range_def m(2) region_def pl(1) len(1))
        have "slab_rep e' A R"
        proof (rule slab_rep_new_page [where pg = pg and k = k', OF g(2) c1 fc1 okS s'(1,2)])
          show "os_malloc (os e') = os_malloc (os e1)" using slab_frameD(12) [OF m(1)] by (simp add: s')
          show "sl_curr k' = 0"
            using fc1 class_okD(4,5) [OF k1ok] by (auto simp: free_chunks_def k'_def)
          show "region pg (page_len k') \<subseteq> fresh_mem e1" "region pg (page_len k') \<inter> fresh_mem e' = {}"
            "fresh_mem e' \<subseteq> fresh_mem e1"
            using m(5-7) False by (simp_all add: fr' pl(2))
        qed (use False room [OF \<open>ok1\<close>] sl memx in \<open>simp_all add: k'_def\<close>)
        moreover have "slab_frame e2 e'"
          unfolding slab_frame_def using slab_frameD(15) [OF m(1)]
          by (auto simp: s' m(3) nth_list_update_if k'_def) (simp_all add: e'_def e4_def upd_class_def e3_def zero_range_def)
        moreover have "mem e' x = mem e x" if "x \<notin> fresh_mem e" for x
          using that m(6) [OF False] memx [of x] g(4) fm1 by (auto simp: pl(2))
        moreover have "free_chunks (cls (slabs e') c) \<noteq> []"
          using False class_okD(2) [OF k1ok] cl1
          by (simp add: s' free_chunks_def end_chunks_def k'_def)
        ultimately show ?thesis
          using run slab_frame_trans [OF fr2] by blast
      qed
    qed
  qed
qed

section \<open>Allocating\<close>

lemma slab_rep_pop:
  assumes rep: "slab_rep e A R" and c: "c \<in> {1..power_largest (slabs e)}"
    and free: "free_chunks (cls (slabs e) c) = xs @ r # ys" "free_chunks k = xs @ ys"
    and k: "class_ok k" "same_pages (cls (slabs e) c) k"
    and e': "slabs e' = (slabs e)\<lparr>slabclasses := (slabclasses (slabs e))[c := k]\<rparr>"
      "os e' = os e" "mem e' = mem e"
  shows "slab_rep e' (A(r \<mapsto> c)) R" "r \<notin> dom A" "r \<noteq> NULL" "it_clsid (mem e r) = 0" "r \<notin> R"
proof -
  note ok = slab_repD(1) [OF rep]
  have r: "r \<in> free_set (slabs e)" using free(1) by (intro free_setI [OF _ c]) simp
  have rc: "r \<in> chunks (cls (slabs e) c)" using slab_repD(5) [OF rep c] free(1) by simp
  have dist: "distinct (xs @ r # ys)" using slab_repD(4) [OF rep c] free(1) by simp
  show "r \<notin> dom A" "r \<notin> R" using free_not_used [OF rep r] .
  show "r \<noteq> NULL" using free_set_subset [OF rep] r slab_repD(9) [OF rep] by (metis subsetD)
  show "it_clsid (mem e r) = 0" by (rule slab_repD(12) [OF rep r])
  show "slab_rep e' (A(r \<mapsto> c)) R"
  proof (rule slab_rep_class [OF rep c e'(1) _ _ k])
    show "distinct (free_chunks k)" "set (free_chunks k) \<subseteq> chunks (cls (slabs e) c)"
      using dist slab_repD(5) [OF rep c] by (simp_all add: free)
    show "d = c \<and> p \<in> chunks (cls (slabs e) c) \<and> p \<notin> set (free_chunks k) \<or> d \<noteq> c \<and> A p = Some d"
      if "(A(r \<mapsto> c)) p = Some d" for p d
    proof (cases "p = r")
      case True
      with that rc dist show ?thesis by (simp add: free)
    next
      case False
      with that have pd: "A p = Some d" by simp
      then have "p \<notin> set (free_chunks (cls (slabs e) c))"
        using slab_repD(8) [OF rep] free_setI [OF _ c] by blast
      then show ?thesis using slab_repD(7) [OF rep pd] pd by (auto simp: free)
    qed
    show "it_clsid (mem e' p) = 0" if "p \<in> free_set (slabs e)" for p
      using slab_repD(12) [OF rep that] e' by simp
    then show "it_clsid (mem e' p) = 0" if "p \<in> set (free_chunks k)" for p
      using that free_setI [OF _ c] free by simp
  qed (simp_all add: e')
qed

lemma take_Suc_pred: "0 < n \<Longrightarrow> n \<le> length xs \<Longrightarrow> take n xs = take (n - 1) xs @ [xs ! (n - 1)]"
  by (cases n) (simp_all add: take_Suc_conv_app_nth)

lemma end_chunks_pop:
  assumes "end_page_ptr k \<noteq> NULL" "0 < unat (end_page_free k)"
  shows "end_chunks k = end_page_ptr k # end_chunks (k\<lparr>end_page_free := end_page_free k - 1,
     end_page_ptr := (if end_page_free k - 1 \<noteq> 0 then end_page_ptr k + unat (sc_size k) else NULL)\<rparr>)"
proof -
  let ?n = "unat (end_page_free k - 1)"
  have n: "unat (end_page_free k) = Suc ?n" using assms(2) unat_minus_one [of "end_page_free k"] by (cases "end_page_free k = 0") auto
  have "end_page_free k - 1 = 0 \<longleftrightarrow> ?n = 0" by (simp add: unat_eq_0)
  then show ?thesis
    using assms(1) by (auto simp: end_chunks_def n upt_rec [of 0] map_Suc_upt [symmetric] simp del: upt_Suc)
qed

lemma do_slabs_pop:
  assumes rep: "slab_rep e A R" and c: "c \<in> {1..power_largest (slabs e)}"
    and more: "free_chunks (cls (slabs e) c) \<noteq> []"
    and p: "p = cls (slabs e) c"
  obtains r g where "take_chunk e c = Some (r, upd_class c g e)"
    "slab_rep (upd_class c ((\<lambda>p. p\<lparr>requested := requested p + sz\<rparr>) \<circ> g) e) (A(r \<mapsto> c)) R"
    "r \<notin> dom A" "r \<noteq> NULL" "it_clsid (mem e r) = 0" "r \<notin> R" "\<And>k. sc_size (g k) = sc_size k"
proof -
  note ok = slab_repD(1) [OF rep]
  note kok = slab_okD(2) [OF ok c] and cl = slab_okD(1) [OF ok c]
  note run = take_chunk_def [of e c, unfolded arr_get_Some [OF cl] Option.bind.simps, folded p]
  show thesis
  proof (cases "sl_curr p = 0")
    case False
    let ?g = "\<lambda>p. p\<lparr>sl_curr := sl_curr p - 1\<rparr>"
    define k' where "k' = ?g p\<lparr>requested := requested p + sz\<rparr>"
    let ?r = "slots p ! (sl_curr p - 1)"
    have len: "sl_curr p \<le> length (slots p)" using class_okD(4,5) [OF kok] p by simp
    have f: "free_chunks (cls (slabs e) c) = take (sl_curr p - 1) (slots p) @ ?r # end_chunks p"
      using take_Suc_pred [OF _ len] False by (simp add: free_chunks_def p)
    have f': "free_chunks k' = take (sl_curr p - 1) (slots p) @ end_chunks p"
      by (simp add: free_chunks_def end_chunks_def k'_def)
    have k': "class_ok k'" "same_pages (cls (slabs e) c) k'"
      using kok by (auto simp: class_ok_def same_pages_def page_len_def k'_def p)
    have e': "slabs (upd_class c ((\<lambda>p. p\<lparr>requested := requested p + sz\<rparr>) \<circ> ?g) e) =
        (slabs e)\<lparr>slabclasses := (slabclasses (slabs e))[c := k']\<rparr>"
      by (simp add: upd_class_slabs k'_def p)
    note pop = slab_rep_pop [OF rep c f f' k' e' upd_class_slabs(3) upd_class_slabs(2)]
    show thesis
      by (rule that [of ?r ?g]) (use False len pop in \<open>simp_all add: run\<close>)
  next
    case True
    let ?g = "\<lambda>p. p\<lparr>end_page_free := end_page_free p - 1,
       end_page_ptr := (if end_page_free p - 1 \<noteq> 0 then end_page_ptr p + unat (sc_size p) else NULL)\<rparr>"
    define k' where "k' = (?g p)\<lparr>requested := requested p + sz\<rparr>"
    have ep: "end_page_ptr p \<noteq> NULL"
      using more True by (auto simp: free_chunks_def end_chunks_def p split: if_splits)
    have f: "free_chunks (cls (slabs e) c) = [] @ end_page_ptr p # end_chunks (?g p)"
      using True end_chunks_pop [OF ep] class_okD(8) [OF kok] ep by (simp add: free_chunks_def p)
    have f': "free_chunks k' = [] @ end_chunks (?g p)"
      using True by (simp add: free_chunks_def end_chunks_def k'_def)
    have k': "class_ok k'" "same_pages (cls (slabs e) c) k'"
      using kok by (auto simp: class_ok_def same_pages_def page_len_def k'_def p word_gt_0)
    have e': "slabs (upd_class c ((\<lambda>p. p\<lparr>requested := requested p + sz\<rparr>) \<circ> ?g) e) =
        (slabs e)\<lparr>slabclasses := (slabclasses (slabs e))[c := k']\<rparr>"
      by (simp add: upd_class_slabs k'_def p)
    note pop = slab_rep_pop [OF rep c f f' k' e' upd_class_slabs(3) upd_class_slabs(2)]
    show thesis
      by (rule that [of "end_page_ptr p" ?g]) (use True ep pop in \<open>simp_all add: run\<close>)
  qed
qed

lemma slabs_alloc_rep:
  assumes rep: "slab_rep e A R" and c: "c \<in> {1..power_largest (slabs e)}"
  shows "\<exists>p e'. slabs_alloc e sz c = Some (p, e') \<and> slab_frame e e'
    \<and> (\<forall>x. x \<notin> fresh_mem e \<longrightarrow> mem e' x = mem e x)
    \<and> (p = NULL \<longrightarrow> slab_rep e' A R)
    \<and> (p \<noteq> NULL \<longrightarrow> slab_rep e' (A(p \<mapsto> c)) R \<and> p \<notin> dom A \<and> p \<notin> R \<and> it_clsid (mem e' p) = 0)"
proof -
  let ?k = "cls (slabs e) c"
  have cond: "end_page_ptr ?k \<noteq> NULL \<or> sl_curr ?k \<noteq> 0 \<longleftrightarrow> free_chunks ?k \<noteq> []"
    using class_okD(4,5,8) [OF slab_okD(2) [OF slab_repD(1) [OF rep] c]]
    by (auto simp: free_chunks_def end_chunks_def)
  obtain more e1 where e1: "(if end_page_ptr ?k \<noteq> NULL \<or> sl_curr ?k \<noteq> 0 then Some (True, e)
      else do_slabs_newslab e c) = Some (more, e1)" "slab_rep e1 A R" "slab_frame e e1"
    and mem1: "\<And>x. x \<notin> fresh_mem e \<Longrightarrow> mem e1 x = mem e x"
    and fc1: "more \<Longrightarrow> free_chunks (cls (slabs e1) c) \<noteq> []"
    using do_slabs_newslab_rep [OF rep c] rep unfolding cond
    by (cases "free_chunks ?k = []") auto
  have c1: "c \<in> {1..power_largest (slabs e1)}" using c slab_frameD(15) [OF e1(3)] by simp
  note cl = slab_okD(1) [OF slab_repD(1) [OF rep] c] and cl1 = slab_okD(1) [OF slab_repD(1) [OF e1(2)] c1]
  have c': "\<not> (c < POWER_SMALLEST \<or> c > power_largest (slabs e))"
    using c by (simp add: POWER_SMALLEST_def)
  note run = do_slabs_alloc_def [of e sz c, unfolded if_not_P [OF c'] arr_get_Some [OF cl] Option.bind.simps e1(1)
      prod.case]
  show ?thesis
  proof (cases more)
    case False
    then have "slabs_alloc e sz c = Some (NULL, e1)" by (simp add: slabs_alloc_def run)
    then show ?thesis using e1 mem1 by auto
  next
    case True
    obtain r g where r: "take_chunk e1 c = Some (r, upd_class c g e1)"
      and rep': "slab_rep (upd_class c ((\<lambda>p. p\<lparr>requested := requested p + sz\<rparr>) \<circ> g) e1) (A(r \<mapsto> c)) R"
      and new: "r \<notin> dom A" "r \<noteq> NULL" "it_clsid (mem e1 r) = 0" "r \<notin> R"
      and g: "\<And>k. sc_size (g k) = sc_size k"
      by (rule do_slabs_pop [OF e1(2) c1 fc1 [OF True] refl, where sz = sz]) (rule that)
    let ?e' = "upd_class c ((\<lambda>p. p\<lparr>requested := requested p + sz\<rparr>) \<circ> g) e1"
    have "slabs_alloc e sz c = Some (r, ?e')"
      using True new(2) by (simp add: slabs_alloc_def run r upd_class_upd_class del: guard_simps)
    moreover have "slab_frame e ?e'"
      by (rule slab_frame_trans [OF e1(3) slab_frame_upd_class]) (simp add: g)
    ultimately show ?thesis
      using new rep' mem1 by (auto simp: upd_class_slabs)
  qed
qed

section \<open>Freeing\<close>

text \<open>
  When the array of free slots cannot grow, the chunk is lost: it is neither in use nor free.
\<close>

lemma slabs_free_rep:
  assumes rep: "slab_rep e A R" and p: "A p = Some c" and z: "it_clsid (mem e p) = 0"
  shows "\<exists>e'. slabs_free e p sz c = Some e' \<and> slab_rep e' (A(p := None)) R \<and> slab_frame e e'
    \<and> mem e' = mem e"
proof -
  let ?k = "cls (slabs e) c"
  note ok = slab_repD(1) [OF rep]
  note c = slab_repD(6) [OF rep p]
  note cl = slab_okD(1) [OF ok c] and kok = slab_okD(2) [OF ok c]
  note len = class_okD(4,5) [OF kok]
  have less: "slab_rep e1 (A(p := None)) R"
    if "slabs e1 = slabs e" "slab_frame e e1" "mem e1 = mem e" for e1
  proof -
    have "slab_rep e1 A R"
      using that slab_frameD(12,14) [OF that(2)] by (intro slab_rep_cong [OF rep]) auto
    then show ?thesis unfolding slab_rep_def by simp
  qed
  define n where "n = (if sl_total ?k \<noteq> 0 then sl_total ?k * 2 else 16)"
  define full where "full \<longleftrightarrow> sl_curr ?k = sl_total ?k"
  define e1 where "e1 = (if full then snd (os_call e) else e)"
  define g where "g = (\<lambda>k :: slabclass. if full then k\<lparr>slots := grown (slots k) n, sl_total := n\<rparr> else k)"
  define k' where "k' = (g ?k)\<lparr>slots := (slots (g ?k))[sl_curr ?k := p], sl_curr := sl_curr ?k + 1,
     requested := requested ?k - sz\<rparr>"
  define e' where "e' = e1\<lparr>slabs := (slabs e1)\<lparr>slabclasses := (slabclasses (slabs e1))[c := k']\<rparr>\<rparr>"
  have e1: "slabs e1 = slabs e" "slab_frame e e1" "mem e1 = mem e"
    by (simp_all add: e1_def) (simp_all add: os_call_def)
  have c': "\<not> (c < POWER_SMALLEST \<or> c > power_largest (slabs e))"
    using c by (simp add: POWER_SMALLEST_def)
  note run = slabs_free_def [of e p sz c, unfolded do_slabs_free_def if_not_P [OF c'] arr_get_Some [OF cl]
      Option.bind.simps, folded full_def n_def]
  have room: "sl_curr ?k < length (slots (g ?k))" "sl_curr (g ?k) = sl_curr ?k"
    using len by (auto simp: g_def full_def n_def)
  have res: "slabs_free e p sz c = Some (if full \<and> \<not> fst (os_call e) then e1 else e')"
    using room cl
    by (cases full; simp add: run e1_def e'_def k'_def g_def Let_def upd_class_def os_call_def)
  have fc: "free_chunks k' = take (sl_curr ?k) (slots ?k) @ p # end_chunks ?k"
    using room len by (auto simp: free_chunks_def end_chunks_def k'_def g_def take_Suc_conv_app_nth
        take_grown full_def n_def)
  have fc_set: "set (free_chunks k') = insert p (set (free_chunks ?k))"
    and fc_dist: "distinct (free_chunks k') \<longleftrightarrow> p \<notin> set (free_chunks ?k) \<and> distinct (free_chunks ?k)"
    unfolding fc by (auto simp: free_chunks_def)
  have pnew: "p \<notin> set (free_chunks ?k)" using slab_repD(8) [OF rep p] free_setI [OF _ c] by blast
  have kok': "class_ok k'" and sp: "same_pages ?k k'"
    using kok room by (auto simp: class_ok_def same_pages_def page_len_def k'_def g_def full_def)
  have s': "slabs e' = (slabs e)\<lparr>slabclasses := (slabclasses (slabs e))[c := k']\<rparr>" by (simp add: e'_def e1)
  have "slab_rep e' (A(p := None)) R"
  proof (rule slab_rep_class [OF rep c s' _ _ kok' sp])
    show "os_malloc (os e') = os_malloc (os e)" "os_tick (os e) \<le> os_tick (os e')"
      using slab_frameD(12,14) [OF e1(2)] by (simp_all add: e'_def)
    show "distinct (free_chunks k')" "set (free_chunks k') \<subseteq> chunks ?k"
      using slab_repD(4,5) [OF rep c] slab_repD(7) [OF rep p] pnew
      by (auto simp: fc_set fc_dist)
    show "d = c \<and> q \<in> chunks ?k \<and> q \<notin> set (free_chunks k') \<or> d \<noteq> c \<and> A q = Some d"
      if "(A(p := None)) q = Some d" for q d
    proof -
      from that have q: "q \<noteq> p" "A q = Some d" by (auto split: if_splits)
      then have "q \<notin> set (free_chunks ?k)" using slab_repD(8) [OF rep] free_setI [OF _ c] by blast
      then show ?thesis using q slab_repD(7) [OF rep q(2)] by (auto simp: fc_set)
    qed
    show "it_clsid (mem e' q) = 0" if "q \<in> free_set (slabs e)" for q
      using slab_repD(12) [OF rep that] e1 by (simp add: e'_def)
    then show "it_clsid (mem e' q) = 0" if "q \<in> set (free_chunks k')" for q
      using that z e1 free_setI [OF _ c] by (auto simp: fc_set e'_def)
  qed
  moreover have "slab_frame e e'"
    using e1(1,2) by (auto simp: slab_frame_def e'_def nth_list_update_if k'_def g_def)
  ultimately show ?thesis
    using res less [OF e1] e1 by (auto simp: e'_def)
qed

text \<open>Adjusting the statistics of a class does not touch the allocator.\<close>

lemma slabs_adjust_rep:
  assumes rep: "slab_rep e A R" and c: "c \<in> {1..power_largest (slabs e)}"
  shows "\<exists>e'. slabs_adjust_mem_requested e c old new = Some e' \<and> slab_rep e' A R \<and> slab_frame e e'
    \<and> mem e' = mem e"
proof -
  note ok = slab_repD(1) [OF rep]
  note cl = slab_okD(1) [OF ok c] and kok = slab_okD(2) [OF ok c]
  let ?k = "cls (slabs e) c"
  let ?g = "\<lambda>p :: slabclass. p\<lparr>requested := requested p - old + new\<rparr>"
  have c': "\<not> (c < POWER_SMALLEST \<or> c > power_largest (slabs e))"
    using c by (simp add: POWER_SMALLEST_def)
  have fc: "free_chunks (?g ?k) = free_chunks ?k" by (simp add: free_chunks_def end_chunks_def)
  have kok': "class_ok (?g ?k)" and sp: "same_pages ?k (?g ?k)"
    using kok by (auto simp: class_ok_def same_pages_def page_len_def)
  have "slab_rep (upd_class c ?g e) A R"
  proof (rule slab_rep_class [OF rep c upd_class_slabs(1) [of c ?g e] _ _ kok' sp])
    show "d = c \<and> q \<in> chunks ?k \<and> q \<notin> set (free_chunks (?g ?k)) \<or> d \<noteq> c \<and> A q = Some d"
      if "A q = Some d" for q d
      using that slab_repD(7,8) [OF rep that] free_setI [OF _ c] unfolding fc by blast
  qed (use slab_repD(4,5,12) [OF rep] c free_setI [OF _ c] in \<open>simp_all add: upd_class_slabs fc\<close>)
  moreover have "slabs_adjust_mem_requested e c old new = Some (upd_class c ?g e)"
    using cl by (simp only: slabs_adjust_mem_requested_def if_not_P [OF c'] arr_get_Some Option.bind.simps)
  ultimately show ?thesis by (simp add: upd_class_slabs)
qed

section \<open>The allocator contract\<close>

interpretation sa: chunk_allocator "\<lambda>e A. slab_rep e A R"
    "\<lambda>e. {1..power_largest (slabs e)}" slabs_alloc slabs_free
    "\<lambda>e p c. region p (unat (sc_size (cls (slabs e) c)))" "\<lambda>e p. it_clsid (mem e p) = 0" for R
proof unfold_locales
  fix e A c sz
  assume "slab_rep e A R" "c \<in> {1..power_largest (slabs e)}"
  then show "\<exists>p e'. slabs_alloc e sz c = Some (p, e') \<and> (p = NULL \<longrightarrow> slab_rep e' A R)
      \<and> (p \<noteq> NULL \<longrightarrow> p \<notin> dom A \<and> slab_rep e' (A(p \<mapsto> c)) R)"
    using slabs_alloc_rep by meson
next
  fix e A p c sz
  assume "slab_rep e A R" "A p = Some c" "it_clsid (mem e p) = 0"
  then show "\<exists>e'. slabs_free e p sz c = Some e' \<and> slab_rep e' (A(p := None)) R"
    using slabs_free_rep by blast
next
  fix e A p q c d
  assume "slab_rep e A R" "A p = Some c" "A q = Some d" "p \<noteq> q"
  then show "region p (unat (sc_size (cls (slabs e) c))) \<inter> region q (unat (sc_size (cls (slabs e) d))) = {}"
    by (intro chunks_apart slab_repD)
qed

section \<open>Choosing a class\<close>

definition first_fit :: "slabs \<Rightarrow> u64 \<Rightarrow> nat \<Rightarrow> nat \<Rightarrow> bool" where
  "first_fit s sz r c \<longleftrightarrow>
     (if \<exists>d \<in> {r..power_largest s}. unat sz \<le> unat (sc_size (cls s d))
      then c \<in> {r..power_largest s} \<and> unat sz \<le> unat (sc_size (cls s c))
           \<and> (\<forall>d \<in> {r..<c}. unat (sc_size (cls s d)) < unat sz)
      else c = 0)"

lemma first_fit_step:
  assumes "first_fit s sz (Suc r) c" "\<not> unat sz \<le> unat (sc_size (cls s r))" "r < power_largest s"
  shows "first_fit s sz r c"
proof -
  have "{r..power_largest s} = insert r {Suc r..power_largest s}" using assms(3) by auto
  moreover have "{r..<c} = insert r {Suc r..<c}" if "c \<in> {Suc r..power_largest s}" using that by auto
  ultimately show ?thesis
    using assms(1,2) unfolding first_fit_def
    by (cases "\<exists>d\<in>{Suc r..power_largest s}. unat sz \<le> unat (sc_size (cls s d))") auto
qed

lemma slabs_clsid_loop_first_fit:
  assumes ok: "length (slabclasses s) = MAX_NUMBER_OF_SLAB_CLASSES" "power_largest s \<le> POWER_LARGEST"
  shows "r \<le> power_largest s \<Longrightarrow> \<exists>c. slabs_clsid_loop s sz r = Some c \<and> first_fit s sz r c"
proof (induction "power_largest s - r" arbitrary: r)
  case 0
  then have "r = power_largest s" by simp
  with ok show ?case
    by (subst slabs_clsid_loop.simps) (auto simp: MAX_NUMBER_OF_SLAB_CLASSES_def not_less first_fit_def)
next
  case (Suc n)
  then have r: "r < power_largest s" "r < length (slabclasses s)"
    using ok by (auto simp: MAX_NUMBER_OF_SLAB_CLASSES_def)
  show ?case
  proof (cases "unat sz \<le> unat (sc_size (cls s r))")
    case True
    with r show ?thesis by (subst slabs_clsid_loop.simps) (auto simp: first_fit_def)
  next
    case False
    have "n = power_largest s - Suc r" using Suc.hyps(2) by simp
    from Suc.hyps(1) [OF this Suc_leI [OF r(1)]] obtain c
      where c: "slabs_clsid_loop s sz (Suc r) = Some c" "first_fit s sz (Suc r) c" by blast
    from c(2) False r(1) have "first_fit s sz r c" by (rule first_fit_step)
    with c(1) show ?thesis
      using r False by (subst slabs_clsid_loop.simps) simp
  qed
qed

lemma slabs_clsid_first_fit:
  assumes "slab_ok (slabs e)"
  shows "\<exists>c. slabs_clsid e sz = Some c \<and> (if sz = 0 then c = 0 else first_fit (slabs e) sz 1 c)"
  using slabs_clsid_loop_first_fit [of "slabs e" 1 sz] assms
  by (auto simp: slabs_clsid_def slab_ok_def POWER_SMALLEST_def)

end
