(* ===== verification/Items_Inv.thy ===== *)
theory Items_Inv
  imports LRU Slabs_Rep
begin

unbundle bit_operations_syntax

text \<open>
  The invariant of the cache and its preservation by the basic operations of
  \<^verbatim>\<open>memcached/engines/default_engine/items.c\<close>: unlinking, linking, releasing, moving to the front,
  replacing and looking up. The hash table, the LRU queues and the slab allocator are tied
  together: the same items are in the table and in the queues, each occupies a chunk of the class
  it records and fits in it, and what a client holds is never a free chunk.
\<close>

section \<open>The invariant of the cache\<close>

text \<open>
  \<open>S\<close> are the items that can be found (linked: in the hash table and in an LRU queue), \<open>H\<close> the items
  that are only held by clients (allocated, not linked, reference count not zero), \<open>C\<close> the cursors of
  the tap walkers and the scrubber, which sit in the LRU queues but are not items.
\<close>

definition class_map :: "default_engine \<Rightarrow> ptr set \<Rightarrow> (ptr \<rightharpoonup> nat)" where
  "class_map e X = (\<lambda>p. if p \<in> X then Some (clsid e p) else None)"

definition item_ok :: "default_engine \<Rightarrow> ptr \<Rightarrow> bool" where
  "item_ok e x \<longleftrightarrow> \<not> slabbed (mem e x) \<and> key_ok (mem e x)
     \<and> unat (ITEM_ntotal e (mem e x)) \<le> unat (sc_size (cls (slabs e) (clsid e x)))
     \<and> (it_iflag (mem e x) AND ITEM_WITH_CAS \<noteq> 0 \<longleftrightarrow> use_cas (config e))"

definition engine_core :: "default_engine \<Rightarrow> ptr set \<Rightarrow> ptr set \<Rightarrow> ptr set \<Rightarrow> (ptr \<rightharpoonup> nat) \<Rightarrow> bool" where
  "engine_core e S C H A \<longleftrightarrow> assoc_rep e S \<and> hashpower (assoc e) < 31
     \<and> lru_rep e (S \<union> C) \<and> slab_rep e A C
     \<and> (\<forall>x \<in> S \<union> H. A x = Some (clsid e x) \<and> item_ok e x)
     \<and> S \<inter> H = {}
     \<and> (\<forall>x \<in> S. linked (mem e x))
     \<and> (\<forall>x \<in> H. \<not> linked (mem e x) \<and> it_refcount (mem e x) \<noteq> 0)
     \<and> (\<forall>x \<in> C. \<not> linked (mem e x) \<and> \<not> slabbed (mem e x) \<and> it_exptime (mem e x) = 0)"

definition engine_inv :: "default_engine \<Rightarrow> ptr set \<Rightarrow> ptr set \<Rightarrow> ptr set \<Rightarrow> bool" where
  "engine_inv e S C H \<longleftrightarrow> engine_core e S C H (class_map e (S \<union> H))"

lemma engine_coreD:
  assumes "engine_core e S C H A"
  shows "assoc_rep e S" "hashpower (assoc e) < 31" "lru_rep e (S \<union> C)" "slab_rep e A C"
    "x \<in> S \<union> H \<Longrightarrow> A x = Some (clsid e x)" "x \<in> S \<union> H \<Longrightarrow> item_ok e x" "S \<inter> H = {}"
    "x \<in> S \<Longrightarrow> linked (mem e x)" "x \<in> H \<Longrightarrow> \<not> linked (mem e x)"
    "x \<in> H \<Longrightarrow> it_refcount (mem e x) \<noteq> 0"
    "x \<in> C \<Longrightarrow> \<not> linked (mem e x)" "x \<in> C \<Longrightarrow> \<not> slabbed (mem e x)"
    "x \<in> C \<Longrightarrow> it_exptime (mem e x) = 0"
  using assms by (auto simp: engine_core_def)

lemma engine_coreI:
  assumes "assoc_rep e S" "hashpower (assoc e) < 31" "lru_rep e (S \<union> C)" "slab_rep e A C"
    and "\<And>x. x \<in> S \<union> H \<Longrightarrow> A x = Some (clsid e x)" "\<And>x. x \<in> S \<union> H \<Longrightarrow> item_ok e x" "S \<inter> H = {}"
    and "\<And>x. x \<in> S \<Longrightarrow> linked (mem e x)" "\<And>x. x \<in> H \<Longrightarrow> \<not> linked (mem e x)"
      "\<And>x. x \<in> H \<Longrightarrow> it_refcount (mem e x) \<noteq> 0"
      "\<And>x. x \<in> C \<Longrightarrow> \<not> linked (mem e x)" "\<And>x. x \<in> C \<Longrightarrow> \<not> slabbed (mem e x)"
      "\<And>x. x \<in> C \<Longrightarrow> it_exptime (mem e x) = 0"
  shows "engine_core e S C H A"
  using assms by (simp add: engine_core_def)

lemma engine_core_disjoint:
  assumes "engine_core e S C H A"
  shows "C \<inter> (S \<union> H) = {}" "NULL \<notin> S" "NULL \<notin> H" "NULL \<notin> C"
proof -
  have "p \<noteq> NULL \<and> p \<notin> C" if "p \<in> S \<union> H" for p
    using used_not_NULL [OF engine_coreD(4) [OF assms] engine_coreD(5) [OF assms that]] by simp
  then show "C \<inter> (S \<union> H) = {}" "NULL \<notin> S" "NULL \<notin> H" by auto
  show "NULL \<notin> C" using lru_rep_not_NULL [OF engine_coreD(3) [OF assms]] by simp
qed

lemma engine_core_class:
  assumes "engine_core e S C H A" "x \<in> S \<union> H"
  shows "clsid e x \<in> {1..power_largest (slabs e)}" "clsid e x < POWER_LARGEST"
proof -
  show c: "clsid e x \<in> {1..power_largest (slabs e)}"
    by (rule slab_repD(6) [OF engine_coreD(4) [OF assms(1)] engine_coreD(5) [OF assms]])
  show "clsid e x < POWER_LARGEST"
    by (rule slab_okD(4) [OF slab_repD(1) [OF engine_coreD(4) [OF assms(1)]] c])
qed

section \<open>What an operation leaves alone\<close>

text \<open>All of an item but its links.\<close>

definition body :: "hash_item \<Rightarrow> hash_item" where
  "body i = i\<lparr>it_next := NULL, it_prev := NULL, h_next := NULL\<rparr>"

lemma body_fields:
  assumes "body i = body j"
  shows "it_time i = it_time j" "it_exptime i = it_exptime j"
    "it_nbytes i = it_nbytes j" "it_flags i = it_flags j" "it_nkey i = it_nkey j"
    "it_iflag i = it_iflag j" "it_refcount i = it_refcount j" "it_clsid i = it_clsid j"
    "it_cas i = it_cas j" "it_key i = it_key j" "it_data i = it_data j"
  using arg_cong [OF assms, of it_time] arg_cong [OF assms, of it_exptime]
    arg_cong [OF assms, of it_nbytes] arg_cong [OF assms, of it_flags]
    arg_cong [OF assms, of it_nkey] arg_cong [OF assms, of it_iflag]
    arg_cong [OF assms, of it_refcount] arg_cong [OF assms, of it_clsid]
    arg_cong [OF assms, of it_cas] arg_cong [OF assms, of it_key] arg_cong [OF assms, of it_data]
  by (simp_all add: body_def)

lemma body_same_but_h: "same_but_h m m' \<Longrightarrow> body (m' x) = body (m x)"
  using same_but_h_fields [of m m' x] by (simp add: body_def)

lemma body_same_but_q: "same_but_q m m' \<Longrightarrow> body (m' x) = body (m x)"
  using same_but_q_fields [of m m' x] by (simp add: body_def)

text \<open>The environment, the configuration and the shape of the slab classes.\<close>

definition env_frame :: "default_engine \<Rightarrow> default_engine \<Rightarrow> bool" where
  "env_frame e e' \<longleftrightarrow> srv_hash (srv e') = srv_hash (srv e) \<and> srv_time (srv e') = srv_time (srv e)
     \<and> srv_realtime (srv e') = srv_realtime (srv e) \<and> srv_wallclock (srv e') = srv_wallclock (srv e)
     \<and> srv_specific (srv e') = srv_specific (srv e)
     \<and> config e' = config e \<and> scrubber e' = scrubber e \<and> initialized e' = initialized e
     \<and> tap_clients e' = tap_clients e \<and> vbucket_infos e' = vbucket_infos e
     \<and> num_features e' = num_features e
     \<and> power_largest (slabs e') = power_largest (slabs e)
     \<and> (\<forall>c. sc_size (cls (slabs e') c) = sc_size (cls (slabs e) c))"

lemma env_frameD:
  assumes "env_frame e e'"
  shows "srv_hash (srv e') = srv_hash (srv e)" "srv_time (srv e') = srv_time (srv e)"
    "srv_realtime (srv e') = srv_realtime (srv e)" "srv_wallclock (srv e') = srv_wallclock (srv e)"
    "srv_specific (srv e') = srv_specific (srv e)"
    "config e' = config e" "scrubber e' = scrubber e" "initialized e' = initialized e"
    "tap_clients e' = tap_clients e" "vbucket_infos e' = vbucket_infos e"
    "num_features e' = num_features e" "power_largest (slabs e') = power_largest (slabs e)"
    "sc_size (cls (slabs e') c) = sc_size (cls (slabs e) c)"
    "current_time e' = current_time e"
  using assms by (auto simp: env_frame_def current_time_def)

lemma env_frame_refl [simp]: "env_frame e e"
  by (simp add: env_frame_def)

lemma env_frame_trans [trans]: "env_frame e e' \<Longrightarrow> env_frame e' e'' \<Longrightarrow> env_frame e e''"
  by (simp add: env_frame_def)

lemma env_frame_simps [simp]:
  "env_frame e (upd_item x f e)" "env_frame e (upd_stats g e)" "env_frame e (e\<lparr>cas_id := n\<rparr>)"
  "env_frame e (e\<lparr>items := q\<rparr>)" "env_frame e (e\<lparr>srv := (srv e)\<lparr>srv_evicting := ks\<rparr>\<rparr>)"
  by (simp_all add: env_frame_def upd_item_def upd_stats_def)

lemma assoc_env_frame: "assoc_frame e e' \<Longrightarrow> env_frame e e'"
  by (simp add: assoc_frame_def env_frame_def)

lemma queue_env_frame: "queue_frame c e e' \<Longrightarrow> env_frame e e'"
  by (simp add: queue_frame_def env_frame_def)

lemma slab_env_frame: "slab_frame e e' \<Longrightarrow> env_frame e e'"
  by (simp add: slab_frame_def env_frame_def)

section \<open>Congruence\<close>

lemma assoc_rep_cong:
  assumes rep: "assoc_rep e S" and a: "assoc e' = assoc e" "srv_hash (srv e') = srv_hash (srv e)"
    and x: "\<And>x. x \<in> S \<Longrightarrow> hn e' x = hn e x \<and> ikey e' x = ikey e x \<and> key_ok (mem e' x) = key_ok (mem e x)"
  shows "assoc_rep e' S"
proof -
  have pos: "item_pos e' x = item_pos e x" if "x \<in> S" for x
    using x [OF that] by (simp add: a hash_of_def)
  have "bucket_holds e' p {x \<in> S. item_pos e' x = p}" if "table_pos (assoc e) p" for p
  proof -
    have "{x \<in> S. item_pos e' x = p} = {x \<in> S. item_pos e x = p}" using pos by auto
    moreover have "load_pos e' p = load_pos e p" using that by (cases p) (simp_all add: a)
    ultimately show ?thesis
      using bucket_holds_frame [OF assoc_repD(6) [OF rep that]] x by simp
  qed
  moreover have "inj_on (ikey e') S" using assoc_repD(3) [OF rep] x by (simp add: inj_on_def)
  ultimately show ?thesis using rep x by (simp add: assoc_rep_def a)
qed

text \<open>
  A change of state that keeps the links of the linked items and cursors, and of every item what
  the invariant says of it.
\<close>

lemma engine_core_cong:
  assumes core: "engine_core e S C H A" and env: "env_frame e e'"
    and same: "assoc e' = assoc e" "heads (items e') = heads (items e)" "tails (items e') = tails (items e)"
      "sizes (items e') = sizes (items e)" "length (itemstats (items e')) = length (itemstats (items e))"
      "slabs e' = slabs e" "os e' = os e"
    and links: "\<And>x. x \<in> S \<union> C \<Longrightarrow> nxt e' x = nxt e x \<and> prv e' x = prv e x"
      "\<And>x. x \<in> S \<Longrightarrow> hn e' x = hn e x"
    and iok: "\<And>x. x \<in> S \<union> H \<Longrightarrow> ikey e' x = ikey e x \<and> key_ok (mem e' x) = key_ok (mem e x)
        \<and> it_iflag (mem e' x) = it_iflag (mem e x) \<and> it_nkey (mem e' x) = it_nkey (mem e x)
        \<and> it_nbytes (mem e' x) = it_nbytes (mem e x)"
    and cls: "\<And>x. it_clsid (mem e' x) = it_clsid (mem e x)"
    and ref: "\<And>x. x \<in> H \<Longrightarrow> it_refcount (mem e' x) \<noteq> 0"
    and cur: "\<And>x. x \<in> C \<Longrightarrow> it_iflag (mem e' x) = it_iflag (mem e x) \<and> it_exptime (mem e' x) = 0"
  shows "engine_core e' S C H A"
proof -
  have a: "assoc_rep e' S"
    by (rule assoc_rep_cong [OF engine_coreD(1) [OF core] same(1) env_frameD(1) [OF env]])
       (use links(2) iok in auto)
  have "lru_rep (e'\<lparr>items := items e\<rparr>) (S \<union> C)"
    by (rule lru_rep_cong [OF engine_coreD(3) [OF core]]) (use links(1) cls in auto)
  then have l: "lru_rep e' (S \<union> C)"
    using same(2-5) by (simp add: lru_rep_def lru_holds_def lru_queue_def items_ok_def)
  have s: "slab_rep e' A C"
    by (rule slab_rep_cong [OF engine_coreD(4) [OF core]]) (use same cls in auto)
  have i: "item_ok e' x" if "x \<in> S \<union> H" for x
    using engine_coreD(6) [OF core that] iok [OF that] cls [of x] env_frameD(6) [OF env] same(6)
    by (simp add: item_ok_def ITEM_ntotal_def)
  show ?thesis
    unfolding engine_core_def
    using core a l s i iok ref cur cls same(1) by (simp add: engine_core_def)
qed

section \<open>Flags\<close>

lemma bit_flag: "bit (push_bit m 1 :: u16) n \<longleftrightarrow> n = m \<and> m < 16"
  by (auto simp: bit_simps)

lemma flag_push_bit:
  "ITEM_LINKED = push_bit 8 1" "ITEM_SLABBED = push_bit 9 1" "ITEM_WITH_CAS = push_bit 0 1"
  by (simp_all add: ITEM_LINKED_def ITEM_SLABBED_def ITEM_WITH_CAS_def push_bit_eq_mult)

lemma and_flag_0: "w AND push_bit m 1 = 0 \<longleftrightarrow> \<not> bit w m" if "m < 16" for w :: u16
proof -
  have "w AND push_bit m 1 = 0 \<longleftrightarrow> (\<forall>n. \<not> bit (w AND push_bit m 1) n)"
    by (metis bit_0_eq bit_eqI bot_apply bot_bool_def)
  also have "\<dots> \<longleftrightarrow> \<not> bit w m" using that by (auto simp only: bit_and_iff bit_flag)
  finally show ?thesis .
qed

lemma flag_eqs [simp]:
  fixes w :: u16
  shows "(w AND NOT ITEM_LINKED) AND ITEM_LINKED = 0"
    "(w AND NOT ITEM_LINKED) AND ITEM_SLABBED = w AND ITEM_SLABBED"
    "(w AND NOT ITEM_LINKED) AND ITEM_WITH_CAS = w AND ITEM_WITH_CAS"
    "(w OR ITEM_LINKED) AND ITEM_LINKED \<noteq> 0"
    "(w OR ITEM_LINKED) AND ITEM_SLABBED = w AND ITEM_SLABBED"
    "(w OR ITEM_LINKED) AND ITEM_WITH_CAS = w AND ITEM_WITH_CAS"
    "w AND (ITEM_LINKED OR ITEM_SLABBED) = 0 \<longleftrightarrow> w AND ITEM_LINKED = 0 \<and> w AND ITEM_SLABBED = 0"
    "ITEM_WITH_CAS AND ITEM_LINKED = 0" "ITEM_WITH_CAS AND ITEM_SLABBED = 0"
proof -
  show "(w AND NOT ITEM_LINKED) AND ITEM_LINKED = 0"
    unfolding flag_push_bit by (subst and_flag_0) (simp_all only: bit_and_iff bit_not_iff bit_flag, auto)
  show "(w OR ITEM_LINKED) AND ITEM_LINKED \<noteq> 0"
    unfolding flag_push_bit by (subst and_flag_0) (simp_all only: bit_or_iff bit_flag, auto)
  show "(w AND NOT ITEM_LINKED) AND ITEM_SLABBED = w AND ITEM_SLABBED"
    "(w AND NOT ITEM_LINKED) AND ITEM_WITH_CAS = w AND ITEM_WITH_CAS"
    "(w OR ITEM_LINKED) AND ITEM_SLABBED = w AND ITEM_SLABBED"
    "(w OR ITEM_LINKED) AND ITEM_WITH_CAS = w AND ITEM_WITH_CAS"
    "ITEM_WITH_CAS AND ITEM_LINKED = 0" "ITEM_WITH_CAS AND ITEM_SLABBED = 0"
    unfolding flag_push_bit by (rule bit_eqI; auto simp only: bit_and_iff bit_or_iff bit_not_iff bit_flag bit_0_eq bot_apply bot_bool_def)+
  have "w AND (ITEM_LINKED OR ITEM_SLABBED) = 0 \<longleftrightarrow> (\<forall>n. \<not> bit (w AND (ITEM_LINKED OR ITEM_SLABBED)) n)"
    by (metis bit_0_eq bit_eqI bot_apply bot_bool_def)
  then show "w AND (ITEM_LINKED OR ITEM_SLABBED) = 0 \<longleftrightarrow> w AND ITEM_LINKED = 0 \<and> w AND ITEM_SLABBED = 0"
    unfolding flag_push_bit by (simp only: and_flag_0) (auto simp only: bit_and_iff bit_or_iff bit_flag)
qed

lemma flags_nonzero [simp]: "ITEM_LINKED \<noteq> 0" "ITEM_SLABBED \<noteq> 0" "ITEM_WITH_CAS \<noteq> 0"
  by (simp_all add: ITEM_LINKED_def ITEM_SLABBED_def ITEM_WITH_CAS_def push_bit_eq_mult)

section \<open>Soft updates\<close>

text \<open>A write to a field of an item that no structure depends on.\<close>

lemma engine_core_soft:
  assumes core: "engine_core e S C H A"
    and f: "it_next (f (mem e x)) = it_next (mem e x)" "it_prev (f (mem e x)) = it_prev (mem e x)"
      "h_next (f (mem e x)) = h_next (mem e x)" "it_nkey (f (mem e x)) = it_nkey (mem e x)"
      "it_key (f (mem e x)) = it_key (mem e x)" "it_iflag (f (mem e x)) = it_iflag (mem e x)"
      "it_nbytes (f (mem e x)) = it_nbytes (mem e x)" "it_clsid (f (mem e x)) = it_clsid (mem e x)"
    and H: "x \<in> H \<Longrightarrow> it_refcount (f (mem e x)) \<noteq> 0"
    and C: "x \<in> C \<Longrightarrow> it_exptime (f (mem e x)) = 0"
  shows "engine_core (upd_item x f e) S C H A"
proof (rule engine_core_cong [OF core env_frame_simps(1)])
  fix y
  show "it_refcount (mem (upd_item x f e) y) \<noteq> 0" if "y \<in> H"
    using engine_coreD(10) [OF core that] H that by (auto simp: upd_item_def)
  show "it_iflag (mem (upd_item x f e) y) = it_iflag (mem e y) \<and> it_exptime (mem (upd_item x f e) y) = 0"
    if "y \<in> C"
    using engine_coreD(13) [OF core that] C that f by (auto simp: upd_item_def)
qed (use f in \<open>simp_all add: upd_item_def item_get_key_def key_ok_def\<close>)

section \<open>Freeing\<close>

lemma lru_head_tail_in:
  assumes "lru_rep e Q" "c < POWER_LARGEST"
  shows "heads (items e) ! c \<in> insert NULL Q" "tails (items e) ! c \<in> insert NULL Q"
proof -
  obtain xs where xs: "lru_queue e c xs" "set xs = {x \<in> Q. clsid e x = c}"
    using lru_repD(3) [OF assms] by (auto simp: lru_holds_def)
  then have "heads (items e) ! c = (case xs of [] \<Rightarrow> NULL | x # _ \<Rightarrow> x)"
    "tails (items e) ! c = last_or NULL xs"
    by (auto simp: lru_queue_def intro: dll_head)
  then show "heads (items e) ! c \<in> insert NULL Q" "tails (items e) ! c \<in> insert NULL Q"
    using xs(2) last_or_nonempty [of xs NULL] by (cases xs; auto)+
qed

lemma item_free_core:
  assumes core: "engine_core e S C H A" and x: "x \<notin> S \<union> H \<union> C" "A x = Some (clsid e x)"
    and free: "\<not> linked (mem e x)" "it_refcount (mem e x) = 0"
  shows "\<exists>e'. item_free e x = Some e' \<and> engine_core e' S C H (A(x := None)) \<and> env_frame e e'
    \<and> (\<forall>y. y \<noteq> x \<longrightarrow> mem e' y = mem e y) \<and> cas_id e' = cas_id e \<and> stats e' = stats e"
proof -
  note slab = engine_coreD(4) [OF core] and lru = engine_coreD(3) [OF core]
  let ?c = "clsid e x"
  have c: "?c \<in> {1..power_largest (slabs e)}" by (rule slab_repD(6) [OF slab x(2)])
  have c200: "?c < POWER_LARGEST" by (rule slab_okD(4) [OF slab_repD(1) [OF slab] c])
  have nn: "x \<noteq> NULL" by (rule used_not_NULL(1) [OF slab x(2)])
  define e1 where "e1 = upd_item x (\<lambda>i. i\<lparr>it_clsid := 0, it_iflag := it_iflag i OR ITEM_SLABBED\<rparr>) e"
  have mem1: "\<And>y. y \<noteq> x \<Longrightarrow> mem e1 y = mem e y" "it_clsid (mem e1 x) = 0"
    by (simp_all add: e1_def upd_item_def)
  have slab1: "slab_rep e1 A C"
    by (rule slab_rep_cong [OF slab]) (use x(2) in \<open>auto simp: e1_def upd_item_def\<close>)
  obtain e' where e': "slabs_free e1 x (ITEM_ntotal e (mem e x)) ?c = Some e'"
    "slab_rep e' (A(x := None)) C" "slab_frame e1 e'" "mem e' = mem e1"
    using slabs_free_rep [OF slab1 x(2) mem1(2)] by blast
  have ht: "heads (items e) ! ?c \<noteq> x" "tails (items e) ! ?c \<noteq> x"
    using lru_head_tail_in [OF lru c200] x(1) nn by auto
  have len: "?c < length (heads (items e))" "?c < length (tails (items e))"
    using lru_repD(1) [OF lru] c200 by (simp_all add: items_ok_def)
  have run: "item_free e x = Some e'"
    using free ht len e'(1) by (simp add: item_free_def e1_def Let_def)
  have env: "env_frame e e'"
    using slab_env_frame [OF e'(3)] env_frame_trans [OF env_frame_simps(1)] by (simp add: e1_def)
  have same: "assoc e' = assoc e" "items e' = items e" "stats e' = stats e" "cas_id e' = cas_id e"
    using slab_frameD(2,3,5,7) [OF e'(3)] by (simp_all add: e1_def upd_item_def)
  have mem': "mem e' y = mem e y" if "y \<in> S \<union> H \<union> C" for y
    using that mem1 e'(4) x(1) by metis
  have a: "assoc_rep e' S"
    by (rule assoc_rep_cong [OF engine_coreD(1) [OF core] same(1) env_frameD(1) [OF env]])
       (simp add: mem')
  have l: "lru_rep e' (S \<union> C)"
    by (rule lru_rep_cong [OF lru same(2)]) (auto simp: mem')
  have i: "item_ok e' y \<and> (A(x := None)) y = Some (clsid e' y)" if "y \<in> S \<union> H" for y
    using engine_coreD(5,6) [OF core that] mem' [of y] that env_frameD(6,13) [OF env] x(1)
    by (auto simp: item_ok_def ITEM_ntotal_def)
  have "engine_core e' S C H (A(x := None))"
    by (rule engine_coreI) (use engine_coreD [OF core] a l e'(2) i same(1) mem' in auto)
  then show ?thesis using run env same mem1 e'(4) by auto
qed

section \<open>Unlinking\<close>

lemma class_map_cong:
  "(\<And>y. y \<in> X \<Longrightarrow> clsid e' y = clsid e y) \<Longrightarrow> class_map e' X = class_map e X"
  by (auto simp: class_map_def)

lemma class_map_remove: "(class_map e X)(x := None) = class_map e (X - {x})"
  by (auto simp: class_map_def)

lemma class_map_Some: "class_map e X x = Some c \<longleftrightarrow> x \<in> X \<and> c = clsid e x"
  by (auto simp: class_map_def)

lemma body_clsid: "body (mem e' y) = body (mem e y) \<Longrightarrow> clsid e' y = clsid e y"
  using body_fields(8) by metis

lemma ikey_body: "body (mem e' y) = body (mem e y) \<Longrightarrow> ikey e' y = ikey e y"
  using body_fields(5,10) by (metis item_get_key_def)

lemma item_ok_body:
  assumes "item_ok e y" "env_frame e e'" "body (mem e' y) = body (mem e y)"
  shows "item_ok e' y"
  using assms(1) body_fields [OF assms(3)] env_frameD(6,13) [OF assms(2)]
  by (simp add: item_ok_def ITEM_ntotal_def key_ok_def)

lemma engine_invD:
  assumes "engine_inv e S C H"
  shows "engine_core e S C H (class_map e (S \<union> H))"
  using assms by (simp add: engine_inv_def)

lemma unlink_prefix:
  assumes core: "engine_core e S C H A" and x: "x \<in> S"
  shows "\<exists>e'. do_item_unlink e x = (if it_refcount (mem e x) = 0 then item_free e' x else Some e')
    \<and> engine_core e' (S - {x}) C H A \<and> env_frame e e' \<and> cas_id e' = cas_id e
    \<and> (\<forall>y. y \<noteq> x \<longrightarrow> body (mem e' y) = body (mem e y))
    \<and> body (mem e' x) = body ((mem e x)\<lparr>it_iflag := it_iflag (mem e x) AND NOT ITEM_LINKED\<rparr>)"
proof -
  let ?f = "\<lambda>i :: hash_item. i\<lparr>it_iflag := it_iflag i AND NOT ITEM_LINKED\<rparr>"
  define e1 where "e1 = upd_item x ?f e"
  define e2 where "e2 = upd_stats (\<lambda>s. s\<lparr>st_curr_bytes := st_curr_bytes s - ITEM_ntotal e1 (mem e1 x),
                                  st_curr_items := st_curr_items s - 1\<rparr>) e1"
  have m2: "mem e2 y = (if y = x then ?f (mem e x) else mem e y)" for y
    by (simp add: e2_def e1_def upd_item_def upd_stats_def)
  have s2: "assoc e2 = assoc e" "srv e2 = srv e" "items e2 = items e" "slabs e2 = slabs e" "os e2 = os e"
    "cas_id e2 = cas_id e" "config e2 = config e"
    by (simp_all add: e2_def e1_def upd_item_def upd_stats_def)
  have env2: "env_frame e e2"
    unfolding e2_def e1_def by (rule env_frame_trans [OF env_frame_simps(1) env_frame_simps(2)])
  have a2: "assoc_rep e2 S"
    by (rule assoc_rep_cong [OF engine_coreD(1) [OF core] s2(1)])
       (simp_all add: s2 m2 item_get_key_def key_ok_def)
  obtain e3 where e3: "assoc_delete e2 (hash_of e2 x) (ikey e2 x) = Some e3" "assoc_frame e2 e3"
    "assoc_rep e3 (S - {x})" "same_shape (assoc e2) (assoc e3)" "os e3 = os e2"
    using assoc_delete_rep [OF a2 x] .
  note f3 = assoc_frameD [OF e3(2)] and m3 = same_but_h_fields [OF assoc_frameD(8) [OF e3(2)]]
  have l3: "lru_rep e3 (S \<union> C)"
    by (rule lru_rep_cong [OF engine_coreD(3) [OF core]]) (auto simp: f3 s2 m3 m2)
  obtain e4 where e4: "item_unlink_q e3 x = Some e4" "lru_rep e4 ((S \<union> C) - {x})"
    "queue_frame (clsid e3 x) e3 e4" "mem e4 x = mem e3 x"
    using item_unlink_q_rep [OF l3, of x] x by blast
  note f4 = queue_frameD [OF e4(3)] and m4 = same_but_q_fields [OF queue_frameD(9) [OF e4(3)]]
  have run: "do_item_unlink e x = (if it_refcount (mem e x) = 0 then item_free e4 x else Some e4)"
    using engine_coreD(8) [OF core x] e3(1) e4(1) m2 [of x] m3(9) [of x] e4(4)
    unfolding do_item_unlink_def Let_def e1_def [symmetric] e2_def [symmetric]
    by (simp add: s2(1) hash_of_def e1_def upd_item_def)
  have env4: "env_frame e e4"
    by (rule env_frame_trans [OF env2 env_frame_trans [OF assoc_env_frame [OF e3(2)] queue_env_frame [OF e4(3)]]])
  have b42: "body (mem e4 y) = body (mem e2 y)" for y
    using body_same_but_q [OF f4(9)] body_same_but_h [OF f3(8)] by metis
  have b: "body (mem e4 y) = body (mem e y)" if "y \<noteq> x" for y
    using b42 [of y] m2 [of y] that by simp
  have a4: "assoc_rep e4 (S - {x})"
    by (rule assoc_rep_cong [OF e3(3) f4(4)]) (simp_all add: f4 m4 item_get_key_def key_ok_def)
  have xC: "x \<notin> C" using engine_core_disjoint(1) [OF core] x by auto
  then have "(S \<union> C) - {x} = (S - {x}) \<union> C" by auto
  then have l4: "lru_rep e4 ((S - {x}) \<union> C)" using e4(2) by simp
  have sl4: "slab_rep e4 A C"
    by (rule slab_rep_cong [OF engine_coreD(4) [OF core]])
       (simp_all add: f4 f3 s2 m4 m3 m2 e3(5))
  have "engine_core e4 (S - {x}) C H A"
  proof (rule engine_coreI)
    show "hashpower (assoc e4) < 31"
      using engine_coreD(2) [OF core] e3(4) by (simp add: f4 same_shape_def s2)
    fix y
    show "(S - {x}) \<inter> H = {}" using engine_coreD(7) [OF core] by auto
    {
      assume y: "y \<in> S - {x} \<union> H"
      then have y': "y \<noteq> x" "y \<in> S \<union> H" using x engine_coreD(7) [OF core] by auto
      show "A y = Some (clsid e4 y)"
        unfolding body_clsid [OF b [OF y'(1)]] by (rule engine_coreD(5) [OF core y'(2)])
      show "item_ok e4 y"
        by (rule item_ok_body [OF engine_coreD(6) [OF core y'(2)] env4 b [OF y'(1)]])
    }
    show "linked (mem e4 y)" if "y \<in> S - {x}"
      using engine_coreD(8) [OF core, of y] body_fields(6) [OF b [of y]] that by simp
    show "\<not> linked (mem e4 y)" "it_refcount (mem e4 y) \<noteq> 0" if "y \<in> H"
    proof -
      have "y \<noteq> x" using that x engine_coreD(7) [OF core] by blast
      then show "\<not> linked (mem e4 y)" "it_refcount (mem e4 y) \<noteq> 0"
        using engine_coreD(9,10) [OF core that] body_fields(6,7) [OF b [of y]] by simp_all
    qed
    show "\<not> linked (mem e4 y)" "\<not> slabbed (mem e4 y)" "it_exptime (mem e4 y) = 0" if "y \<in> C"
    proof -
      have "y \<noteq> x" using that xC by blast
      then show "\<not> linked (mem e4 y)" "\<not> slabbed (mem e4 y)" "it_exptime (mem e4 y) = 0"
        using engine_coreD(11-13) [OF core that] body_fields(2,6) [OF b [of y]] by simp_all
    qed
  qed (use a4 l4 sl4 in auto)
  moreover have "body (mem e4 x) = body (?f (mem e x))" using b42 [of x] m2 [of x] by simp
  moreover have "cas_id e4 = cas_id e" by (simp add: f4 f3 s2)
  ultimately show ?thesis using run env4 b by blast
qed

lemma engine_core_hold:
  assumes core: "engine_core e S C H A" and x: "x \<notin> S" "A x = Some (clsid e x)" "item_ok e x"
    "\<not> linked (mem e x)" "it_refcount (mem e x) \<noteq> 0"
  shows "engine_core e S C (insert x H) A"
  by (rule engine_coreI) (use engine_coreD [OF core] x in auto)

lemma do_item_unlink_inv:
  assumes inv: "engine_inv e S C H" and x: "x \<in> S"
  shows "\<exists>e'. do_item_unlink e x = Some e'
    \<and> engine_inv e' (S - {x}) C (if it_refcount (mem e x) = 0 then H else insert x H)
    \<and> env_frame e e' \<and> cas_id e' = cas_id e
    \<and> (\<forall>y. y \<noteq> x \<longrightarrow> body (mem e' y) = body (mem e y))
    \<and> (it_refcount (mem e x) \<noteq> 0 \<longrightarrow>
         body (mem e' x) = body ((mem e x)\<lparr>it_iflag := it_iflag (mem e x) AND NOT ITEM_LINKED\<rparr>))"
proof -
  let ?A = "class_map e (S \<union> H)"
  note core = engine_invD [OF inv]
  obtain e1 where run: "do_item_unlink e x = (if it_refcount (mem e x) = 0 then item_free e1 x else Some e1)"
    and core1: "engine_core e1 (S - {x}) C H ?A" and env1: "env_frame e e1" and cas1: "cas_id e1 = cas_id e"
    and b: "\<And>y. y \<noteq> x \<Longrightarrow> body (mem e1 y) = body (mem e y)"
    and bx: "body (mem e1 x) = body ((mem e x)\<lparr>it_iflag := it_iflag (mem e x) AND NOT ITEM_LINKED\<rparr>)"
    using unlink_prefix [OF core x] by blast
  have xH: "x \<notin> H" "x \<notin> C" using engine_coreD(7) [OF core] engine_core_disjoint(1) [OF core] x by auto
  have xf: "clsid e1 x = clsid e x" "it_refcount (mem e1 x) = it_refcount (mem e x)" "\<not> linked (mem e1 x)"
    using body_fields(6,7,8) [OF bx] by simp_all
  have Ax: "?A x = Some (clsid e1 x)" using x xf(1) by (simp add: class_map_Some)
  show ?thesis
  proof (cases "it_refcount (mem e x) = 0")
    case True
    obtain e' where e': "item_free e1 x = Some e'" "engine_core e' (S - {x}) C H (?A(x := None))"
      "env_frame e1 e'" "cas_id e' = cas_id e1" and m': "\<And>y. y \<noteq> x \<Longrightarrow> mem e' y = mem e1 y"
      using item_free_core [OF core1 _ Ax xf(3)] xf(2) True xH by auto
    have b': "body (mem e' y) = body (mem e y)" if "y \<noteq> x" for y using b [OF that] m' [OF that] by simp
    have "?A(x := None) = class_map e' (S - {x} \<union> H)"
      using xH(1) body_clsid [OF b'] unfolding class_map_remove
      by (intro ext) (auto simp: class_map_def)
    then have "engine_inv e' (S - {x}) C H" using e'(2) by (simp add: engine_inv_def)
    then show ?thesis
      using run True e' env_frame_trans [OF env1 e'(3)] b' cas1 by auto
  next
    case False
    have ok: "item_ok e1 x"
      using engine_coreD(6) [OF core, of x] x body_fields [OF bx] env_frameD(6,13) [OF env1]
      by (simp add: item_ok_def ITEM_ntotal_def key_ok_def)
    have "engine_core e1 (S - {x}) C (insert x H) ?A"
      by (rule engine_core_hold [OF core1 _ Ax ok xf(3)]) (use xf False in auto)
    moreover have "?A = class_map e1 (S - {x} \<union> insert x H)"
      using x xf(1) body_clsid [OF b] xH(1) by (intro ext) (auto simp: class_map_def; metis)
    ultimately have "engine_inv e1 (S - {x}) C (insert x H)" by (simp add: engine_inv_def)
    then show ?thesis using run False env1 b bx cas1 by auto
  qed
qed

section \<open>Linking\<close>

lemma item_set_cas_fields [simp]:
  "it_next (item_set_cas v i) = it_next i" "it_prev (item_set_cas v i) = it_prev i"
  "h_next (item_set_cas v i) = h_next i" "it_time (item_set_cas v i) = it_time i"
  "it_exptime (item_set_cas v i) = it_exptime i" "it_nbytes (item_set_cas v i) = it_nbytes i"
  "it_flags (item_set_cas v i) = it_flags i" "it_nkey (item_set_cas v i) = it_nkey i"
  "it_iflag (item_set_cas v i) = it_iflag i" "it_refcount (item_set_cas v i) = it_refcount i"
  "it_clsid (item_set_cas v i) = it_clsid i" "it_key (item_set_cas v i) = it_key i"
  "it_data (item_set_cas v i) = it_data i"
  by (simp_all add: item_set_cas_def)

lemma body_item_set_cas: "body (item_set_cas v i) = item_set_cas v (body i)"
  by (simp add: body_def item_set_cas_def)

lemma do_item_link_inv:
  assumes inv: "engine_inv e S C H" and x: "x \<in> H" and fresh: "\<forall>y\<in>S. ikey e y \<noteq> ikey e x"
    and small: "it_nbytes (mem e x) < 1024 * 1024" "card S < 2 ^ 30"
  shows "\<exists>e'. do_item_link e x = Some e' \<and> engine_inv e' (insert x S) C (H - {x}) \<and> env_frame e e'
    \<and> cas_id e' = cas_id e + 1 \<and> (\<forall>y. y \<noteq> x \<longrightarrow> body (mem e' y) = body (mem e y))
    \<and> body (mem e' x) = body (item_set_cas (cas_id e + 1)
         ((mem e x)\<lparr>it_iflag := it_iflag (mem e x) OR ITEM_LINKED, it_time := current_time e\<rparr>))"
proof -
  let ?A = "class_map e (S \<union> H)"
  note core = engine_invD [OF inv]
  have xS: "x \<notin> S" "x \<notin> C" "x \<noteq> NULL"
    using engine_coreD(7) [OF core] engine_core_disjoint [OF core] x by auto
  have ok: "item_ok e x" using engine_coreD(6) [OF core] x by simp
  have c: "clsid e x < POWER_LARGEST" using engine_core_class(2) [OF core] x by simp
  let ?f = "\<lambda>i :: hash_item. i\<lparr>it_iflag := it_iflag i OR ITEM_LINKED, it_time := current_time e\<rparr>"
  define e1 where "e1 = upd_item x ?f e"
  have m1: "mem e1 y = (if y = x then ?f (mem e x) else mem e y)" for y
    by (simp add: e1_def upd_item_def)
  have s1: "assoc e1 = assoc e" "srv e1 = srv e" "items e1 = items e" "slabs e1 = slabs e" "os e1 = os e"
    "cas_id e1 = cas_id e" "config e1 = config e"
    by (simp_all add: e1_def upd_item_def)
  have a1: "assoc_rep e1 S"
    by (rule assoc_rep_cong [OF engine_coreD(1) [OF core] s1(1)]) (use xS in \<open>auto simp: s1 m1\<close>)
  have k1: "ikey e1 y = ikey e y" "key_ok (mem e1 y) = key_ok (mem e y)" for y
    by (simp_all add: m1 item_get_key_def key_ok_def)
  obtain e2 where e2: "assoc_insert e1 (hash_of e1 x) x = Some e2" "assoc_rep e2 (insert x S)"
    "assoc_frame e1 e2" "hashpower (assoc e2) < 31"
    using assoc_insert_rep [OF a1 xS(3,1)] ok fresh engine_coreD(2) [OF core] small(2)
    by (auto simp: k1 s1 item_ok_def)
  note f2 = assoc_frameD [OF e2(3)] and m2 = same_but_h_fields [OF assoc_frameD(8) [OF e2(3)]]
  define e3 where "e3 = upd_stats (\<lambda>s. s\<lparr>st_curr_bytes := st_curr_bytes s + ITEM_ntotal e2 (mem e2 x),
     st_curr_items := st_curr_items s + 1, st_total_items := st_total_items s + 1\<rparr>) e2"
  define e4 where "e4 = upd_item x (item_set_cas (cas_id e + 1)) (e3\<lparr>cas_id := cas_id e + 1\<rparr>)"
  have m4: "mem e4 y = (if y = x then item_set_cas (cas_id e + 1) (mem e2 x) else mem e2 y)" for y
    by (simp add: e4_def e3_def upd_item_def upd_stats_def)
  have s4: "assoc e4 = assoc e2" "srv e4 = srv e2" "items e4 = items e2" "slabs e4 = slabs e2" "os e4 = os e2"
    "cas_id e4 = cas_id e + 1" "config e4 = config e2"
    by (simp_all add: e4_def e3_def upd_item_def upd_stats_def)
  have l4: "lru_rep e4 (S \<union> C)"
    by (rule lru_rep_cong [OF engine_coreD(3) [OF core]]) (simp_all add: s4 f2 s1 m4 m2 m1)
  obtain e' where e': "item_link_q e4 x = Some e'" "lru_rep e' (insert x (S \<union> C))" "queue_frame (clsid e4 x) e4 e'"
    using item_link_q_rep [OF l4 xS(3)] xS ok c by (auto simp: m4 m2 m1 item_ok_def)
  note f' = queue_frameD [OF e'(3)] and m' = same_but_q_fields [OF queue_frameD(9) [OF e'(3)]]
  have run: "do_item_link e x = Some e'"
    using e2(1) e'(1) engine_coreD(9) [OF core x] ok small(1) f2(7)
    unfolding do_item_link_def Let_def e1_def [symmetric] get_cas_id_def
    by (simp add: item_ok_def e4_def e3_def upd_stats_def s1)
  have env: "env_frame e e'"
  proof -
    have "env_frame e2 e4" by (simp add: e4_def e3_def env_frame_def upd_item_def upd_stats_def)
    then show ?thesis
      using env_frame_trans [OF env_frame_simps(1) [of e x ?f, folded e1_def]] assoc_env_frame [OF e2(3)]
        queue_env_frame [OF e'(3)] by (meson env_frame_trans)
  qed
  have b': "body (mem e' y) = body (mem e4 y)" for y by (rule body_same_but_q [OF f'(9)])
  have b2: "body (mem e2 y) = body (mem e1 y)" for y by (rule body_same_but_h [OF f2(8)])
  have b: "body (mem e' y) = body (mem e y)" if "y \<noteq> x" for y
    using b' [of y] b2 [of y] that by (simp add: m4 m1)
  have bx: "body (mem e' x) = body (item_set_cas (cas_id e + 1) (?f (mem e x)))"
    unfolding b' m4 using b2 [of x] by (simp add: body_item_set_cas m1)
  note xf = body_fields [OF bx]
  have cls: "clsid e' y = clsid e y" for y
    using body_clsid [OF b] xf(8) by (cases "y = x") auto
  have ac: "assoc_rep e' (insert x S)"
    by (rule assoc_rep_cong [OF e2(2)]) (simp_all add: f' s4 m' m4 item_get_key_def key_ok_def)
  have sl: "slab_rep e' ?A C"
    by (rule slab_rep_cong [OF engine_coreD(4) [OF core]])
       (use f2(15) in \<open>simp_all add: f' s4 m' m4 f2 s1 m2 m1\<close>)
  have "engine_core e' (insert x S) C (H - {x}) ?A"
  proof (rule engine_coreI)
    show "hashpower (assoc e') < 31" using e2(4) by (simp add: f' s4)
    show "insert x S \<inter> (H - {x}) = {}" using engine_coreD(7) [OF core] by auto
    fix y
    show "?A y = Some (clsid e' y)" if "y \<in> insert x S \<union> (H - {x})"
      using that x by (auto simp: class_map_Some cls)
    show "item_ok e' y" if "y \<in> insert x S \<union> (H - {x})"
    proof (cases "y = x")
      case True
      then show ?thesis using ok xf env_frameD(6,13) [OF env]
        by (simp add: item_ok_def ITEM_ntotal_def key_ok_def)
    next
      case False
      with that have "y \<in> S \<union> H" by auto
      then show ?thesis by (rule item_ok_body [OF engine_coreD(6) [OF core] env b [OF False]])
    qed
    show "linked (mem e' y)" if "y \<in> insert x S"
    proof (cases "y = x")
      case True
      then show ?thesis using xf(6) by simp
    next
      case False
      then show ?thesis using that engine_coreD(8) [OF core, of y] body_fields(6) [OF b [OF False]] by simp
    qed
    show "\<not> linked (mem e' y)" "it_refcount (mem e' y) \<noteq> 0" if "y \<in> H - {x}"
      using that engine_coreD(9,10) [OF core, of y] body_fields(6,7) [OF b [of y]] by auto
    have "y \<noteq> x" if "y \<in> C" using that xS by blast
    then show "\<not> linked (mem e' y)" "\<not> slabbed (mem e' y)" "it_exptime (mem e' y) = 0" if "y \<in> C"
      using engine_coreD(11-13) [OF core that] body_fields(2,6) [OF b [of y]] that by simp_all
  qed (use ac e'(2) sl in auto)
  moreover have "?A = class_map e' (insert x S \<union> (H - {x}))"
    using x by (intro ext) (auto simp: class_map_def cls)
  ultimately have "engine_inv e' (insert x S) C (H - {x})" by (simp add: engine_inv_def)
  moreover have "cas_id e' = cas_id e + 1" by (simp add: f' s4)
  ultimately show ?thesis using run env b bx by blast
qed

section \<open>Releasing\<close>

lemma engine_core_drop:
  "engine_core e S C H A \<Longrightarrow> H' \<subseteq> H \<Longrightarrow> engine_core e S C H' A"
  by (rule engine_coreI) (auto simp: engine_core_def)

lemma engine_inv_soft:
  assumes inv: "engine_inv e S C H"
    and f: "it_next (f (mem e x)) = it_next (mem e x)" "it_prev (f (mem e x)) = it_prev (mem e x)"
      "h_next (f (mem e x)) = h_next (mem e x)" "it_nkey (f (mem e x)) = it_nkey (mem e x)"
      "it_key (f (mem e x)) = it_key (mem e x)" "it_iflag (f (mem e x)) = it_iflag (mem e x)"
      "it_nbytes (f (mem e x)) = it_nbytes (mem e x)" "it_clsid (f (mem e x)) = it_clsid (mem e x)"
    and "x \<in> H \<Longrightarrow> it_refcount (f (mem e x)) \<noteq> 0" "x \<in> C \<Longrightarrow> it_exptime (f (mem e x)) = 0"
  shows "engine_inv (upd_item x f e) S C H"
proof -
  have "class_map (upd_item x f e) (S \<union> H) = class_map e (S \<union> H)"
    by (rule class_map_cong) (simp add: upd_item_def f)
  then show ?thesis
    using engine_core_soft [where x = x and f = f, OF engine_invD [OF inv] f assms(10,11)] by (simp add: engine_inv_def)
qed

lemma hash_item_same [simp]:
  "it_refcount i = r \<Longrightarrow> i\<lparr>it_refcount := r\<rparr> = i" "it_time i = t \<Longrightarrow> i\<lparr>it_time := t\<rparr> = i"
  by (cases i; simp)+

lemma upd_item_same: "f (mem e x) = mem e x \<Longrightarrow> upd_item x f e = e"
  by (simp add: upd_item_def)

definition dec_ref :: "u16 \<Rightarrow> u16" where
  "dec_ref r = (if r \<noteq> 0 then r - 1 else 0)"

lemma do_item_release_inv:
  assumes inv: "engine_inv e S C H" and x: "x \<in> S \<union> H"
  shows "\<exists>e'. do_item_release e x = Some e'
    \<and> engine_inv e' S C (if x \<in> H \<and> it_refcount (mem e x) = 1 then H - {x} else H)
    \<and> env_frame e e' \<and> cas_id e' = cas_id e \<and> (\<forall>y. y \<noteq> x \<longrightarrow> mem e' y = mem e y)
    \<and> (\<not> (x \<in> H \<and> it_refcount (mem e x) = 1) \<longrightarrow>
         mem e' x = (mem e x)\<lparr>it_refcount := dec_ref (it_refcount (mem e x))\<rparr>)"
proof -
  let ?A = "class_map e (S \<union> H)" and ?r = "dec_ref (it_refcount (mem e x))"
  note core = engine_invD [OF inv]
  define e1 where "e1 = upd_item x (\<lambda>i. i\<lparr>it_refcount := ?r\<rparr>) e"
  have e1: "(if it_refcount (mem e x) \<noteq> 0
      then upd_item x (\<lambda>i. i\<lparr>it_refcount := it_refcount i - 1\<rparr>) e else e) = e1"
    unfolding e1_def dec_ref_def by (auto simp: upd_item_same) (simp add: upd_item_def)
  have m1: "mem e1 y = (if y = x then (mem e x)\<lparr>it_refcount := ?r\<rparr> else mem e y)" for y
    by (simp add: e1_def upd_item_def)
  have run: "do_item_release e x = (if ?r = 0 \<and> \<not> linked (mem e x) then item_free e1 x else Some e1)"
    unfolding do_item_release_def e1 Let_def by (simp add: m1)
  have env: "env_frame e e1" "cas_id e1 = cas_id e" by (simp_all add: e1_def) (simp add: upd_item_def)
  have xH: "x \<in> H \<longleftrightarrow> \<not> linked (mem e x)" using x engine_coreD(8,9) [OF core] by blast
  show ?thesis
  proof (cases "x \<in> H \<and> it_refcount (mem e x) = 1")
    case True
    have core1: "engine_core e1 S C (H - {x}) ?A"
      unfolding e1_def
      by (rule engine_core_soft [OF engine_core_drop [OF core]])
         (use engine_core_disjoint(1) [OF core] x in auto)
    have "\<exists>e'. item_free e1 x = Some e' \<and> engine_core e' S C (H - {x}) (?A(x := None)) \<and> env_frame e1 e'
      \<and> (\<forall>y. y \<noteq> x \<longrightarrow> mem e' y = mem e1 y) \<and> cas_id e' = cas_id e1 \<and> stats e' = stats e1"
    proof (rule item_free_core [OF core1])
      show "x \<notin> S \<union> (H - {x}) \<union> C"
        using True engine_coreD(7) [OF core] engine_core_disjoint(1) [OF core] by auto
    qed (use True xH x in \<open>auto simp: m1 class_map_Some dec_ref_def\<close>)
    then obtain e' where e': "item_free e1 x = Some e'" "engine_core e' S C (H - {x}) (?A(x := None))"
      "env_frame e1 e'" "cas_id e' = cas_id e1" and m': "\<And>y. y \<noteq> x \<Longrightarrow> mem e' y = mem e y"
      by (auto simp: m1)
    have "x \<notin> S" using True engine_coreD(7) [OF core] by auto
    then have "?A(x := None) = class_map e' (S \<union> (H - {x}))"
      using m' unfolding class_map_remove by (intro ext) (auto simp: class_map_def)
    then have "engine_inv e' S C (H - {x})" using e'(2) by (simp add: engine_inv_def)
    then show ?thesis
      using run True xH e' env_frame_trans [OF env(1) e'(3)] env(2) m' by (simp add: dec_ref_def)
  next
    case False
    have "?r \<noteq> 0" if "x \<in> H"
      using False that engine_coreD(10) [OF core that] by (auto simp: dec_ref_def)
    then have "engine_inv e1 S C H"
      unfolding e1_def by (intro engine_inv_soft [OF inv])
        (use engine_core_disjoint(1) [OF core] x in auto)
    moreover have "do_item_release e x = Some e1"
      using run xH \<open>x \<in> H \<Longrightarrow> ?r \<noteq> 0\<close> by auto
    ultimately show ?thesis using False env m1 by auto
  qed
qed

section \<open>Moving to the front\<close>

text \<open>An item that has not been moved for a minute goes to the front of its queue.\<close>

definition bump_time :: "default_engine \<Rightarrow> hash_item \<Rightarrow> u32" where
  "bump_time e i = (if it_time i < current_time e - ITEM_UPDATE_INTERVAL \<and> linked i
     then current_time e else it_time i)"

lemma do_item_update_inv:
  assumes inv: "engine_inv e S C H" and x: "x \<in> S \<union> H"
  shows "\<exists>e'. do_item_update e x = Some e' \<and> engine_inv e' S C H \<and> env_frame e e' \<and> cas_id e' = cas_id e
    \<and> (\<forall>y. y \<noteq> x \<longrightarrow> body (mem e' y) = body (mem e y))
    \<and> body (mem e' x) = body ((mem e x)\<lparr>it_time := bump_time e (mem e x)\<rparr>)"
proof (cases "it_time (mem e x) < current_time e - ITEM_UPDATE_INTERVAL \<and> linked (mem e x)")
  case False
  have "\<not> slabbed (mem e x)"
    using engine_coreD(6) [OF engine_invD [OF inv] x] by (simp add: item_ok_def)
  with False have "do_item_update e x = Some e" by (auto simp: do_item_update_def)
  moreover have "bump_time e (mem e x) = it_time (mem e x)" using False by (auto simp: bump_time_def)
  ultimately show ?thesis using inv by (intro exI [of _ e]) simp
next
  case True
  let ?A = "class_map e (S \<union> H)"
  note core = engine_invD [OF inv]
  have xS: "x \<in> S" using True x engine_coreD(9) [OF core] by auto
  have xC: "x \<notin> C" "x \<notin> H" "x \<noteq> NULL"
    using engine_coreD(7) [OF core] engine_core_disjoint [OF core] xS by auto
  have ok: "item_ok e x" by (rule engine_coreD(6) [OF core x])
  obtain e1 where e1: "item_unlink_q e x = Some e1" "lru_rep e1 ((S \<union> C) - {x})" "queue_frame (clsid e x) e e1"
    "mem e1 x = mem e x"
    using item_unlink_q_rep [OF engine_coreD(3) [OF core], of x] xS by blast
  note f1 = queue_frameD [OF e1(3)] and m1 = same_but_q_fields [OF queue_frameD(9) [OF e1(3)]]
  define e2 where "e2 = upd_item x (\<lambda>i. i\<lparr>it_time := current_time e1\<rparr>) e1"
  have m2: "mem e2 y = (if y = x then (mem e x)\<lparr>it_time := current_time e\<rparr> else mem e1 y)" for y
    using e1(4) f1(1) by (simp add: e2_def upd_item_def current_time_def)
  have s2: "assoc e2 = assoc e" "srv e2 = srv e" "items e2 = items e1" "slabs e2 = slabs e" "os e2 = os e"
    "cas_id e2 = cas_id e" "config e2 = config e"
    by (simp_all add: e2_def upd_item_def f1)
  have l2: "lru_rep e2 ((S \<union> C) - {x})"
    by (rule lru_rep_cong [OF e1(2) s2(3)]) (auto simp: m2)
  have "clsid e2 x < POWER_LARGEST" "\<not> slabbed (mem e2 x)"
    using engine_core_class(2) [OF core x] ok by (simp_all add: m2 item_ok_def)
  then obtain e' where e': "item_link_q e2 x = Some e'" "lru_rep e' (insert x ((S \<union> C) - {x}))"
    "queue_frame (clsid e2 x) e2 e'"
    using item_link_q_rep [OF l2 xC(3)] by auto
  note f' = queue_frameD [OF e'(3)] and m' = same_but_q_fields [OF queue_frameD(9) [OF e'(3)]]
  have run: "do_item_update e x = Some e'"
    using True ok e1(1) e'(1) by (simp add: do_item_update_def e2_def item_ok_def)
  have env: "env_frame e e'"
    using queue_env_frame [OF e1(3)] queue_env_frame [OF e'(3)] env_frame_simps(1) [of e1]
    unfolding e2_def by (meson env_frame_trans)
  have b: "body (mem e' y) = body (mem e y)" if "y \<noteq> x" for y
    using body_same_but_q [OF f'(9)] body_same_but_q [OF f1(9), of y] m2 [of y] that by simp
  have bx: "body (mem e' x) = body ((mem e x)\<lparr>it_time := current_time e\<rparr>)"
    using body_same_but_q [OF f'(9), of x] m2 [of x] by simp
  have bump: "bump_time e (mem e x) = current_time e" using True by (simp add: bump_time_def)
  have same: "it_iflag (mem e' y) = it_iflag (mem e y)" "it_refcount (mem e' y) = it_refcount (mem e y)"
    "it_nkey (mem e' y) = it_nkey (mem e y)" "it_nbytes (mem e' y) = it_nbytes (mem e y)"
    "it_key (mem e' y) = it_key (mem e y)" "it_clsid (mem e' y) = it_clsid (mem e y)"
    "it_exptime (mem e' y) = it_exptime (mem e y)" "hn e' y = hn e y" for y
    by (simp_all add: m' m2 m1)
  have a: "assoc_rep e' S"
    by (rule assoc_rep_cong [OF engine_coreD(1) [OF core]]) (simp_all add: f' s2 same item_get_key_def key_ok_def)
  have sl: "slab_rep e' ?A C"
    by (rule slab_rep_cong [OF engine_coreD(4) [OF core]]) (simp_all add: f' s2 same)
  have l: "lru_rep e' (S \<union> C)" using e'(2) xS by (simp add: insert_absorb)
  have "engine_core e' S C H ?A"
  proof (rule engine_coreI)
    show "item_ok e' y" if "y \<in> S \<union> H" for y
      using engine_coreD(6) [OF core that] env_frameD(6,13) [OF env]
      by (simp add: item_ok_def ITEM_ntotal_def key_ok_def same)
  qed (use engine_coreD [OF core] a l sl in \<open>simp_all add: same f' s2\<close>)
  moreover have "class_map e' (S \<union> H) = ?A" by (rule class_map_cong) (simp add: same)
  ultimately have "engine_inv e' S C H" by (simp add: engine_inv_def)
  moreover have "cas_id e' = cas_id e" by (simp add: f' s2)
  ultimately show ?thesis using run env b bx bump by auto
qed

section \<open>Replacing\<close>

lemma do_item_unlink_unlinked: "\<not> linked (mem e x) \<Longrightarrow> do_item_unlink e x = Some e"
  by (simp add: do_item_unlink_def)

lemma do_item_replace_inv:
  assumes inv: "engine_inv e S C H" and x: "x \<in> S" "new \<in> H" and key: "ikey e new = ikey e x"
    and small: "it_nbytes (mem e new) < 1024 * 1024" "card S \<le> 2 ^ 30"
  shows "\<exists>e'. do_item_replace e x new = Some e'
    \<and> engine_inv e' (insert new (S - {x})) C ((if it_refcount (mem e x) = 0 then H else insert x H) - {new})
    \<and> env_frame e e' \<and> cas_id e' = cas_id e + 1
    \<and> (\<forall>y. y \<noteq> x \<and> y \<noteq> new \<longrightarrow> body (mem e' y) = body (mem e y))
    \<and> (it_refcount (mem e x) \<noteq> 0 \<longrightarrow>
         body (mem e' x) = body ((mem e x)\<lparr>it_iflag := it_iflag (mem e x) AND NOT ITEM_LINKED\<rparr>))
    \<and> body (mem e' new) = body (item_set_cas (cas_id e + 1)
         ((mem e new)\<lparr>it_iflag := it_iflag (mem e new) OR ITEM_LINKED, it_time := current_time e\<rparr>))"
proof -
  note core = engine_invD [OF inv]
  let ?H = "if it_refcount (mem e x) = 0 then H else insert x H"
  have neq: "new \<noteq> x" using x engine_coreD(7) [OF core] by auto
  obtain e1 where e1: "do_item_unlink e x = Some e1" "engine_inv e1 (S - {x}) C ?H" "env_frame e e1"
    "cas_id e1 = cas_id e" and b1: "\<And>y. y \<noteq> x \<Longrightarrow> body (mem e1 y) = body (mem e y)"
    and bx: "it_refcount (mem e x) \<noteq> 0 \<Longrightarrow>
       body (mem e1 x) = body ((mem e x)\<lparr>it_iflag := it_iflag (mem e x) AND NOT ITEM_LINKED\<rparr>)"
    using do_item_unlink_inv [OF inv x(1)] by blast
  note n1 = body_fields [OF b1 [OF neq]]
  have keys: "ikey e1 y = ikey e y" if "y \<noteq> x" for y by (rule ikey_body [OF b1 [OF that]])
  have "ikey e1 y \<noteq> ikey e1 new" if "y \<in> S - {x}" for y
    using that key neq keys inj_onD [OF assoc_repD(3) [OF engine_coreD(1) [OF core]], of y x] x(1) by auto
  moreover have "card (S - {x}) < 2 ^ 30"
  proof -
    have "card (S - {x}) < card S"
      using x(1) assoc_repD(2) [OF engine_coreD(1) [OF core]] by (intro card_Diff1_less)
    with small(2) show ?thesis by linarith
  qed
  moreover have "new \<in> ?H" "it_nbytes (mem e1 new) < 1024 * 1024" using x(2) n1(3) small(1) by auto
  ultimately obtain e' where e': "do_item_link e1 new = Some e'" "engine_inv e' (insert new (S - {x})) C (?H - {new})"
    "env_frame e1 e'" "cas_id e' = cas_id e1 + 1" and b': "\<And>y. y \<noteq> new \<Longrightarrow> body (mem e' y) = body (mem e1 y)"
    and bn: "body (mem e' new) = body (item_set_cas (cas_id e1 + 1)
         ((mem e1 new)\<lparr>it_iflag := it_iflag (mem e1 new) OR ITEM_LINKED, it_time := current_time e1\<rparr>))"
    using do_item_link_inv [OF e1(2), of new] by blast
  have "\<not> slabbed (mem e x)" using engine_coreD(6) [OF core, of x] x by (simp add: item_ok_def)
  then have run: "do_item_replace e x new = Some e'"
    by (simp add: do_item_replace_def e1(1) e'(1))
  have "body ((mem e1 new)\<lparr>it_iflag := it_iflag (mem e1 new) OR ITEM_LINKED, it_time := current_time e1\<rparr>)
      = body ((mem e new)\<lparr>it_iflag := it_iflag (mem e new) OR ITEM_LINKED, it_time := current_time e\<rparr>)"
    using n1 env_frameD(14) [OF e1(3)] by (simp add: body_def)
  then have "body (mem e' new) = body (item_set_cas (cas_id e + 1)
         ((mem e new)\<lparr>it_iflag := it_iflag (mem e new) OR ITEM_LINKED, it_time := current_time e\<rparr>))"
    using bn e1(4) by (simp add: body_item_set_cas)
  then show ?thesis
    using run e'(2,4) e1(4) env_frame_trans [OF e1(3) e'(3)] b' b1 bx neq by auto
qed

section \<open>Looking up\<close>

text \<open>An item a client may see: neither flushed nor expired.\<close>

definition live :: "default_engine \<Rightarrow> hash_item \<Rightarrow> bool" where
  "live e it \<longleftrightarrow> \<not> flushed e it \<and> \<not> (it_exptime it \<noteq> 0 \<and> it_exptime it \<le> current_time e)"

lemma do_item_get_miss:
  assumes "engine_inv e S C H" "\<forall>x\<in>S. ikey e x \<noteq> k"
  shows "do_item_get e k = Some (NULL, e)"
  using ix.find_absent [OF engine_coreD(1) [OF engine_invD [OF assms(1)]] assms(2)]
  by (simp add: do_item_get_def find_key_def)

lemma do_item_get_dead:
  assumes inv: "engine_inv e S C H" and x: "x \<in> S" "\<not> live e (mem e x)"
  shows "\<exists>e'. do_item_get e (ikey e x) = Some (NULL, e')
    \<and> engine_inv e' (S - {x}) C (if it_refcount (mem e x) = 0 then H else insert x H)
    \<and> env_frame e e' \<and> cas_id e' = cas_id e
    \<and> (\<forall>y. y \<noteq> x \<longrightarrow> body (mem e' y) = body (mem e y))
    \<and> (it_refcount (mem e x) \<noteq> 0 \<longrightarrow>
         body (mem e' x) = body ((mem e x)\<lparr>it_iflag := it_iflag (mem e x) AND NOT ITEM_LINKED\<rparr>))"
proof -
  note core = engine_invD [OF inv]
  have f: "assoc_find e (srv_hash (srv e) (ikey e x)) (ikey e x) = Some x"
    using ix.find_present [OF engine_coreD(1) [OF core] x(1)] by (simp add: find_key_def)
  have nn: "x \<noteq> NULL" using engine_core_disjoint(2) [OF core] x(1) by metis
  obtain e1 where "do_item_unlink e x = Some e1"
    "engine_inv e1 (S - {x}) C (if it_refcount (mem e x) = 0 then H else insert x H)"
    "env_frame e e1" "cas_id e1 = cas_id e" "\<forall>y. y \<noteq> x \<longrightarrow> body (mem e1 y) = body (mem e y)"
    "it_refcount (mem e x) \<noteq> 0 \<longrightarrow>
       body (mem e1 x) = body ((mem e x)\<lparr>it_iflag := it_iflag (mem e x) AND NOT ITEM_LINKED\<rparr>)"
    using do_item_unlink_inv [OF inv x(1)] by blast
  moreover from this(1) have "do_item_get e (ikey e x) = Some (NULL, e1)"
    using f nn x(2) by (cases "flushed e (mem e x)") (auto simp: do_item_get_def live_def)
  ultimately show ?thesis by blast
qed

lemma do_item_get_live:
  assumes inv: "engine_inv e S C H" and x: "x \<in> S" "live e (mem e x)"
  shows "\<exists>e'. do_item_get e (ikey e x) = Some (x, e') \<and> engine_inv e' S C H \<and> env_frame e e'
    \<and> cas_id e' = cas_id e \<and> (\<forall>y. y \<noteq> x \<longrightarrow> body (mem e' y) = body (mem e y))
    \<and> body (mem e' x) = body ((mem e x)\<lparr>it_refcount := it_refcount (mem e x) + 1,
         it_time := bump_time e (mem e x)\<rparr>)"
proof -
  note core = engine_invD [OF inv]
  have f: "assoc_find e (srv_hash (srv e) (ikey e x)) (ikey e x) = Some x"
    using ix.find_present [OF engine_coreD(1) [OF core] x(1)] by (simp add: find_key_def)
  have nn: "x \<noteq> NULL" using engine_core_disjoint(2) [OF core] x(1) by metis
  have xH: "x \<notin> H" "x \<notin> C" using x(1) engine_coreD(7) [OF core] engine_core_disjoint(1) [OF core] by auto
  define e1 where "e1 = upd_item x (\<lambda>i. i\<lparr>it_refcount := it_refcount i + 1\<rparr>) e"
  have m1: "mem e1 y = (if y = x then (mem e x)\<lparr>it_refcount := it_refcount (mem e x) + 1\<rparr> else mem e y)" for y
    by (simp add: e1_def upd_item_def)
  have e1: "env_frame e e1" "cas_id e1 = cas_id e" by (simp_all add: e1_def) (simp add: upd_item_def)
  have inv1: "engine_inv e1 S C H" unfolding e1_def by (rule engine_inv_soft [OF inv]) (use xH in auto)
  obtain e' where e': "do_item_update e1 x = Some e'" "engine_inv e' S C H" "env_frame e1 e'"
    "cas_id e' = cas_id e1" "\<forall>y. y \<noteq> x \<longrightarrow> body (mem e' y) = body (mem e1 y)"
    "body (mem e' x) = body ((mem e1 x)\<lparr>it_time := bump_time e1 (mem e1 x)\<rparr>)"
    using do_item_update_inv [OF inv1, of x] x(1) by blast
  have "do_item_get e (ikey e x) = Some (x, e')"
    using f nn x(2) e'(1) by (auto simp: do_item_get_def live_def e1_def)
  moreover have "bump_time e1 (mem e1 x) = bump_time e (mem e x)"
    using env_frameD(14) [OF e1(1)] by (simp add: m1 bump_time_def)
  then have "body (mem e' x) = body ((mem e x)\<lparr>it_refcount := it_refcount (mem e x) + 1,
      it_time := bump_time e (mem e x)\<rparr>)"
    using e'(6) m1 [of x] by simp
  ultimately show ?thesis
    using e' env_frame_trans [OF e1(1) e'(3)] e1(2) m1 by (intro exI [of _ e']) auto
qed

end
