(* ===== verification/Items_Alloc.thy ===== *)
theory Items_Alloc
  imports Items_Inv
begin

unbundle bit_operations_syntax

text \<open>
  Allocation of an item, \<^verbatim>\<open>do_item_alloc\<close> of \<^verbatim>\<open>memcached/engines/default_engine/items.c\<close>: stealing an
  expired item near the tail of the queue, allocating a chunk, evicting an item nobody holds,
  repairing a tail that has been held for hours. The theory shows that every path keeps the
  invariant of the cache, that what is not evicted is unchanged, and that an item a client is using
  is never taken away.
\<close>

section \<open>Searching a queue from its tail\<close>

lemma lru_search_dll:
  assumes "dll nx (\<lambda>x. it_prev (m x)) NULL p xs q" "NULL \<notin> set xs"
  shows "lru_search P n m (last_or NULL xs) \<noteq> NULL \<Longrightarrow>
     lru_search P n m (last_or NULL xs) \<in> set xs \<and> P (m (lru_search P n m (last_or NULL xs)))"
  using assms
proof (induction xs arbitrary: n q rule: rev_induct)
  case Nil
  then show ?case by (cases n) auto
next
  case (snoc x xs)
  then have d: "dll nx (\<lambda>x. it_prev (m x)) NULL p xs x" "it_prev (m x) = last_or NULL xs"
    by (auto simp: dll_append)
  show ?case
  proof (cases n)
    case (Suc n')
    show ?thesis
    proof (cases "P (m x)")
      case False
      then have "lru_search P n m (last_or NULL (xs @ [x])) = lru_search P n' m (last_or NULL xs)"
        using snoc.prems d Suc by auto
      then show ?thesis using snoc.IH [OF _ d(1)] snoc.prems by auto
    qed (use snoc.prems Suc in auto)
  qed (use snoc.prems in auto)
qed

lemma lru_search_rep:
  assumes rep: "lru_rep e Q" and c: "c < POWER_LARGEST"
    and s: "s = lru_search P n (mem e) (tails (items e) ! c)" "s \<noteq> NULL"
  shows "s \<in> Q" "clsid e s = c" "P (mem e s)"
proof -
  obtain xs where xs: "lru_queue e c xs" "set xs = {x \<in> Q. clsid e x = c}"
    using lru_repD(3) [OF rep c] by (auto simp: lru_holds_def)
  then have "dll (nxt e) (prv e) NULL (heads (items e) ! c) xs NULL" "tails (items e) ! c = last_or NULL xs"
    by (auto simp: lru_queue_def)
  then have "s \<in> set xs \<and> P (mem e s)"
    using lru_search_dll [of "nxt e" "mem e"] dll_not_NULL s by metis
  then show "s \<in> Q" "clsid e s = c" "P (mem e s)" using xs(2) by auto
qed

section \<open>Statistics\<close>

text \<open>Counting in the statistics, and telling the server, changes nothing else.\<close>

definition count_frame :: "default_engine \<Rightarrow> default_engine \<Rightarrow> bool" where
  "count_frame e e' \<longleftrightarrow> env_frame e e' \<and> mem e' = mem e \<and> assoc e' = assoc e \<and> slabs e' = slabs e
     \<and> os e' = os e \<and> cas_id e' = cas_id e \<and> heads (items e') = heads (items e)
     \<and> tails (items e') = tails (items e) \<and> sizes (items e') = sizes (items e)
     \<and> length (itemstats (items e')) = length (itemstats (items e))"

lemma count_frameD:
  assumes "count_frame e e'"
  shows "env_frame e e'" "mem e' = mem e" "assoc e' = assoc e" "slabs e' = slabs e" "os e' = os e"
    "cas_id e' = cas_id e" "heads (items e') = heads (items e)" "tails (items e') = tails (items e)"
    "sizes (items e') = sizes (items e)" "length (itemstats (items e')) = length (itemstats (items e))"
  using assms by (auto simp: count_frame_def)

lemma count_frame_trans [trans]: "count_frame e e' \<Longrightarrow> count_frame e' e'' \<Longrightarrow> count_frame e e''"
  by (auto simp: count_frame_def intro: env_frame_trans)

lemma count_frame_stats [simp]: "count_frame e (upd_stats g e)"
  by (simp add: count_frame_def) (simp add: upd_stats_def)

lemma count_frame_evicting [simp]: "count_frame e (e\<lparr>srv := (srv e)\<lparr>srv_evicting := ks\<rparr>\<rparr>)"
  by (simp add: count_frame_def)

lemma upd_itemstats_count:
  assumes "items_ok (items e)" "c < POWER_LARGEST"
  obtains e' where "upd_itemstats c g e = Some e'" "count_frame e e'"
  using assms by (auto simp: upd_itemstats_def items_ok_def count_frame_def)

lemma engine_core_count:
  assumes core: "engine_core e S C H A" and fr: "count_frame e e'"
  shows "engine_core e' S C H A"
  by (rule engine_core_cong [OF core count_frameD(1) [OF fr]])
     (use count_frameD [OF fr] engine_coreD(10,13) [OF core] in simp_all)

lemma engine_inv_count:
  assumes "engine_inv e S C H" "count_frame e e'"
  shows "engine_inv e' S C H"
proof -
  have "class_map e' (S \<union> H) = class_map e (S \<union> H)"
    by (rule class_map_cong) (simp add: count_frameD [OF assms(2)])
  then show ?thesis
    using engine_core_count [OF engine_invD [OF assms(1)] assms(2)] by (simp add: engine_inv_def)
qed

section \<open>Evicting\<close>

text \<open>What a search for memory may do: linked items go away, everything that stays is unchanged.\<close>

definition shed :: "default_engine \<Rightarrow> default_engine \<Rightarrow> ptr set \<Rightarrow> ptr set \<Rightarrow> ptr set \<Rightarrow> bool" where
  "shed e e' S S' H \<longleftrightarrow> S' \<subseteq> S \<and> env_frame e e' \<and> cas_id e' = cas_id e
     \<and> (\<forall>y \<in> S' \<union> H. body (mem e' y) = body (mem e y))
     \<and> (\<forall>x \<in> S. it_refcount (mem e x) \<noteq> 0
          \<and> \<not> it_time (mem e x) + TAIL_REPAIR_TIME < current_time e \<longrightarrow> x \<in> S')"

lemma shed_refl [simp]: "shed e e S S H"
  by (simp add: shed_def)

lemma shed_count: "count_frame e e' \<Longrightarrow> shed e e' S S H"
  by (simp add: shed_def count_frameD)

lemma shed_trans:
  assumes "shed e e1 S S1 H" "shed e1 e2 S1 S2 H"
  shows "shed e e2 S S2 H"
proof -
  note env = env_frame_trans [of e e1 e2]
  have b: "body (mem e2 y) = body (mem e y)" if "y \<in> S2 \<union> H" for y
    using that assms by (auto simp: shed_def)
  have "x \<in> S2" if x: "x \<in> S" "it_refcount (mem e x) \<noteq> 0"
      "\<not> it_time (mem e x) + TAIL_REPAIR_TIME < current_time e" for x
  proof -
    have "x \<in> S1" using assms(1) x by (simp add: shed_def)
    then have "body (mem e1 x) = body (mem e x)" "current_time e1 = current_time e"
      using assms(1) by (auto simp: shed_def env_frameD)
    then show ?thesis
      using assms(2) \<open>x \<in> S1\<close> x body_fields(1,7) [of "mem e1 x" "mem e x"] by (simp add: shed_def)
  qed
  with b show ?thesis using assms env by (auto simp: shed_def)
qed

lemma evict_item_inv:
  assumes inv: "engine_inv e S C H" and x: "x \<in> S \<union> C" "it_refcount (mem e x) = 0" and c: "c < POWER_LARGEST"
  shows "\<exists>e' S'. evict_item e c x = Some e' \<and> engine_inv e' S' C H \<and> shed e e' S S' H"
proof -
  note core = engine_invD [OF inv]
  have items: "items_ok (items e)" by (rule lru_repD(1) [OF engine_coreD(3) [OF core]])
  obtain e1 where run: "evict_item e c x = do_item_unlink e1 x" and fr: "count_frame e e1"
  proof (cases "it_exptime (mem e x) = 0 \<or> it_exptime (mem e x) > current_time e")
    case True
    obtain e0 where e0: "upd_itemstats c (\<lambda>s. s\<lparr>evicted := evicted s + 1,
          evicted_time := current_time e - it_time (mem e x),
          evicted_nonzero := (if it_exptime (mem e x) \<noteq> 0 then evicted_nonzero s + 1 else evicted_nonzero s)\<rparr>) e
        = Some e0" "count_frame e e0"
      using upd_itemstats_count [OF items c] by blast
    define e2 where "e2 = upd_stats (\<lambda>s. s\<lparr>st_evictions := st_evictions s + 1\<rparr>) e0"
    define e1 where "e1 = e2\<lparr>srv := (srv e2)\<lparr>srv_evicting := ikey e x # srv_evicting (srv e2)\<rparr>\<rparr>"
    have "count_frame e0 e2" "count_frame e2 e1" by (simp_all add: e2_def e1_def)
    then have "count_frame e e1" using e0(2) count_frame_trans by blast
    moreover have "evict_item e c x = do_item_unlink e1 x"
      using True e0(1) unfolding evict_item_def Let_def by (simp add: e2_def e1_def)
    ultimately show thesis by (intro that)
  next
    case False
    obtain e0 where "upd_itemstats c (\<lambda>s. s\<lparr>reclaimed := reclaimed s + 1\<rparr>) e = Some e0" "count_frame e e0"
      using upd_itemstats_count [OF items c] by blast
    then show thesis
      using that False count_frame_trans count_frame_stats unfolding evict_item_def Let_def by simp
  qed
  note inv1 = engine_inv_count [OF inv fr] and m1 = count_frameD(2) [OF fr]
  show ?thesis
  proof (cases "x \<in> S")
    case True
    obtain e' where e': "do_item_unlink e1 x = Some e'" "engine_inv e' (S - {x}) C H" "env_frame e1 e'"
      "cas_id e' = cas_id e1" "\<forall>y. y \<noteq> x \<longrightarrow> body (mem e' y) = body (mem e1 y)"
      using do_item_unlink_inv [OF inv1 True] x(2) m1 by auto
    moreover have "y \<noteq> x" if "y \<in> H" for y using that True engine_coreD(7) [OF core] by blast
    ultimately have "shed e e' S (S - {x}) H"
      using x(2) m1 count_frameD(1,6) [OF fr] by (auto simp: shed_def intro: env_frame_trans)
    then show ?thesis using run e' by auto
  next
    case False
    then have "do_item_unlink e1 x = Some e1"
      using x(1) engine_coreD(11) [OF core] m1 by (intro do_item_unlink_unlinked) auto
    then show ?thesis using run inv1 shed_count [OF fr] by auto
  qed
qed

lemma repair_tail_inv:
  assumes inv: "engine_inv e S C H" and c: "c < POWER_LARGEST"
  shows "\<exists>e' S'. repair_tail e c = Some e' \<and> engine_inv e' S' C H \<and> shed e e' S S' H"
proof -
  note core = engine_invD [OF inv]
  have items: "items_ok (items e)" by (rule lru_repD(1) [OF engine_coreD(3) [OF core]])
  let ?P = "\<lambda>i. it_refcount i \<noteq> 0 \<and> it_time i + TAIL_REPAIR_TIME < current_time e"
  define x where "x = lru_search ?P search_items (mem e) (tails (items e) ! c)"
  obtain e1 where e1: "upd_itemstats c (\<lambda>s. s\<lparr>tailrepairs := tailrepairs s + 1\<rparr>) e = Some e1" and fr: "count_frame e e1"
    using upd_itemstats_count [OF items c] .
  define e2 where "e2 = upd_item x (\<lambda>i. i\<lparr>it_refcount := 0\<rparr>) e1"
  have run: "repair_tail e c = (if x = NULL then Some e else do_item_unlink e2 x)"
    using items c e1 by (simp add: repair_tail_def items_ok_def x_def e2_def Let_def)
  show ?thesis
  proof (cases "x = NULL")
    case True
    then show ?thesis using run inv by auto
  next
    case False
    note s = lru_search_rep [OF engine_coreD(3) [OF core] c x_def False]
    have xH: "x \<notin> H" using s(1) engine_coreD(7) [OF core] engine_core_disjoint(1) [OF core] by auto
    have inv2: "engine_inv e2 S C H"
      unfolding e2_def
      by (rule engine_inv_soft [OF engine_inv_count [OF inv fr]])
         (use xH engine_coreD(13) [OF core] in \<open>auto simp: count_frameD [OF fr]\<close>)
    have m2: "mem e2 y = (if y = x then (mem e x)\<lparr>it_refcount := 0\<rparr> else mem e y)" for y
      by (simp add: e2_def upd_item_def count_frameD [OF fr])
    have env2: "env_frame e e2" "cas_id e2 = cas_id e"
      unfolding e2_def using env_frame_trans [OF count_frameD(1) [OF fr] env_frame_simps(1)]
        count_frameD(6) [OF fr] by (simp_all) (simp add: upd_item_def)
    show ?thesis
    proof (cases "x \<in> S")
      case True
      obtain e' where e': "do_item_unlink e2 x = Some e'" "engine_inv e' (S - {x}) C H" "env_frame e2 e'"
        "cas_id e' = cas_id e2" "\<forall>y. y \<noteq> x \<longrightarrow> body (mem e' y) = body (mem e2 y)"
        using do_item_unlink_inv [OF inv2 True] m2 [of x] by auto
      moreover have "y \<noteq> x" if "y \<in> H" for y using that xH by blast
      ultimately have "shed e e' S (S - {x}) H"
        using s(3) m2 env2 by (auto simp: shed_def intro: env_frame_trans)
      then show ?thesis using run False e' by auto
    next
      case C: False
      then have "do_item_unlink e2 x = Some e2"
        using s(1) engine_coreD(11) [OF core] m2 [of x] by (intro do_item_unlink_unlinked) auto
      moreover have "shed e e2 S S H" using env2 xH C m2 by (auto simp: shed_def)
      ultimately show ?thesis using run False inv2 by auto
    qed
  qed
qed

section \<open>Getting a chunk\<close>

text \<open>A chunk of class \<open>c\<close> that is allocated but belongs to no item yet.\<close>

definition spare :: "default_engine \<Rightarrow> ptr set \<Rightarrow> ptr set \<Rightarrow> ptr set \<Rightarrow> nat \<Rightarrow> ptr \<Rightarrow> bool" where
  "spare e S C H c p \<longleftrightarrow> engine_core e S C H ((class_map e (S \<union> H))(p \<mapsto> c))
     \<and> p \<notin> S \<union> H \<union> C \<and> it_clsid (mem e p) = 0"

definition got :: "default_engine \<Rightarrow> ptr set \<Rightarrow> ptr set \<Rightarrow> ptr set \<Rightarrow> nat \<Rightarrow> ptr \<Rightarrow> bool" where
  "got e S C H c p \<longleftrightarrow> (if p = NULL then engine_inv e S C H else spare e S C H c p)"

lemma used_not_fresh:
  assumes core: "engine_core e S C H A" and y: "y \<in> S \<union> H \<union> C"
  shows "y \<notin> fresh_mem e"
proof (cases "y \<in> C")
  case True
  then show ?thesis using slab_repD(11) [OF engine_coreD(4) [OF core]] by blast
next
  case False
  then have "y \<in> page_bytes (slabs e)"
    using used_not_NULL(3) [OF engine_coreD(4) [OF core] engine_coreD(5) [OF core]] y by blast
  then show ?thesis using slab_repD(10) [OF engine_coreD(4) [OF core]] by blast
qed

lemma slabs_alloc_inv:
  assumes inv: "engine_inv e S C H" and c: "c \<in> {1..power_largest (slabs e)}"
  shows "\<exists>p e'. slabs_alloc e sz c = Some (p, e') \<and> got e' S C H c p \<and> shed e e' S S H"
proof -
  let ?A = "class_map e (S \<union> H)"
  note core = engine_invD [OF inv]
  obtain p e' where run: "slabs_alloc e sz c = Some (p, e')" and fr: "slab_frame e e'"
    and m: "\<And>x. x \<notin> fresh_mem e \<Longrightarrow> mem e' x = mem e x"
    and null: "p = NULL \<Longrightarrow> slab_rep e' ?A C"
    and new: "p \<noteq> NULL \<Longrightarrow> slab_rep e' (?A(p \<mapsto> c)) C \<and> p \<notin> dom ?A \<and> p \<notin> C \<and> it_clsid (mem e' p) = 0"
    using slabs_alloc_rep [OF engine_coreD(4) [OF core] c] by blast
  note f = slab_frameD [OF fr] and env = slab_env_frame [OF fr]
  have mem: "mem e' y = mem e y" if "y \<in> S \<union> H \<union> C" for y
    using m used_not_fresh [OF core that] by blast
  have cm: "class_map e' (S \<union> H) = ?A" by (rule class_map_cong) (simp add: mem)
  have a: "assoc_rep e' S"
    by (rule assoc_rep_cong [OF engine_coreD(1) [OF core]]) (simp_all add: f mem)
  have l: "lru_rep e' (S \<union> C)"
    by (rule lru_rep_cong [OF engine_coreD(3) [OF core]]) (auto simp: f mem)
  have core': "engine_core e' S C H A"
    if "slab_rep e' A C" "\<And>y. y \<in> S \<union> H \<Longrightarrow> A y = ?A y" for A
  proof (rule engine_coreI)
    show "A y = Some (clsid e' y)" if "y \<in> S \<union> H" for y
      using engine_coreD(5) [OF core that] \<open>\<And>y. y \<in> S \<union> H \<Longrightarrow> A y = ?A y\<close> that mem by auto
    show "item_ok e' y" if "y \<in> S \<union> H" for y
      using that by (intro item_ok_body [OF engine_coreD(6) [OF core] env]) (simp_all add: mem)
  qed (use that a l engine_coreD [OF core] in \<open>auto simp: mem f\<close>)
  have "got e' S C H c p"
  proof (cases "p = NULL")
    case True
    then show ?thesis using core' [of ?A] null cm by (simp add: got_def engine_inv_def)
  next
    case False
    note n = new [OF False]
    have pS: "p \<notin> S \<union> H" using n by (auto simp: class_map_def dom_def)
    have "engine_core e' S C H (?A(p \<mapsto> c))"
      using n pS by (intro core') auto
    then show ?thesis using False n pS by (simp add: got_def spare_def cm)
  qed
  moreover have "shed e e' S S H" using env mem f(7) by (auto simp: shed_def)
  ultimately show ?thesis using run by blast
qed

lemma steal_item_inv:
  assumes inv: "engine_inv e S C H" and x: "x \<in> S" "it_refcount (mem e x) = 0" "clsid e x = c"
  shows "\<exists>e'. steal_item e c sz x = Some e' \<and> spare e' (S - {x}) C H c x \<and> shed e e' S (S - {x}) H"
proof -
  note core = engine_invD [OF inv]
  have c: "c < POWER_LARGEST" "c \<in> {1..power_largest (slabs e)}" using engine_core_class [OF core, of x] x by auto
  have xH: "x \<notin> H" "x \<notin> C" using x(1) engine_coreD(7) [OF core] engine_core_disjoint(1) [OF core] by auto
  define e1 where "e1 = upd_stats (\<lambda>s. s\<lparr>st_reclaimed := st_reclaimed s + 1\<rparr>) e"
  have fr1: "count_frame e e1" by (simp add: e1_def)
  have "items_ok (items e1)"
    using lru_repD(1) [OF engine_coreD(3) [OF core]] by (simp add: e1_def upd_stats_def)
  then obtain e2 where e2: "upd_itemstats c (\<lambda>s. s\<lparr>reclaimed := reclaimed s + 1\<rparr>) e1 = Some e2" "count_frame e1 e2"
    using upd_itemstats_count c(1) by blast
  note fr2 = count_frameD [OF count_frame_trans [OF fr1 e2(2)]]
  define e3 where "e3 = upd_item x (\<lambda>i. i\<lparr>it_refcount := 1\<rparr>) e2"
  have m3: "mem e3 y = (if y = x then (mem e x)\<lparr>it_refcount := 1\<rparr> else mem e y)" for y
    by (simp add: e3_def upd_item_def fr2)
  have s3: "slabs e3 = slabs e" "assoc e3 = assoc e" "cas_id e3 = cas_id e"
    by (simp_all add: e3_def upd_item_def fr2)
  have inv3: "engine_inv e3 S C H"
    unfolding e3_def
    by (rule engine_inv_soft [OF engine_inv_count [OF engine_inv_count [OF inv fr1] e2(2)]])
       (use xH in auto)
  have env3: "env_frame e e3" unfolding e3_def by (rule env_frame_trans [OF fr2(1) env_frame_simps(1)])
  note core3 = engine_invD [OF inv3]
  obtain e4 where e4: "slabs_adjust_mem_requested e3 c (ITEM_ntotal e3 (mem e3 x)) sz = Some e4"
    "slab_rep e4 (class_map e3 (S \<union> H)) C" "slab_frame e3 e4" "mem e4 = mem e3"
    using slabs_adjust_rep [OF engine_coreD(4) [OF core3], of c] c(2) s3(1) by auto
  note f4 = slab_frameD [OF e4(3)]
  have cm4: "class_map e4 (S \<union> H) = class_map e3 (S \<union> H)" by (rule class_map_cong) (simp add: e4(4))
  have core4: "engine_core e4 S C H (class_map e3 (S \<union> H))"
  proof (rule engine_coreI)
    show "assoc_rep e4 S"
      by (rule assoc_rep_cong [OF engine_coreD(1) [OF core3]]) (simp_all add: f4 e4(4))
    show "lru_rep e4 (S \<union> C)"
      by (rule lru_rep_cong [OF engine_coreD(3) [OF core3]]) (simp_all add: f4 e4(4))
    show "item_ok e4 y" if "y \<in> S \<union> H" for y
      by (rule item_ok_body [OF engine_coreD(6) [OF core3 that] slab_env_frame [OF e4(3)]]) (simp add: e4(4))
  qed (use engine_coreD [OF core3] e4(2) in \<open>simp_all add: e4(4) f4\<close>)
  then have inv4: "engine_inv e4 S C H" by (simp add: engine_inv_def cm4)
  obtain e5 where e5: "do_item_unlink e4 x = Some e5" "engine_inv e5 (S - {x}) C (insert x H)"
    "env_frame e4 e5" "cas_id e5 = cas_id e4" "\<forall>y. y \<noteq> x \<longrightarrow> body (mem e5 y) = body (mem e4 y)"
    "body (mem e5 x) = body ((mem e4 x)\<lparr>it_iflag := it_iflag (mem e4 x) AND NOT ITEM_LINKED\<rparr>)"
    using do_item_unlink_inv [OF inv4 x(1)] by (auto simp: e4(4) m3)
  define e' where "e' = upd_item x (\<lambda>i. i\<lparr>it_clsid := 0, it_refcount := 0\<rparr>) e5"
  have m': "mem e' y = (if y = x then (mem e5 x)\<lparr>it_clsid := 0, it_refcount := 0\<rparr> else mem e5 y)" for y
    by (simp add: e'_def upd_item_def)
  have env': "env_frame e5 e'" by (simp add: e'_def)
  have s': "assoc e' = assoc e5" "slabs e' = slabs e5" "os e' = os e5" "items e' = items e5" "srv e' = srv e5"
    "cas_id e' = cas_id e5" "config e' = config e5"
    by (simp_all add: e'_def upd_item_def)
  have run: "steal_item e c sz x = Some e'"
    using e2(1) e4(1) e5(1) x(3)
    by (simp add: steal_item_def e1_def [symmetric] e3_def [symmetric] m3 e'_def)
  have env: "env_frame e e'"
    using env3 slab_env_frame [OF e4(3)] e5(3) env_frame_simps(1) [of e5] unfolding e'_def
    by (meson env_frame_trans)
  note core5 = engine_invD [OF e5(2)]
  have c5: "clsid e5 x = c" using body_fields(8) [OF e5(6)] x(3) by (simp add: e4(4) m3)
  define A where "A = (class_map e' (S - {x} \<union> H))(x \<mapsto> c)"
  have A: "class_map e5 (S - {x} \<union> insert x H) = A"
    using xH(1) by (intro ext) (auto simp: A_def class_map_def c5 m')
  note core5 = engine_invD [OF e5(2), unfolded A]
  have "engine_core e' (S - {x}) C H A"
  proof (rule engine_coreI)
    show "assoc_rep e' (S - {x})"
      by (rule assoc_rep_cong [OF engine_coreD(1) [OF core5]]) (auto simp: s' m')
    show "lru_rep e' (S - {x} \<union> C)"
      by (rule lru_rep_cong [OF engine_coreD(3) [OF core5]]) (use xH in \<open>auto simp: s' m'\<close>)
    show "slab_rep e' A C"
      by (rule slab_rep_cong [OF engine_coreD(4) [OF core5]]) (auto simp: s' m' A_def)
    fix y
    show "item_ok e' y" if "y \<in> S - {x} \<union> H"
    proof -
      have "y \<noteq> x" using that xH(1) by auto
      then show ?thesis
        using that by (intro item_ok_body [OF engine_coreD(6) [OF core5]])
          (auto simp: m' env')
    qed
    show "A y = Some (clsid e' y)" if "y \<in> S - {x} \<union> H"
      using that xH(1) by (auto simp: A_def class_map_def)
    show "\<not> linked (mem e' y)" "it_refcount (mem e' y) \<noteq> 0" if "y \<in> H"
      using that xH(1) engine_coreD(9,10) [OF core5, of y] by (auto simp: m')
    show "(S - {x}) \<inter> H = {}" using engine_coreD(7) [OF core] by auto
  qed (use engine_coreD [OF core5] xH in \<open>auto simp: m' s'\<close>)
  then have "spare e' (S - {x}) C H c x"
    using xH by (auto simp: spare_def A_def m')
  moreover have "shed e e' S (S - {x}) H"
  proof -
    have "body (mem e' y) = body (mem e y)" if "y \<in> S - {x} \<union> H" for y
    proof -
      have "y \<noteq> x" using that xH(1) by auto
      then show ?thesis using e5(5) m3 by (simp add: m' e4(4))
    qed
    moreover have "cas_id e' = cas_id e" by (simp add: s' e5(4) f4 s3)
    ultimately show ?thesis using env x(2) by (auto simp: shed_def)
  qed
  ultimately show ?thesis using run by blast
qed

section \<open>Allocating an item\<close>

lemma got_env:
  assumes "got e S C H c p"
  shows "\<exists>A. engine_core e S C H A"
  using assms by (auto simp: got_def spare_def engine_inv_def split: if_splits)

lemma count_oom_inv:
  assumes inv: "engine_inv e S C H" and c: "c < POWER_LARGEST"
  shows "\<exists>e'. count_oom c e = Some e' \<and> engine_inv e' S C H \<and> shed e e' S S H
    \<and> tails (items e') = tails (items e) \<and> config e' = config e"
proof -
  obtain e' where e': "upd_itemstats c (\<lambda>s. s\<lparr>outofmemory := outofmemory s + 1\<rparr>) e = Some e'" "count_frame e e'"
    using upd_itemstats_count [OF lru_repD(1) [OF engine_coreD(3) [OF engine_invD [OF inv]]] c] .
  then show ?thesis
    using engine_inv_count [OF inv e'(2)] shed_count [OF e'(2)] count_frameD(8) [OF e'(2)]
      env_frameD(6) [OF count_frameD(1) [OF e'(2)]] by (simp add: count_oom_def)
qed

lemma alloc_by_evicting_inv:
  assumes inv: "engine_inv e S C H" and c: "c \<in> {1..power_largest (slabs e)}"
  shows "\<exists>p e' S'. alloc_by_evicting e c sz = Some (p, e') \<and> got e' S' C H c p \<and> shed e e' S S' H"
proof -
  note core = engine_invD [OF inv]
  have c': "c < POWER_LARGEST" by (rule slab_okD(4) [OF slab_repD(1) [OF engine_coreD(4) [OF core]] c])
  obtain e0 where e0: "count_oom c e = Some e0" "engine_inv e0 S C H" "shed e e0 S S H"
    using count_oom_inv [OF inv c'] by blast
  have tail: "arr_get (tails (items e)) c = Some (tails (items e) ! c)"
    using lru_repD(1) [OF engine_coreD(3) [OF core]] c' by (simp add: items_ok_def)
  show ?thesis
  proof (cases "\<not> evict_to_free (config e) \<or> tails (items e) ! c = NULL")
    case True
    then have "alloc_by_evicting e c sz = Some (NULL, e0)"
      using e0 tail by (auto simp: alloc_by_evicting_def)
    then show ?thesis using e0 by (auto simp: got_def)
  next
    case False
    define x where "x = lru_search (\<lambda>i. it_refcount i = 0) search_items (mem e) (tails (items e) ! c)"
    obtain e1 S1 where e1: "(if x = NULL then Some e else evict_item e c x) = Some e1"
      "engine_inv e1 S1 C H" "shed e e1 S S1 H"
    proof (cases "x = NULL")
      case True
      then show thesis using that [of e S] inv by simp
    next
      case False
      note s = lru_search_rep [OF engine_coreD(3) [OF core] c' x_def False]
      show thesis using evict_item_inv [OF inv s(1,3) c'] that False by auto
    qed
    have pl1: "c \<in> {1..power_largest (slabs e1)}"
      using e1(3) c env_frameD(12) by (auto simp: shed_def)
    obtain p2 e2 where e2: "slabs_alloc e1 sz c = Some (p2, e2)" "got e2 S1 C H c p2" "shed e1 e2 S1 S1 H"
      using slabs_alloc_inv [OF e1(2) pl1] by blast
    have run: "alloc_by_evicting e c sz = (if p2 \<noteq> NULL then Some (p2, e2)
        else do { e \<leftarrow> count_oom c e2; e \<leftarrow> repair_tail e c; slabs_alloc e sz c })"
      using False e1(1) e2(1) tail by (simp add: alloc_by_evicting_def x_def [symmetric])
    show ?thesis
    proof (cases "p2 = NULL")
      case False
      then show ?thesis using run e2 shed_trans [OF e1(3) e2(3)] by auto
    next
      case True
      then have inv2: "engine_inv e2 S1 C H" using e2(2) by (simp add: got_def)
      obtain e3 where e3: "count_oom c e2 = Some e3" "engine_inv e3 S1 C H" "shed e2 e3 S1 S1 H"
        using count_oom_inv [OF inv2 c'] by blast
      obtain e4 S4 where e4: "repair_tail e3 c = Some e4" "engine_inv e4 S4 C H" "shed e3 e4 S1 S4 H"
        using repair_tail_inv [OF e3(2) c'] by blast
      have sh4: "shed e e4 S S4 H"
        using e1(3) e2(3) e3(3) e4(3) by (meson shed_trans)
      then have "c \<in> {1..power_largest (slabs e4)}" using c env_frameD(12) by (auto simp: shed_def)
      then obtain p e' where "slabs_alloc e4 sz c = Some (p, e')" "got e' S4 C H c p" "shed e4 e' S4 S4 H"
        using slabs_alloc_inv [OF e4(2)] by blast
      then show ?thesis using run True e3(1) e4(1) shed_trans [OF sh4] by auto
    qed
  qed
qed

lemma ITEM_ntotal_alloc_size:
  assumes "length k < 2 ^ 16" "unat nbytes < 2 ^ 31" "it_nkey i = of_nat (length k)" "it_nbytes i = nbytes"
    "config e' = config e"
  shows "ITEM_ntotal e' i = alloc_size e k nbytes"
proof -
  have "unat (ucast (of_nat (length k) :: u16) :: u64) = unat (of_nat (length k) :: u64)"
    using assms(1) by (simp add: unsigned_ucast_eq unsigned_of_nat take_bit_eq_mod)
  then have "(ucast (of_nat (length k) :: u16) :: u64) = of_nat (length k)"
    by (simp only: word_unat_eq_iff)
  moreover have "unat (ucast nbytes :: u64) = unat (scast nbytes :: u64)"
    unfolding unat_scast_small [OF assms(2)] using assms(2) by (simp add: unsigned_ucast_eq take_bit_eq_mod)
  then have "(ucast nbytes :: u64) = scast nbytes"
    by (simp only: word_unat_eq_iff)
  ultimately show ?thesis using assms by (simp add: ITEM_ntotal_def alloc_size_def)
qed

lemma init_item_inv:
  assumes sp: "spare e S C H c p" and c: "c \<in> {1..power_largest (slabs e)}"
    and k: "length k < 2 ^ 16" "unat nbytes < 2 ^ 31"
    and fits: "unat (alloc_size e k nbytes) \<le> unat (sc_size (cls (slabs e) c))"
  shows "\<exists>e'. init_item e c k flags exptime nbytes p = Some e' \<and> engine_inv e' S C (insert p H)
    \<and> env_frame e e' \<and> cas_id e' = cas_id e \<and> (\<forall>y. y \<noteq> p \<longrightarrow> mem e' y = mem e y)
    \<and> ikey e' p = k \<and> it_flags (mem e' p) = flags \<and> it_exptime (mem e' p) = exptime
    \<and> it_nbytes (mem e' p) = nbytes \<and> it_refcount (mem e' p) = 1"
proof -
  let ?A = "(class_map e (S \<union> H))(p \<mapsto> c)"
  have core: "engine_core e S C H ?A" and p: "p \<notin> S \<union> H \<union> C" "it_clsid (mem e p) = 0"
    using sp by (auto simp: spare_def)
  note slab = engine_coreD(4) [OF core] and lru = engine_coreD(3) [OF core]
  have c': "c < POWER_LARGEST" by (rule slab_okD(4) [OF slab_repD(1) [OF slab] c])
  have cw: "unat (of_nat c :: u8) = c"
    using c' by (simp add: POWER_LARGEST_def unsigned_of_nat take_bit_eq_mod)
  have nn: "p \<noteq> NULL" by (rule used_not_NULL(1) [OF slab, of p c]) simp
  have head: "heads (items e) ! c \<noteq> p" using lru_head_tail_in(1) [OF lru c'] p(1) nn by auto
  have len: "c < length (heads (items e))" using lru_repD(1) [OF lru] c' by (simp add: items_ok_def)
  define f where "f = (\<lambda>i :: hash_item. i\<lparr>it_clsid := of_nat c, it_next := NULL, it_prev := NULL, h_next := NULL,
     it_refcount := 1, it_iflag := (if use_cas (config e) then ITEM_WITH_CAS else 0),
     it_nkey := of_nat (length k), it_nbytes := nbytes, it_flags := flags, it_key := k, it_exptime := exptime\<rparr>)"
  define e' where "e' = upd_item p f e"
  have m': "mem e' y = (if y = p then f (mem e p) else mem e y)" for y
    by (simp add: e'_def upd_item_def)
  have s': "assoc e' = assoc e" "slabs e' = slabs e" "os e' = os e" "items e' = items e" "srv e' = srv e"
    "cas_id e' = cas_id e" "config e' = config e"
    by (simp_all add: e'_def upd_item_def)
  have run: "init_item e c k flags exptime nbytes p = Some e'"
    using p(2) head len cw by (simp add: init_item_def e'_def f_def upd_item_def Let_def)
  have env: "env_frame e e'" by (simp add: e'_def)
  have key: "ikey e' p = k" "key_ok (mem e' p)"
    using k(1) by (simp_all add: m' f_def item_get_key_def key_ok_def unsigned_of_nat take_bit_eq_mod)
  have "ITEM_ntotal e' (mem e' p) = alloc_size e k nbytes"
    by (rule ITEM_ntotal_alloc_size [OF k]) (simp_all add: m' f_def s')
  then have ok: "item_ok e' p"
    using fits key(2) cw by (simp add: item_ok_def m' f_def s')
  have A': "?A = class_map e' (S \<union> insert p H)"
    using p(1) cw by (intro ext) (auto simp: class_map_def m' f_def)
  have mem: "mem e' y = mem e y" if "y \<in> S \<union> H \<union> C" for y using that p(1) by (auto simp: m')
  have "engine_core e' S C (insert p H) ?A"
  proof (rule engine_coreI)
    show "assoc_rep e' S"
      by (rule assoc_rep_cong [OF engine_coreD(1) [OF core]]) (simp_all add: s' mem)
    show "lru_rep e' (S \<union> C)"
      by (rule lru_rep_cong [OF lru]) (auto simp: s' mem)
    show "slab_rep e' ?A C"
      by (rule slab_rep_cong [OF slab]) (auto simp: s' m')
    show "S \<inter> insert p H = {}" using p(1) engine_coreD(7) [OF core] by auto
    fix y
    show "?A y = Some (clsid e' y)" if "y \<in> S \<union> insert p H"
      using that unfolding A' by (simp add: class_map_Some)
    show "item_ok e' y" if "y \<in> S \<union> insert p H"
    proof (cases "y = p")
      case False
      with that have "y \<in> S \<union> H" by auto
      then show ?thesis by (intro item_ok_body [OF engine_coreD(6) [OF core] env]) (auto simp: mem)
    qed (use ok in simp)
    show "\<not> linked (mem e' y)" "it_refcount (mem e' y) \<noteq> 0" if "y \<in> insert p H"
      using that engine_coreD(9,10) [OF core, of y] by (auto simp: m' f_def)
  qed (use engine_coreD [OF core] in \<open>auto simp: mem s'\<close>)
  then have "engine_inv e' S C (insert p H)" by (simp add: engine_inv_def A')
  then show ?thesis
    using run env s'(6) key(1) by (simp add: m' f_def)
qed

lemma first_fit_class:
  assumes "first_fit s sz 1 c" "c \<noteq> 0"
  shows "c \<in> {1..power_largest s}" "unat sz \<le> unat (sc_size (cls s c))"
  using assms by (auto simp: first_fit_def split: if_splits)

text \<open>
  Allocation returns the null pointer or a new item with one reference that holds the key; other
  linked items may have been evicted, but no item that a client holds and that is not older than
  three hours.
\<close>

lemma do_item_alloc_inv:
  assumes inv: "engine_inv e S C H" and k: "length k < 2 ^ 16" "unat nbytes < 2 ^ 31"
  shows "\<exists>p e' S'. do_item_alloc e k flags exptime nbytes = Some (p, e') \<and> shed e e' S S' H
    \<and> (p = NULL \<longrightarrow> engine_inv e' S' C H)
    \<and> (p \<noteq> NULL \<longrightarrow> engine_inv e' S' C (insert p H) \<and> p \<notin> S' \<union> H \<union> C \<and> ikey e' p = k
         \<and> it_flags (mem e' p) = flags \<and> it_exptime (mem e' p) = exptime
         \<and> it_nbytes (mem e' p) = nbytes \<and> it_refcount (mem e' p) = 1)"
proof -
  note core = engine_invD [OF inv]
  note sok = slab_repD(1) [OF engine_coreD(4) [OF core]]
  let ?sz = "alloc_size e k nbytes"
  obtain c where c: "slabs_clsid e ?sz = Some c" "c \<noteq> 0 \<Longrightarrow> first_fit (slabs e) ?sz 1 c"
    using slabs_clsid_first_fit [OF sok, of ?sz] by (auto split: if_splits)
  show ?thesis
  proof (cases "c = 0")
    case True
    then have "do_item_alloc e k flags exptime nbytes = Some (NULL, e)"
      using c(1) by (simp add: do_item_alloc_def)
    then show ?thesis using inv by (intro exI [of _ NULL] exI [of _ e] exI [of _ S]) simp
  next
    case False
    note cc = first_fit_class [OF c(2) [OF False] False]
    have c': "c < POWER_LARGEST" by (rule slab_okD(4) [OF sok cc(1)])
    have tail: "arr_get (tails (items e)) c = Some (tails (items e) ! c)"
      using lru_repD(1) [OF engine_coreD(3) [OF core]] c' by (simp add: items_ok_def)
    define x where "x = lru_search (reclaimable (current_time e)) search_items (mem e) (tails (items e) ! c)"
    obtain p e1 S1 where e1: "(if x \<noteq> NULL then do { e \<leftarrow> steal_item e c ?sz x; Some (x, e) }
            else do {
              (it, e) \<leftarrow> slabs_alloc e ?sz c;
              if it \<noteq> NULL then Some (it, e) else alloc_by_evicting e c ?sz
            }) = Some (p, e1)" "got e1 S1 C H c p" "shed e e1 S S1 H"
    proof (cases "x = NULL")
      case False
      note s = lru_search_rep [OF engine_coreD(3) [OF core] c' x_def False]
      have "x \<in> S" "it_refcount (mem e x) = 0"
        using s engine_coreD(13) [OF core] by (auto simp: reclaimable_def)
      then obtain e1 where "steal_item e c ?sz x = Some e1" "spare e1 (S - {x}) C H c x" "shed e e1 S (S - {x}) H"
        using steal_item_inv [OF inv _ _ s(2)] by blast
      then show thesis using that [of x e1 "S - {x}"] False by (simp add: got_def)
    next
      case True
      obtain q e2 where e2: "slabs_alloc e ?sz c = Some (q, e2)" "got e2 S C H c q" "shed e e2 S S H"
        using slabs_alloc_inv [OF inv cc(1)] by blast
      show thesis
      proof (cases "q = NULL")
        case False
        then show thesis using that [of q e2 S] True e2 by simp
      next
        case q: True
        then have inv2: "engine_inv e2 S C H" using e2(2) by (simp add: got_def)
        have "c \<in> {1..power_largest (slabs e2)}" using e2(3) cc(1) env_frameD(12) by (auto simp: shed_def)
        then obtain p e1 S1 where "alloc_by_evicting e2 c ?sz = Some (p, e1)" "got e1 S1 C H c p" "shed e2 e1 S S1 H"
          using alloc_by_evicting_inv [OF inv2] by blast
        then show thesis using that [of p e1 S1] True q e2 shed_trans [OF e2(3)] by simp
      qed
    qed
    have run: "do_item_alloc e k flags exptime nbytes = (if p = NULL then Some (NULL, e1)
        else do { e \<leftarrow> init_item e1 c k flags exptime nbytes p; Some (p, e) })"
      unfolding do_item_alloc_def Let_def c(1) tail Option.bind.simps if_not_P [OF False]
        x_def [symmetric] e1(1) prod.case by simp
    show ?thesis
    proof (cases "p = NULL")
      case True
      then show ?thesis using run e1 by (auto simp: got_def)
    next
      case p: False
      then have sp: "spare e1 S1 C H c p" using e1(2) by (simp add: got_def)
      have env1: "env_frame e e1" using e1(3) by (simp add: shed_def)
      have same: "alloc_size e1 k nbytes = ?sz" "power_largest (slabs e1) = power_largest (slabs e)"
        "sc_size (cls (slabs e1) c) = sc_size (cls (slabs e) c)"
        using env_frameD(6,12,13) [OF env1] by (simp_all add: alloc_size_def)
      obtain e' where e': "init_item e1 c k flags exptime nbytes p = Some e'" "engine_inv e' S1 C (insert p H)"
        "env_frame e1 e'" "cas_id e' = cas_id e1" "\<forall>y. y \<noteq> p \<longrightarrow> mem e' y = mem e1 y"
        "ikey e' p = k" "it_flags (mem e' p) = flags" "it_exptime (mem e' p) = exptime"
        "it_nbytes (mem e' p) = nbytes" "it_refcount (mem e' p) = 1"
        using init_item_inv [OF sp _ k, of flags exptime] cc same by auto
      have pn: "p \<notin> S1 \<union> H \<union> C" using sp by (simp add: spare_def)
      then have "shed e1 e' S1 S1 H"
        using e'(3-5) by (auto simp: shed_def)
      then have "shed e e' S S1 H" by (rule shed_trans [OF e1(3)])
      then show ?thesis using run p e' pn by auto
    qed
  qed
qed

end
