(* ===== verification/Cache.thy ===== *)
theory Cache
  imports Items_Alloc
begin

unbundle bit_operations_syntax

text \<open>
  The storage engine as its clients see it: a map from keys to values, flags, expiry times and CAS
  numbers. Lookup, release, linking, replacing, allocation and the six store operations are shown to
  act on that map as the protocol promises, with lazy expiry, flushes and evictions accounted for.
\<close>

section \<open>The cache as a map\<close>

text \<open>
  What a client can observe of an item: its value, flags, expiry time and CAS. \<open>cache e\<close> is the map
  that lookups see: the live items of the hash table.
\<close>

type_synonym entry = "byte list \<times> u32 \<times> u32 \<times> u64"

definition value_of :: "hash_item \<Rightarrow> entry" where
  "value_of i = (item_get_data i, it_flags i, it_exptime i, item_get_cas i)"

definition cache :: "default_engine \<Rightarrow> key \<Rightarrow> entry option" where
  "cache e k =
     (case assoc_find e (srv_hash (srv e) k) k of
        None \<Rightarrow> None
      | Some p \<Rightarrow> if p \<noteq> NULL \<and> live e (mem e p) then Some (value_of (mem e p)) else None)"

text \<open>
  The clock has not passed the time of an item, and it is more than three hours before its wrap-around;
  the value of a linked item has been written.
\<close>

definition sane :: "u32 \<Rightarrow> hash_item \<Rightarrow> bool" where
  "sane now i \<longleftrightarrow> it_time i \<le> now \<and> unat (it_nbytes i) \<le> length (it_data i)"

definition clock_ok :: "default_engine \<Rightarrow> ptr set \<Rightarrow> bool" where
  "clock_ok e S \<longleftrightarrow> (\<forall>x\<in>S. sane (current_time e) (mem e x)) \<and> current_time e < - TAIL_REPAIR_TIME"

definition cache_inv :: "default_engine \<Rightarrow> ptr set \<Rightarrow> ptr set \<Rightarrow> ptr set \<Rightarrow> bool" where
  "cache_inv e S C H \<longleftrightarrow> engine_inv e S C H \<and> clock_ok e S"

lemma cache_iff:
  assumes "assoc_rep e S"
  shows "cache e k = Some v \<longleftrightarrow> (\<exists>x\<in>S. ikey e x = k \<and> live e (mem e x) \<and> v = value_of (mem e x))"
proof (cases "\<exists>x\<in>S. ikey e x = k")
  case True
  then obtain x where x: "x \<in> S" "ikey e x = k" by blast
  have "assoc_find e (srv_hash (srv e) k) k = Some x"
    using ix.find_present [OF assms x(1)] x(2) by (simp add: find_key_def)
  moreover have "x \<noteq> NULL" using assoc_rep_not_NULL [OF assms] x(1) by metis
  moreover have "(\<exists>y\<in>S. ikey e y = k \<and> live e (mem e y) \<and> v = value_of (mem e y))
      \<longleftrightarrow> live e (mem e x) \<and> v = value_of (mem e x)"
    using x inj_onD [OF assoc_repD(3) [OF assms]] by metis
  ultimately show ?thesis by (auto simp: cache_def)
next
  case False
  then have "assoc_find e (srv_hash (srv e) k) k = Some NULL"
    using ix.find_absent [OF assms, of k] by (auto simp: find_key_def)
  with False show ?thesis by (auto simp: cache_def)
qed

lemma cache_None:
  assumes "assoc_rep e S"
  shows "cache e k = None \<longleftrightarrow> (\<forall>x\<in>S. ikey e x = k \<longrightarrow> \<not> live e (mem e x))"
  using cache_iff [OF assms, of k] by (metis not_Some_eq)

text \<open>What a client cannot tell apart.\<close>

definition same_seen :: "default_engine \<Rightarrow> default_engine \<Rightarrow> ptr \<Rightarrow> bool" where
  "same_seen e e' y \<longleftrightarrow> ikey e' y = ikey e y \<and> live e' (mem e' y) = live e (mem e y)
     \<and> value_of (mem e' y) = value_of (mem e y)"

lemma same_seen_refl [simp]: "same_seen e e y"
  by (simp add: same_seen_def)

lemma same_seen_trans: "same_seen e e1 y \<Longrightarrow> same_seen e1 e2 y \<Longrightarrow> same_seen e e2 y"
  by (simp add: same_seen_def)

lemma value_of_body: "body i = body j \<Longrightarrow> value_of i = value_of j"
  using body_fields [of i j] by (simp add: value_of_def item_get_data_def item_get_cas_def)

lemma live_body: "env_frame e e' \<Longrightarrow> body i = body j \<Longrightarrow> live e' i = live e j"
  using body_fields [of i j] env_frameD(6,14) [of e e'] by (simp add: live_def flushed_def)

lemma same_seen_body:
  assumes "env_frame e e'" "body (mem e' y) = body (mem e y)"
  shows "same_seen e e' y"
  unfolding same_seen_def using ikey_body [OF assms(2)] live_body [OF assms] value_of_body [OF assms(2)]
  by blast

lemma cache_subset:
  assumes rep: "assoc_rep e S" "assoc_rep e' S'" and sub: "S' \<subseteq> S" and same: "\<And>y. y \<in> S' \<Longrightarrow> same_seen e e' y"
  shows "cache e' \<subseteq>\<^sub>m cache e"
proof (unfold map_le_def, intro ballI)
  fix k assume "k \<in> dom (cache e')"
  then obtain v where v: "cache e' k = Some v" by blast
  then have "cache e k = Some v"
    unfolding cache_iff [OF rep(1)] cache_iff [OF rep(2)] using sub same by (auto simp: same_seen_def)
  with v show "cache e' k = cache e k" by simp
qed

lemma cache_eqI:
  assumes rep: "assoc_rep e S" "assoc_rep e' S'" and sub: "S' \<subseteq> S" and same: "\<And>y. y \<in> S' \<Longrightarrow> same_seen e e' y"
    and dead: "\<And>y. y \<in> S - S' \<Longrightarrow> \<not> live e (mem e y)"
  shows "cache e' = cache e"
proof
  fix k
  have "cache e' k = Some v \<longleftrightarrow> cache e k = Some v" for v
    unfolding cache_iff [OF rep(1)] cache_iff [OF rep(2)]
    using sub same dead by (auto simp: same_seen_def)
  then show "cache e' k = cache e k" by (metis not_Some_eq)
qed

lemma cache_insertI:
  assumes rep: "assoc_rep e S" "assoc_rep e' (insert it S')" and sub: "S' \<subseteq> S" "it \<notin> S'"
    and same: "\<And>y. y \<in> S' \<Longrightarrow> same_seen e e' y"
    and gone: "\<And>y. y \<in> S - S' \<Longrightarrow> ikey e y = ikey e' it \<or> \<not> live e (mem e y)"
  shows "cache e' = (cache e)(ikey e' it :=
     if live e' (mem e' it) then Some (value_of (mem e' it)) else None)"
proof
  fix k
  have neq: "ikey e y \<noteq> ikey e' it" if "y \<in> S'" for y
    using that same [OF that] sub inj_onD [OF assoc_repD(3) [OF rep(2)], of y it]
    by (auto simp: same_seen_def)
  show "cache e' k = ((cache e)(ikey e' it :=
     if live e' (mem e' it) then Some (value_of (mem e' it)) else None)) k"
  proof (cases "k = ikey e' it")
    case True
    then have "cache e' k = Some v \<longleftrightarrow> live e' (mem e' it) \<and> v = value_of (mem e' it)" for v
      unfolding cache_iff [OF rep(2)] using neq same by (auto simp: same_seen_def)
    then show ?thesis using True by (metis (mono_tags, lifting) fun_upd_same not_Some_eq)
  next
    case False
    then have "cache e' k = Some v \<longleftrightarrow> cache e k = Some v" for v
      unfolding cache_iff [OF rep(1)] cache_iff [OF rep(2)]
      using sub same gone by (auto simp: same_seen_def)
    then show ?thesis using False by (metis fun_upd_other not_Some_eq)
  qed
qed

section \<open>The clock\<close>

lemma live_bump:
  assumes "live e i" "it_time i \<le> current_time e"
  shows "live e (i\<lparr>it_time := bump_time e i\<rparr>)"
  using assms by (auto simp: live_def flushed_def bump_time_def)

text \<open>An item that has just been looked up is not old enough to be taken away.\<close>

lemma bump_recent:
  assumes "it_time i \<le> current_time e" "current_time e < - TAIL_REPAIR_TIME" "linked i"
  shows "\<not> bump_time e i + TAIL_REPAIR_TIME < current_time e"
proof -
  let ?n = "unat (current_time e)" and ?t = "unat (it_time i)"
  have r: "unat TAIL_REPAIR_TIME = 10800" by (simp add: TAIL_REPAIR_TIME_def)
  have n: "?n < 2 ^ 32 - 10800"
    using assms(2) by (simp add: word_less_nat_alt TAIL_REPAIR_TIME_def)
  have t: "?t \<le> ?n" using assms(1) by (simp add: word_le_nat_alt)
  have sum: "unat (w + TAIL_REPAIR_TIME) = unat w + 10800" if "unat w \<le> ?n" for w :: u32
    using that n by (simp add: unat_word_ariths r)
  show ?thesis
  proof (cases "it_time i < current_time e - ITEM_UPDATE_INTERVAL")
    case True
    then show ?thesis using sum [of "current_time e"] assms(3) by (simp add: bump_time_def word_less_nat_alt)
  next
    case False
    have "?n \<le> ?t + 60"
    proof (cases "60 \<le> ?n")
      case True
      then have "unat (current_time e - ITEM_UPDATE_INTERVAL) = ?n - 60"
        by (simp add: unat_sub word_le_nat_alt ITEM_UPDATE_INTERVAL_def)
      then show ?thesis using False by (simp add: word_less_nat_alt)
    qed simp
    then show ?thesis using False sum [of "it_time i"] t by (simp add: bump_time_def word_less_nat_alt)
  qed
qed

lemma sane_body: "body i = body j \<Longrightarrow> sane t i = sane t j"
  using body_fields(1,3,11) [of i j] by (simp add: sane_def)

section \<open>Lookups\<close>

lemma cache_invD:
  assumes "cache_inv e S C H"
  shows "engine_inv e S C H" "clock_ok e S" "engine_core e S C H (class_map e (S \<union> H))" "assoc_rep e S"
    "x \<in> S \<Longrightarrow> sane (current_time e) (mem e x)" "current_time e < - TAIL_REPAIR_TIME"
    "x \<in> S \<Longrightarrow> it_time (mem e x) \<le> current_time e"
  using assms engine_coreD(1) by (auto simp: cache_inv_def engine_inv_def clock_ok_def sane_def)

lemma cache_invI:
  assumes "engine_inv e' S' C H'" "cache_inv e S C0 H" "env_frame e e'"
    and "\<And>y. y \<in> S' \<Longrightarrow> sane (current_time e) (mem e' y)"
  shows "cache_inv e' S' C H'"
  using assms env_frameD(14) [OF assms(3)] by (simp add: cache_inv_def clock_ok_def)

lemma get_miss:
  assumes inv: "cache_inv e S C H" and k: "cache e k = None"
  shows "\<exists>e' S' H'. do_item_get e k = Some (NULL, e') \<and> cache_inv e' S' C H' \<and> env_frame e e'
    \<and> cas_id e' = cas_id e \<and> S' \<subseteq> S \<and> H \<subseteq> H' \<and> (\<forall>y\<in>S'. ikey e y \<noteq> k)
    \<and> (\<forall>y \<in> S - S'. \<not> live e (mem e y)) \<and> (\<forall>y \<in> S' \<union> H. body (mem e' y) = body (mem e y))
    \<and> cache e' = cache e"
proof (cases "\<exists>x\<in>S. ikey e x = k")
  case False
  then have "do_item_get e k = Some (NULL, e)" using do_item_get_miss [OF cache_invD(1) [OF inv]] by auto
  then show ?thesis
    using inv False by (intro exI [of _ e] exI [of _ S] exI [of _ H]) auto
next
  case True
  then obtain x where x: "x \<in> S" "ikey e x = k" by blast
  have dead: "\<not> live e (mem e x)" using k x cache_None [OF cache_invD(4) [OF inv]] by blast
  define H' where "H' = (if it_refcount (mem e x) = 0 then H else insert x H)"
  obtain e' where e': "do_item_get e k = Some (NULL, e')" "engine_inv e' (S - {x}) C H'"
    "env_frame e e'" "cas_id e' = cas_id e" "\<And>y. y \<noteq> x \<Longrightarrow> body (mem e' y) = body (mem e y)"
    using do_item_get_dead [OF cache_invD(1) [OF inv] x(1) dead] x(2) unfolding H'_def by blast
  have xH: "x \<notin> H" using x(1) engine_coreD(7) [OF cache_invD(3) [OF inv]] by auto
  then have b: "body (mem e' y) = body (mem e y)" if "y \<in> (S - {x}) \<union> H" for y
    using that by (intro e'(5)) auto
  have "sane (current_time e) (mem e' y)" if "y \<in> S - {x}" for y
    using that sane_body [OF b [of y]] cache_invD(5) [OF inv] by simp
  then have inv': "cache_inv e' (S - {x}) C H'"
    using e' by (intro cache_invI [OF e'(2) inv e'(3)])
  have "cache e' = cache e"
    by (rule cache_eqI [OF cache_invD(4) [OF inv] cache_invD(4) [OF inv']])
       (use b dead same_seen_body [OF e'(3)] in auto)
  moreover have "\<forall>y \<in> S - {x}. ikey e y \<noteq> k"
    using x inj_onD [OF assoc_repD(3) [OF cache_invD(4) [OF inv]]] by auto
  moreover have "H \<subseteq> H'" by (auto simp: H'_def)
  ultimately show ?thesis
    using e'(1,3,4) inv' b dead by (intro exI [of _ e'] exI [of _ "S - {x}"] exI [of _ H']) auto
qed

lemma get_hit:
  assumes inv: "cache_inv e S C H" and k: "cache e k = Some v"
  shows "\<exists>x e'. do_item_get e k = Some (x, e') \<and> x \<in> S \<and> ikey e x = k \<and> v = value_of (mem e x)
    \<and> cache_inv e' S C H \<and> env_frame e e' \<and> cas_id e' = cas_id e
    \<and> (\<forall>y. y \<noteq> x \<longrightarrow> body (mem e' y) = body (mem e y)) \<and> (\<forall>y. ikey e' y = ikey e y)
    \<and> it_refcount (mem e' x) = it_refcount (mem e x) + 1 \<and> same_seen e e' x
    \<and> \<not> it_time (mem e' x) + TAIL_REPAIR_TIME < current_time e
    \<and> it_nbytes (mem e' x) = it_nbytes (mem e x) \<and> cache e' = cache e"
proof -
  note core = cache_invD(3) [OF inv]
  obtain x where x: "x \<in> S" "ikey e x = k" "live e (mem e x)" "v = value_of (mem e x)"
    using k cache_iff [OF cache_invD(4) [OF inv]] by blast
  obtain e' where e': "do_item_get e k = Some (x, e')" "engine_inv e' S C H" "env_frame e e'"
    "cas_id e' = cas_id e" and b: "\<And>y. y \<noteq> x \<Longrightarrow> body (mem e' y) = body (mem e y)"
    and bx: "body (mem e' x) = body ((mem e x)\<lparr>it_refcount := it_refcount (mem e x) + 1,
         it_time := bump_time e (mem e x)\<rparr>)"
    using do_item_get_live [OF cache_invD(1) [OF inv] x(1,3)] x(2) by blast
  note xf = body_fields [OF bx]
  have t: "it_time (mem e x) \<le> current_time e" by (rule cache_invD(7) [OF inv x(1)])
  have t': "sane (current_time e) (mem e' x)"
    using t xf cache_invD(5) [OF inv x(1)] by (simp add: bump_time_def sane_def)
  have "live e' (mem e' x) = live e ((mem e x)\<lparr>it_time := bump_time e (mem e x)\<rparr>)"
    using xf env_frameD(6,14) [OF e'(3)] by (simp add: live_def flushed_def)
  then have seen: "same_seen e e' x"
    using x(3) live_bump [OF x(3) t] xf
    by (simp add: same_seen_def item_get_key_def value_of_def item_get_data_def item_get_cas_def)
  have inv': "cache_inv e' S C H"
  proof (rule cache_invI [OF e'(2) inv e'(3)])
    fix y assume "y \<in> S"
    then show "sane (current_time e) (mem e' y)"
      using t' sane_body [OF b [of y]] cache_invD(5) [OF inv] by (cases "y = x") auto
  qed
  have all: "same_seen e e' y" for y
    using seen same_seen_body [OF e'(3) b] by (cases "y = x") auto
  have "cache e' = cache e"
    by (rule cache_eqI [OF cache_invD(4) [OF inv] cache_invD(4) [OF inv']]) (use all in auto)
  moreover have "\<not> it_time (mem e' x) + TAIL_REPAIR_TIME < current_time e"
    using bump_recent [OF t cache_invD(6) [OF inv] engine_coreD(8) [OF core x(1)]] xf(1) by simp
  moreover have "ikey e' y = ikey e y" for y using all [of y] by (simp add: same_seen_def)
  ultimately show ?thesis
    using e'(1,3,4) x inv' b seen xf(3,7) by (intro exI [of _ x] exI [of _ e']) auto
qed

section \<open>Releasing\<close>

lemma release_cache:
  assumes inv: "cache_inv e S C H" and x: "x \<in> S \<union> H"
  shows "\<exists>e' H'. do_item_release e x = Some e' \<and> cache_inv e' S C H' \<and> H' \<subseteq> H \<and> H - {x} \<subseteq> H'
    \<and> env_frame e e' \<and> cas_id e' = cas_id e \<and> (\<forall>y. y \<noteq> x \<longrightarrow> mem e' y = mem e y)
    \<and> cache e' = cache e \<and> (x \<in> S \<or> it_refcount (mem e x) \<noteq> 1 \<longrightarrow> same_seen e e' x \<and> x \<in> S \<union> H'
         \<and> it_refcount (mem e' x) = dec_ref (it_refcount (mem e x)))"
proof -
  note core = cache_invD(3) [OF inv]
  define free where "free \<longleftrightarrow> x \<in> H \<and> it_refcount (mem e x) = 1"
  define H' where "H' = (if free then H - {x} else H)"
  obtain e' where e': "do_item_release e x = Some e'" "engine_inv e' S C H'"
    "env_frame e e'" "cas_id e' = cas_id e" "\<forall>y. y \<noteq> x \<longrightarrow> mem e' y = mem e y"
    and mx: "\<not> free \<Longrightarrow> mem e' x = (mem e x)\<lparr>it_refcount := dec_ref (it_refcount (mem e x))\<rparr>"
    using do_item_release_inv [OF cache_invD(1) [OF inv] x] unfolding free_def H'_def by blast
  have fS: "\<not> free" if "x \<in> S" using that engine_coreD(7) [OF core] by (auto simp: free_def)
  have seen_x: "same_seen e e' x" if "\<not> free"
    using mx [OF that] env_frameD(6,14) [OF e'(3)]
    by (simp add: same_seen_def item_get_key_def value_of_def item_get_data_def item_get_cas_def
        live_def flushed_def)
  have seen: "same_seen e e' y" if "y \<in> S" for y
    using that seen_x fS e'(5) same_seen_body [OF e'(3), of y] by (cases "y = x") auto
  have inv': "cache_inv e' S C H'"
  proof (rule cache_invI [OF e'(2) inv e'(3)])
    fix y assume "y \<in> S"
    then show "sane (current_time e) (mem e' y)"
      using fS mx e'(5) cache_invD(5) [OF inv, of y] by (cases "y = x") (auto simp: sane_def)
  qed
  have "cache e' = cache e"
    by (rule cache_eqI [OF cache_invD(4) [OF inv] cache_invD(4) [OF inv']]) (use seen in auto)
  moreover have "x \<in> S \<union> H'" "it_refcount (mem e' x) = dec_ref (it_refcount (mem e x))" if "\<not> free"
    using that x mx by (auto simp: H'_def)
  moreover have "H' \<subseteq> H" "H - {x} \<subseteq> H'" by (auto simp: H'_def)
  moreover have "\<not> free" if "x \<in> S \<or> it_refcount (mem e x) \<noteq> 1"
    using that fS by (auto simp: free_def)
  ultimately show ?thesis
    using e' inv' seen_x by (intro exI [of _ e'] exI [of _ H']) auto
qed

section \<open>Linking and replacing\<close>

definition new_entry :: "default_engine \<Rightarrow> ptr \<Rightarrow> entry option" where
  "new_entry e it =
     (if live e ((mem e it)\<lparr>it_time := current_time e\<rparr>)
      then Some (item_get_data (mem e it), it_flags (mem e it), it_exptime (mem e it),
                 if use_cas (config e) then cas_id e + 1 else 0)
      else None)"

lemma linked_entry:
  assumes env: "env_frame e e'" and ok: "item_ok e it"
    and b: "body (mem e' it) = body (item_set_cas (cas_id e + 1)
         ((mem e it)\<lparr>it_iflag := it_iflag (mem e it) OR ITEM_LINKED, it_time := current_time e\<rparr>))"
  shows "(if live e' (mem e' it) then Some (value_of (mem e' it)) else None) = new_entry e it"
    "ikey e' it = ikey e it" "it_time (mem e' it) = current_time e"
    "item_get_cas (mem e' it) = (if use_cas (config e) then cas_id e + 1 else 0)"
    "it_refcount (mem e' it) = it_refcount (mem e it)"
    "unat (it_nbytes (mem e it)) \<le> length (it_data (mem e it)) \<Longrightarrow> sane (current_time e) (mem e' it)"
proof -
  note f = body_fields [OF b, simplified]
  have cas: "item_get_cas (mem e' it) = (if use_cas (config e) then cas_id e + 1 else 0)"
    using ok f by (simp add: item_get_cas_def item_set_cas_def item_ok_def)
  have "live e' (mem e' it) = live e ((mem e it)\<lparr>it_time := current_time e\<rparr>)"
    using f env_frameD(6,14) [OF env] by (simp add: live_def flushed_def)
  then show "(if live e' (mem e' it) then Some (value_of (mem e' it)) else None) = new_entry e it"
    using f cas by (simp add: new_entry_def value_of_def item_get_data_def)
  show "ikey e' it = ikey e it" "it_time (mem e' it) = current_time e"
    "it_refcount (mem e' it) = it_refcount (mem e it)"
    using f by (simp_all add: item_get_key_def)
  show "sane (current_time e) (mem e' it)" if "unat (it_nbytes (mem e it)) \<le> length (it_data (mem e it))"
    using that f by (simp add: sane_def)
  show "item_get_cas (mem e' it) = (if use_cas (config e) then cas_id e + 1 else 0)" by (rule cas)
qed

lemma link_cache:
  assumes inv: "cache_inv e S C H" and it: "it \<in> H" and fresh: "\<forall>y\<in>S. ikey e y \<noteq> ikey e it"
    and small: "it_nbytes (mem e it) < 1024 * 1024" "card S < 2 ^ 30"
    and full: "unat (it_nbytes (mem e it)) \<le> length (it_data (mem e it))"
  shows "\<exists>e'. do_item_link e it = Some e' \<and> cache_inv e' (insert it S) C (H - {it}) \<and> env_frame e e'
    \<and> cas_id e' = cas_id e + 1 \<and> cache e' = (cache e)(ikey e it := new_entry e it)
    \<and> item_get_cas (mem e' it) = (if use_cas (config e) then cas_id e + 1 else 0)
    \<and> it_refcount (mem e' it) = it_refcount (mem e it) \<and> (\<forall>y. y \<noteq> it \<longrightarrow> body (mem e' y) = body (mem e y))"
proof -
  note core = cache_invD(3) [OF inv]
  obtain e' where e': "do_item_link e it = Some e'" "engine_inv e' (insert it S) C (H - {it})" "env_frame e e'"
    "cas_id e' = cas_id e + 1" and b: "\<And>y. y \<noteq> it \<Longrightarrow> body (mem e' y) = body (mem e y)"
    and bi: "body (mem e' it) = body (item_set_cas (cas_id e + 1)
         ((mem e it)\<lparr>it_iflag := it_iflag (mem e it) OR ITEM_LINKED, it_time := current_time e\<rparr>))"
    using do_item_link_inv [OF cache_invD(1) [OF inv] it fresh small] by blast
  have itS: "it \<notin> S" using it engine_coreD(7) [OF core] by auto
  have "item_ok e it" using engine_coreD(6) [OF core] it by simp
  note n = linked_entry [OF e'(3) this bi]
  have inv': "cache_inv e' (insert it S) C (H - {it})"
  proof (rule cache_invI [OF e'(2) inv e'(3)])
    fix y assume "y \<in> insert it S"
    then show "sane (current_time e) (mem e' y)"
      using n(6) [OF full] sane_body [OF b [of y]] cache_invD(5) [OF inv] by (cases "y = it") auto
  qed
  have "same_seen e e' y" if "y \<in> S" for y
    by (rule same_seen_body [OF e'(3) b]) (use that itS in blast)
  then have "cache e' = (cache e)(ikey e' it := if live e' (mem e' it) then Some (value_of (mem e' it)) else None)"
    by (intro cache_insertI [OF cache_invD(4) [OF inv] cache_invD(4) [OF inv']]) (use itS in auto)
  then show ?thesis using e'(1,3,4) inv' n b by auto
qed

lemma replace_cache:
  assumes inv: "cache_inv e S C H" and x: "x \<in> S" "it \<in> H" and key: "ikey e it = ikey e x"
    and small: "it_nbytes (mem e it) < 1024 * 1024" "card S \<le> 2 ^ 30" and held: "it_refcount (mem e x) \<noteq> 0"
    and full: "unat (it_nbytes (mem e it)) \<le> length (it_data (mem e it))"
  shows "\<exists>e'. do_item_replace e x it = Some e'
    \<and> cache_inv e' (insert it (S - {x})) C (insert x H - {it}) \<and> env_frame e e'
    \<and> cas_id e' = cas_id e + 1 \<and> cache e' = (cache e)(ikey e it := new_entry e it)
    \<and> item_get_cas (mem e' it) = (if use_cas (config e) then cas_id e + 1 else 0)
    \<and> it_refcount (mem e' it) = it_refcount (mem e it) \<and> it_refcount (mem e' x) = it_refcount (mem e x)
    \<and> (\<forall>y. y \<noteq> x \<and> y \<noteq> it \<longrightarrow> body (mem e' y) = body (mem e y))"
proof -
  note core = cache_invD(3) [OF inv]
  have "\<exists>e'. do_item_replace e x it = Some e'
    \<and> engine_inv e' (insert it (S - {x})) C (insert x H - {it})
    \<and> env_frame e e' \<and> cas_id e' = cas_id e + 1
    \<and> (\<forall>y. y \<noteq> x \<and> y \<noteq> it \<longrightarrow> body (mem e' y) = body (mem e y))
    \<and> body (mem e' x) = body ((mem e x)\<lparr>it_iflag := it_iflag (mem e x) AND NOT ITEM_LINKED\<rparr>)
    \<and> body (mem e' it) = body (item_set_cas (cas_id e + 1)
         ((mem e it)\<lparr>it_iflag := it_iflag (mem e it) OR ITEM_LINKED, it_time := current_time e\<rparr>))"
    using do_item_replace_inv [OF cache_invD(1) [OF inv] x key small] held by auto
  then obtain e' where e': "do_item_replace e x it = Some e'"
    "engine_inv e' (insert it (S - {x})) C (insert x H - {it})" "env_frame e e'"
    "cas_id e' = cas_id e + 1" and b: "\<And>y. y \<noteq> x \<Longrightarrow> y \<noteq> it \<Longrightarrow> body (mem e' y) = body (mem e y)"
    and bx: "body (mem e' x) = body ((mem e x)\<lparr>it_iflag := it_iflag (mem e x) AND NOT ITEM_LINKED\<rparr>)"
    and bi: "body (mem e' it) = body (item_set_cas (cas_id e + 1)
         ((mem e it)\<lparr>it_iflag := it_iflag (mem e it) OR ITEM_LINKED, it_time := current_time e\<rparr>))"
    by blast
  have itS: "it \<notin> S" using x(2) engine_coreD(7) [OF core] by auto
  have "item_ok e it" using engine_coreD(6) [OF core] x(2) by simp
  note n = linked_entry [OF e'(3) this bi]
  have bS: "body (mem e' y) = body (mem e y)" if "y \<in> S - {x}" for y
    using that itS by (intro b) auto
  have inv': "cache_inv e' (insert it (S - {x})) C (insert x H - {it})"
  proof (rule cache_invI [OF e'(2) inv e'(3)])
    fix y assume "y \<in> insert it (S - {x})"
    then show "sane (current_time e) (mem e' y)"
      using n(6) [OF full] sane_body [OF bS [of y]] cache_invD(5) [OF inv] by (cases "y = it") auto
  qed
  have "cache e' = (cache e)(ikey e' it := if live e' (mem e' it) then Some (value_of (mem e' it)) else None)"
    by (rule cache_insertI [OF cache_invD(4) [OF inv] cache_invD(4) [OF inv']])
       (use itS same_seen_body [OF e'(3) bS] n(2) key in auto)
  then show ?thesis using e'(1,3,4) inv' n b body_fields(7) [OF bx] by auto
qed

section \<open>Storing\<close>

text \<open>
  The decision a store operation takes on the entry \<open>old\<close> a lookup of the key gives and the CAS \<open>c\<close>
  of the new item. For append and prepend it is the decision when memory is available.
\<close>

fun entry_cas :: "entry \<Rightarrow> u64" where
  "entry_cas (d, f, x, c) = c"

fun store_code :: "ENGINE_STORE_OPERATION \<Rightarrow> entry option \<Rightarrow> u64 \<Rightarrow> ENGINE_ERROR_CODE" where
  "store_code OPERATION_SET old c = ENGINE_SUCCESS"
| "store_code OPERATION_ADD None c = ENGINE_SUCCESS"
| "store_code OPERATION_ADD (Some v) c = ENGINE_NOT_STORED"
| "store_code OPERATION_REPLACE None c = ENGINE_NOT_STORED"
| "store_code OPERATION_REPLACE (Some v) c = ENGINE_SUCCESS"
| "store_code OPERATION_CAS None c = ENGINE_KEY_ENOENT"
| "store_code OPERATION_CAS (Some v) c = (if c = entry_cas v then ENGINE_SUCCESS else ENGINE_KEY_EEXISTS)"
| "store_code OPERATION_APPEND None c = ENGINE_NOT_STORED"
| "store_code OPERATION_APPEND (Some v) c =
     (if c \<noteq> 0 \<and> c \<noteq> entry_cas v then ENGINE_KEY_EEXISTS else ENGINE_SUCCESS)"
| "store_code OPERATION_PREPEND None c = ENGINE_NOT_STORED"
| "store_code OPERATION_PREPEND (Some v) c =
     (if c \<noteq> 0 \<and> c \<noteq> entry_cas v then ENGINE_KEY_EEXISTS else ENGINE_SUCCESS)"

text \<open>What a caller of a store operation has to provide.\<close>

definition store_pre :: "default_engine \<Rightarrow> ptr set \<Rightarrow> ptr set \<Rightarrow> ptr set \<Rightarrow> ptr \<Rightarrow> bool" where
  "store_pre e S C H it \<longleftrightarrow> cache_inv e S C H \<and> it \<in> H \<and> it_nbytes (mem e it) < 1024 * 1024
     \<and> unat (it_nbytes (mem e it)) \<le> length (it_data (mem e it))
     \<and> card S < 2 ^ 30 \<and> (\<forall>x\<in>S. it_refcount (mem e x) \<noteq> 0xFFFF)"

lemma store_preD:
  assumes "store_pre e S C H it"
  shows "cache_inv e S C H" "it \<in> H" "it_nbytes (mem e it) < 1024 * 1024" "card S < 2 ^ 30"
    "x \<in> S \<Longrightarrow> it_refcount (mem e x) \<noteq> 0xFFFF" "it \<notin> S"
    "unat (it_nbytes (mem e it)) \<le> length (it_data (mem e it))"
  using assms engine_coreD(7) [OF cache_invD(3) [of e S C H]] by (auto simp: store_pre_def)

lemma new_entry_body:
  assumes "env_frame e e'" "cas_id e' = cas_id e" "body (mem e' it) = body (mem e it)"
  shows "new_entry e' it = new_entry e it"
  using body_fields [OF assms(3)] assms(2) env_frameD(6,14) [OF assms(1)]
  by (simp add: new_entry_def live_def flushed_def item_get_data_def)

lemma item_get_cas_body: "body i = body j \<Longrightarrow> item_get_cas i = item_get_cas j"
  using body_fields(6,9) [of i j] by (simp add: item_get_cas_def)

lemma inc_ref_not_0: "(r :: u16) \<noteq> 0xFFFF \<Longrightarrow> r + 1 \<noteq> 0"
proof
  assume "r \<noteq> 0xFFFF" "r + 1 = 0"
  then have "r = - 1" by (simp add: eq_neg_iff_add_eq_0)
  then show False using \<open>r \<noteq> 0xFFFF\<close> by simp
qed

text \<open>What every outcome of a store guarantees about the new item and about the other held items.\<close>

definition stored_ok :: "default_engine \<Rightarrow> default_engine \<Rightarrow> ptr set \<Rightarrow> ptr set \<Rightarrow> ptr set \<Rightarrow> ptr \<Rightarrow> bool" where
  "stored_ok e e' S' H H' it \<longleftrightarrow> it \<in> S' \<union> H' \<and> H - {it} \<subseteq> H' \<and> env_frame e e'
     \<and> it_refcount (mem e' it) = it_refcount (mem e it)"

lemma store_miss:
  assumes pre: "store_pre e S C H it" and k: "cache e (ikey e it) = None"
    and op: "operation \<in> {OPERATION_SET, OPERATION_ADD}"
  shows "\<exists>cas' e' S' H'. do_store_item e it cas operation = Some (ENGINE_SUCCESS, cas', e')
    \<and> cache_inv e' S' C H' \<and> cache e' = (cache e)(ikey e it := new_entry e it)
    \<and> cas' = (if use_cas (config e) then cas_id e + 1 else 0) \<and> stored_ok e e' S' H H' it"
proof -
  note p = store_preD [OF pre]
  obtain e1 S1 H1 where e1: "do_item_get e (ikey e it) = Some (NULL, e1)" "cache_inv e1 S1 C H1"
    "env_frame e e1" "cas_id e1 = cas_id e" "S1 \<subseteq> S" "H \<subseteq> H1" "\<forall>y\<in>S1. ikey e y \<noteq> ikey e it"
    "\<forall>y \<in> S1 \<union> H. body (mem e1 y) = body (mem e y)" "cache e1 = cache e"
    using get_miss [OF p(1) k] by blast
  have bi: "body (mem e1 it) = body (mem e it)" using e1(8) p(2) by blast
  have ki: "ikey e1 it = ikey e it" by (rule ikey_body [OF bi])
  have "finite S" by (rule assoc_repD(2) [OF cache_invD(4) [OF p(1)]])
  then have "card S1 < 2 ^ 30" using card_mono [OF _ e1(5)] p(4) by linarith
  moreover have "\<forall>y\<in>S1. ikey e1 y \<noteq> ikey e1 it" using e1(7,8) ikey_body ki by (metis UnI1)
  moreover have "it \<in> H1" "it_nbytes (mem e1 it) < 1024 * 1024"
    "unat (it_nbytes (mem e1 it)) \<le> length (it_data (mem e1 it))"
    using p(2,3,7) e1(6) body_fields(3,11) [OF bi] by auto
  ultimately obtain e' where e': "do_item_link e1 it = Some e'" "cache_inv e' (insert it S1) C (H1 - {it})"
    "env_frame e1 e'" "cache e' = (cache e1)(ikey e1 it := new_entry e1 it)"
    "item_get_cas (mem e' it) = (if use_cas (config e1) then cas_id e1 + 1 else 0)"
    "it_refcount (mem e' it) = it_refcount (mem e1 it)"
    using link_cache [OF e1(2), of it] by blast
  have "do_store_item e it cas operation = Some (ENGINE_SUCCESS, item_get_cas (mem e' it), e')"
    using e1(1) e'(1) op by (auto simp: do_store_item_def)
  moreover have "stored_ok e e' (insert it S1) H (H1 - {it}) it"
    using e1(6) env_frame_trans [OF e1(3) e'(3)] e'(6) body_fields(7) [OF bi] by (auto simp: stored_ok_def)
  ultimately show ?thesis
    using e' e1(4,9) ki new_entry_body [OF e1(3,4) bi] env_frameD(6) [OF e1(3)] by auto
qed

lemma store_hit_replace:
  assumes pre: "store_pre e S C H it" and k: "cache e (ikey e it) = Some v"
    and op: "operation \<in> {OPERATION_SET, OPERATION_REPLACE}
       \<or> operation = OPERATION_CAS \<and> item_get_cas (mem e it) = entry_cas v"
  shows "\<exists>cas' e' S' H'. do_store_item e it cas operation = Some (ENGINE_SUCCESS, cas', e')
    \<and> cache_inv e' S' C H' \<and> cache e' = (cache e)(ikey e it := new_entry e it)
    \<and> cas' = (if use_cas (config e) then cas_id e + 1 else 0) \<and> stored_ok e e' S' H H' it"
proof -
  note p = store_preD [OF pre]
  obtain x e1 where e1: "do_item_get e (ikey e it) = Some (x, e1)" "x \<in> S" "ikey e x = ikey e it"
    "v = value_of (mem e x)" "cache_inv e1 S C H" "env_frame e e1" "cas_id e1 = cas_id e"
    "\<forall>y. y \<noteq> x \<longrightarrow> body (mem e1 y) = body (mem e y)" "\<forall>y. ikey e1 y = ikey e y"
    "it_refcount (mem e1 x) = it_refcount (mem e x) + 1" "same_seen e e1 x" "cache e1 = cache e"
    using get_hit [OF p(1) k] by blast
  have neq: "it \<noteq> x" using e1(2) p(6) by blast
  have bi: "body (mem e1 it) = body (mem e it)" using e1(8) neq by blast
  have held: "it_refcount (mem e1 x) \<noteq> 0" using e1(10) inc_ref_not_0 [OF p(5) [OF e1(2)]] by simp
  have xn: "x \<noteq> NULL" using e1(2) engine_core_disjoint(2) [OF cache_invD(3) [OF p(1)]] by metis
  obtain e2 where e2: "do_item_replace e1 x it = Some e2"
    "cache_inv e2 (insert it (S - {x})) C (insert x H - {it})" "env_frame e1 e2"
    "cache e2 = (cache e1)(ikey e1 it := new_entry e1 it)"
    "item_get_cas (mem e2 it) = (if use_cas (config e1) then cas_id e1 + 1 else 0)"
    "it_refcount (mem e2 it) = it_refcount (mem e1 it)"
    using replace_cache [OF e1(5,2) p(2) _ _ _ held] e1(3,9) body_fields(3,11) [OF bi] p(3,4,7) by auto
  have xH: "x \<in> insert it (S - {x}) \<union> (insert x H - {it})" using neq by auto
  obtain e' H' where e': "do_item_release e2 x = Some e'" "cache_inv e' (insert it (S - {x})) C H'"
    "insert x H - {it} - {x} \<subseteq> H'" "env_frame e2 e'" "\<forall>y. y \<noteq> x \<longrightarrow> mem e' y = mem e2 y" "cache e' = cache e2"
    using release_cache [OF e2(2) xH] by blast
  have mi: "mem e' it = mem e2 it" using e'(5) neq by blast
  have "item_get_cas (mem e1 x) = entry_cas v"
    using e1(4,11) by (auto simp: same_seen_def value_of_def)
  then have run: "do_store_item e it cas operation = Some (ENGINE_SUCCESS, item_get_cas (mem e' it), e')"
    using e1(1) e2(1) e'(1) op xn item_get_cas_body [OF bi] by (auto simp: do_store_item_def)
  have "x \<notin> H" using e1(2) engine_coreD(7) [OF cache_invD(3) [OF p(1)]] by auto
  then have "stored_ok e e' (insert it (S - {x})) H H' it"
    using e'(3) env_frame_trans [OF e1(6) env_frame_trans [OF e2(3) e'(4)]] e2(6) mi body_fields(7) [OF bi]
    by (auto simp: stored_ok_def)
  then show ?thesis
    using run e'(2,6) e2(4,5) mi e1(7,9,12) new_entry_body [OF e1(6,7) bi] env_frameD(6) [OF e1(6)] by auto
qed

lemma store_refused_miss:
  assumes pre: "store_pre e S C H it" and k: "cache e (ikey e it) = None"
    and op: "operation \<notin> {OPERATION_SET, OPERATION_ADD}"
  shows "\<exists>e' S' H'. do_store_item e it cas operation = Some (store_code operation None c, cas, e')
    \<and> cache_inv e' S' C H' \<and> cache e' = cache e \<and> stored_ok e e' S' H H' it"
proof -
  note p = store_preD [OF pre]
  obtain e1 S1 H1 where e1: "do_item_get e (ikey e it) = Some (NULL, e1)" "cache_inv e1 S1 C H1"
    "env_frame e e1" "H \<subseteq> H1" "\<forall>y \<in> S1 \<union> H. body (mem e1 y) = body (mem e y)" "cache e1 = cache e"
    using get_miss [OF p(1) k] by blast
  have "do_store_item e it cas operation = Some (store_code operation None c, cas, e1)"
    using e1(1) op by (cases operation) (auto simp: do_store_item_def)
  moreover have "stored_ok e e1 S1 H H1 it"
    using p(2) e1(3-5) body_fields(7) [of "mem e1 it" "mem e it"] by (auto simp: stored_ok_def)
  ultimately show ?thesis using e1 by blast
qed

lemma update_cache:
  assumes inv: "cache_inv e S C H" and x: "x \<in> S" "live e (mem e x)"
  shows "\<exists>e'. do_item_update e x = Some e' \<and> cache_inv e' S C H \<and> env_frame e e' \<and> cas_id e' = cas_id e
    \<and> (\<forall>y. y \<noteq> x \<longrightarrow> body (mem e' y) = body (mem e y)) \<and> cache e' = cache e"
proof -
  obtain e' where e': "do_item_update e x = Some e'" "engine_inv e' S C H" "env_frame e e'" "cas_id e' = cas_id e"
    and b: "\<And>y. y \<noteq> x \<Longrightarrow> body (mem e' y) = body (mem e y)"
    and bx: "body (mem e' x) = body ((mem e x)\<lparr>it_time := bump_time e (mem e x)\<rparr>)"
    using do_item_update_inv [OF cache_invD(1) [OF inv], of x] x(1) by blast
  note xf = body_fields [OF bx]
  have t: "it_time (mem e x) \<le> current_time e" by (rule cache_invD(7) [OF inv x(1)])
  have "live e' (mem e' x) = live e ((mem e x)\<lparr>it_time := bump_time e (mem e x)\<rparr>)"
    using xf env_frameD(6,14) [OF e'(3)] by (simp add: live_def flushed_def)
  then have seen: "same_seen e e' x"
    using x(2) live_bump [OF x(2) t] xf
    by (simp add: same_seen_def item_get_key_def value_of_def item_get_data_def item_get_cas_def)
  have inv': "cache_inv e' S C H"
  proof (rule cache_invI [OF e'(2) inv e'(3)])
    fix y assume "y \<in> S"
    then show "sane (current_time e) (mem e' y)"
      using t xf sane_body [OF b [of y]] cache_invD(5) [OF inv, of y]
      by (cases "y = x") (auto simp: bump_time_def sane_def)
  qed
  have "same_seen e e' y" for y using seen same_seen_body [OF e'(3) b] by (cases "y = x") auto
  then have "cache e' = cache e"
    by (intro cache_eqI [OF cache_invD(4) [OF inv] cache_invD(4) [OF inv']]) auto
  then show ?thesis using e' inv' b by blast
qed

lemma store_refused_hit:
  assumes pre: "store_pre e S C H it" and k: "cache e (ikey e it) = Some v"
    and op: "operation = OPERATION_ADD \<or> operation = OPERATION_CAS \<and> item_get_cas (mem e it) \<noteq> entry_cas v
      \<or> operation \<in> {OPERATION_APPEND, OPERATION_PREPEND} \<and> item_get_cas (mem e it) \<noteq> 0
        \<and> item_get_cas (mem e it) \<noteq> entry_cas v"
  shows "\<exists>e' S' H'. do_store_item e it cas operation
      = Some (store_code operation (Some v) (item_get_cas (mem e it)), cas, e')
    \<and> cache_inv e' S' C H' \<and> cache e' = cache e \<and> stored_ok e e' S' H H' it"
proof -
  note p = store_preD [OF pre]
  obtain x e1 where e1: "do_item_get e (ikey e it) = Some (x, e1)" "x \<in> S" "ikey e x = ikey e it"
    "v = value_of (mem e x)" "cache_inv e1 S C H" "env_frame e e1" "cas_id e1 = cas_id e"
    "\<forall>y. y \<noteq> x \<longrightarrow> body (mem e1 y) = body (mem e y)" "same_seen e e1 x" "cache e1 = cache e"
    using get_hit [OF p(1) k] by blast
  have neq: "it \<noteq> x" using e1(2) p(6) by blast
  have bi: "body (mem e1 it) = body (mem e it)" using e1(8) neq by blast
  have xn: "x \<noteq> NULL" using e1(2) engine_core_disjoint(2) [OF cache_invD(3) [OF p(1)]] by metis
  have "live e (mem e x)"
    using k e1(2,3) cache_iff [OF cache_invD(4) [OF p(1)]] inj_onD [OF assoc_repD(3) [OF cache_invD(4) [OF p(1)]]]
    by metis
  then have lx: "live e1 (mem e1 x)" using e1(9) by (simp add: same_seen_def)
  obtain e2 where e2: "(if operation = OPERATION_ADD then do_item_update e1 x else Some e1) = Some e2"
    "cache_inv e2 S C H" "env_frame e1 e2" "\<forall>y. y \<noteq> x \<longrightarrow> body (mem e2 y) = body (mem e1 y)" "cache e2 = cache e1"
    using update_cache [OF e1(5,2) lx] e1(5) by (cases "operation = OPERATION_ADD") auto
  obtain e' H' where e': "do_item_release e2 x = Some e'" "cache_inv e' S C H'"
    "H - {x} \<subseteq> H'" "env_frame e2 e'" "\<forall>y. y \<noteq> x \<longrightarrow> mem e' y = mem e2 y" "cache e' = cache e2"
    using release_cache [OF e2(2), of x] e1(2) by blast
  have "item_get_cas (mem e1 x) = entry_cas v"
    using e1(4,9) by (auto simp: same_seen_def value_of_def)
  then have run: "do_store_item e it cas operation
      = Some (store_code operation (Some v) (item_get_cas (mem e it)), cas, e')"
    using e1(1) e2(1) e'(1) op xn item_get_cas_body [OF bi] by (auto simp: do_store_item_def)
  have "x \<notin> H" using e1(2) engine_coreD(7) [OF cache_invD(3) [OF p(1)]] by auto
  moreover have "it_refcount (mem e' it) = it_refcount (mem e it)"
    using e'(5) e2(4) neq bi body_fields(7) by metis
  ultimately have "stored_ok e e' S H H' it"
    using p(2) e'(3) neq env_frame_trans [OF e1(6) env_frame_trans [OF e2(3) e'(4)]]
    by (auto simp: stored_ok_def)
  then show ?thesis using run e' e2 e1 by auto
qed

text \<open>All of it together: set, add, replace and cas.\<close>

lemma do_store_item_cache:
  assumes pre: "store_pre e S C H it" and op: "operation \<notin> {OPERATION_APPEND, OPERATION_PREPEND}"
  shows "\<exists>code cas' e' S' H'. do_store_item e it cas operation = Some (code, cas', e')
    \<and> code = store_code operation (cache e (ikey e it)) (item_get_cas (mem e it))
    \<and> cache_inv e' S' C H' \<and> stored_ok e e' S' H H' it
    \<and> cache e' = (if code = ENGINE_SUCCESS then (cache e)(ikey e it := new_entry e it) else cache e)
    \<and> cas' = (if code = ENGINE_SUCCESS then (if use_cas (config e) then cas_id e + 1 else 0) else cas)"
proof (cases "cache e (ikey e it)")
  case None
  show ?thesis
  proof (cases "operation \<in> {OPERATION_SET, OPERATION_ADD}")
    case True
    then obtain e' S' H' where "do_store_item e it cas operation
        = Some (ENGINE_SUCCESS, if use_cas (config e) then cas_id e + 1 else 0, e')"
      "cache_inv e' S' C H'" "cache e' = (cache e)(ikey e it := new_entry e it)" "stored_ok e e' S' H H' it"
      using store_miss [OF pre None True, of cas] by blast
    moreover have "store_code operation None c = ENGINE_SUCCESS" for c using True by auto
    ultimately show ?thesis
      unfolding None by (intro exI [of _ e'] exI [of _ S'] exI [of _ H'] exI conjI) auto
  next
    case False
    obtain e' S' H' where "do_store_item e it cas operation
        = Some (store_code operation None (item_get_cas (mem e it)), cas, e')"
      "cache_inv e' S' C H'" "cache e' = cache e" "stored_ok e e' S' H H' it"
      using store_refused_miss [OF pre None False] by blast
    moreover have "store_code operation None c \<noteq> ENGINE_SUCCESS" for c using False by (cases operation) auto
    ultimately show ?thesis
      unfolding None by (intro exI [of _ e'] exI [of _ S'] exI [of _ H'] exI conjI) auto
  qed
next
  case (Some v)
  show ?thesis
  proof (cases "operation \<in> {OPERATION_SET, OPERATION_REPLACE}
       \<or> operation = OPERATION_CAS \<and> item_get_cas (mem e it) = entry_cas v")
    case True
    then obtain e' S' H' where "do_store_item e it cas operation
        = Some (ENGINE_SUCCESS, if use_cas (config e) then cas_id e + 1 else 0, e')"
      "cache_inv e' S' C H'" "cache e' = (cache e)(ikey e it := new_entry e it)" "stored_ok e e' S' H H' it"
      using store_hit_replace [OF pre Some True, of cas] by blast
    moreover have "store_code operation (Some v) (item_get_cas (mem e it)) = ENGINE_SUCCESS" using True by auto
    ultimately show ?thesis
      unfolding Some by (intro exI [of _ e'] exI [of _ S'] exI [of _ H'] exI conjI) auto
  next
    case False
    then have o: "operation = OPERATION_ADD \<or> operation = OPERATION_CAS \<and> item_get_cas (mem e it) \<noteq> entry_cas v"
      using op by (cases operation) auto
    then obtain e' S' H' where "do_store_item e it cas operation
        = Some (store_code operation (Some v) (item_get_cas (mem e it)), cas, e')"
      "cache_inv e' S' C H'" "cache e' = cache e" "stored_ok e e' S' H H' it"
      using store_refused_hit [OF pre Some, of operation cas] by blast
    moreover have "store_code operation (Some v) (item_get_cas (mem e it)) \<noteq> ENGINE_SUCCESS" using o by auto
    ultimately show ?thesis
      unfolding Some by (intro exI [of _ e'] exI [of _ S'] exI [of _ H'] exI conjI) auto
  qed
qed

section \<open>Allocating, as seen by clients\<close>

lemma length_ikey: "length (ikey e x) < 2 ^ 16"
proof -
  have "unat (it_nkey (mem e x)) < 2 ^ LENGTH(16)" by (rule unsigned_less)
  then show ?thesis by (simp add: item_get_key_def min_def)
qed

lemma unat_ntotal:
  "unat (ITEM_ntotal e i) = 48 + unat (it_nkey i) + unat (it_nbytes i) + (if use_cas (config e) then 8 else 0)"
proof -
  have k: "unat (it_nkey i) < 2 ^ LENGTH(16)" and b: "unat (it_nbytes i) < 2 ^ LENGTH(32)"
    by (rule unsigned_less)+
  have "unat (ucast (it_nkey i) :: u64) = unat (it_nkey i)" "unat (ucast (it_nbytes i) :: u64) = unat (it_nbytes i)"
    using k b by (simp_all add: unsigned_ucast_eq take_bit_eq_mod)
  then show ?thesis
    using k b by (simp add: ITEM_ntotal_def Let_def sizeof_hash_item_def unat_word_ariths)
qed

text \<open>The default limit on the size of an item: no chunk is larger than a megabyte.\<close>

definition small_classes :: "default_engine \<Rightarrow> bool" where
  "small_classes e \<longleftrightarrow> (\<forall>c \<in> {1..power_largest (slabs e)}. unat (sc_size (cls (slabs e) c)) \<le> 2 ^ 20)"

lemma small_classes_frame: "env_frame e e' \<Longrightarrow> small_classes e' = small_classes e"
  by (simp add: small_classes_def env_frameD)

lemma item_small:
  assumes core: "engine_core e S C H A" and x: "x \<in> S \<union> H" and small: "small_classes e"
  shows "it_nbytes (mem e x) < 1024 * 1024" "unat (it_nbytes (mem e x)) < 2 ^ 20"
proof -
  have "unat (ITEM_ntotal e (mem e x)) \<le> 2 ^ 20"
    using engine_coreD(6) [OF core x] engine_core_class(1) [OF core x] small
    unfolding small_classes_def item_ok_def by (meson order.trans)
  then show "unat (it_nbytes (mem e x)) < 2 ^ 20" by (simp add: unat_ntotal)
  then show "it_nbytes (mem e x) < 1024 * 1024" by (simp add: word_less_nat_alt)
qed

definition sound_item :: "default_engine \<Rightarrow> ptr \<Rightarrow> key \<Rightarrow> u32 \<Rightarrow> u32 \<Rightarrow> u32 \<Rightarrow> bool" where
  "sound_item e p k flags exptime nbytes \<longleftrightarrow> ikey e p = k \<and> it_flags (mem e p) = flags
     \<and> it_exptime (mem e p) = exptime \<and> it_nbytes (mem e p) = nbytes \<and> it_refcount (mem e p) = 1"

lemma alloc_cache:
  assumes inv: "cache_inv e S C H" and k: "length k < 2 ^ 16" "unat nbytes < 2 ^ 31"
  shows "\<exists>p e' S'. do_item_alloc e k flags exptime nbytes = Some (p, e') \<and> shed e e' S S' H
    \<and> cache e' \<subseteq>\<^sub>m cache e
    \<and> (p = NULL \<longrightarrow> cache_inv e' S' C H)
    \<and> (p \<noteq> NULL \<longrightarrow> cache_inv e' S' C (insert p H) \<and> p \<notin> S' \<union> H \<union> C
         \<and> sound_item e' p k flags exptime nbytes)"
proof -
  obtain p e' S' where e': "do_item_alloc e k flags exptime nbytes = Some (p, e')" "shed e e' S S' H"
    "p = NULL \<Longrightarrow> engine_inv e' S' C H"
    "p \<noteq> NULL \<Longrightarrow> engine_inv e' S' C (insert p H) \<and> p \<notin> S' \<union> H \<union> C \<and> ikey e' p = k
         \<and> it_flags (mem e' p) = flags \<and> it_exptime (mem e' p) = exptime
         \<and> it_nbytes (mem e' p) = nbytes \<and> it_refcount (mem e' p) = 1"
    using do_item_alloc_inv [OF cache_invD(1) [OF inv] k, of flags exptime] by blast
  have env: "env_frame e e'" and b: "\<And>y. y \<in> S' \<Longrightarrow> body (mem e' y) = body (mem e y)" and sub: "S' \<subseteq> S"
    using e'(2) by (auto simp: shed_def)
  have sane: "sane (current_time e) (mem e' y)" if "y \<in> S'" for y
    using sane_body [OF b [OF that]] cache_invD(5) [OF inv, of y] that sub by auto
  obtain H' where inv': "cache_inv e' S' C H'"
    and H': "H' = (if p = NULL then H else insert p H)"
    using e'(3,4) cache_invI [OF _ inv env sane] by (cases "p = NULL") auto
  have "cache e' \<subseteq>\<^sub>m cache e"
    by (rule cache_subset [OF cache_invD(4) [OF inv] cache_invD(4) [OF inv'] sub same_seen_body [OF env b]])
  then show ?thesis
    using e' inv' unfolding H' by (intro exI [of _ p] exI [of _ e'] exI [of _ S']) (auto simp: sound_item_def)
qed

section \<open>Append and prepend\<close>

lemma data_write_length: "length (it_data (data_write off bs i)) \<ge> off + length bs"
  by (simp add: data_write_def)

lemma data_write_twice:
  assumes "n = length a"
  shows "take (length a + length b) (it_data (data_write n b (data_write 0 a i))) = a @ b"
  by (simp add: data_write_def assms)

lemma data_write_fields [simp]:
  "it_next (data_write n b i) = it_next i" "it_prev (data_write n b i) = it_prev i"
  "h_next (data_write n b i) = h_next i" "it_time (data_write n b i) = it_time i"
  "it_exptime (data_write n b i) = it_exptime i" "it_nbytes (data_write n b i) = it_nbytes i"
  "it_flags (data_write n b i) = it_flags i" "it_nkey (data_write n b i) = it_nkey i"
  "it_iflag (data_write n b i) = it_iflag i" "it_refcount (data_write n b i) = it_refcount i"
  "it_clsid (data_write n b i) = it_clsid i" "it_cas (data_write n b i) = it_cas i"
  "it_key (data_write n b i) = it_key i"
  by (simp_all add: data_write_def)

lemma soft_held_cache:
  assumes inv: "cache_inv e S C H" and x: "x \<in> H"
    and f: "it_next (f (mem e x)) = it_next (mem e x)" "it_prev (f (mem e x)) = it_prev (mem e x)"
      "h_next (f (mem e x)) = h_next (mem e x)" "it_nkey (f (mem e x)) = it_nkey (mem e x)"
      "it_key (f (mem e x)) = it_key (mem e x)" "it_iflag (f (mem e x)) = it_iflag (mem e x)"
      "it_nbytes (f (mem e x)) = it_nbytes (mem e x)" "it_clsid (f (mem e x)) = it_clsid (mem e x)"
      "it_refcount (f (mem e x)) = it_refcount (mem e x)"
  shows "cache_inv (upd_item x f e) S C H" "cache (upd_item x f e) = cache e"
proof -
  note core = cache_invD(3) [OF inv]
  have x': "x \<notin> S" "x \<notin> C" using x engine_coreD(7) [OF core] engine_core_disjoint(1) [OF core] by auto
  have "engine_inv (upd_item x f e) S C H"
    by (rule engine_inv_soft [where x = x and f = f, OF cache_invD(1) [OF inv] f(1-8)])
       (use x' f(9) engine_coreD(10) [OF core x] in auto)
  moreover have m: "mem (upd_item x f e) y = mem e y" if "y \<in> S" for y
    using that x' by (auto simp: upd_item_def)
  ultimately show inv': "cache_inv (upd_item x f e) S C H"
    by (intro cache_invI [OF _ inv env_frame_simps(1)]) (use cache_invD(5) [OF inv] m in auto)
  have "same_seen e (upd_item x f e) y" if "y \<in> S" for y
    by (rule same_seen_body) (simp_all add: m [OF that])
  then show "cache (upd_item x f e) = cache e"
    by (intro cache_eqI [OF cache_invD(4) [OF inv] cache_invD(4) [OF inv']]) auto
qed

definition joined :: "ENGINE_STORE_OPERATION \<Rightarrow> byte list \<Rightarrow> byte list \<Rightarrow> byte list" where
  "joined operation old new = (if operation = OPERATION_APPEND then old @ new else new @ old)"

lemma live_new_time:
  assumes "live e i" "it_time i \<le> current_time e" "it_exptime j = it_exptime i"
  shows "live e (j\<lparr>it_time := current_time e\<rparr>)"
  using assms by (auto simp: live_def flushed_def)

lemma unat_sum_small:
  fixes a b :: u32
  assumes "unat a < 2 ^ 20" "unat b < 2 ^ 20"
  shows "unat (a + b) = unat a + unat b"
  using assms by (simp add: unat_word_ariths)

text \<open>Joining two values: the new item is held, and the item it was made from is still linked.\<close>

definition combined :: "default_engine \<Rightarrow> default_engine \<Rightarrow> ENGINE_STORE_OPERATION \<Rightarrow> ptr \<Rightarrow> ptr \<Rightarrow> ptr \<Rightarrow> bool" where
  "combined e e' operation it x q \<longleftrightarrow> ikey e' q = ikey e it \<and> it_flags (mem e' q) = it_flags (mem e x)
     \<and> it_exptime (mem e' q) = it_exptime (mem e x) \<and> it_nbytes (mem e' q) < 1024 * 1024
     \<and> it_refcount (mem e' q) = 1 \<and> unat (it_nbytes (mem e' q)) \<le> length (it_data (mem e' q))
     \<and> item_get_data (mem e' q) = joined operation (item_get_data (mem e x)) (item_get_data (mem e it))"

lemma length_item_get_data:
  "unat (it_nbytes i) \<le> length (it_data i) \<Longrightarrow> length (item_get_data i) = unat (it_nbytes i)"
  by (simp add: item_get_data_def)

lemma item_get_data_body: "body i = body j \<Longrightarrow> item_get_data i = item_get_data j"
  using body_fields(3,11) [of i j] by (simp add: item_get_data_def)

lemma combine_cache:
  assumes inv: "cache_inv e S C H" and x: "x \<in> S" "it_refcount (mem e x) \<noteq> 0"
    and young: "\<not> it_time (mem e x) + TAIL_REPAIR_TIME < current_time e"
    and it: "it \<in> H" "unat (it_nbytes (mem e it)) \<le> length (it_data (mem e it))"
    and small: "small_classes e"
  shows "\<exists>q e' S'. combine_items e operation it x = Some (q, e') \<and> env_frame e e' \<and> cas_id e' = cas_id e
    \<and> S' \<subseteq> S \<and> x \<in> S' \<and> body (mem e' x) = body (mem e x) \<and> body (mem e' it) = body (mem e it)
    \<and> cache e' \<subseteq>\<^sub>m cache e \<and> (q = NULL \<longrightarrow> cache_inv e' S' C H)
    \<and> (q \<noteq> NULL \<longrightarrow> cache_inv e' S' C (insert q H) \<and> q \<notin> S' \<union> H \<union> C \<and> combined e e' operation it x q)"
proof -
  note core = cache_invD(3) [OF inv]
  let ?old = "item_get_data (mem e x)" and ?new = "item_get_data (mem e it)"
    and ?nb = "it_nbytes (mem e it) + it_nbytes (mem e x)"
  have sx: "unat (it_nbytes (mem e x)) < 2 ^ 20" "unat (it_nbytes (mem e it)) < 2 ^ 20"
    using item_small(2) [OF core _ small] x(1) it(1) by blast+
  have sum: "unat ?nb = unat (it_nbytes (mem e it)) + unat (it_nbytes (mem e x))"
    by (rule unat_sum_small [OF sx(2,1)])
  then have nb: "unat ?nb < 2 ^ 31" using sx by simp
  have len: "length ?old = unat (it_nbytes (mem e x))" "length ?new = unat (it_nbytes (mem e it))"
    using cache_invD(5) [OF inv x(1)] it(2) by (simp_all add: sane_def length_item_get_data)
  obtain q e2 S2 where al: "do_item_alloc e (ikey e it) (it_flags (mem e x)) (it_exptime (mem e x)) ?nb
      = Some (q, e2)" and sh: "shed e e2 S S2 H"
    and c2: "cache e2 \<subseteq>\<^sub>m cache e" and null: "q = NULL \<Longrightarrow> cache_inv e2 S2 C H"
    and new: "q \<noteq> NULL \<Longrightarrow> cache_inv e2 S2 C (insert q H) \<and> q \<notin> S2 \<union> H \<union> C
         \<and> sound_item e2 q (ikey e it) (it_flags (mem e x)) (it_exptime (mem e x)) ?nb"
    using alloc_cache [OF inv length_ikey nb] by blast
  have env2: "env_frame e e2" and cas2: "cas_id e2 = cas_id e" and sub2: "S2 \<subseteq> S"
    and b2: "\<And>y. y \<in> S2 \<union> H \<Longrightarrow> body (mem e2 y) = body (mem e y)" and xS2: "x \<in> S2"
    using sh x young by (auto simp: shed_def)
  have bx2: "body (mem e2 x) = body (mem e x)" and bi2: "body (mem e2 it) = body (mem e it)"
    using b2 xS2 it(1) by blast+
  show ?thesis
  proof (cases "q = NULL")
    case True
    then have "combine_items e operation it x = Some (NULL, e2)" using al by (simp add: combine_items_def)
    then show ?thesis using True null env2 cas2 sub2 xS2 bx2 bi2 c2 by blast
  next
    case False
    have inv2: "cache_inv e2 S2 C (insert q H)" and q: "q \<notin> S2 \<union> H \<union> C"
      and sq: "ikey e2 q = ikey e it" "it_flags (mem e2 q) = it_flags (mem e x)"
        "it_exptime (mem e2 q) = it_exptime (mem e x)" "it_nbytes (mem e2 q) = ?nb" "it_refcount (mem e2 q) = 1"
      using new [OF False] by (simp_all add: sound_item_def)
    define a b n where "a = (if operation = OPERATION_APPEND then ?old else ?new)"
      and "b = (if operation = OPERATION_APPEND then ?new else ?old)" and "n = length a"
    define f where "f = (\<lambda>i. data_write n b (data_write 0 a i))"
    define e3 where "e3 = upd_item q f e2"
    have cb: "combine_items e operation it x = Some (q, e3)"
      using al False len item_get_data_body [OF bx2] item_get_data_body [OF bi2]
        body_fields(3) [OF bx2] body_fields(3) [OF bi2]
      by (simp add: combine_items_def e3_def f_def a_def b_def n_def Let_def)
    have f: "it_next (f (mem e2 q)) = it_next (mem e2 q)" "it_prev (f (mem e2 q)) = it_prev (mem e2 q)"
      "h_next (f (mem e2 q)) = h_next (mem e2 q)" "it_nkey (f (mem e2 q)) = it_nkey (mem e2 q)"
      "it_key (f (mem e2 q)) = it_key (mem e2 q)" "it_iflag (f (mem e2 q)) = it_iflag (mem e2 q)"
      "it_nbytes (f (mem e2 q)) = it_nbytes (mem e2 q)" "it_clsid (f (mem e2 q)) = it_clsid (mem e2 q)"
      "it_refcount (f (mem e2 q)) = it_refcount (mem e2 q)"
      by (simp_all add: f_def)
    note s3 = soft_held_cache [where x = q and f = f, OF inv2 insertI1 f, folded e3_def]
    have m3: "mem e3 y = (if y = q then f (mem e2 q) else mem e2 y)" for y by (simp add: e3_def upd_item_def)
    have env3: "env_frame e2 e3" "cas_id e3 = cas_id e2" by (simp_all add: e3_def) (simp add: upd_item_def)
    have nb3: "unat (it_nbytes (mem e3 q)) = length a + length b"
      using sq(4) sum len by (auto simp: m3 f_def a_def b_def)
    have "length a + length b \<le> length (it_data (mem e3 q))"
      using data_write_length [of n b "data_write 0 a (mem e2 q)"] by (simp add: m3 f_def n_def)
    moreover have "item_get_data (mem e3 q) = joined operation ?old ?new"
      using data_write_twice [OF n_def, of b "mem e2 q"] nb3
      by (simp add: item_get_data_def m3 f_def joined_def a_def b_def)
    moreover have "ikey e3 q = ikey e it" using sq(1) by (simp add: m3 item_get_key_def f_def)
    moreover have "it_nbytes (mem e3 q) < 1024 * 1024"
      using item_small(1) [OF cache_invD(3) [OF s3(1)], of q] small small_classes_frame [OF env2]
        small_classes_frame [OF env3(1)] by simp
    ultimately have "combined e e3 operation it x q"
      using sq nb3 by (simp add: combined_def m3 f_def)
    moreover have "q \<noteq> x" "q \<noteq> it" using q xS2 it(1) by auto
    ultimately show ?thesis
      using cb env_frame_trans [OF env2 env3(1)] env3(2) cas2 sub2 xS2 bx2 bi2 c2 s3 q False
      by (intro exI [of _ q] exI [of _ e3] exI [of _ S2]) (simp add: m3)
  qed
qed

lemma store_joined:
  assumes pre: "store_pre e S C H it" and k: "cache e (ikey e it) = Some (d, fl, ex, c)"
    and op: "operation \<in> {OPERATION_APPEND, OPERATION_PREPEND}"
    and cas: "item_get_cas (mem e it) = 0 \<or> item_get_cas (mem e it) = c" and small: "small_classes e"
  shows "\<exists>code cas' e' S' H' m. do_store_item e it cas operation = Some (code, cas', e')
    \<and> cache_inv e' S' C H' \<and> stored_ok e e' S' H H' it \<and> m \<subseteq>\<^sub>m cache e
    \<and> (code = ENGINE_NOT_STORED \<and> cas' = cas \<and> cache e' = m
       \<or> code = ENGINE_SUCCESS \<and> cas' = (if use_cas (config e) then cas_id e + 1 else 0)
         \<and> cache e' = m(ikey e it \<mapsto> (joined operation d (item_get_data (mem e it)), fl, ex,
             if use_cas (config e) then cas_id e + 1 else 0)))"
proof -
  note p = store_preD [OF pre]
  let ?k = "ikey e it" and ?new = "item_get_data (mem e it)"
  obtain x e1 where e1: "do_item_get e ?k = Some (x, e1)" "x \<in> S" "ikey e x = ?k"
    and v: "(d, fl, ex, c) = value_of (mem e x)" and inv1: "cache_inv e1 S C H" and env1: "env_frame e e1"
    and cas1: "cas_id e1 = cas_id e" and b1: "\<And>y. y \<noteq> x \<Longrightarrow> body (mem e1 y) = body (mem e y)"
    and keys1: "\<And>y. ikey e1 y = ikey e y"
    and ref1: "it_refcount (mem e1 x) = it_refcount (mem e x) + 1" and seen1: "same_seen e e1 x"
    and young: "\<not> it_time (mem e1 x) + TAIL_REPAIR_TIME < current_time e" and c1: "cache e1 = cache e"
    using get_hit [OF p(1) k] by blast
  note core = cache_invD(3) [OF p(1)]
  have neq: "it \<noteq> x" and xH: "x \<notin> H" using e1(2) p(6) engine_coreD(7) [OF core] by blast+
  have bi: "body (mem e1 it) = body (mem e it)" by (rule b1 [OF neq])
  have held: "it_refcount (mem e1 x) \<noteq> 0" using ref1 inc_ref_not_0 [OF p(5) [OF e1(2)]] by simp
  have xn: "x \<noteq> NULL" using e1(2) engine_core_disjoint(2) [OF core] by metis
  have x1: "item_get_data (mem e1 x) = d" "it_flags (mem e1 x) = fl" "it_exptime (mem e1 x) = ex"
    "item_get_cas (mem e1 x) = c"
    using v seen1 by (auto simp: same_seen_def value_of_def)
  have lx1: "live e1 (mem e1 x)"
    using k c1 e1(2,3) keys1 cache_iff [OF cache_invD(4) [OF inv1]] inj_onD [OF assoc_repD(3) [OF cache_invD(4) [OF inv1]]]
    by metis
  have full1: "unat (it_nbytes (mem e1 it)) \<le> length (it_data (mem e1 it))"
    using p(7) body_fields(3,11) [OF bi] by simp
  obtain q e3 S2 where cb: "combine_items e1 operation it x = Some (q, e3)" and env3: "env_frame e1 e3"
    and cas3: "cas_id e3 = cas_id e1" and sub2: "S2 \<subseteq> S" and xS2: "x \<in> S2"
    and bx3: "body (mem e3 x) = body (mem e1 x)" and bi3: "body (mem e3 it) = body (mem e1 it)"
    and c3: "cache e3 \<subseteq>\<^sub>m cache e1" and null: "q = NULL \<Longrightarrow> cache_inv e3 S2 C H"
    and new: "q \<noteq> NULL \<Longrightarrow> cache_inv e3 S2 C (insert q H) \<and> q \<notin> S2 \<union> H \<union> C \<and> combined e1 e3 operation it x q"
    using combine_cache [OF inv1 e1(2) held _ p(2) full1, of operation] young small small_classes_frame [OF env1]
      env_frameD(14) [OF env1] by auto
  note refi = trans [OF body_fields(7) [OF bi3] body_fields(7) [OF bi]]
  have run0: "do_store_item e it cas operation =
      do { (new_it, e) \<leftarrow> combine_items e1 operation it x;
           if new_it = NULL then do { e \<leftarrow> do_item_release e x; Some (ENGINE_NOT_STORED, cas, e) }
           else do { e \<leftarrow> do_item_replace e x new_it; e \<leftarrow> do_item_release e x; e \<leftarrow> do_item_release e new_it;
                     Some (ENGINE_SUCCESS, item_get_cas (mem e new_it), e) } }"
    using e1(1) op xn cas x1(4) item_get_cas_body [OF bi] by (auto simp: do_store_item_def)
  show ?thesis
  proof (cases "q = NULL")
    case True
    obtain e' H' where e': "do_item_release e3 x = Some e'" "cache_inv e' S2 C H'" "H - {x} \<subseteq> H'"
      "env_frame e3 e'" "\<forall>y. y \<noteq> x \<longrightarrow> mem e' y = mem e3 y" "cache e' = cache e3"
      using release_cache [OF null [OF True], of x] xS2 by blast
    have "stored_ok e e' S2 H H' it"
      using p(2) e'(3,5) neq xH refi env_frame_trans [OF env1 env_frame_trans [OF env3 e'(4)]]
      by (auto simp: stored_ok_def)
    then show ?thesis
      using run0 cb True e' c3 c1
      by (intro exI [of _ ENGINE_NOT_STORED] exI [of _ cas] exI [of _ e'] exI [of _ S2] exI [of _ H']
          exI [of _ "cache e3"]) simp
  next
    case False
    have inv3: "cache_inv e3 S2 C (insert q H)" and q: "q \<notin> S2 \<union> H \<union> C"
      and sq: "ikey e3 q = ?k" "it_flags (mem e3 q) = fl" "it_exptime (mem e3 q) = ex"
        "it_nbytes (mem e3 q) < 1024 * 1024" "unat (it_nbytes (mem e3 q)) \<le> length (it_data (mem e3 q))"
        "item_get_data (mem e3 q) = joined operation d ?new"
      using new [OF False] x1 keys1 item_get_data_body [OF bi] by (simp_all add: combined_def)
    have qx: "q \<noteq> x" "q \<noteq> it" using q xS2 p(2) by auto
    have k3: "ikey e3 q = ikey e3 x" using sq(1) e1(3) keys1 ikey_body [OF bx3] by simp
    have fin: "card S2 \<le> 2 ^ 30"
      using card_mono [OF assoc_repD(2) [OF cache_invD(4) [OF p(1)]] sub2] p(4) by simp
    have held3: "it_refcount (mem e3 x) \<noteq> 0" using held body_fields(7) [OF bx3] by simp
    obtain e4 where e4: "do_item_replace e3 x q = Some e4"
      "cache_inv e4 (insert q (S2 - {x})) C (insert x (insert q H) - {q})" "env_frame e3 e4"
      "cache e4 = (cache e3)(ikey e3 q := new_entry e3 q)"
      "item_get_cas (mem e4 q) = (if use_cas (config e3) then cas_id e3 + 1 else 0)"
      "\<forall>y. y \<noteq> x \<and> y \<noteq> q \<longrightarrow> body (mem e4 y) = body (mem e3 y)"
      using replace_cache [OF inv3 xS2 insertI1 k3 sq(4) fin held3 sq(5)] by auto
    have "x \<in> insert q (S2 - {x}) \<union> (insert x (insert q H) - {q})" using qx by auto
    then obtain e5 H5 where e5: "do_item_release e4 x = Some e5" "cache_inv e5 (insert q (S2 - {x})) C H5"
      "insert x (insert q H) - {q} - {x} \<subseteq> H5" "env_frame e4 e5" "\<forall>y. y \<noteq> x \<longrightarrow> mem e5 y = mem e4 y"
      "cache e5 = cache e4"
      using release_cache [OF e4(2)] by blast
    obtain e' H' where e': "do_item_release e5 q = Some e'" "cache_inv e' (insert q (S2 - {x})) C H'"
      "H5 - {q} \<subseteq> H'" "env_frame e5 e'" "\<forall>y. y \<noteq> q \<longrightarrow> mem e' y = mem e5 y" "cache e' = cache e5"
      "same_seen e5 e' q"
      using release_cache [OF e5(2), of q] by blast
    have env: "config e3 = config e" "cas_id e3 = cas_id e"
      using env_frameD(6) [OF env1] env_frameD(6) [OF env3] cas3 cas1 by simp_all
    have "live e3 ((mem e3 q)\<lparr>it_time := current_time e3\<rparr>)"
    proof (rule live_new_time)
      show "live e3 (mem e1 x)" using lx1 live_body [OF env3 refl] by blast
      show "it_time (mem e1 x) \<le> current_time e3" using cache_invD(7) [OF inv1 e1(2)] env_frameD(14) [OF env3] by simp
      show "it_exptime (mem e3 q) = it_exptime (mem e1 x)" using sq(3) x1(3) by simp
    qed
    then have ne: "new_entry e3 q = Some (joined operation d ?new, fl, ex,
        if use_cas (config e) then cas_id e + 1 else 0)"
      using sq env by (simp add: new_entry_def)
    have "mem e' it = mem e4 it" "body (mem e4 it) = body (mem e3 it)"
      using e'(5) e5(5) e4(6) qx neq by auto
    then have "it_refcount (mem e' it) = it_refcount (mem e it)" using refi body_fields(7) by metis
    then have "stored_ok e e' (insert q (S2 - {x})) H H' it"
      using e5(3) e'(3) q xH p(2) env_frame_trans [OF env1 env_frame_trans [OF env3
          env_frame_trans [OF e4(3) env_frame_trans [OF e5(4) e'(4)]]]]
      by (auto simp: stored_ok_def)
    moreover have "do_store_item e it cas operation = Some (ENGINE_SUCCESS, item_get_cas (mem e' q), e')"
      unfolding run0 using cb False e4(1) e5(1) e'(1) by simp
    moreover have "item_get_cas (mem e' q) = (if use_cas (config e) then cas_id e + 1 else 0)"
      using e'(7) e5(5) qx e4(5) env by (simp add: same_seen_def value_of_def)
    ultimately show ?thesis
      using e'(2,6) e5(6) e4(4) sq(1) ne c3 c1
      by (intro exI [of _ ENGINE_SUCCESS] exI [of _ "item_get_cas (mem e' q)"] exI [of _ e']
          exI [of _ "insert q (S2 - {x})"] exI [of _ H'] exI [of _ "cache e3"]) simp
  qed
qed

end
