(* ===== verification/Cache_Ops.thy ===== *)
theory Cache_Ops
  imports Cache
begin

unbundle bit_operations_syntax

text \<open>
  Deletion, touching and arithmetic as operations on the cache: each changes the map from keys to
  values in exactly the way the command promises and keeps the invariant of the engine.
\<close>

section \<open>Deleting, touching, counting\<close>

lemma cache_removeI:
  assumes rep: "assoc_rep e S" "assoc_rep e' (S - {x})" and x: "x \<in> S"
    and same: "\<And>y. y \<in> S - {x} \<Longrightarrow> same_seen e e' y"
  shows "cache e' = (cache e)(ikey e x := None)"
proof
  fix k
  have neq: "ikey e y \<noteq> ikey e x" if "y \<in> S - {x}" for y
    using that x inj_onD [OF assoc_repD(3) [OF rep(1)], of y x] by auto
  have "cache e' k = Some v \<longleftrightarrow> ((cache e)(ikey e x := None)) k = Some v" for v
  proof (cases "k = ikey e x")
    case True
    then show ?thesis unfolding cache_iff [OF rep(2)] using neq same by (auto simp: same_seen_def)
  next
    case False
    then show ?thesis
      unfolding fun_upd_other [OF False] cache_iff [OF rep(2)] cache_iff [OF rep(1)]
      using same x by (auto simp: same_seen_def)
  qed
  then show "cache e' k = ((cache e)(ikey e x := None)) k" by (metis not_Some_eq)
qed

lemma unlink_cache:
  assumes inv: "cache_inv e S C H" and x: "x \<in> S"
  shows "\<exists>e'. do_item_unlink e x = Some e'
    \<and> cache_inv e' (S - {x}) C (if it_refcount (mem e x) = 0 then H else insert x H)
    \<and> env_frame e e' \<and> cas_id e' = cas_id e \<and> (\<forall>y. y \<noteq> x \<longrightarrow> body (mem e' y) = body (mem e y))
    \<and> (it_refcount (mem e x) \<noteq> 0 \<longrightarrow> it_refcount (mem e' x) = it_refcount (mem e x))
    \<and> cache e' = (cache e)(ikey e x := None)"
proof -
  obtain e' where e': "do_item_unlink e x = Some e'"
    "engine_inv e' (S - {x}) C (if it_refcount (mem e x) = 0 then H else insert x H)"
    "env_frame e e'" "cas_id e' = cas_id e"
    and b: "\<And>y. y \<noteq> x \<Longrightarrow> body (mem e' y) = body (mem e y)"
    and bx: "it_refcount (mem e x) \<noteq> 0 \<Longrightarrow>
         body (mem e' x) = body ((mem e x)\<lparr>it_iflag := it_iflag (mem e x) AND NOT ITEM_LINKED\<rparr>)"
    using do_item_unlink_inv [OF cache_invD(1) [OF inv] x] by blast
  have inv': "cache_inv e' (S - {x}) C (if it_refcount (mem e x) = 0 then H else insert x H)"
  proof (rule cache_invI [OF e'(2) inv e'(3)])
    show "sane (current_time e) (mem e' y)" if "y \<in> S - {x}" for y
      using sane_body [OF b [of y]] cache_invD(5) [OF inv, of y] that by auto
  qed
  have "cache e' = (cache e)(ikey e x := None)"
    by (rule cache_removeI [OF cache_invD(4) [OF inv] cache_invD(4) [OF inv'] x])
       (use b same_seen_body [OF e'(3)] in auto)
  then show ?thesis using e' inv' b body_fields(7) [OF bx] by auto
qed

text \<open>Touching changes the expiry time of a live item.\<close>

lemma soft_linked_cache:
  assumes inv: "cache_inv e S C H" and x: "x \<in> S"
    and f: "it_next (f (mem e x)) = it_next (mem e x)" "it_prev (f (mem e x)) = it_prev (mem e x)"
      "h_next (f (mem e x)) = h_next (mem e x)" "it_nkey (f (mem e x)) = it_nkey (mem e x)"
      "it_key (f (mem e x)) = it_key (mem e x)" "it_iflag (f (mem e x)) = it_iflag (mem e x)"
      "it_nbytes (f (mem e x)) = it_nbytes (mem e x)" "it_clsid (f (mem e x)) = it_clsid (mem e x)"
    and time: "it_time (f (mem e x)) = it_time (mem e x)"
    and data: "length (it_data (mem e x)) \<le> length (it_data (f (mem e x)))"
  shows "cache_inv (upd_item x f e) S C H"
    "cache (upd_item x f e) = (cache e)(ikey e x :=
       if live e (f (mem e x)) then Some (value_of (f (mem e x))) else None)"
proof -
  note core = cache_invD(3) [OF inv]
  have x': "x \<notin> H" "x \<notin> C" using x engine_coreD(7) [OF core] engine_core_disjoint(1) [OF core] by auto
  let ?e = "upd_item x f e"
  have m: "mem ?e y = (if y = x then f (mem e x) else mem e y)" for y by (simp add: upd_item_def)
  have "engine_inv ?e S C H"
    by (rule engine_inv_soft [where x = x and f = f, OF cache_invD(1) [OF inv] f]) (use x' in auto)
  then show inv': "cache_inv ?e S C H"
  proof (rule cache_invI [OF _ inv env_frame_simps(1)])
    show "sane (current_time e) (mem ?e y)" if "y \<in> S" for y
      using cache_invD(5) [OF inv that] cache_invD(5) [OF inv x] time data f(7) by (auto simp: m sane_def)
  qed
  have S: "insert x (S - {x}) = S" using x by auto
  have l: "live ?e = live e" by (rule ext) (simp add: live_def flushed_def current_time_def upd_item_def)
  have "ikey ?e x = ikey e x" using f(4,5) by (simp add: m item_get_key_def)
  moreover have "cache ?e = (cache e)(ikey ?e x := if live ?e (mem ?e x) then Some (value_of (mem ?e x)) else None)"
  proof (rule cache_insertI [OF cache_invD(4) [OF inv], where S' = "S - {x}"])
    show "assoc_rep ?e (insert x (S - {x}))" using cache_invD(4) [OF inv'] S by simp
    show "same_seen e ?e y" if "y \<in> S - {x}" for y
      using that by (intro same_seen_body) (simp_all add: m)
  qed (use x \<open>ikey ?e x = ikey e x\<close> in auto)
  ultimately show "cache ?e = (cache e)(ikey e x :=
       if live e (f (mem e x)) then Some (value_of (f (mem e x))) else None)"
    by (simp add: m l)
qed

definition expired :: "default_engine \<Rightarrow> u32 \<Rightarrow> bool" where
  "expired e x \<longleftrightarrow> x \<noteq> 0 \<and> x \<le> current_time e"

lemma live_expired: "live e i \<longleftrightarrow> \<not> flushed e i \<and> \<not> expired e (it_exptime i)"
  by (simp add: live_def expired_def)

lemma touch_cache:
  assumes inv: "cache_inv e S C H" and k: "cache e k = Some (d, fl, ex, c)"
  shows "\<exists>x e'. do_touch_item e k exptime = Some (x, e') \<and> x \<noteq> NULL \<and> x \<in> S \<and> cache_inv e' S C H
    \<and> env_frame e e' \<and> ikey e' x = k \<and> value_of (mem e' x) = (d, fl, exptime, c)
    \<and> cache e' = (cache e)(k := if expired e exptime then None else Some (d, fl, exptime, c))"
proof -
  obtain x e1 where e1: "do_item_get e k = Some (x, e1)" "x \<in> S" "ikey e x = k"
    "(d, fl, ex, c) = value_of (mem e x)" "cache_inv e1 S C H" "env_frame e e1"
    "\<forall>y. ikey e1 y = ikey e y" "same_seen e e1 x" "cache e1 = cache e"
    using get_hit [OF inv k] by blast
  have k1: "ikey e1 x = k" and v1: "value_of (mem e1 x) = (d, fl, ex, c)"
    using e1(3,4,7,8) by (simp_all add: same_seen_def)
  have lx: "live e1 (mem e1 x)"
    using k e1(2,9) k1 cache_iff [OF cache_invD(4) [OF e1(5)]] inj_onD [OF assoc_repD(3) [OF cache_invD(4) [OF e1(5)]]]
    by metis
  have xn: "x \<noteq> NULL" using e1(2) engine_core_disjoint(2) [OF cache_invD(3) [OF inv]] by metis
  define f where "f = (\<lambda>i :: hash_item. i\<lparr>it_exptime := exptime\<rparr>)"
  let ?e = "upd_item x f e1"
  have soft: "cache_inv ?e S C H" "cache ?e = (cache e1)(ikey e1 x :=
       if live e1 (f (mem e1 x)) then Some (value_of (f (mem e1 x))) else None)"
    by (rule soft_linked_cache [OF e1(5,2)]; simp add: f_def)+
  have val: "value_of (f (mem e1 x)) = (d, fl, exptime, c)"
    using v1 by (auto simp: f_def value_of_def item_get_data_def item_get_cas_def split: if_splits)
  have "live e1 (f (mem e1 x)) \<longleftrightarrow> \<not> expired e exptime"
    using lx env_frameD(14) [OF e1(6)] by (simp add: live_expired f_def flushed_def expired_def)
  then have "cache ?e = (cache e)(k := if expired e exptime then None else Some (d, fl, exptime, c))"
    using soft(2) val k1 e1(9) by simp
  moreover have "do_touch_item e k exptime = Some (x, ?e)"
    using e1(1) xn by (simp add: do_touch_item_def f_def)
  moreover have "ikey ?e x = k" using k1 by (simp add: upd_item_def f_def item_get_key_def)
  moreover have "env_frame e ?e" by (rule env_frame_trans [OF e1(6)]) simp
  moreover have "value_of (mem ?e x) = (d, fl, exptime, c)" using val by (simp add: upd_item_def)
  ultimately show ?thesis using xn e1(2) soft(1) by blast
qed

text \<open>The invariant does not look at the statistics, the CAS counter, the clock, the flush time or the vbuckets.\<close>

definition same_store :: "default_engine \<Rightarrow> default_engine \<Rightarrow> bool" where
  "same_store e e' \<longleftrightarrow> mem e' = mem e \<and> assoc e' = assoc e \<and> items e' = items e \<and> slabs e' = slabs e
     \<and> os e' = os e \<and> srv_hash (srv e') = srv_hash (srv e) \<and> use_cas (config e') = use_cas (config e)"

lemma engine_inv_aux:
  assumes inv: "engine_inv e S C H" and s: "same_store e e'"
  shows "engine_inv e' S C H"
proof -
  note core = engine_invD [OF inv]
  have eq: "mem e' = mem e" "assoc e' = assoc e" "items e' = items e" "slabs e' = slabs e" "os e' = os e"
    "srv_hash (srv e') = srv_hash (srv e)" "use_cas (config e') = use_cas (config e)"
    using s by (auto simp: same_store_def)
  have "assoc_rep e' S" by (rule assoc_rep_cong [OF engine_coreD(1) [OF core]]) (simp_all add: eq)
  moreover have "lru_rep e' (S \<union> C)" by (rule lru_rep_cong [OF engine_coreD(3) [OF core]]) (simp_all add: eq)
  moreover have "slab_rep e' (class_map e (S \<union> H)) C"
    by (rule slab_rep_cong [OF engine_coreD(4) [OF core]]) (simp_all add: eq)
  ultimately have "engine_core e' S C H (class_map e (S \<union> H))"
    using core by (simp add: engine_core_def item_ok_def ITEM_ntotal_def eq)
  moreover have "class_map e' = class_map e" by (intro ext) (simp add: class_map_def eq)
  ultimately show ?thesis by (simp add: engine_inv_def)
qed

lemma cache_inv_aux:
  assumes "cache_inv e S C H" "same_store e e'" "current_time e \<le> current_time e'"
    "current_time e' < - TAIL_REPAIR_TIME"
  shows "cache_inv e' S C H"
  using assms engine_inv_aux [OF cache_invD(1) [OF assms(1)] assms(2)]
  by (auto simp: cache_inv_def clock_ok_def sane_def same_store_def)

lemma cas_id_cache:
  assumes inv: "cache_inv e S C H"
  shows "cache_inv (e\<lparr>cas_id := n\<rparr>) S C H" "cache (e\<lparr>cas_id := n\<rparr>) = cache e"
proof -
  show inv': "cache_inv (e\<lparr>cas_id := n\<rparr>) S C H"
    by (rule cache_inv_aux [OF inv]) (use cache_invD(6) [OF inv] in \<open>simp_all add: same_store_def current_time_def\<close>)
  show "cache (e\<lparr>cas_id := n\<rparr>) = cache e"
    by (rule cache_eqI [OF cache_invD(4) [OF inv] cache_invD(4) [OF inv']]) (auto intro: same_seen_body)
qed

section \<open>Arithmetic\<close>

definition counted :: "bool \<Rightarrow> u64 \<Rightarrow> u64 \<Rightarrow> u64" where
  "counted incr delta v = (if incr then v + delta else if delta > v then 0 else v - delta)"

text \<open>The decimal digits of a number, with the spaces that an in-place update leaves behind them.\<close>

definition padded :: "u64 \<Rightarrow> nat \<Rightarrow> byte list" where
  "padded v n = print_decimal (unat v) @ replicate n 32"

lemma take_data_write_pad:
  assumes "length bs \<le> n" "n = unat (it_nbytes i)"
  shows "item_get_data (data_write (length bs) (replicate (n - length bs) 32) (data_write 0 bs i))
    = bs @ replicate (n - length bs) 32"
  using assms by (simp add: item_get_data_def data_write_def)

text \<open>Writing the new number into an item that nobody else holds.\<close>

lemma count_in_place:
  assumes inv: "cache_inv e S C H" and x: "x \<in> S" "live e (mem e x)"
    and bs: "bs = print_decimal (unat v)" "length bs \<le> unat (it_nbytes (mem e x))"
    and e1: "e1 = upd_item x (\<lambda>i. data_write (length bs)
               (replicate (unat (it_nbytes i) - length bs) 32) (data_write 0 bs i)) e"
    and e': "e' = upd_item x (item_set_cas (cas_id e + 1)) (e1\<lparr>cas_id := cas_id e + 1\<rparr>)"
  shows "cache_inv e' S C H" "it_refcount (mem e' x) = it_refcount (mem e x)" "env_frame e e'"
    "item_get_cas (mem e' x) = (if use_cas (config e) then cas_id e + 1 else 0)"
    "cache e' = (cache e)(ikey e x \<mapsto> (padded v (unat (it_nbytes (mem e x)) - length bs),
       it_flags (mem e x), it_exptime (mem e x), if use_cas (config e) then cas_id e + 1 else 0))"
proof -
  define f where "f = (\<lambda>i. data_write (length bs) (replicate (unat (it_nbytes i) - length bs) 32) (data_write 0 bs i))"
  define g where "g = item_set_cas (cas_id e + 1)"
  define e2 where "e2 = e1\<lparr>cas_id := cas_id e + 1\<rparr>"
  have e1': "e1 = upd_item x f e" and e2': "e' = upd_item x g e2"
    by (simp_all add: e1 e' f_def g_def e2_def)
  have s1: "cache_inv e1 S C H" "cache e1 = (cache e)(ikey e x :=
       if live e (f (mem e x)) then Some (value_of (f (mem e x))) else None)"
    unfolding e1' by (rule soft_linked_cache [OF inv x(1)]; simp add: f_def data_write_def)+
  have s2: "cache_inv e2 S C H" "cache e2 = cache e1" unfolding e2_def using cas_id_cache [OF s1(1)] by simp_all
  have g: "it_next (g i) = it_next i" "it_prev (g i) = it_prev i" "h_next (g i) = h_next i" "it_nkey (g i) = it_nkey i"
    "it_key (g i) = it_key i" "it_iflag (g i) = it_iflag i" "it_nbytes (g i) = it_nbytes i" "it_clsid (g i) = it_clsid i"
    "it_time (g i) = it_time i" "it_data (g i) = it_data i" "it_refcount (g i) = it_refcount i"
    "it_flags (g i) = it_flags i" "it_exptime (g i) = it_exptime i" for i
    by (simp_all add: g_def item_set_cas_def)
  have s3: "cache_inv e' S C H" "cache e' = (cache e2)(ikey e2 x :=
       if live e2 (g (mem e2 x)) then Some (value_of (g (mem e2 x))) else None)"
    unfolding e2' by (rule soft_linked_cache [OF s2(1) x(1)]; simp add: g)+
  have m2: "mem e2 x = f (mem e x)" by (simp add: e2_def e1' upd_item_def)
  have m': "mem e' x = g (f (mem e x))" by (simp add: e2' m2 upd_item_def)
  have f: "it_iflag (f (mem e x)) = it_iflag (mem e x)" "it_refcount (f (mem e x)) = it_refcount (mem e x)"
    "it_time (f (mem e x)) = it_time (mem e x)" "it_exptime (f (mem e x)) = it_exptime (mem e x)"
    "it_flags (f (mem e x)) = it_flags (mem e x)"
    by (simp_all add: f_def)
  have cas: "item_get_cas (g (f (mem e x))) = (if use_cas (config e) then cas_id e + 1 else 0)"
    using engine_coreD(6) [OF cache_invD(3) [OF inv], of x] x(1) f(1)
    by (auto simp: g_def item_set_cas_def item_get_cas_def item_ok_def)
  have data: "item_get_data (g (f (mem e x))) = padded v (unat (it_nbytes (mem e x)) - length bs)"
    using take_data_write_pad [OF bs(2) refl] by (simp add: item_get_data_def g) (simp add: f_def padded_def bs(1))
  have "live e2 (g (f (mem e x)))"
    using x(2) f g by (simp add: e2_def e1' live_def flushed_def current_time_def upd_item_def)
  moreover have "ikey e2 x = ikey e x" by (simp add: m2 f_def item_get_key_def)
  ultimately show "cache e' = (cache e)(ikey e x \<mapsto> (padded v (unat (it_nbytes (mem e x)) - length bs),
       it_flags (mem e x), it_exptime (mem e x), if use_cas (config e) then cas_id e + 1 else 0))"
    using s3(2) s2(2) s1(2) m2 cas data f g by (simp add: value_of_def)
  show "cache_inv e' S C H" by (rule s3(1))
  show "env_frame e e'" by (simp add: e2' e2_def e1' env_frame_def upd_item_def)
  show "it_refcount (mem e' x) = it_refcount (mem e x)"
    "item_get_cas (mem e' x) = (if use_cas (config e) then cas_id e + 1 else 0)"
    using cas by (simp_all add: m' f g)
qed

text \<open>A number stored under the key of a held item of the cache: a new item takes its place.\<close>

definition new_cas :: "default_engine \<Rightarrow> u64" where
  "new_cas e = (if use_cas (config e) then cas_id e + 1 else 0)"

lemma count_by_replacing:
  assumes inv: "cache_inv e S C H" and x: "x \<in> S" "live e (mem e x)" "it_refcount (mem e x) \<noteq> 0"
    and young: "\<not> it_time (mem e x) + TAIL_REPAIR_TIME < current_time e" and card: "card S < 2 ^ 30"
    and bs: "bs = print_decimal (unat (v :: u64))"
    and run: "r = do {
                   (new_it, e) \<leftarrow> do_item_alloc e (item_get_key (mem e x)) (it_flags (mem e x))
                                   (it_exptime (mem e x)) (of_nat (length bs));
                   if new_it = NULL then
                     do { e \<leftarrow> do_item_unlink e x; Some (ENGINE_ENOMEM, rcas, v, e) }
                   else
                     do {
                       let e = upd_item new_it (data_write 0 bs) e;
                       e \<leftarrow> do_item_replace e x new_it;
                       let c = item_get_cas (mem e new_it);
                       e \<leftarrow> do_item_release e new_it;
                       Some (ENGINE_SUCCESS, c, v, e)
                     }
                 }"
  shows "\<exists>code cas' e' S' H' m. r = Some (code, cas', v, e') \<and> cache_inv e' S' C H' \<and> env_frame e e'
    \<and> x \<in> H' \<and> H \<subseteq> H' \<and> m \<subseteq>\<^sub>m cache e
    \<and> (code = ENGINE_ENOMEM \<and> cas' = rcas \<and> cache e' = m(ikey e x := None)
       \<or> code = ENGINE_SUCCESS \<and> cas' = new_cas e
         \<and> cache e' = m(ikey e x \<mapsto> (padded v 0, it_flags (mem e x), it_exptime (mem e x), new_cas e)))"
proof -
  note core = cache_invD(3) [OF inv]
  have xH: "x \<notin> H" using x(1) engine_coreD(7) [OF core] by blast
  have len: "length bs \<le> 20" unfolding bs by (rule length_print_u64)
  then have nb: "unat (of_nat (length bs) :: u32) = length bs" by (simp add: unat_of_nat)
  then have nb': "unat (of_nat (length bs) :: u32) < 2 ^ 31" using len by simp
  obtain q e2 S2 where al: "do_item_alloc e (ikey e x) (it_flags (mem e x)) (it_exptime (mem e x)) (of_nat (length bs))
      = Some (q, e2)" and sh: "shed e e2 S S2 H"
    and c2: "cache e2 \<subseteq>\<^sub>m cache e" and null: "q = NULL \<Longrightarrow> cache_inv e2 S2 C H"
    and new: "q \<noteq> NULL \<Longrightarrow> cache_inv e2 S2 C (insert q H) \<and> q \<notin> S2 \<union> H \<union> C
         \<and> sound_item e2 q (ikey e x) (it_flags (mem e x)) (it_exptime (mem e x)) (of_nat (length bs))"
    using alloc_cache [OF inv length_ikey nb'] by blast
  have env2: "env_frame e e2" and cas2: "cas_id e2 = cas_id e" and sub2: "S2 \<subseteq> S" and xS2: "x \<in> S2"
    and bx2: "body (mem e2 x) = body (mem e x)"
    using sh x young by (auto simp: shed_def)
  have kx2: "ikey e2 x = ikey e x" and rx2: "it_refcount (mem e2 x) \<noteq> 0"
    using ikey_body [OF bx2] body_fields(7) [OF bx2] x(3) by simp_all
  show ?thesis
  proof (cases "q = NULL")
    case True
    obtain e' where e': "do_item_unlink e2 x = Some e'" "cache_inv e' (S2 - {x}) C (insert x H)"
      "env_frame e2 e'" "cache e' = (cache e2)(ikey e2 x := None)"
      using unlink_cache [OF null [OF True] xS2] rx2 by auto
    then have "r = Some (ENGINE_ENOMEM, rcas, v, e')" using run al True by simp
    then show ?thesis using e' c2 kx2 env_frame_trans [OF env2 e'(3)]
      by (intro exI [of _ ENGINE_ENOMEM] exI [of _ rcas] exI [of _ e'] exI [of _ "S2 - {x}"]
          exI [of _ "insert x H"] exI [of _ "cache e2"]) auto
  next
    case False
    have inv2: "cache_inv e2 S2 C (insert q H)" and q: "q \<notin> S2 \<union> H \<union> C"
      and sq: "ikey e2 q = ikey e x" "it_flags (mem e2 q) = it_flags (mem e x)"
        "it_exptime (mem e2 q) = it_exptime (mem e x)" "it_nbytes (mem e2 q) = of_nat (length bs)"
        "it_refcount (mem e2 q) = 1"
      using new [OF False] by (simp_all add: sound_item_def)
    have qx: "q \<noteq> x" using q xS2 by auto
    define e3 where "e3 = upd_item q (data_write 0 bs) e2"
    have s3: "cache_inv e3 S2 C (insert q H)" "cache e3 = cache e2"
      unfolding e3_def by (rule soft_held_cache [OF inv2 insertI1]; simp)+
    have m3: "mem e3 y = (if y = q then data_write 0 bs (mem e2 q) else mem e2 y)" for y
      by (simp add: e3_def upd_item_def)
    have env3: "env_frame e2 e3" "cas_id e3 = cas_id e2" by (simp_all add: e3_def) (simp add: upd_item_def)
    have nq: "unat (it_nbytes (mem e3 q)) = length bs" using sq(4) nb by (simp add: m3)
    then have small: "it_nbytes (mem e3 q) < 1024 * 1024" using len by (simp add: word_less_nat_alt)
    have full: "unat (it_nbytes (mem e3 q)) \<le> length (it_data (mem e3 q))"
      using nq data_write_length [of 0 bs "mem e2 q"] by (simp add: m3)
    have dq: "item_get_data (mem e3 q) = padded v 0"
      using nq by (simp add: item_get_data_def m3 data_write_def padded_def bs)
    have k3: "ikey e3 q = ikey e3 x" "ikey e3 q = ikey e x"
      using sq(1) kx2 qx by (simp_all add: m3 item_get_key_def)
    have fin: "card S2 \<le> 2 ^ 30"
      using card_mono [OF assoc_repD(2) [OF cache_invD(4) [OF inv]] sub2] card by simp
    have rx3: "it_refcount (mem e3 x) \<noteq> 0" using rx2 qx by (simp add: m3)
    obtain e4 where e4: "do_item_replace e3 x q = Some e4"
      "cache_inv e4 (insert q (S2 - {x})) C (insert x (insert q H) - {q})" "env_frame e3 e4"
      "cache e4 = (cache e3)(ikey e3 q := new_entry e3 q)"
      "item_get_cas (mem e4 q) = (if use_cas (config e3) then cas_id e3 + 1 else 0)"
      using replace_cache [OF s3(1) xS2 insertI1 k3(1) small fin rx3 full] by auto
    obtain e' H' where e': "do_item_release e4 q = Some e'" "cache_inv e' (insert q (S2 - {x})) C H'"
      "insert x (insert q H) - {q} - {q} \<subseteq> H'" "env_frame e4 e'" "cache e' = cache e4"
      using release_cache [OF e4(2), of q] by blast
    have env: "env_frame e e3" by (rule env_frame_trans [OF env2 env3(1)])
    have c: "(if use_cas (config e3) then cas_id e3 + 1 else 0) = new_cas e"
      using env_frameD(6) [OF env] cas2 env3(2) by (simp add: new_cas_def)
    have "live e3 ((mem e3 q)\<lparr>it_time := current_time e3\<rparr>)"
    proof (rule live_new_time)
      show "live e3 (mem e x)" using x(2) live_body [OF env refl] by blast
      show "it_time (mem e x) \<le> current_time e3" using cache_invD(7) [OF inv x(1)] env_frameD(14) [OF env] by simp
      show "it_exptime (mem e3 q) = it_exptime (mem e x)" using sq(3) by (simp add: m3)
    qed
    then have "new_entry e3 q = Some (padded v 0, it_flags (mem e x), it_exptime (mem e x), new_cas e)"
      using dq sq(2,3) c by (simp add: new_entry_def m3)
    moreover have "r = Some (ENGINE_SUCCESS, item_get_cas (mem e4 q), v, e')"
      using run al False e4(1) e'(1) by (simp add: e3_def)
    moreover have "x \<in> H'" "H \<subseteq> H'" using e'(3) qx q by auto
    ultimately show ?thesis
      using e' e4(4,5) c s3(2) k3(2) c2 env_frame_trans [OF env env_frame_trans [OF e4(3) e'(4)]]
      by (intro exI [of _ ENGINE_SUCCESS] exI [of _ "new_cas e"] exI [of _ e'] exI [of _ "insert q (S2 - {x})"]
          exI [of _ H'] exI [of _ "cache e2"]) simp
  qed
qed

text \<open>The number that the bytes of a value denote, when the arithmetic operations accept them.\<close>

definition number :: "byte list \<Rightarrow> u64 option" where
  "number d = (if length d < 79 \<and> fst (safe_strtoull (c_string d)) then Some (snd (safe_strtoull (c_string d))) else None)"

definition counted_ok ::
    "(key \<rightharpoonup> entry) \<Rightarrow> (key \<rightharpoonup> entry) \<Rightarrow> key \<Rightarrow> u32 \<Rightarrow> u32 \<Rightarrow> u64 \<Rightarrow> u64 \<Rightarrow> u64 \<Rightarrow> ENGINE_ERROR_CODE \<Rightarrow> u64 \<Rightarrow> bool" where
  "counted_ok m m' k fl ex v ncas cas code cas' \<longleftrightarrow>
     (\<exists>m0. m0 \<subseteq>\<^sub>m m \<and>
        (code = ENGINE_ENOMEM \<and> cas' = cas \<and> m' = m0(k := None)
         \<or> code = ENGINE_SUCCESS \<and> cas' = ncas \<and> (\<exists>n. m' = m0(k \<mapsto> (padded v n, fl, ex, ncas)))))"

lemma add_delta_bad:
  assumes "unat (it_nbytes (mem e x)) \<le> length (it_data (mem e x))" "number (item_get_data (mem e x)) = None"
  shows "do_add_delta e x incr delta rcas result = Some (ENGINE_EINVAL, rcas, result, e)"
  using assms length_item_get_data [OF assms(1)]
  by (auto simp: number_def do_add_delta_def split: if_splits prod.splits)

lemma add_delta_cache:
  assumes inv: "cache_inv e S C H" and x: "x \<in> S" "live e (mem e x)" "it_refcount (mem e x) \<noteq> 0"
    and young: "\<not> it_time (mem e x) + TAIL_REPAIR_TIME < current_time e" and card: "card S < 2 ^ 30"
    and n: "number (item_get_data (mem e x)) = Some v"
  shows "\<exists>code cas' e' S' H'. do_add_delta e x incr delta rcas result = Some (code, cas', counted incr delta v, e')
    \<and> cache_inv e' S' C H' \<and> env_frame e e' \<and> x \<in> S' \<union> H' \<and> H \<subseteq> H' \<and> x \<notin> H
    \<and> counted_ok (cache e) (cache e') (ikey e x) (it_flags (mem e x)) (it_exptime (mem e x)) (counted incr delta v)
        (new_cas e) rcas code cas'"
proof -
  let ?v = "counted incr delta v" and ?d = "item_get_data (mem e x)"
  define bs where "bs = print_decimal (unat ?v)"
  have xH: "x \<notin> H" using x(1) engine_coreD(7) [OF cache_invD(3) [OF inv]] by blast
  have "length ?d = unat (it_nbytes (mem e x))"
    using length_item_get_data cache_invD(5) [OF inv x(1)] by (simp add: sane_def)
  then have nb: "\<not> unat (it_nbytes (mem e x)) \<ge> 80 - 1" and st: "safe_strtoull (c_string ?d) = (True, v)"
    using n by (auto simp: number_def prod_eq_iff split: if_splits)
  have run: "do_add_delta e x incr delta rcas result =
      (if it_refcount (mem e x) = 1 \<and> length bs \<le> unat (it_nbytes (mem e x)) then
         (let e1 = upd_item x (\<lambda>i. data_write (length bs)
                     (replicate (unat (it_nbytes i) - length bs) 32) (data_write 0 bs i)) e;
              e' = upd_item x (item_set_cas (cas_id e + 1)) (e1\<lparr>cas_id := cas_id e + 1\<rparr>)
          in Some (ENGINE_SUCCESS, item_get_cas (mem e' x), ?v, e'))
       else do {
                   (new_it, e) \<leftarrow> do_item_alloc e (item_get_key (mem e x)) (it_flags (mem e x))
                                   (it_exptime (mem e x)) (of_nat (length bs));
                   if new_it = NULL then
                     do { e \<leftarrow> do_item_unlink e x; Some (ENGINE_ENOMEM, rcas, ?v, e) }
                   else
                     do {
                       let e = upd_item new_it (data_write 0 bs) e;
                       e \<leftarrow> do_item_replace e x new_it;
                       let c = item_get_cas (mem e new_it);
                       e \<leftarrow> do_item_release e new_it;
                       Some (ENGINE_SUCCESS, c, ?v, e)
                     }
                 })"
    unfolding do_add_delta_def if_not_P [OF nb] st get_cas_id_def Let_def prod.case counted_def [symmetric] bs_def [symmetric]
    by (simp add: upd_item_def)
  show ?thesis
  proof (cases "it_refcount (mem e x) = 1 \<and> length bs \<le> unat (it_nbytes (mem e x))")
    case True
    define e1 where "e1 = upd_item x (\<lambda>i. data_write (length bs)
                     (replicate (unat (it_nbytes i) - length bs) 32) (data_write 0 bs i)) e"
    define e' where "e' = upd_item x (item_set_cas (cas_id e + 1)) (e1\<lparr>cas_id := cas_id e + 1\<rparr>)"
    note pl = count_in_place [OF inv x(1,2) bs_def conjunct2 [OF True] e1_def e'_def]
    have "do_add_delta e x incr delta rcas result = Some (ENGINE_SUCCESS, item_get_cas (mem e' x), ?v, e')"
      using True run by (simp add: Let_def e1_def e'_def)
    moreover have "counted_ok (cache e) (cache e') (ikey e x) (it_flags (mem e x)) (it_exptime (mem e x)) ?v
        (new_cas e) rcas ENGINE_SUCCESS (item_get_cas (mem e' x))"
      unfolding counted_ok_def
      by (rule exI [of _ "cache e"]) (use pl(4,5) in \<open>auto simp: new_cas_def\<close>)
    ultimately show ?thesis using pl(1,3) x(1) xH by blast
  next
    case False
    obtain code cas' e' S' H' m where r: "do_add_delta e x incr delta rcas result = Some (code, cas', ?v, e')"
      and o: "cache_inv e' S' C H'" "env_frame e e'" "x \<in> H'" "H \<subseteq> H'" "m \<subseteq>\<^sub>m cache e"
      and c: "code = ENGINE_ENOMEM \<and> cas' = rcas \<and> cache e' = m(ikey e x := None)
       \<or> code = ENGINE_SUCCESS \<and> cas' = new_cas e
         \<and> cache e' = m(ikey e x \<mapsto> (padded ?v 0, it_flags (mem e x), it_exptime (mem e x), new_cas e))"
      using count_by_replacing [OF inv x young card bs_def, of "do_add_delta e x incr delta rcas result" rcas]
      unfolding run if_not_P [OF False] by blast
    have "counted_ok (cache e) (cache e') (ikey e x) (it_flags (mem e x)) (it_exptime (mem e x)) ?v
        (new_cas e) rcas code cas'"
      unfolding counted_ok_def using o(5) c by blast
    then show ?thesis using r o xH by blast
  qed
qed

lemma arithmetic_hit:
  assumes inv: "cache_inv e S C H" and k: "cache e k = Some (d, fl, ex, c)"
    and lim: "card S < 2 ^ 30" "\<forall>x\<in>S. it_refcount (mem e x) \<noteq> 0xFFFF"
  shows "\<exists>code cas' res' e' S' H'.
    do_arithmetic e k incr create delta initial exptime cas result = Some (code, cas', res', e')
    \<and> cache_inv e' S' C H' \<and> env_frame e e' \<and> H \<subseteq> H'
    \<and> (case number d of
         None \<Rightarrow> code = ENGINE_EINVAL \<and> cas' = cas \<and> res' = result \<and> cache e' = cache e
       | Some v \<Rightarrow> res' = counted incr delta v
           \<and> counted_ok (cache e) (cache e') k fl ex (counted incr delta v) (new_cas e) cas code cas')"
proof -
  obtain x e1 where e1: "do_item_get e k = Some (x, e1)" "x \<in> S" "ikey e x = k"
    and v: "(d, fl, ex, c) = value_of (mem e x)" and inv1: "cache_inv e1 S C H" and env1: "env_frame e e1"
    and cas1: "cas_id e1 = cas_id e" and keys1: "\<And>y. ikey e1 y = ikey e y"
    and ref1: "it_refcount (mem e1 x) = it_refcount (mem e x) + 1" and seen1: "same_seen e e1 x"
    and young: "\<not> it_time (mem e1 x) + TAIL_REPAIR_TIME < current_time e" and c1: "cache e1 = cache e"
    using get_hit [OF inv k] by blast
  have held: "it_refcount (mem e1 x) \<noteq> 0" using ref1 inc_ref_not_0 lim(2) e1(2) by simp
  have xn: "x \<noteq> NULL" using e1(2) engine_core_disjoint(2) [OF cache_invD(3) [OF inv]] by metis
  have xH: "x \<notin> H" using e1(2) engine_coreD(7) [OF cache_invD(3) [OF inv]] by blast
  have k1: "ikey e1 x = k" and d1: "item_get_data (mem e1 x) = d" "it_flags (mem e1 x) = fl" "it_exptime (mem e1 x) = ex"
    using keys1 e1(3) v seen1 by (auto simp: same_seen_def value_of_def)
  have lx: "live e1 (mem e1 x)"
    using k c1 e1(2) k1 cache_iff [OF cache_invD(4) [OF inv1]] inj_onD [OF assoc_repD(3) [OF cache_invD(4) [OF inv1]]]
    by metis
  have run: "do_arithmetic e k incr create delta initial exptime cas result =
     do { (ret, cas, result, e) \<leftarrow> do_add_delta e1 x incr delta cas result;
          e \<leftarrow> do_item_release e x;
          Some (ret, cas, result, e) }"
    using e1(1) xn by (simp add: do_arithmetic_def)
  show ?thesis
  proof (cases "number d")
    case None
    then have "do_add_delta e1 x incr delta cas result = Some (ENGINE_EINVAL, cas, result, e1)"
      using add_delta_bad d1(1) cache_invD(5) [OF inv1 e1(2)] by (simp add: sane_def)
    moreover obtain e' H' where "do_item_release e1 x = Some e'" "cache_inv e' S C H'" "H - {x} \<subseteq> H'"
      "env_frame e1 e'" "cache e' = cache e1"
      using release_cache [OF inv1, of x] e1(2) by blast
    ultimately show ?thesis using None run c1 xH env_frame_trans [OF env1] by auto
  next
    case (Some v)
    obtain code cas' e2 S2 H2 where r: "do_add_delta e1 x incr delta cas result = Some (code, cas', counted incr delta v, e2)"
      and o: "cache_inv e2 S2 C H2" "env_frame e1 e2" "x \<in> S2 \<union> H2" "H \<subseteq> H2"
      and ok: "counted_ok (cache e1) (cache e2) k fl ex (counted incr delta v) (new_cas e1) cas code cas'"
      using add_delta_cache [OF inv1 e1(2) lx held _ lim(1), of v incr delta cas result] young d1 Some k1
        env_frameD(14) [OF env1] by auto
    have nc: "new_cas e1 = new_cas e" using env_frameD(6) [OF env1] cas1 by (simp add: new_cas_def)
    obtain e' H' where e': "do_item_release e2 x = Some e'" "cache_inv e' S2 C H'" "H2 - {x} \<subseteq> H'"
      "env_frame e2 e'" "cache e' = cache e2"
      using release_cache [OF o(1,3)] by blast
    have "H \<subseteq> H'" using o(4) e'(3) xH by auto
    moreover have "env_frame e e'" using env1 o(2) e'(4) by (meson env_frame_trans)
    ultimately show ?thesis using Some run r e' ok c1 nc by auto
  qed
qed

text \<open>What becomes visible when a value is stored now.\<close>

definition new_value :: "default_engine \<Rightarrow> byte list \<Rightarrow> u32 \<Rightarrow> u32 \<Rightarrow> entry option" where
  "new_value e d fl ex =
     (if expired e ex \<or> (oldest_live (config e) \<noteq> 0 \<and> oldest_live (config e) = current_time e)
      then None else Some (d, fl, ex, new_cas e))"

lemma new_entry_value:
  "new_entry e it = new_value e (item_get_data (mem e it)) (it_flags (mem e it)) (it_exptime (mem e it))"
  by (auto simp: new_entry_def new_value_def live_def flushed_def expired_def new_cas_def)

lemma store_returns_cas:
  assumes "do_store_item e it cas OPERATION_ADD = Some (ENGINE_SUCCESS, cas', e')"
  shows "cas' = item_get_cas (mem e' it)"
  using assms by (auto simp: do_store_item_def bind_eq_Some_conv split: if_splits prod.splits)

lemma arithmetic_miss:
  assumes inv: "cache_inv e S C H" and k: "cache e k = None" "length k < 2 ^ 16"
    and lim: "card S < 2 ^ 30" "\<forall>x\<in>S. it_refcount (mem e x) \<noteq> 0xFFFF"
  shows "\<exists>code cas' res' e' S' H' m.
    do_arithmetic e k incr create delta initial exptime cas result = Some (code, cas', res', e')
    \<and> cache_inv e' S' C H' \<and> env_frame e e' \<and> H \<subseteq> H' \<and> m \<subseteq>\<^sub>m cache e
    \<and> (if \<not> create then code = ENGINE_KEY_ENOENT \<and> cas' = cas \<and> res' = result \<and> cache e' = cache e
       else code = ENGINE_ENOMEM \<and> cas' = cas \<and> res' = result \<and> cache e' = m
          \<or> code = ENGINE_SUCCESS \<and> cas' = new_cas e \<and> res' = initial
            \<and> cache e' = m(k := new_value e (padded initial 0) 0 exptime))"
proof -
  obtain e1 S1 H1 where e1: "do_item_get e k = Some (NULL, e1)" "cache_inv e1 S1 C H1"
    "env_frame e e1" "cas_id e1 = cas_id e" "S1 \<subseteq> S" "H \<subseteq> H1"
    "\<forall>y \<in> S1 \<union> H. body (mem e1 y) = body (mem e y)" "cache e1 = cache e"
    using get_miss [OF inv k(1)] by blast
  define bs where "bs = print_decimal (unat initial)"
  have len: "length bs \<le> 20" unfolding bs_def by (rule length_print_u64)
  then have nb: "unat (of_nat (length bs) :: u32) = length bs" by (simp add: unat_of_nat)
  then have nb': "unat (of_nat (length bs) :: u32) < 2 ^ 31" using len by simp
  obtain q e2 S2 where al: "do_item_alloc e1 k 0 exptime (of_nat (length bs)) = Some (q, e2)"
    and sh: "shed e1 e2 S1 S2 H1"
    and c2: "cache e2 \<subseteq>\<^sub>m cache e1" and null: "q = NULL \<Longrightarrow> cache_inv e2 S2 C H1"
    and new: "q \<noteq> NULL \<Longrightarrow> cache_inv e2 S2 C (insert q H1) \<and> q \<notin> S2 \<union> H1 \<union> C
         \<and> sound_item e2 q k 0 exptime (of_nat (length bs))"
    using alloc_cache [OF e1(2) k(2) nb'] by blast
  have env2: "env_frame e e2" and cas2: "cas_id e2 = cas_id e" and sub2: "S2 \<subseteq> S1"
    and b2: "\<And>y. y \<in> S2 \<Longrightarrow> body (mem e2 y) = body (mem e1 y)"
    using sh env_frame_trans [OF e1(3)] e1(4) by (auto simp: shed_def)
  consider "\<not> create" | "create" "q = NULL" | "create" "q \<noteq> NULL" by blast
  then show ?thesis
  proof cases
    case 1
    then have "do_arithmetic e k incr create delta initial exptime cas result = Some (ENGINE_KEY_ENOENT, cas, result, e1)"
      using e1(1) by (simp add: do_arithmetic_def)
    then show ?thesis using 1 e1 map_le_refl [of "cache e"]
      by (intro exI [of _ ENGINE_KEY_ENOENT] exI [of _ cas] exI [of _ result] exI [of _ e1] exI [of _ S1]
          exI [of _ H1] exI [of _ "cache e"]) simp
  next
    case 2
    then have "do_arithmetic e k incr create delta initial exptime cas result = Some (ENGINE_ENOMEM, cas, result, e2)"
      using e1(1) al by (simp add: do_arithmetic_def bs_def)
    then show ?thesis using 2 null env2 e1(6,8) c2 by auto
  next
    case 3
    have inv2: "cache_inv e2 S2 C (insert q H1)" and q: "q \<notin> S2 \<union> H1 \<union> C"
      and sq: "ikey e2 q = k" "it_flags (mem e2 q) = 0" "it_exptime (mem e2 q) = exptime"
        "it_nbytes (mem e2 q) = of_nat (length bs)"
      using new [OF 3(2)] by (simp_all add: sound_item_def)
    define e3 where "e3 = upd_item q (data_write 0 bs) e2"
    have s3: "cache_inv e3 S2 C (insert q H1)" "cache e3 = cache e2"
      unfolding e3_def by (rule soft_held_cache [OF inv2 insertI1]; simp)+
    have m3: "mem e3 y = (if y = q then data_write 0 bs (mem e2 q) else mem e2 y)" for y
      by (simp add: e3_def upd_item_def)
    have env3: "env_frame e e3" "cas_id e3 = cas_id e"
      using env_frame_trans [OF env2] cas2 by (simp_all add: e3_def) (simp add: upd_item_def)
    have nq: "unat (it_nbytes (mem e3 q)) = length bs" using sq(4) nb by (simp add: m3)
    have k3: "ikey e3 q = k" using sq(1) by (simp add: m3 item_get_key_def)
    have ref: "it_refcount (mem e3 x) \<noteq> 0xFFFF" if "x \<in> S2" for x
    proof -
      have "x \<in> S1" "x \<in> S" "x \<noteq> q" using that sub2 e1(5) q by auto
      then show ?thesis
        using body_fields(7) [OF b2 [OF that]] body_fields(7) [of "mem e1 x" "mem e x"] e1(7) lim(2) by (simp add: m3)
    qed
    have "card S2 \<le> card S"
      by (rule card_mono [OF assoc_repD(2) [OF cache_invD(4) [OF inv]]]) (use sub2 e1(5) in blast)
    then have pre: "store_pre e3 S2 C (insert q H1) q"
      using s3(1) nq len lim(1) ref data_write_length [of 0 bs "mem e2 q"]
      by (simp add: store_pre_def word_less_nat_alt m3)
    have "cache e2 k = None" using c2 e1(8) k(1) by (metis domIff map_le_implies_dom_le subsetD)
    then have none: "cache e3 (ikey e3 q) = None" using s3(2) k3 by simp
    obtain cas' e4 S4 H4 where st: "do_store_item e3 q cas OPERATION_ADD = Some (ENGINE_SUCCESS, cas', e4)"
      "cache_inv e4 S4 C H4" "cache e4 = (cache e3)(ikey e3 q := new_entry e3 q)"
      "cas' = (if use_cas (config e3) then cas_id e3 + 1 else 0)" "stored_ok e3 e4 S4 (insert q H1) H4 q"
      using store_miss [OF pre none, of OPERATION_ADD cas] by auto
    have so: "q \<in> S4 \<union> H4" "insert q H1 - {q} \<subseteq> H4" "env_frame e3 e4" using st(5) by (simp_all add: stored_ok_def)
    obtain e' H' where e': "do_item_release e4 q = Some e'" "cache_inv e' S4 C H'" "H4 - {q} \<subseteq> H'"
      "env_frame e4 e'" "cache e' = cache e4"
      using release_cache [OF st(2) so(1)] by blast
    have "do_arithmetic e k incr create delta initial exptime cas result
        = Some (ENGINE_SUCCESS, item_get_cas (mem e4 q), initial, e')"
      using e1(1) al 3 st(1) e'(1) by (simp add: do_arithmetic_def bs_def e3_def)
    moreover have "item_get_cas (mem e4 q) = new_cas e"
      using store_returns_cas [OF st(1)] st(4) env_frameD(6) [OF env3(1)] env3(2)
      by (auto simp: new_cas_def split: if_splits)
    moreover have "new_entry e3 q = new_value e (padded initial 0) 0 exptime"
      using sq(2,3) nq env_frameD(6,14) [OF env3(1)] env3(2)
      by (simp add: new_entry_value new_value_def expired_def new_cas_def m3 item_get_data_def data_write_def
          padded_def bs_def)
    moreover have "H \<subseteq> H'" using e1(6) so(2) e'(3) q by auto
    moreover have "env_frame e e'" using env3(1) so(3) e'(4) by (meson env_frame_trans)
    ultimately show ?thesis
      using 3 e'(2,5) st(3) s3(2) k3 c2 e1(8)
      by (intro exI [of _ ENGINE_SUCCESS] exI [of _ "new_cas e"] exI [of _ initial] exI [of _ e'] exI [of _ S4]
          exI [of _ H'] exI [of _ "cache e2"]) simp
  qed
qed

end
