(* ===== verification/Sample_Cache.thy ===== *)
theory Sample_Cache
  imports Cache
begin

unbundle bit_operations_syntax

text \<open>
  A small engine with four slab classes, an item allocated in it and its value filled in. The
  invariant and the preconditions of the operations hold there.
\<close>

section \<open>A small cache\<close>

lemma sample_slabs [simp]:
  "power_largest (slabs sample_engine) = 4" "mem_base (slabs sample_engine) = NULL"
  "length (slabclasses (slabs sample_engine)) = MAX_NUMBER_OF_SLAB_CLASSES"
  by (simp_all add: sample_engine_def)

lemma sample_cls:
  assumes "c \<in> {1..4}"
  shows "\<exists>sz per. cls (slabs sample_engine) c = sample_class sz per \<and> 0 < sz \<and> 0 < per \<and> unat sz * unat per \<le> 1024"
proof -
  have "c = 1 \<or> c = 2 \<or> c = 3 \<or> c = 4" using assms by auto
  then show ?thesis
    by (elim disjE; simp add: sample_engine_def MAX_NUMBER_OF_SLAB_CLASSES_def POWER_LARGEST_def; force)
qed

lemma sample_malloc_wf: "malloc_wf (os sample_engine)"
proof -
  have "region (65536 * (n + 1)) s \<inter> region (65536 * (m + 1)) t = {}"
    if "n \<noteq> m" "s \<le> 65536" "t \<le> 65536" for n m s t :: nat
    using that by (auto simp: region_def)
  then show ?thesis by (auto simp: malloc_wf_def sample_engine_def split: if_splits)
qed

lemma sample_slab_rep: "slab_rep sample_engine Map.empty {}"
proof -
  have fc: "free_chunks (cls (slabs sample_engine) c) = []" "class_ok (cls (slabs sample_engine) c)"
    "sc_slabs (cls (slabs sample_engine) c) = 0" if "c \<in> {1..4}" for c
    using sample_cls [OF that]
    by (auto simp: sample_class_def free_chunks_def end_chunks_def class_ok_def page_len_def)
  then have "free_set (slabs sample_engine) = {}" "page_ids (slabs sample_engine) = {}"
    by (auto simp: free_set_def page_ids_def)
  then show ?thesis
    using fc sample_malloc_wf
    by (auto simp: slab_rep_def slab_ok_def page_bytes_def disjoint_family_on_def POWER_LARGEST_def)
qed

lemma sample_lru_rep: "lru_rep sample_engine {}"
proof -
  have "lru_holds sample_engine c {}" if "c < POWER_LARGEST" for c
    using that by (auto simp: lru_holds_def lru_queue_def sample_engine_def intro!: exI [of _ "[]"])
  then show ?thesis by (simp add: lru_rep_def) (simp add: sample_engine_def items_ok_def)
qed

lemma sample_inv: "cache_inv sample_engine {} {} {}"
proof -
  have "class_map sample_engine {} = Map.empty" by (simp add: class_map_def)
  then have "engine_inv sample_engine {} {} {}"
    using sample_empty sample_lru_rep sample_slab_rep
    by (simp add: engine_inv_def engine_core_def) (simp add: sample_engine_def)
  then show ?thesis
    by (simp add: cache_inv_def clock_ok_def) (simp add: sample_engine_def current_time_def TAIL_REPAIR_TIME_def)
qed

lemma lru_search_NULL [simp]: "lru_search P n m NULL = NULL"
  by (cases n) auto

lemma sample_cls1: "cls (slabs sample_engine) 1 = sample_class 96 10"
  by (simp add: sample_engine_def MAX_NUMBER_OF_SLAB_CLASSES_def POWER_LARGEST_def)

text \<open>What the first allocations in the small engine see of the slab classes.\<close>

definition first_page :: "default_engine \<Rightarrow> ptr \<Rightarrow> u32 \<Rightarrow> bool" where
  "first_page e p n \<longleftrightarrow> items e = items sample_engine
     \<and> power_largest (slabs e) = 4 \<and> length (slabclasses (slabs e)) = MAX_NUMBER_OF_SLAB_CLASSES
     \<and> sl_curr (cls (slabs e) 1) = 0 \<and> end_page_ptr (cls (slabs e) 1) = p
     \<and> sc_size (cls (slabs e) 1) = 96 \<and> end_page_free (cls (slabs e) 1) = n"

lemma sample_clsid:
  assumes "first_page e p n" "0 < sz" "sz \<le> 96"
  shows "slabs_clsid e sz = Some 1"
proof -
  have "slabs_clsid e sz = slabs_clsid_loop (slabs e) sz 1"
    using assms(2) by (auto simp: slabs_clsid_def POWER_SMALLEST_def)
  also have "\<dots> = Some 1"
    using assms by (subst slabs_clsid_loop.simps)
      (simp add: first_page_def MAX_NUMBER_OF_SLAB_CLASSES_def POWER_LARGEST_def word_le_nat_alt)
  finally show ?thesis .
qed

lemma init_item_slabs: "init_item e cid k fl ex n it = Some e' \<Longrightarrow> slabs e' = slabs e \<and> items e' = items e"
  by (auto simp: init_item_def upd_item_def bind_eq_Some_conv Let_def guard_def split: if_splits)

text \<open>Memory for an item, when the LRU queue of its class is empty and the class has a chunk left.\<close>

lemma do_item_alloc_first:
  assumes inv: "cache_inv e S C H" and k: "length k < 2 ^ 16" "unat nbytes < 2 ^ 31"
    and cid: "slabs_clsid e (alloc_size e k nbytes) = Some cid" "cid \<noteq> 0"
    and tail: "arr_get (tails (items e)) cid = Some NULL"
    and sl: "slabs_alloc e (alloc_size e k nbytes) cid = Some (p, e1)" "p \<noteq> NULL"
  shows "\<exists>e'. do_item_alloc e k fl ex nbytes = Some (p, e') \<and> slabs e' = slabs e1 \<and> items e' = items e1"
proof -
  obtain q e' where r: "do_item_alloc e k fl ex nbytes = Some (q, e')"
    using alloc_cache [OF inv k, of fl ex] by blast
  have "do_item_alloc e k fl ex nbytes = do { e \<leftarrow> init_item e1 cid k fl ex nbytes p; Some (p, e) }"
    using cid tail sl by (simp add: do_item_alloc_def Let_def)
  then show ?thesis
    using r init_item_slabs [of e1 cid k fl ex nbytes p] by (cases "init_item e1 cid k fl ex nbytes p") auto
qed

lemma sample_alloc: "\<exists>e1. slabs_alloc sample_engine 59 1 = Some (131072, e1) \<and> first_page e1 131168 9"
  by (simp add: first_page_def slabs_alloc_def do_slabs_alloc_def do_slabs_newslab_def grow_slab_list_def os_call_def
      memory_allocate_def malloc_def zero_range_def take_chunk_def upd_class_def grown_def Let_def
      POWER_SMALLEST_def sample_engine_def MAX_NUMBER_OF_SLAB_CLASSES_def POWER_LARGEST_def sample_class_def)

lemma sample_alloc_next:
  "first_page e 131168 9 \<Longrightarrow> \<exists>e1. slabs_alloc e 58 1 = Some (131168, e1)"
  by (simp add: first_page_def slabs_alloc_def do_slabs_alloc_def take_chunk_def upd_class_def
      POWER_SMALLEST_def MAX_NUMBER_OF_SLAB_CLASSES_def POWER_LARGEST_def)

lemma sample_first_page: "first_page sample_engine NULL 0"
  using sample_cls1 by (simp add: first_page_def sample_class_def)

lemma sample_tail: "first_page e p n \<Longrightarrow> arr_get (tails (items e)) 1 = Some NULL"
  by (simp add: first_page_def sample_engine_def POWER_LARGEST_def)

lemma sample_size: "env_frame sample_engine e \<Longrightarrow> alloc_size e [97] n = 57 + scast n"
  using env_frameD(6) [of sample_engine e] by (simp add: alloc_size_def sizeof_hash_item_def) (simp add: sample_engine_def)

text \<open>Two items under the key \<open>[97]\<close>, allocated in the small engine: its first two chunks.\<close>

definition sample_alloc1 :: default_engine where
  "sample_alloc1 = snd (the (do_item_alloc sample_engine [97] 7 0 2))"

definition sample_alloc2 :: default_engine where
  "sample_alloc2 = snd (the (do_item_alloc sample_alloc1 [97] 0 0 1))"

lemma sample_alloc1:
  "do_item_alloc sample_engine [97] 7 0 2 = Some (131072, sample_alloc1)" "first_page sample_alloc1 131168 9"
proof -
  obtain e1 where e1: "slabs_alloc sample_engine 59 1 = Some (131072, e1)" "first_page e1 131168 9"
    using sample_alloc by blast
  obtain e' where e': "do_item_alloc sample_engine [97] 7 0 2 = Some (131072, e')" "slabs e' = slabs e1" "items e' = items e1"
    using do_item_alloc_first [OF sample_inv, of "[97]" 2 1 131072 e1 7 0] e1(1) sample_clsid [OF sample_first_page, of 59]
      sample_tail [OF sample_first_page] sample_size [of sample_engine 2] by auto
  then show "do_item_alloc sample_engine [97] 7 0 2 = Some (131072, sample_alloc1)" "first_page sample_alloc1 131168 9"
    using e1(2) by (auto simp: sample_alloc1_def first_page_def)
qed

lemma sample_alloc1_inv:
  "cache_inv sample_alloc1 {} {} {131072}" "cache sample_alloc1 = Map.empty"
  "sound_item sample_alloc1 131072 [97] 7 0 2" "env_frame sample_engine sample_alloc1" "cas_id sample_alloc1 = 0"
proof -
  have "cache sample_engine = Map.empty"
    using cache_iff [OF cache_invD(4) [OF sample_inv]] by (intro ext) (metis empty_iff not_Some_eq)
  moreover have "cas_id sample_engine = 0" by (simp add: sample_engine_def)
  ultimately show "cache_inv sample_alloc1 {} {} {131072}" "cache sample_alloc1 = Map.empty"
  "sound_item sample_alloc1 131072 [97] 7 0 2" "env_frame sample_engine sample_alloc1" "cas_id sample_alloc1 = 0"
    using alloc_cache [OF sample_inv, of "[97]" 2 7 0] sample_alloc1 by (auto simp: shed_def map_le_def)
qed

lemma sample_alloc2: "do_item_alloc sample_alloc1 [97] 0 0 1 = Some (131168, sample_alloc2)"
proof -
  obtain e1 where "slabs_alloc sample_alloc1 58 1 = Some (131168, e1)"
    using sample_alloc_next [OF sample_alloc1(2)] by blast
  then show ?thesis
    using do_item_alloc_first [OF sample_alloc1_inv(1), of "[97]" 1 1 131168 e1 0 0] sample_clsid [OF sample_alloc1(2), of 58]
      sample_tail [OF sample_alloc1(2)] sample_size [OF sample_alloc1_inv(4), of 1] by (auto simp: sample_alloc2_def)
qed

lemma sound_item_body: "body (mem e' p) = body (mem e p) \<Longrightarrow> sound_item e' p k fl ex n = sound_item e p k fl ex n"
  using ikey_body [of e' p e] body_fields [of "mem e' p" "mem e p"] by (simp add: sound_item_def)

lemma sample_alloc2_inv:
  "cache_inv sample_alloc2 {} {} {131072, 131168}" "cache sample_alloc2 = Map.empty"
  "sound_item sample_alloc2 131168 [97] 0 0 1" "sound_item sample_alloc2 131072 [97] 7 0 2"
  "env_frame sample_engine sample_alloc2" "cas_id sample_alloc2 = 0"
proof -
  obtain S' where r: "shed sample_alloc1 sample_alloc2 {} S' {131072}" "cache sample_alloc2 \<subseteq>\<^sub>m cache sample_alloc1"
    "cache_inv sample_alloc2 S' {} (insert 131168 {131072})" "sound_item sample_alloc2 131168 [97] 0 0 1"
    using alloc_cache [OF sample_alloc1_inv(1), of "[97]" 1 0 0] sample_alloc2 by auto
  then show "cache_inv sample_alloc2 {} {} {131072, 131168}" "cache sample_alloc2 = Map.empty"
    "sound_item sample_alloc2 131168 [97] 0 0 1" "sound_item sample_alloc2 131072 [97] 7 0 2"
    "env_frame sample_engine sample_alloc2" "cas_id sample_alloc2 = 0"
    using sample_alloc1_inv env_frame_trans [OF sample_alloc1_inv(4)] sound_item_body [of sample_alloc2 131072 sample_alloc1]
    by (auto simp: shed_def map_le_def insert_commute)
qed

text \<open>The same items with the values \<open>[49, 50]\<close> and \<open>[51]\<close> and a CAS of 0 written to them, ready to be stored.\<close>

definition fill :: "ptr \<Rightarrow> byte list \<Rightarrow> default_engine \<Rightarrow> default_engine" where
  "fill p bs = upd_item p (\<lambda>i. item_set_cas 0 (data_write 0 bs i))"

lemma fill_inv:
  assumes "cache_inv e S C H" "p \<in> H" "sound_item e p k fl ex (of_nat (length bs))" "length bs < 2 ^ 32"
  shows "cache_inv (fill p bs e) S C H" "cache (fill p bs e) = cache e" "env_frame e (fill p bs e)"
    "item_get_data (mem (fill p bs e) p) = bs" "cas_id (fill p bs e) = cas_id e"
    "length (it_data (mem (fill p bs e) p)) \<ge> length bs" "sound_item (fill p bs e) q k' fl' ex' n' = sound_item e q k' fl' ex' n'"
    "q \<noteq> p \<Longrightarrow> mem (fill p bs e) q = mem e q" "item_get_cas (mem (fill p bs e) p) = 0"
proof -
  let ?f = "\<lambda>i. item_set_cas 0 (data_write 0 bs i)"
  show "cache_inv (fill p bs e) S C H" "cache (fill p bs e) = cache e"
    using soft_held_cache [where x = p and f = ?f, OF assms(1,2)] by (simp_all add: fill_def)
  show "env_frame e (fill p bs e)" "cas_id (fill p bs e) = cas_id e"
    "sound_item (fill p bs e) q k' fl' ex' n' = sound_item e q k' fl' ex' n'"
    "q \<noteq> p \<Longrightarrow> mem (fill p bs e) q = mem e q"
    by (simp_all add: fill_def) (simp_all add: upd_item_def sound_item_def item_get_key_def)
  show "item_get_cas (mem (fill p bs e) p) = 0"
    by (simp add: fill_def upd_item_def item_get_cas_def item_set_cas_def)
  show "length (it_data (mem (fill p bs e) p)) \<ge> length bs"
    using data_write_length [of 0 bs "mem e p"] by (simp add: fill_def upd_item_def)
  have "unat (it_nbytes (mem e p)) = length bs"
    using assms(3,4) by (simp add: sound_item_def unat_of_nat)
  then show "item_get_data (mem (fill p bs e) p) = bs"
    by (simp add: fill_def upd_item_def item_get_data_def data_write_def)
qed

definition sample_full :: default_engine where
  "sample_full = fill 131072 [49, 50] (fill 131168 [51] sample_alloc2)"

lemma sample_full:
  "cache_inv sample_full {} {} {131072, 131168}" "cache sample_full = Map.empty"
  "env_frame sample_engine sample_full" "cas_id sample_full = 0"
  "sound_item sample_full 131072 [97] 7 0 2" "item_get_data (mem sample_full 131072) = [49, 50]"
  "sound_item sample_full 131168 [97] 0 0 1" "item_get_data (mem sample_full 131168) = [51]"
  "length (it_data (mem sample_full 131072)) \<ge> 2" "length (it_data (mem sample_full 131168)) \<ge> 1"
  "item_get_cas (mem sample_full 131168) = 0"
proof -
  note a = fill_inv [OF sample_alloc2_inv(1), of 131168 "[97]" 0 0 "[51]"]
  let ?e = "fill 131168 [51] sample_alloc2"
  have inv: "cache_inv ?e {} {} {131072, 131168}" and s: "sound_item ?e 131072 [97] 7 0 2"
    using a(1,7) sample_alloc2_inv by simp_all
  note b = fill_inv [OF inv, of 131072 "[97]" 7 0 "[49, 50]", folded sample_full_def]
  show "cache_inv sample_full {} {} {131072, 131168}" "cache sample_full = Map.empty"
    "env_frame sample_engine sample_full" "cas_id sample_full = 0"
    "sound_item sample_full 131072 [97] 7 0 2" "item_get_data (mem sample_full 131072) = [49, 50]"
    "sound_item sample_full 131168 [97] 0 0 1" "item_get_data (mem sample_full 131168) = [51]"
    "length (it_data (mem sample_full 131072)) \<ge> 2" "length (it_data (mem sample_full 131168)) \<ge> 1"
    "item_get_cas (mem sample_full 131168) = 0"
    using a b s sample_alloc2_inv env_frame_trans [OF env_frame_trans [OF sample_alloc2_inv(5)]] by simp_all
qed

lemma sample_store_pre: "store_pre sample_full {} {} {131072, 131168} 131072"
  using sample_full by (simp add: store_pre_def sound_item_def)

lemma sample_new_entry: "new_entry sample_full 131072 = Some ([49, 50], 7, 0, 1)"
  using sample_full env_frameD(6) [OF sample_full(3)]
  by (simp add: new_entry_def live_def flushed_def sound_item_def) (simp add: sample_engine_def)

text \<open>The small cache with its first item linked, by a set command.\<close>

definition sample_stored :: default_engine where
  "sample_stored = the (do_item_link sample_full 131072)"

lemma sample_stored_link:
  "do_item_link sample_full 131072 = Some sample_stored"
  "do_store_item sample_full 131072 cas OPERATION_SET = Some (ENGINE_SUCCESS, 1, sample_stored)"
proof -
  have get: "do_item_get sample_full [97] = Some (NULL, sample_full)"
    using do_item_get_miss [OF cache_invD(1) [OF sample_full(1)], of "[97]"] by simp
  have u: "use_cas (config sample_full)" using env_frameD(6) [OF sample_full(3)] by (simp add: sample_engine_def)
  obtain e' where r: "do_item_link sample_full 131072 = Some e'" "item_get_cas (mem e' 131072) = 1"
    using link_cache [OF sample_full(1), of 131072] store_preD [OF sample_store_pre] sample_full u by auto
  then show "do_item_link sample_full 131072 = Some sample_stored"
    "do_store_item sample_full 131072 cas OPERATION_SET = Some (ENGINE_SUCCESS, 1, sample_stored)"
    using get sample_full(5) by (simp_all add: sample_stored_def do_store_item_def sound_item_def)
qed

lemma sample_stored:
  "cache_inv sample_stored {131072} {} {131168}"
  "cache sample_stored = [[97] \<mapsto> ([49, 50], 7, 0, 1)]"
  "env_frame sample_engine sample_stored" "it_refcount (mem sample_stored 131072) = 1"
  "ikey sample_stored 131072 = [97]" "value_of (mem sample_stored 131072) = ([49, 50], 7, 0, 1)"
  "sound_item sample_stored 131168 [97] 0 0 1" "item_get_data (mem sample_stored 131168) = [51]"
  "length (it_data (mem sample_stored 131168)) \<ge> 1" "cas_id sample_stored = 1"
  "item_get_cas (mem sample_stored 131168) = 0"
proof -
  have "{131072, 131168} - {131072} = {131168 :: nat}" by auto
  then have r: "cache_inv sample_stored {131072} {} {131168}" "env_frame sample_full sample_stored"
    "cas_id sample_stored = 1" "cache sample_stored = [[97] \<mapsto> ([49, 50], 7, 0, 1)]"
    "it_refcount (mem sample_stored 131072) = 1" "body (mem sample_stored 131168) = body (mem sample_full 131168)"
    using link_cache [OF sample_full(1), of 131072] store_preD [OF sample_store_pre] sample_stored_link(1)
      sample_full(5) [unfolded sound_item_def]
    by (auto simp: sample_full sample_new_entry)
  moreover have "ikey sample_stored 131072 = [97]" "value_of (mem sample_stored 131072) = ([49, 50], 7, 0, 1)"
    using cache_iff [OF cache_invD(4) [OF r(1)], of "[97]" "([49, 50], 7, 0, 1)"] r(4) by auto
  ultimately show
    "cache_inv sample_stored {131072} {} {131168}"
    "cache sample_stored = [[97] \<mapsto> ([49, 50], 7, 0, 1)]"
    "env_frame sample_engine sample_stored" "it_refcount (mem sample_stored 131072) = 1"
    "ikey sample_stored 131072 = [97]" "value_of (mem sample_stored 131072) = ([49, 50], 7, 0, 1)"
    "sound_item sample_stored 131168 [97] 0 0 1" "item_get_data (mem sample_stored 131168) = [51]"
    "length (it_data (mem sample_stored 131168)) \<ge> 1" "cas_id sample_stored = 1"
    "item_get_cas (mem sample_stored 131168) = 0"
    using env_frame_trans [OF sample_full(3)] sample_full sound_item_body [of sample_stored 131168 sample_full]
      item_get_data_body [OF r(6)] item_get_cas_body [OF r(6)] body_fields [OF r(6)] by simp_all
qed

lemma sample_join_pre: "store_pre sample_stored {131072} {} {131168} 131168"
  using sample_stored by (simp add: store_pre_def sound_item_def)

lemma sample_small: "small_classes sample_engine"
proof -
  have "unat (sc_size (cls (slabs sample_engine) c)) \<le> 2 ^ 20" if c: "c \<in> {1..4}" for c
  proof -
    obtain sz per where s: "cls (slabs sample_engine) c = sample_class sz per" "0 < per" "unat sz * unat per \<le> 1024"
      using sample_cls [OF c] by blast
    then have "unat sz * 1 \<le> unat sz * unat per" by (intro mult_le_mono) (simp_all add: word_less_nat_alt)
    then have "unat sz \<le> 1024" using s(3) by linarith
    then show ?thesis using s(1) by (simp add: sample_class_def)
  qed
  then show ?thesis by (simp add: small_classes_def)
qed

end
