(* ===== verification/Items_Walk.thy ===== *)
theory Items_Walk
  imports Items "HOL-Library.Signed_Division"
begin

unbundle bit_operations_syntax

text \<open>
  The rest of the item layer and of the slab allocator: the functions that take the cache lock, the
  cursors that walk the LRU queues for the scrubber and for the tap streams, and the statistics. A
  statistic is the pair of its name and its printed value, in the order of the calls of
  \<^verbatim>\<open>add_stat\<close>.
\<close>

section \<open>The locked functions\<close>

text \<open>Each takes \<^verbatim>\<open>cache_lock\<close>, runs the function of the item layer, and releases the lock.\<close>

definition item_alloc :: "default_engine \<Rightarrow> key \<Rightarrow> u32 \<Rightarrow> u32 \<Rightarrow> u32 \<Rightarrow> (ptr \<times> default_engine) option" where
  "item_alloc e k flags exptime nbytes = do_item_alloc e k flags exptime nbytes"

definition item_get :: "default_engine \<Rightarrow> key \<Rightarrow> (ptr \<times> default_engine) option" where
  "item_get e k = do_item_get e k"

definition item_release :: "default_engine \<Rightarrow> ptr \<Rightarrow> default_engine option" where
  "item_release e it = do_item_release e it"

definition item_unlink :: "default_engine \<Rightarrow> ptr \<Rightarrow> default_engine option" where
  "item_unlink e it = do_item_unlink e it"

definition arithmetic ::
    "default_engine \<Rightarrow> key \<Rightarrow> bool \<Rightarrow> bool \<Rightarrow> u64 \<Rightarrow> u64 \<Rightarrow> u32 \<Rightarrow> u64 \<Rightarrow> u64
     \<Rightarrow> (ENGINE_ERROR_CODE \<times> u64 \<times> u64 \<times> default_engine) option" where
  "arithmetic e k increment create delta initial exptime cas result =
     do_arithmetic e k increment create delta initial exptime cas result"

definition store_item ::
    "default_engine \<Rightarrow> ptr \<Rightarrow> u64 \<Rightarrow> ENGINE_STORE_OPERATION \<Rightarrow> (ENGINE_ERROR_CODE \<times> u64 \<times> default_engine) option" where
  "store_item e it cas operation = do_store_item e it cas operation"

definition touch_item :: "default_engine \<Rightarrow> key \<Rightarrow> u32 \<Rightarrow> (ptr \<times> default_engine) option" where
  "touch_item e k exptime = do_touch_item e k exptime"

section \<open>Printing statistics\<close>

type_synonym stat = "byte list \<times> byte list"

definition str :: "string \<Rightarrow> byte list" where
  "str s = map of_char s"

text \<open>\<^verbatim>\<open>"%d"\<close>\<close>

definition print_int :: "int \<Rightarrow> byte list" where
  "print_int n = (if n < 0 then 45 # print_decimal (nat (- n)) else print_decimal (nat n))"

text \<open>
  \<^verbatim>\<open>add_statistics\<close> builds the name in a buffer of 80 bytes and the value in one of 79; a longer
  text is cut but its full length is passed on, an access out of bounds.
\<close>

definition add_statistics :: "string option \<Rightarrow> int \<Rightarrow> string \<Rightarrow> byte list \<Rightarrow> stat option" where
  "add_statistics prefix num key val =
     do {
       let name = (case prefix of None \<Rightarrow> [] | Some p \<Rightarrow> str p @ str '':'')
                  @ (if num \<noteq> -1 then print_int num @ str '':'' else []) @ str key;
       guard (length name < 80);
       guard (length val < 79);
       Some (name, val)
     }"

fun add_all :: "(string option \<times> int \<times> string \<times> byte list) list \<Rightarrow> stat list option" where
  "add_all [] = Some []"
| "add_all ((prefix, num, key, val) # rest) =
     do {
       s \<leftarrow> add_statistics prefix num key val;
       ss \<leftarrow> add_all rest;
       Some (s # ss)
     }"

definition print_u :: "'a::len word \<Rightarrow> byte list" where
  "print_u w = print_decimal (unat w)"

section \<open>Statistics of the slab allocator\<close>

definition class_stats :: "nat \<Rightarrow> slabclass \<Rightarrow> (string option \<times> int \<times> string \<times> byte list) list" where
  "class_stats i p =
     (let n = of_nat (sc_slabs p) :: u32; per = perslab p in
      [(None, int i, ''chunk_size'', print_u (sc_size p)),
       (None, int i, ''chunks_per_page'', print_u per),
       (None, int i, ''total_pages'', print_u n),
       (None, int i, ''total_chunks'', print_u (n * per)),
       (None, int i, ''used_chunks'', print_u (n * per - of_nat (sl_curr p) - end_page_free p)),
       (None, int i, ''free_chunks'', print_u (of_nat (sl_curr p) :: u32)),
       (None, int i, ''free_chunks_end'', print_u (end_page_free p)),
       (None, int i, ''mem_requested'', print_u (requested p))])"

fun slabs_stats_loop :: "slabs \<Rightarrow> nat list \<Rightarrow> nat \<Rightarrow> (nat \<times> stat list) option" where
  "slabs_stats_loop s [] tot = Some (tot, [])"
| "slabs_stats_loop s (i # is) tot =
     do {
       p \<leftarrow> arr_get (slabclasses s) i;
       if sc_slabs p \<noteq> 0 then
         do {
           out \<leftarrow> add_all (class_stats i p);
           (tot, rest) \<leftarrow> slabs_stats_loop s is (tot + 1);
           Some (tot, out @ rest)
         }
       else slabs_stats_loop s is tot
     }"

definition do_slabs_stats :: "default_engine \<Rightarrow> stat list option" where
  "do_slabs_stats e =
     do {
       (tot, out) \<leftarrow> slabs_stats_loop (slabs e) [POWER_SMALLEST..<power_largest (slabs e) + 1] 0;
       tl \<leftarrow> add_all [(None, -1, ''active_slabs'', print_int (int tot)),
                     (None, -1, ''total_malloced'', print_u (mem_malloced (slabs e)))];
       Some (out @ tl)
     }"

definition slabs_stats :: "default_engine \<Rightarrow> stat list option" where
  "slabs_stats e = do_slabs_stats e"

section \<open>Statistics of the items\<close>

text \<open>The tails that are dead are unlinked first, at most \<^verbatim>\<open>search_items\<close> of them.\<close>

fun stats_trim :: "nat \<Rightarrow> nat \<Rightarrow> default_engine \<Rightarrow> default_engine option" where
  "stats_trim 0 i e = Some e"
| "stats_trim (Suc search) i e =
     do {
       tail \<leftarrow> arr_get (tails (items e)) i;
       if tail \<noteq> NULL \<and> (flushed e (mem e tail)
            \<or> (it_exptime (mem e tail) \<noteq> 0 \<and> it_exptime (mem e tail) < current_time e)) then
         (if it_refcount (mem e tail) = 0
          then do { e \<leftarrow> do_item_unlink e tail; stats_trim search i e }
          else Some e)
       else Some e
     }"

definition class_item_stats :: "nat \<Rightarrow> u32 \<Rightarrow> u32 \<Rightarrow> itemstats \<Rightarrow> (string option \<times> int \<times> string \<times> byte list) list" where
  "class_item_stats i n age st =
     (let row = (\<lambda>key (v :: u32). (Some ''items'', int i, key, print_u v)) in
      [row ''number'' n, row ''age'' age, row ''evicted'' (evicted st),
       row ''evicted_nonzero'' (evicted_nonzero st), row ''evicted_time'' (evicted_time st),
       row ''outofmemory'' (outofmemory st), row ''tailrepairs'' (tailrepairs st),
       row ''reclaimed'' (reclaimed st)])"

fun item_stats_loop :: "nat list \<Rightarrow> default_engine \<Rightarrow> (stat list \<times> default_engine) option" where
  "item_stats_loop [] e = Some ([], e)"
| "item_stats_loop (i # is) e =
     do {
       tail \<leftarrow> arr_get (tails (items e)) i;
       if tail = NULL then item_stats_loop is e
       else do {
         e \<leftarrow> stats_trim search_items i e;
         tail \<leftarrow> arr_get (tails (items e)) i;
         if tail = NULL then item_stats_loop is e
         else do {
           n \<leftarrow> arr_get (sizes (items e)) i;
           st \<leftarrow> arr_get (itemstats (items e)) i;
           out \<leftarrow> add_all (class_item_stats i n (it_time (mem e tail)) st);
           (rest, e) \<leftarrow> item_stats_loop is e;
           Some (out @ rest, e)
         }
       }
     }"

definition do_item_stats :: "default_engine \<Rightarrow> (stat list \<times> default_engine) option" where
  "do_item_stats e = item_stats_loop [0..<POWER_LARGEST] e"

definition item_stats :: "default_engine \<Rightarrow> (stat list \<times> default_engine) option" where
  "item_stats e = do_item_stats e"

text \<open>\<^verbatim>\<open>do_item_cachedump\<close> is compiled without \<^verbatim>\<open>FUTURE\<close>.\<close>

definition do_item_cachedump :: "nat \<Rightarrow> nat \<Rightarrow> ptr" where
  "do_item_cachedump clsid limit = NULL"

definition item_cachedump :: "nat \<Rightarrow> nat \<Rightarrow> ptr" where
  "item_cachedump clsid limit = do_item_cachedump clsid limit"

text \<open>
  The histogram of the sizes: \<^verbatim>\<open>ntotal\<close> is an \<^verbatim>\<open>int\<close>, so a total of more than \<open>2 ^ 31\<close> is negative and
  its bucket lies in front of the array.
\<close>

definition size_bucket :: "default_engine \<Rightarrow> hash_item \<Rightarrow> int" where
  "size_bucket e it =
     (let ntotal = sint (ucast (ITEM_ntotal e it) :: 32 word);
          bucket = ntotal sdiv 32
      in if ntotal smod 32 \<noteq> 0 then bucket + 1 else bucket)"

definition num_buckets :: nat where "num_buckets = 32768"

partial_function (option) count_sizes :: "default_engine \<Rightarrow> ptr \<Rightarrow> u32 list \<Rightarrow> u32 list option" where
  "count_sizes e iter histogram =
     (if iter = NULL then Some histogram
      else do {
        let bucket = size_bucket e (mem e iter);
        h \<leftarrow> (if bucket < int num_buckets then
                do { guard (0 \<le> bucket);
                     v \<leftarrow> arr_get histogram (nat bucket);
                     arr_set histogram (nat bucket) (v + 1) }
              else Some histogram);
        count_sizes e (it_next (mem e iter)) h
      })"

fun count_classes :: "default_engine \<Rightarrow> nat list \<Rightarrow> u32 list \<Rightarrow> u32 list option" where
  "count_classes e [] h = Some h"
| "count_classes e (i # is) h =
     do {
       head \<leftarrow> arr_get (heads (items e)) i;
       h \<leftarrow> count_sizes e head h;
       count_classes e is h
     }"

fun size_rows :: "nat \<Rightarrow> u32 list \<Rightarrow> stat list option" where
  "size_rows i [] = Some []"
| "size_rows i (v # vs) =
     do {
       rest \<leftarrow> size_rows (i + 1) vs;
       if v \<noteq> 0 then
         do {
           guard (length (print_int (int (i * 32))) < 8);
           guard (length (print_u v) < 32);
           Some ((print_int (int (i * 32)), print_u v) # rest)
         }
       else Some rest
     }"

definition do_item_stats_sizes :: "default_engine \<Rightarrow> (stat list \<times> default_engine) option" where
  "do_item_stats_sizes e =
     (let (ok, e) = os_call e in
      if \<not> ok then Some ([], e)
      else do {
        h \<leftarrow> count_classes e [0..<POWER_LARGEST] (replicate num_buckets 0);
        out \<leftarrow> size_rows 0 h;
        Some (out, e)
      })"

definition item_stats_sizes :: "default_engine \<Rightarrow> (stat list \<times> default_engine) option" where
  "item_stats_sizes e = do_item_stats_sizes e"

section \<open>Cursors\<close>

definition do_item_link_cursor :: "default_engine \<Rightarrow> ptr \<Rightarrow> nat \<Rightarrow> default_engine option" where
  "do_item_link_cursor e cursor ii =
     do {
       tail \<leftarrow> arr_get (tails (items e)) ii;
       let e = upd_item cursor (\<lambda>i. i\<lparr>it_clsid := of_nat ii, it_next := NULL, it_prev := tail\<rparr>) e;
       guard (tail \<noteq> NULL);
       let e = upd_item tail (\<lambda>i. i\<lparr>it_next := cursor\<rparr>) e;
       n \<leftarrow> arr_get (sizes (items e)) ii;
       Some (e\<lparr>items := (items e)\<lparr>tails := (tails (items e))[ii := cursor],
                                  sizes := (sizes (items e))[ii := n + 1]\<rparr>\<rparr>)
     }"

type_synonym iterfunc = "default_engine \<Rightarrow> ptr \<Rightarrow> (ENGINE_ERROR_CODE \<times> default_engine) option"

text \<open>
  One move of a cursor towards the head of its queue: the item it passes, and whether the head has
  been reached (the cursor is then out of the queue).
\<close>

definition move_cursor :: "default_engine \<Rightarrow> ptr \<Rightarrow> (ptr \<times> bool \<times> default_engine) option" where
  "move_cursor e cursor =
     do {
       let p = it_prev (mem e cursor);
       e \<leftarrow> item_unlink_q e cursor;
       head \<leftarrow> arr_get (heads (items e)) (unat (it_clsid (mem e cursor)));
       if p = head then Some (p, True, upd_item cursor (\<lambda>i. i\<lparr>it_prev := NULL\<rparr>) e)
       else do {
         let before = it_prev (mem e p);
         let e = upd_item cursor (\<lambda>i. i\<lparr>it_next := p, it_prev := before\<rparr>) e;
         guard (before \<noteq> NULL);
         let e = upd_item before (\<lambda>i. i\<lparr>it_next := cursor\<rparr>) e;
         Some (p, False, upd_item p (\<lambda>i. i\<lparr>it_prev := cursor\<rparr>) e)
       }
     }"

partial_function (option) walk_cursor ::
    "iterfunc \<Rightarrow> ptr \<Rightarrow> nat \<Rightarrow> nat \<Rightarrow> default_engine \<Rightarrow> (bool \<times> ENGINE_ERROR_CODE \<times> default_engine) option" where
  "walk_cursor itemfunc cursor steplength ii e =
     (if it_prev (mem e cursor) \<noteq> NULL \<and> ii < steplength then
        do {
          (p, done, e) \<leftarrow> move_cursor e cursor;
          if it_nkey (mem e p) = 0 \<and> it_nbytes (mem e p) = 0 then
            (if done then Some (False, ENGINE_SUCCESS, e) else walk_cursor itemfunc cursor steplength ii e)
          else do {
            (err, e) \<leftarrow> itemfunc e p;
            if err \<noteq> ENGINE_SUCCESS \<or> done then Some (False, err, e)
            else walk_cursor itemfunc cursor steplength (ii + 1) e
          }
        }
      else Some (it_prev (mem e cursor) \<noteq> NULL, ENGINE_SUCCESS, e))"

definition do_item_walk_cursor ::
    "default_engine \<Rightarrow> ptr \<Rightarrow> nat \<Rightarrow> iterfunc \<Rightarrow> (bool \<times> ENGINE_ERROR_CODE \<times> default_engine) option" where
  "do_item_walk_cursor e cursor steplength itemfunc = walk_cursor itemfunc cursor steplength 0 e"

section \<open>The scrubber\<close>

definition item_scrub :: iterfunc where
  "item_scrub e it =
     (let e = e\<lparr>scrubber := (scrubber e)\<lparr>sr_visited := sr_visited (scrubber e) + 1\<rparr>\<rparr> in
      if reclaimable (current_time e) (mem e it) then
        do {
          e \<leftarrow> do_item_unlink e it;
          Some (ENGINE_SUCCESS, e\<lparr>scrubber := (scrubber e)\<lparr>sr_cleaned := sr_cleaned (scrubber e) + 1\<rparr>\<rparr>)
        }
      else Some (ENGINE_SUCCESS, e))"

text \<open>The lock is released between two rounds of 200 items.\<close>

partial_function (option) item_scrub_class :: "ptr \<Rightarrow> default_engine \<Rightarrow> default_engine option" where
  "item_scrub_class cursor e =
     do {
       (more, ret, e) \<leftarrow> do_item_walk_cursor e cursor 200 item_scrub;
       if ret \<noteq> ENGINE_SUCCESS then Some e
       else if more then item_scrub_class cursor e
       else Some e
     }"

fun scrub_classes :: "ptr \<Rightarrow> nat list \<Rightarrow> default_engine \<Rightarrow> default_engine option" where
  "scrub_classes cursor [] e = Some e"
| "scrub_classes cursor (ii # iis) e =
     do {
       head \<leftarrow> arr_get (heads (items e)) ii;
       e \<leftarrow> (if head = NULL then Some e
             else do { e \<leftarrow> do_item_link_cursor e cursor ii; item_scrub_class cursor e });
       scrub_classes cursor iis e
     }"

text \<open>\<open>cursor\<close> is the address of the local variable of the thread.\<close>

definition item_scubber_main :: "ptr \<Rightarrow> default_engine \<Rightarrow> default_engine option" where
  "item_scubber_main cursor e =
     do {
       e \<leftarrow> scrub_classes cursor [0..<POWER_LARGEST] (upd_item cursor (\<lambda>_. zero_item\<lparr>it_refcount := 1\<rparr>) e);
       Some (e\<lparr>scrubber := (scrubber e)\<lparr>sr_stopped := srv_wallclock (srv e), sr_running := False\<rparr>\<rparr>)
     }"

definition item_start_scrub :: "default_engine \<Rightarrow> bool \<times> default_engine" where
  "item_start_scrub e =
     (if sr_running (scrubber e) then (False, e)
      else
        (let e = e\<lparr>scrubber := \<lparr>sr_running = True, sr_visited = 0, sr_cleaned = 0,
                                sr_started = srv_wallclock (srv e), sr_stopped = 0\<rparr>\<rparr>;
             (ok1, e) = os_call e;
             (ok2, e) = (if ok1 then os_call e else (False, e));
             (ok3, e) = (if ok2 then os_call e else (False, e))
         in if ok3 then (True, e)
            else (False, e\<lparr>scrubber := (scrubber e)\<lparr>sr_running := False\<rparr>\<rparr>)))"

section \<open>Tap streams\<close>

datatype tap_event =
    TAP_MUTATION | TAP_DELETION | TAP_FLUSH | TAP_OPAQUE | TAP_VBUCKET_SET | TAP_ACK | TAP_DISCONNECT
  | TAP_NOOP | TAP_PAUSE | TAP_CHECKPOINT_START | TAP_CHECKPOINT_END

definition item_tap_iterfunc :: "ptr \<Rightarrow> iterfunc" where
  "item_tap_iterfunc client e it =
     Some (ENGINE_SUCCESS, upd_item it (\<lambda>i. i\<lparr>it_refcount := it_refcount i + 1\<rparr>)
                             (e\<lparr>tap_it := (tap_it e)(client := it)\<rparr>))"

text \<open>The next class with items, from \<open>ii\<close> on; the cursor is put at its tail.\<close>

fun link_next_class :: "ptr \<Rightarrow> nat list \<Rightarrow> default_engine \<Rightarrow> (bool \<times> default_engine) option" where
  "link_next_class cursor [] e = Some (False, e)"
| "link_next_class cursor (ii # iis) e =
     do {
       head \<leftarrow> arr_get (heads (items e)) ii;
       if head \<noteq> NULL then do { e \<leftarrow> do_item_link_cursor e cursor ii; Some (True, e) }
       else link_next_class cursor iis e
     }"

partial_function (option) tap_loop :: "ptr \<Rightarrow> default_engine \<Rightarrow> default_engine option" where
  "tap_loop client e =
     do {
       (more, r, e) \<leftarrow> do_item_walk_cursor e client 1 (item_tap_iterfunc client);
       (stop, e) \<leftarrow>
         (if \<not> more then
            do {
              (linked, e) \<leftarrow> link_next_class client [unat (it_clsid (mem e client)) + 1..<POWER_LARGEST] e;
              Some (\<not> linked, e)
            }
          else Some (False, e));
       if stop then Some e
       else if tap_it e client = NULL then tap_loop client e
       else Some e
     }"

text \<open>The event and the item; the other outputs are constants.\<close>

definition do_item_tap_walker :: "default_engine \<Rightarrow> nat \<Rightarrow> (tap_event \<times> ptr \<times> default_engine) option" where
  "do_item_tap_walker e cookie =
     (let client = srv_specific (srv e) cookie in
      if client = NULL then Some (TAP_DISCONNECT, NULL, e)
      else do {
        e \<leftarrow> tap_loop client (e\<lparr>tap_it := (tap_it e)(client := NULL)\<rparr>);
        let itm = tap_it e client;
        Some (if itm = NULL then TAP_DISCONNECT else TAP_MUTATION, itm, e)
      })"

definition item_tap_walker :: "default_engine \<Rightarrow> nat \<Rightarrow> (tap_event \<times> ptr \<times> default_engine) option" where
  "item_tap_walker e cookie = do_item_tap_walker e cookie"

definition sizeof_tap_client :: nat where "sizeof_tap_client = 56"

definition initialize_item_tap_walker :: "default_engine \<Rightarrow> nat \<Rightarrow> (bool \<times> default_engine) option" where
  "initialize_item_tap_walker e cookie =
     (let (client, e) = malloc sizeof_tap_client e in
      if client = NULL then Some (False, e)
      else do {
        let e = upd_item client (\<lambda>_. zero_item\<lparr>it_refcount := 1\<rparr>) (e\<lparr>tap_it := (tap_it e)(client := NULL)\<rparr>);
        (linked, e) \<leftarrow> link_next_class client [0..<POWER_LARGEST] e;
        Some (True, e\<lparr>srv := (srv e)\<lparr>srv_specific := (srv_specific (srv e))(cookie := client)\<rparr>\<rparr>)
      })"

end
