(* ===== verification/Engine.thy ===== *)
theory Engine
  imports Items_Walk
begin

unbundle bit_operations_syntax

text \<open>
  The engine interface, \<^verbatim>\<open>memcached/engines/default_engine/default_engine.c\<close>: the functions that the
  server calls. A function that can block the calling thread takes the locks of the layers below;
  logging is left out. A client is identified by its cookie, a natural number other than 0.
\<close>

section \<open>Virtual buckets\<close>

text \<open>
  The states are an enumeration from 1 to 4, kept in a signed bit field of two bits in a \<^verbatim>\<open>char\<close>.
\<close>

definition vbucket_state_active :: u32 where "vbucket_state_active = 1"
definition vbucket_state_replica :: u32 where "vbucket_state_replica = 2"
definition vbucket_state_pending :: u32 where "vbucket_state_pending = 3"
definition vbucket_state_dead :: u32 where "vbucket_state_dead = 4"

definition is_valid_vbucket_state_t :: "u32 \<Rightarrow> bool" where
  "is_valid_vbucket_state_t s = (s = vbucket_state_active \<or> s = vbucket_state_replica
     \<or> s = vbucket_state_pending \<or> s = vbucket_state_dead)"

definition set_vbucket_state :: "default_engine \<Rightarrow> u16 \<Rightarrow> u32 \<Rightarrow> default_engine" where
  "set_vbucket_state e vbid to =
     (let c = vbucket_infos e vbid;
          c' = (c AND NOT 3) OR (ucast to AND 3)
      in e\<lparr>vbucket_infos := (vbucket_infos e)(vbid := c')\<rparr>)"

definition get_vbucket_state :: "default_engine \<Rightarrow> u16 \<Rightarrow> u32" where
  "get_vbucket_state e vbid = signed_take_bit 1 (ucast (vbucket_infos e vbid))"

definition handled_vbucket :: "default_engine \<Rightarrow> u16 \<Rightarrow> bool" where
  "handled_vbucket e vbid =
     (ignore_vbucket (config e) \<or> get_vbucket_state e vbid = vbucket_state_active)"

definition vbucket_state_name :: "u32 \<Rightarrow> string" where
  "vbucket_state_name s =
     (if s = vbucket_state_active then ''active''
      else if s = vbucket_state_replica then ''replica''
      else if s = vbucket_state_pending then ''pending''
      else if s = vbucket_state_dead then ''dead''
      else ''Illegal vbucket state'')"

section \<open>Creating and destroying an engine\<close>

text \<open>
  \<open>api\<close> is what \<^verbatim>\<open>get_server_api\<close> returns, \<open>l\<close> the system the engine runs on, \<open>m\<close> the contents of the
  memory and \<open>cas0\<close> the static CAS counter.
\<close>

definition default_config :: config where
  "default_config = \<lparr>use_cas = True, verbose = 0, oldest_live = 0, evict_to_free = True,
     maxbytes = 64 * 1024 * 1024, preallocate = False, factor = 5 / 4, chunk_size = 48,
     item_size_max = 1024 * 1024, ignore_vbucket = False, vb0 = False\<rparr>"

definition zero_stats :: engine_stats where
  "zero_stats = \<lparr>st_evictions = 0, st_reclaimed = 0, st_curr_bytes = 0, st_curr_items = 0, st_total_items = 0\<rparr>"

definition zero_itemstats :: itemstats where
  "zero_itemstats = \<lparr>evicted = 0, evicted_nonzero = 0, evicted_time = 0, outofmemory = 0,
     tailrepairs = 0, reclaimed = 0\<rparr>"

definition create_instance ::
    "u64 \<Rightarrow> server option \<Rightarrow> os \<Rightarrow> item_mem \<Rightarrow> u64 \<Rightarrow> ENGINE_ERROR_CODE \<times> default_engine option" where
  "create_instance interface api l m cas0 =
     (case api of
        None \<Rightarrow> (ENGINE_ENOTSUP, None)
      | Some s \<Rightarrow>
          if interface \<noteq> 1 then (ENGINE_ENOTSUP, None)
          else if \<not> os_ok l (os_tick l) then (ENGINE_ENOMEM, None)
          else if \<not> os_ok l (Suc (os_tick l)) then (ENGINE_ENOMEM, None)
          else (ENGINE_SUCCESS, Some \<lparr>
            srv = s, os = l\<lparr>os_tick := os_tick l + 2\<rparr>, mem = m, initialized = True,
            assoc = \<lparr>hashpower = 16, primary_hashtable = [], old_hashtable = [], hash_items = 0,
                     expanding = False, expand_bucket = 0\<rparr>,
            slabs = \<lparr>slabclasses = replicate MAX_NUMBER_OF_SLAB_CLASSES zero_slabclass, mem_limit = 0,
                     mem_malloced = 0, power_largest = 0, mem_base = NULL, mem_current = NULL, mem_avail = 0\<rparr>,
            items = \<lparr>heads = replicate POWER_LARGEST NULL, tails = replicate POWER_LARGEST NULL,
                     itemstats = replicate POWER_LARGEST zero_itemstats, sizes = replicate POWER_LARGEST 0\<rparr>,
            config = default_config,
            stats = zero_stats,
            scrubber = \<lparr>sr_running = False, sr_visited = 0, sr_cleaned = 0, sr_started = 0, sr_stopped = 0\<rparr>,
            tap_clients = replicate 10 0,
            vbucket_infos = (\<lambda>_. 0),
            num_features = 1,
            cas_id = cas0,
            tap_it = (\<lambda>_. NULL)\<rparr>))"

definition default_get_info :: "default_engine \<Rightarrow> nat" where
  "default_get_info e = num_features e"

text \<open>
  \<open>parse\<close> is the server's \<^verbatim>\<open>parse_config\<close> on the table of the engine's settings: the return value and
  the settings it leaves. It returns an \<^verbatim>\<open>int\<close> that is passed on as an error code.
\<close>

definition initalize_configuration ::
    "(byte list \<Rightarrow> config \<Rightarrow> int \<times> config) \<Rightarrow> default_engine \<Rightarrow> byte list option \<Rightarrow> int \<times> default_engine" where
  "initalize_configuration parse e cfg_str =
     (let e = e\<lparr>config := (config e)\<lparr>vb0 := True\<rparr>\<rparr>;
          (ret, e) = (case cfg_str of None \<Rightarrow> (0, e)
                      | Some cfg \<Rightarrow> let (ret, c) = parse cfg (config e) in (ret, e\<lparr>config := c\<rparr>));
          e = (if vb0 (config e) then set_vbucket_state e 0 vbucket_state_active else e)
      in (ret, e))"

fun engine_error :: "ENGINE_ERROR_CODE \<Rightarrow> int" where
  "engine_error ENGINE_SUCCESS = 0"
| "engine_error ENGINE_KEY_ENOENT = 1"
| "engine_error ENGINE_KEY_EEXISTS = 2"
| "engine_error ENGINE_ENOMEM = 3"
| "engine_error ENGINE_NOT_STORED = 4"
| "engine_error ENGINE_EINVAL = 5"
| "engine_error ENGINE_ENOTSUP = 6"
| "engine_error ENGINE_EWOULDBLOCK = 7"
| "engine_error ENGINE_E2BIG = 8"
| "engine_error ENGINE_WANT_MORE = 9"
| "engine_error ENGINE_DISCONNECT = 10"
| "engine_error ENGINE_EACCESS = 11"
| "engine_error ENGINE_NOT_MY_VBUCKET = 12"
| "engine_error ENGINE_TMPFAIL = 13"
| "engine_error ENGINE_FAILED = 255"

definition default_initialize ::
    "(rat \<Rightarrow> rat) \<Rightarrow> u64 option \<Rightarrow> (byte list \<Rightarrow> config \<Rightarrow> int \<times> config) \<Rightarrow> default_engine \<Rightarrow> byte list option
     \<Rightarrow> (int \<times> default_engine) option" where
  "default_initialize rnd t_initial_malloc parse e config_str =
     (let (ret, e) = initalize_configuration parse e config_str in
      if ret \<noteq> 0 then Some (ret, e)
      else
        (let e = (if use_cas (config e) then e\<lparr>num_features := num_features e + 1\<rparr> else e);
             (ret, e) = assoc_init e
         in if ret \<noteq> ENGINE_SUCCESS then Some (engine_error ret, e)
            else do {
              (ret, e) \<leftarrow> slabs_init rnd t_initial_malloc e (maxbytes (config e)) (factor (config e))
                            (preallocate (config e));
              Some (engine_error ret, e)
            }))"

definition default_destroy :: "default_engine \<Rightarrow> bool \<Rightarrow> default_engine" where
  "default_destroy e force = (if initialized e then e\<lparr>initialized := False\<rparr> else e)"

section \<open>Items\<close>

definition default_item_allocate ::
    "default_engine \<Rightarrow> key \<Rightarrow> u64 \<Rightarrow> u32 \<Rightarrow> u32 \<Rightarrow> (ENGINE_ERROR_CODE \<times> ptr \<times> default_engine) option" where
  "default_item_allocate e k nbytes flags exptime =
     do {
       let ntotal = sizeof_hash_item + of_nat (length k) + nbytes;
       let ntotal = (if use_cas (config e) then ntotal + 8 else ntotal);
       clsid \<leftarrow> slabs_clsid e ntotal;
       if clsid = 0 then Some (ENGINE_E2BIG, NULL, e)
       else do {
         (it, e) \<leftarrow> item_alloc e k flags (srv_realtime (srv e) (uint exptime)) (ucast nbytes);
         if it \<noteq> NULL then Some (ENGINE_SUCCESS, it, e) else Some (ENGINE_ENOMEM, NULL, e)
       }
     }"

definition default_item_delete ::
    "default_engine \<Rightarrow> key \<Rightarrow> u64 \<Rightarrow> u16 \<Rightarrow> (ENGINE_ERROR_CODE \<times> default_engine) option" where
  "default_item_delete e k cas vbucket =
     (if \<not> handled_vbucket e vbucket then Some (ENGINE_NOT_MY_VBUCKET, e)
      else do {
        (it, e) \<leftarrow> item_get e k;
        if it = NULL then Some (ENGINE_KEY_ENOENT, e)
        else if cas = 0 \<or> cas = item_get_cas (mem e it) then
          do {
            e \<leftarrow> item_unlink e it;
            e \<leftarrow> item_release e it;
            Some (ENGINE_SUCCESS, e)
          }
        else Some (ENGINE_KEY_EEXISTS, e)
      })"

definition default_item_release :: "default_engine \<Rightarrow> ptr \<Rightarrow> default_engine option" where
  "default_item_release e it = item_release e it"

definition default_get ::
    "default_engine \<Rightarrow> key \<Rightarrow> u16 \<Rightarrow> (ENGINE_ERROR_CODE \<times> ptr \<times> default_engine) option" where
  "default_get e k vbucket =
     (if \<not> handled_vbucket e vbucket then Some (ENGINE_NOT_MY_VBUCKET, NULL, e)
      else do {
        (it, e) \<leftarrow> item_get e k;
        Some (if it \<noteq> NULL then ENGINE_SUCCESS else ENGINE_KEY_ENOENT, it, e)
      })"

definition default_store ::
    "default_engine \<Rightarrow> ptr \<Rightarrow> u64 \<Rightarrow> ENGINE_STORE_OPERATION \<Rightarrow> u16
     \<Rightarrow> (ENGINE_ERROR_CODE \<times> u64 \<times> default_engine) option" where
  "default_store e it cas operation vbucket =
     (if \<not> handled_vbucket e vbucket then Some (ENGINE_NOT_MY_VBUCKET, cas, e)
      else store_item e it cas operation)"

definition default_arithmetic ::
    "default_engine \<Rightarrow> key \<Rightarrow> bool \<Rightarrow> bool \<Rightarrow> u64 \<Rightarrow> u64 \<Rightarrow> u32 \<Rightarrow> u64 \<Rightarrow> u64 \<Rightarrow> u16
     \<Rightarrow> (ENGINE_ERROR_CODE \<times> u64 \<times> u64 \<times> default_engine) option" where
  "default_arithmetic e k increment create delta initial exptime cas result vbucket =
     (if \<not> handled_vbucket e vbucket then Some (ENGINE_NOT_MY_VBUCKET, cas, result, e)
      else arithmetic e k increment create delta initial (srv_realtime (srv e) (uint exptime)) cas result)"

definition default_flush :: "default_engine \<Rightarrow> int \<Rightarrow> (ENGINE_ERROR_CODE \<times> default_engine) option" where
  "default_flush e when =
     do {
       e \<leftarrow> item_flush_expired e when;
       Some (ENGINE_SUCCESS, e)
     }"

definition default_reset_stats :: "default_engine \<Rightarrow> default_engine" where
  "default_reset_stats e =
     upd_stats (\<lambda>s. s\<lparr>st_evictions := 0, st_reclaimed := 0, st_total_items := 0\<rparr>) (item_stats_reset e)"

text \<open>What the server learns of an item; \<open>nvalue\<close> is the room it offers for value parts.\<close>

record item_info =
  info_cas :: u64
  info_exptime :: u32
  info_nbytes :: u32
  info_flags :: u32
  info_clsid :: u8
  info_nkey :: u16
  info_nvalue :: u16
  info_key :: "byte list"
  info_value :: "byte list"

definition get_item_info :: "default_engine \<Rightarrow> ptr \<Rightarrow> item_info \<Rightarrow> bool \<times> item_info" where
  "get_item_info e it info =
     (let i = mem e it in
      if info_nvalue info < 1 then (False, info)
      else (True, \<lparr>info_cas = item_get_cas i, info_exptime = it_exptime i, info_nbytes = it_nbytes i,
                   info_flags = it_flags i, info_clsid = it_clsid i, info_nkey = it_nkey i, info_nvalue = 1,
                   info_key = item_get_key i, info_value = item_get_data i\<rparr>))"

definition item_get_clsid :: "hash_item \<Rightarrow> u8" where
  "item_get_clsid it = 0"

section \<open>Statistics\<close>

definition stats_vbucket :: "default_engine \<Rightarrow> stat list" where
  "stats_vbucket e =
     map (\<lambda>i. (str ''vb_'' @ print_int (int i), str (vbucket_state_name (get_vbucket_state e (of_nat i)))))
       (filter (\<lambda>i. get_vbucket_state e (of_nat i) \<noteq> vbucket_state_dead) [0..<65536])"

definition general_stats :: "default_engine \<Rightarrow> stat list" where
  "general_stats e =
     [(str ''evictions'', print_u (st_evictions (stats e))),
      (str ''curr_items'', print_u (st_curr_items (stats e))),
      (str ''total_items'', print_u (st_total_items (stats e))),
      (str ''bytes'', print_u (st_curr_bytes (stats e))),
      (str ''reclaimed'', print_u (st_reclaimed (stats e))),
      (str ''engine_maxbytes'', print_u (maxbytes (config e)))]"

definition scrub_stats :: "default_engine \<Rightarrow> stat list" where
  "scrub_stats e =
     (let s = scrubber e in
      [(str ''scrubber:status'', str (if sr_running s then ''running'' else ''stopped''))]
      @ (if sr_started s \<noteq> 0 then
           (if sr_stopped s \<noteq> 0
            then [(str ''scrubber:last_run'', print_u (word_of_int (sr_started s - sr_stopped s) :: u64))] else [])
           @ [(str ''scrubber:visited'', print_u (sr_visited s)),
              (str ''scrubber:cleaned'', print_u (sr_cleaned s))]
         else []))"

definition default_get_stats ::
    "default_engine \<Rightarrow> byte list option \<Rightarrow> (ENGINE_ERROR_CODE \<times> stat list \<times> default_engine) option" where
  "default_get_stats e stat_key =
     (case stat_key of
        None \<Rightarrow> Some (ENGINE_SUCCESS, general_stats e, e)
      | Some key \<Rightarrow>
          if take 5 key = str ''slabs'' then
            do { out \<leftarrow> slabs_stats e; Some (ENGINE_SUCCESS, out, e) }
          else if take 5 key = str ''items'' then
            do { (out, e) \<leftarrow> item_stats e; Some (ENGINE_SUCCESS, out, e) }
          else if take 5 key = str ''sizes'' then
            do { (out, e) \<leftarrow> item_stats_sizes e; Some (ENGINE_SUCCESS, out, e) }
          else if take 7 key = str ''vbucket'' then Some (ENGINE_SUCCESS, stats_vbucket e, e)
          else if take 5 key = str ''scrub'' then Some (ENGINE_SUCCESS, scrub_stats e, e)
          else Some (ENGINE_KEY_ENOENT, [], e))"

section \<open>Commands of the binary protocol\<close>

text \<open>
  The parts of a request the engine looks at. The fields hold the values after the conversion from
  network byte order; \<open>rq_word\<close> is the body of a \<^verbatim>\<open>SET_VBUCKET\<close> (the state) and the extras of a
  \<^verbatim>\<open>TOUCH\<close> (the expiration).
\<close>

record request =
  rq_opcode :: u8
  rq_keylen :: u16
  rq_extlen :: u8
  rq_vbucket :: u16
  rq_bodylen :: u32
  rq_word :: u32
  rq_key :: key

record response =
  rs_ext :: "byte list"
  rs_body :: "byte list"
  rs_status :: u16
  rs_cas :: u64

definition PROTOCOL_BINARY_RESPONSE_SUCCESS :: u16 where "PROTOCOL_BINARY_RESPONSE_SUCCESS = 0"
definition PROTOCOL_BINARY_RESPONSE_KEY_ENOENT :: u16 where "PROTOCOL_BINARY_RESPONSE_KEY_ENOENT = 1"
definition PROTOCOL_BINARY_RESPONSE_EINVAL :: u16 where "PROTOCOL_BINARY_RESPONSE_EINVAL = 4"
definition PROTOCOL_BINARY_RESPONSE_UNKNOWN_COMMAND :: u16 where "PROTOCOL_BINARY_RESPONSE_UNKNOWN_COMMAND = 0x81"
definition PROTOCOL_BINARY_RESPONSE_EBUSY :: u16 where "PROTOCOL_BINARY_RESPONSE_EBUSY = 0x85"

definition PROTOCOL_BINARY_CMD_TOUCH :: u8 where "PROTOCOL_BINARY_CMD_TOUCH = 0x1c"
definition PROTOCOL_BINARY_CMD_GAT :: u8 where "PROTOCOL_BINARY_CMD_GAT = 0x1d"
definition PROTOCOL_BINARY_CMD_GATQ :: u8 where "PROTOCOL_BINARY_CMD_GATQ = 0x1e"
definition PROTOCOL_BINARY_CMD_SET_VBUCKET :: u8 where "PROTOCOL_BINARY_CMD_SET_VBUCKET = 0x3d"
definition PROTOCOL_BINARY_CMD_GET_VBUCKET :: u8 where "PROTOCOL_BINARY_CMD_GET_VBUCKET = 0x3e"
definition PROTOCOL_BINARY_CMD_DEL_VBUCKET :: u8 where "PROTOCOL_BINARY_CMD_DEL_VBUCKET = 0x3f"
definition PROTOCOL_BINARY_CMD_SCRUB :: u8 where "PROTOCOL_BINARY_CMD_SCRUB = 0xf0"

text \<open>The bytes of a word in memory on a little-endian machine, and in network order.\<close>

definition host32 :: "u32 \<Rightarrow> byte list" where
  "host32 w = [ucast w, ucast (drop_bit 8 w), ucast (drop_bit 16 w), ucast (drop_bit 24 w)]"

definition net32 :: "u32 \<Rightarrow> byte list" where
  "net32 w = rev (host32 w)"

definition reply :: "u16 \<Rightarrow> response" where
  "reply st = \<lparr>rs_ext = [], rs_body = [], rs_status = st, rs_cas = 0\<rparr>"

text \<open>Every command answers with the response it sends, if any, and the new state.\<close>

definition set_vbucket :: "default_engine \<Rightarrow> request \<Rightarrow> response \<times> default_engine" where
  "set_vbucket e req =
     (let bodylen = (ucast (rq_bodylen req) :: u64) - ucast (rq_keylen req) in
      if bodylen \<noteq> 4 then
        ((reply PROTOCOL_BINARY_RESPONSE_EINVAL)\<lparr>rs_body := str ''Incorrect packet format''\<rparr>, e)
      else if \<not> is_valid_vbucket_state_t (rq_word req) then
        ((reply PROTOCOL_BINARY_RESPONSE_EINVAL)\<lparr>rs_body := str ''Invalid vbucket state''\<rparr>, e)
      else ((reply PROTOCOL_BINARY_RESPONSE_SUCCESS)\<lparr>rs_body := host32 (rq_word req)\<rparr>,
            set_vbucket_state e (rq_vbucket req) (rq_word req)))"

definition get_vbucket :: "default_engine \<Rightarrow> request \<Rightarrow> response" where
  "get_vbucket e req =
     (reply PROTOCOL_BINARY_RESPONSE_SUCCESS)\<lparr>rs_body := net32 (get_vbucket_state e (rq_vbucket req))\<rparr>"

definition rm_vbucket :: "default_engine \<Rightarrow> request \<Rightarrow> response \<times> default_engine" where
  "rm_vbucket e req =
     (reply PROTOCOL_BINARY_RESPONSE_SUCCESS, set_vbucket_state e (rq_vbucket req) vbucket_state_dead)"

definition scrub_cmd :: "default_engine \<Rightarrow> response \<times> default_engine" where
  "scrub_cmd e =
     (let (started, e) = item_start_scrub e in
      (reply (if started then PROTOCOL_BINARY_RESPONSE_SUCCESS else PROTOCOL_BINARY_RESPONSE_EBUSY), e))"

definition touch :: "default_engine \<Rightarrow> request \<Rightarrow> (response option \<times> default_engine) option" where
  "touch e req =
     (if rq_extlen req \<noteq> 4 \<or> rq_keylen req = 0 then
        Some (Some (reply PROTOCOL_BINARY_RESPONSE_EINVAL), e)
      else do {
        (it, e) \<leftarrow> touch_item e (take (unat (rq_keylen req)) (rq_key req))
                    (srv_realtime (srv e) (uint (rq_word req)));
        if it = NULL then
          Some (if rq_opcode req = PROTOCOL_BINARY_CMD_GATQ then None
                else Some (reply PROTOCOL_BINARY_RESPONSE_KEY_ENOENT), e)
        else do {
          let i = mem e it;
          let r = (if rq_opcode req = PROTOCOL_BINARY_CMD_TOUCH then reply PROTOCOL_BINARY_RESPONSE_SUCCESS
                   else \<lparr>rs_ext = host32 (it_flags i), rs_body = item_get_data i,
                         rs_status = PROTOCOL_BINARY_RESPONSE_SUCCESS, rs_cas = item_get_cas i\<rparr>);
          e \<leftarrow> item_release e it;
          Some (Some r, e)
        }
      })"

text \<open>\<open>send\<close> is the server's response callback: whether the response could be queued.\<close>

definition default_unknown_command ::
    "(response \<Rightarrow> bool) \<Rightarrow> default_engine \<Rightarrow> request
     \<Rightarrow> (ENGINE_ERROR_CODE \<times> response option \<times> default_engine) option" where
  "default_unknown_command send e req =
     do {
       (rsp, e) \<leftarrow>
         (if rq_opcode req = PROTOCOL_BINARY_CMD_SCRUB then
            (let (r, e) = scrub_cmd e in Some (Some r, e))
          else if rq_opcode req = PROTOCOL_BINARY_CMD_DEL_VBUCKET then
            (let (r, e) = rm_vbucket e req in Some (Some r, e))
          else if rq_opcode req = PROTOCOL_BINARY_CMD_SET_VBUCKET then
            (let (r, e) = set_vbucket e req in Some (Some r, e))
          else if rq_opcode req = PROTOCOL_BINARY_CMD_GET_VBUCKET then Some (Some (get_vbucket e req), e)
          else if rq_opcode req \<in> {PROTOCOL_BINARY_CMD_TOUCH, PROTOCOL_BINARY_CMD_GAT, PROTOCOL_BINARY_CMD_GATQ}
          then touch e req
          else Some (Some (reply PROTOCOL_BINARY_RESPONSE_UNKNOWN_COMMAND), e));
       Some (case rsp of None \<Rightarrow> ENGINE_SUCCESS
             | Some r \<Rightarrow> if send r then ENGINE_SUCCESS else ENGINE_FAILED, rsp, e)
     }"

section \<open>Replication\<close>

text \<open>
  \<open>vb\<close> is the engine specific part of the packet, read as a word, and \<open>nengine\<close> its length.
\<close>

definition tap_mutation ::
    "default_engine \<Rightarrow> nat \<Rightarrow> key \<Rightarrow> u32 \<Rightarrow> u32 \<Rightarrow> u64 \<Rightarrow> byte list \<Rightarrow> u16 \<Rightarrow> (ENGINE_ERROR_CODE \<times> default_engine) option" where
  "tap_mutation e cookie k flags exptime cas data vbucket =
     do {
       let it = srv_specific (srv e) cookie;
       (ret, it, e) \<leftarrow> (if it = NULL then default_item_allocate e k (of_nat (length data)) flags exptime
                         else Some (ENGINE_SUCCESS, it, e));
       if ret = ENGINE_ENOMEM then Some (ENGINE_TMPFAIL, e)
       else if ret \<noteq> ENGINE_SUCCESS then Some (ret, e)
       else do {
         let e = upd_item it (data_write 0 data) e;
         let e = e\<lparr>srv := (srv e)\<lparr>srv_specific := (srv_specific (srv e))(cookie := NULL)\<rparr>\<rparr>;
         let e = upd_item it (item_set_cas cas) e;
         (ret, cas, e) \<leftarrow> default_store e it cas OPERATION_SET vbucket;
         if ret = ENGINE_EWOULDBLOCK then
           Some (ret, e\<lparr>srv := (srv e)\<lparr>srv_specific := (srv_specific (srv e))(cookie := it)\<rparr>\<rparr>)
         else do { e \<leftarrow> item_release e it; Some (ret, e) }
       }
     }"

definition default_tap_notify ::
    "default_engine \<Rightarrow> nat \<Rightarrow> u32 \<Rightarrow> u16 \<Rightarrow> tap_event \<Rightarrow> key \<Rightarrow> u32 \<Rightarrow> u32 \<Rightarrow> u64 \<Rightarrow> byte list \<Rightarrow> u16
     \<Rightarrow> (ENGINE_ERROR_CODE \<times> default_engine) option" where
  "default_tap_notify e cookie vb nengine tap_event k flags exptime cas data vbucket =
     (case tap_event of
        TAP_ACK \<Rightarrow> None
      | TAP_FLUSH \<Rightarrow> default_flush e 0
      | TAP_DELETION \<Rightarrow> default_item_delete e k cas vbucket
      | TAP_MUTATION \<Rightarrow> tap_mutation e cookie k flags exptime cas data vbucket
      | TAP_VBUCKET_SET \<Rightarrow>
          if nengine \<noteq> 4 then Some (ENGINE_DISCONNECT, e)
          else if \<not> is_valid_vbucket_state_t vb then Some (ENGINE_DISCONNECT, e)
          else Some (ENGINE_SUCCESS, set_vbucket_state e vbucket vb)
      | _ \<Rightarrow> Some (ENGINE_SUCCESS, e))"

definition TAP_CONNECT_FLAG_TAKEOVER_VBUCKETS :: u32 where "TAP_CONNECT_FLAG_TAKEOVER_VBUCKETS = 8"

fun first_free :: "nat list \<Rightarrow> nat \<Rightarrow> nat" where
  "first_free [] ii = ii"
| "first_free (c # cs) ii = (if c = 0 then ii else first_free cs (ii + 1))"

text \<open>Whether an iterator (always \<^verbatim>\<open>item_tap_walker\<close>) is returned.\<close>

definition default_get_tap_iterator :: "default_engine \<Rightarrow> nat \<Rightarrow> u32 \<Rightarrow> (bool \<times> default_engine) option" where
  "default_get_tap_iterator e cookie flags =
     (if flags AND TAP_CONNECT_FLAG_TAKEOVER_VBUCKETS \<noteq> 0 then Some (False, e)
      else
        (let ii = first_free (tap_clients e) 0 in
         if ii = length (tap_clients e) then Some (False, e)
         else do {
           let e = e\<lparr>tap_clients := (tap_clients e)[ii := cookie]\<rparr>;
           (ok, e) \<leftarrow> initialize_item_tap_walker e cookie;
           if \<not> ok then Some (False, e\<lparr>tap_clients := (tap_clients e)[ii := 0]\<rparr>)
           else Some (True, e)
         }))"

text \<open>The address that is freed when a client disconnects; the array of clients is not changed.\<close>

definition default_handle_disconnect :: "default_engine \<Rightarrow> nat \<Rightarrow> ptr option" where
  "default_handle_disconnect e cookie =
     (if cookie \<in> set (tap_clients e) then Some (srv_specific (srv e) cookie) else None)"

end
