(* ===== verification/Engine_Cache.thy ===== *)
theory Engine_Cache
  imports Cache_Ops Sample_Cache Engine
begin

unbundle bit_operations_syntax

text \<open>
  The functions of the engine interface as operations on the cache, the map from keys to entries:
  looking up, storing, joining, deleting, allocating, touching, counting and releasing, and the
  guard of the virtual buckets.
\<close>

section \<open>The functions of the engine interface on the cache\<close>

lemmas locked = item_alloc_def item_get_def item_release_def item_unlink_def arithmetic_def store_item_def touch_item_def

lemma handled_vbucket_frame: "env_frame e e' \<Longrightarrow> handled_vbucket e' vb = handled_vbucket e vb"
  by (simp add: handled_vbucket_def get_vbucket_state_def env_frameD)

lemma value_of_same_seen: "same_seen e e' x \<Longrightarrow> value_of (mem e' x) = value_of (mem e x)"
  by (simp add: same_seen_def)

text \<open>An item that the hash table knows is not the null pointer.\<close>

lemma linked_not_NULL: "cache_inv e S C H \<Longrightarrow> x \<in> S \<Longrightarrow> x \<noteq> NULL"
  using lru_rep_not_NULL [OF engine_coreD(3) [OF cache_invD(3)], of e S C H] by (metis UnI1)

definition reads :: "default_engine \<Rightarrow> key \<Rightarrow> entry option \<Rightarrow> ENGINE_ERROR_CODE \<Rightarrow> ptr \<Rightarrow> default_engine \<Rightarrow> bool" where
  "reads e k v code x e' \<longleftrightarrow>
     (case v of None \<Rightarrow> code = ENGINE_KEY_ENOENT \<and> x = NULL
      | Some v \<Rightarrow> code = ENGINE_SUCCESS \<and> x \<noteq> NULL \<and> ikey e' x = k \<and> value_of (mem e' x) = v
          \<and> it_refcount (mem e' x) = it_refcount (mem e x) + 1)"

lemma get_reads:
  assumes inv: "cache_inv e S C H" and vb: "handled_vbucket e vb"
  shows "\<exists>code x e' S' H'. default_get e k vb = Some (code, x, e') \<and> reads e k (cache e k) code x e'
    \<and> cache_inv e' S' C H' \<and> H \<subseteq> H' \<and> S' \<subseteq> S \<and> (x \<noteq> NULL \<longrightarrow> x \<in> S' \<and> S' = S) \<and> env_frame e e' \<and> cache e' = cache e"
proof (cases "cache e k")
  case None
  then obtain e' S' H' where r: "do_item_get e k = Some (NULL, e')" "cache_inv e' S' C H'" "env_frame e e'"
      "H \<subseteq> H'" "S' \<subseteq> S" "cache e' = cache e"
    using get_miss [OF inv] by metis
  have "default_get e k vb = Some (ENGINE_KEY_ENOENT, NULL, e')"
    using r(1) vb by (simp add: default_get_def locked)
  with r None show ?thesis by (auto simp: reads_def)
next
  case (Some v)
  then obtain x e' where r: "do_item_get e k = Some (x, e')" "x \<in> S" "ikey e x = k" "v = value_of (mem e x)"
      "cache_inv e' S C H" "env_frame e e'" "\<forall>y. ikey e' y = ikey e y"
      "it_refcount (mem e' x) = it_refcount (mem e x) + 1" "same_seen e e' x" "cache e' = cache e"
    using get_hit [OF inv] by metis
  have "x \<noteq> NULL" using linked_not_NULL [OF inv r(2)] .
  moreover from this have "default_get e k vb = Some (ENGINE_SUCCESS, x, e')"
    using r(1) vb by (simp add: default_get_def locked)
  ultimately show ?thesis using r Some value_of_same_seen [OF r(9)] by (auto simp: reads_def)
qed

text \<open>
  C6. A lookup of a handled vbucket always returns. It reports the key as missing, with no item,
  exactly when the cache has no value under the key; otherwise it returns an item with this key
  and exactly the value, flags, expiration and CAS that the cache shows, and one more reference to
  it. The cache is the same afterwards and the invariant holds.
\<close>

theorem default_get_correct:
  assumes "cache_inv e S C H" "handled_vbucket e vb"
  shows "\<exists>code x e' S' H'. default_get e k vb = Some (code, x, e') \<and> reads e k (cache e k) code x e'
    \<and> cache_inv e' S' C H' \<and> H \<subseteq> H' \<and> (x \<noteq> NULL \<longrightarrow> x \<in> S') \<and> cache e' = cache e"
  using get_reads [OF assms, of k] by blast

section \<open>The small cache\<close>

lemma sample_handled: "env_frame sample_engine e \<Longrightarrow> handled_vbucket e 0"
proof -
  assume "env_frame sample_engine e"
  moreover have "handled_vbucket sample_engine 0"
    by (simp add: handled_vbucket_def get_vbucket_state_def vbucket_state_active_def sample_engine_def signed_take_bit_def)
  ultimately show ?thesis using handled_vbucket_frame by simp
qed

lemmas full_handled = sample_handled [OF sample_full(3)]
lemmas stored_handled = sample_handled [OF sample_stored(3)]

theorem default_get_correct_witness:
  "\<exists>x e'. default_get sample_stored [97] 0 = Some (ENGINE_SUCCESS, x, e')
    \<and> value_of (mem e' x) = ([49, 50], 7, 0, 1) \<and> cache e' = cache sample_stored"
  using default_get_correct [OF sample_stored(1) stored_handled, of "[97]"] sample_stored(2)
  by (auto simp: reads_def)

lemma default_store_handled:
  "handled_vbucket e vb \<Longrightarrow> default_store e it cas operation vb = do_store_item e it cas operation"
  by (simp add: default_store_def locked)

text \<open>
  C7. Set, add, replace and cas always return the code that the table of the commands gives for
  the value the cache shows under the key. On success the cache is the old one with exactly the
  new value under the key and the new CAS is returned; on failure the cache is unchanged. The
  items that other clients hold are still held.
\<close>

theorem default_store_correct:
  assumes "store_pre e S C H it" "handled_vbucket e vb" "operation \<notin> {OPERATION_APPEND, OPERATION_PREPEND}"
  shows "\<exists>code cas' e' S' H'. default_store e it cas operation vb = Some (code, cas', e')
    \<and> code = store_code operation (cache e (ikey e it)) (item_get_cas (mem e it))
    \<and> cache_inv e' S' C H' \<and> stored_ok e e' S' H H' it
    \<and> cache e' = (if code = ENGINE_SUCCESS then (cache e)(ikey e it := new_entry e it) else cache e)
    \<and> cas' = (if code = ENGINE_SUCCESS then new_cas e else cas)"
  unfolding default_store_handled [OF assms(2)] new_cas_def by (rule do_store_item_cache [OF assms(1,3)])

theorem default_store_correct_witness:
  "\<exists>cas' e' S' H'. default_store sample_full 131072 0 OPERATION_SET 0 = Some (ENGINE_SUCCESS, cas', e')
    \<and> cache_inv e' S' {} H' \<and> cache e' = [[97] \<mapsto> ([49, 50], 7, 0, 1)] \<and> cas' = 1"
proof -
  obtain code cas' e' S' H' where r: "default_store sample_full 131072 0 OPERATION_SET 0 = Some (code, cas', e')"
    "code = ENGINE_SUCCESS" "cache_inv e' S' {} H'"
    "cache e' = (cache sample_full)(ikey sample_full 131072 := new_entry sample_full 131072)"
    "cas' = new_cas sample_full"
    using default_store_correct [OF sample_store_pre full_handled, of OPERATION_SET 0] by auto
  have "use_cas (config sample_full)"
    using env_frameD(6) [OF sample_full(3)] by (simp add: sample_engine_def)
  then have "cas' = 1" using r(5) by (simp add: new_cas_def sample_full)
  moreover have "cache e' = [[97] \<mapsto> ([49, 50], 7, 0, 1)]"
    using r(4) sample_full(5) by (simp add: sample_full(2) sample_new_entry sound_item_def)
  ultimately show ?thesis using r(1-3) by blast
qed

text \<open>The effect of an append or a prepend, on the parts of the cache that were not evicted to make room for it.\<close>

definition joins ::
    "default_engine \<Rightarrow> ENGINE_STORE_OPERATION \<Rightarrow> ptr \<Rightarrow> u64 \<Rightarrow> ENGINE_ERROR_CODE \<Rightarrow> u64 \<Rightarrow> (key \<rightharpoonup> entry) \<Rightarrow> bool" where
  "joins e operation it cas code cas' m' \<longleftrightarrow>
     (case cache e (ikey e it) of
        None \<Rightarrow> code = ENGINE_NOT_STORED \<and> cas' = cas \<and> m' = cache e
      | Some (d, fl, ex, c) \<Rightarrow>
          if item_get_cas (mem e it) \<noteq> 0 \<and> item_get_cas (mem e it) \<noteq> c
          then code = ENGINE_KEY_EEXISTS \<and> cas' = cas \<and> m' = cache e
          else (\<exists>m. m \<subseteq>\<^sub>m cache e \<and>
             (code = ENGINE_NOT_STORED \<and> cas' = cas \<and> m' = m
              \<or> code = ENGINE_SUCCESS \<and> cas' = new_cas e
                \<and> m' = m(ikey e it \<mapsto> (joined operation d (item_get_data (mem e it)), fl, ex, new_cas e)))))"

lemma store_joins:
  assumes pre: "store_pre e S C H it" and small: "small_classes e"
    and op: "operation \<in> {OPERATION_APPEND, OPERATION_PREPEND}"
  shows "\<exists>code cas' e' S' H'. do_store_item e it cas operation = Some (code, cas', e')
    \<and> cache_inv e' S' C H' \<and> stored_ok e e' S' H H' it \<and> joins e operation it cas code cas' (cache e')"
proof (cases "cache e (ikey e it)")
  case None
  have "store_code operation None 0 = ENGINE_NOT_STORED" using op by auto
  then show ?thesis
    using store_refused_miss [OF pre None, of operation cas 0] op None by (fastforce simp: joins_def)
next
  case (Some v)
  obtain d fl ex c where v: "v = (d, fl, ex, c)" by (cases v) auto
  show ?thesis
  proof (cases "item_get_cas (mem e it) \<noteq> 0 \<and> item_get_cas (mem e it) \<noteq> c")
    case True
    then have "store_code operation (Some v) (item_get_cas (mem e it)) = ENGINE_KEY_EEXISTS" using op v by auto
    then show ?thesis
      using store_refused_hit [OF pre Some, of operation cas] op Some True v by (fastforce simp: joins_def)
  next
    case False
    then have cas0: "item_get_cas (mem e it) = 0 \<or> item_get_cas (mem e it) = c" by blast
    obtain code cas' e' S' H' m where r: "do_store_item e it cas operation = Some (code, cas', e')"
      "cache_inv e' S' C H'" "stored_ok e e' S' H H' it" "m \<subseteq>\<^sub>m cache e"
      "code = ENGINE_NOT_STORED \<and> cas' = cas \<and> cache e' = m
       \<or> code = ENGINE_SUCCESS \<and> cas' = new_cas e
         \<and> cache e' = m(ikey e it \<mapsto> (joined operation d (item_get_data (mem e it)), fl, ex, new_cas e))"
      using store_joined [OF pre Some [unfolded v] op cas0 small, of cas, folded new_cas_def] by blast
    then have "joins e operation it cas code cas' (cache e')"
      unfolding joins_def Some v using False by auto
    then show ?thesis using r by blast
  qed
qed

text \<open>
  C8. Append and prepend always return. They refuse a missing key and a wrong CAS and leave the
  cache as it is; otherwise they replace the value by the joined value, with the flags and the
  expiration of the old one, or report that it could not be stored. Room is made only by dropping
  other entries, never by changing them.
\<close>

theorem default_store_joins:
  assumes "store_pre e S C H it" "small_classes e" "handled_vbucket e vb"
    "operation \<in> {OPERATION_APPEND, OPERATION_PREPEND}"
  shows "\<exists>code cas' e' S' H'. default_store e it cas operation vb = Some (code, cas', e')
    \<and> cache_inv e' S' C H' \<and> stored_ok e e' S' H H' it \<and> joins e operation it cas code cas' (cache e')"
  unfolding default_store_handled [OF assms(3)] by (rule store_joins [OF assms(1,2,4)])

theorem default_store_joins_witness:
  "\<exists>code cas' e'. default_store sample_stored 131168 0 OPERATION_APPEND 0 = Some (code, cas', e')
    \<and> cache sample_stored = [[97] \<mapsto> ([49, 50], 7, 0, 1)]
    \<and> (code = ENGINE_NOT_STORED \<or> code = ENGINE_SUCCESS \<and> cache e' [97] = Some ([49, 50, 51], 7, 0, 2))"
proof -
  have u: "use_cas (config sample_stored)"
    using env_frameD(6) [OF sample_stored(3)] by (simp add: sample_engine_def)
  have s: "small_classes sample_stored" using sample_small small_classes_frame [OF sample_stored(3)] by simp
  obtain code cas' e' where r: "default_store sample_stored 131168 0 OPERATION_APPEND 0 = Some (code, cas', e')"
    "joins sample_stored OPERATION_APPEND 131168 0 code cas' (cache e')"
    using default_store_joins [OF sample_join_pre s stored_handled, of OPERATION_APPEND 0] by auto
  then show ?thesis
    using sample_stored(2,7,8,10,11) u
    by (auto simp: joins_def joined_def new_cas_def sound_item_def split: if_splits)
qed

text \<open>
  C9. Deleting always returns. It removes exactly the entry under the key when the CAS is zero or
  matches, and otherwise reports the mismatch or the missing key and leaves the cache as it is.
\<close>

theorem default_item_delete_correct:
  assumes "cache_inv e S C H" "handled_vbucket e vb" "\<forall>x\<in>S. it_refcount (mem e x) \<noteq> 0xFFFF"
  shows "\<exists>code e' S' H'. default_item_delete e k cas vb = Some (code, e') \<and> cache_inv e' S' C H' \<and> H \<subseteq> H'
    \<and> (case cache e k of
         None \<Rightarrow> code = ENGINE_KEY_ENOENT \<and> cache e' = cache e
       | Some (d, fl, ex, c) \<Rightarrow>
           if cas = 0 \<or> cas = c then code = ENGINE_SUCCESS \<and> cache e' = (cache e)(k := None)
           else code = ENGINE_KEY_EEXISTS \<and> cache e' = cache e)"
proof (cases "cache e k")
  case None
  then obtain e' S' H' where r: "do_item_get e k = Some (NULL, e')" "cache_inv e' S' C H'" "H \<subseteq> H'" "cache e' = cache e"
    using get_miss [OF assms(1)] by metis
  then have "default_item_delete e k cas vb = Some (ENGINE_KEY_ENOENT, e')"
    using assms(2) by (simp add: default_item_delete_def locked)
  then show ?thesis using r None by auto
next
  case (Some v)
  obtain d fl ex c where v: "v = (d, fl, ex, c)" by (cases v) auto
  obtain x e1 where r: "do_item_get e k = Some (x, e1)" "x \<in> S" "v = value_of (mem e x)" "ikey e x = k"
      "cache_inv e1 S C H" "\<forall>y. ikey e1 y = ikey e y"
      "it_refcount (mem e1 x) = it_refcount (mem e x) + 1" "same_seen e e1 x" "cache e1 = cache e"
    using get_hit [OF assms(1) Some] by metis
  have x: "x \<noteq> NULL" "x \<notin> H" "item_get_cas (mem e1 x) = c"
    using linked_not_NULL [OF assms(1) r(2)] engine_coreD(7) [OF cache_invD(3) [OF assms(1)]] r(2,3)
      value_of_same_seen [OF r(8)] v by (auto simp: value_of_def)
  show ?thesis
  proof (cases "cas = 0 \<or> cas = c")
    case False
    then have "default_item_delete e k cas vb = Some (ENGINE_KEY_EEXISTS, e1)"
      using r(1) x assms(2) by (simp add: default_item_delete_def locked)
    then show ?thesis unfolding Some v using r(5,9) False by auto
  next
    case True
    have ref: "it_refcount (mem e1 x) \<noteq> 0" using r(2,7) assms(3) inc_ref_not_0 by auto
    obtain e2 where e2: "do_item_unlink e1 x = Some e2" "cache_inv e2 (S - {x}) C (insert x H)"
        "cache e2 = (cache e1)(ikey e1 x := None)"
      using unlink_cache [OF r(5,2)] ref by auto
    obtain e' H' where e': "do_item_release e2 x = Some e'" "cache_inv e' (S - {x}) C H'"
        "insert x H - {x} \<subseteq> H'" "cache e' = cache e2"
      using release_cache [OF e2(2), of x] by auto
    have "default_item_delete e k cas vb = Some (ENGINE_SUCCESS, e')"
      using r(1) x e2(1) e'(1) assms(2) True by (auto simp: default_item_delete_def locked)
    moreover have "cache e' = (cache e)(k := None)" using e'(4) e2(3) r(4,6,9) by simp
    moreover have "H \<subseteq> H'" using e'(3) x(2) by auto
    ultimately show ?thesis unfolding Some v using e'(2) True by auto
  qed
qed

theorem default_item_delete_correct_witness:
  "\<exists>e'. default_item_delete sample_stored [97] 1 0 = Some (ENGINE_SUCCESS, e') \<and> cache e' = Map.empty"
  using default_item_delete_correct [OF sample_stored(1) stored_handled, of "[97]" 1] sample_stored(2,4)
  by auto











text \<open>The answer to a touch, get-and-touch or quiet get-and-touch.\<close>

definition touch_reply :: "request \<Rightarrow> entry option \<Rightarrow> response option" where
  "touch_reply req v =
     (case v of
        None \<Rightarrow> if rq_opcode req = PROTOCOL_BINARY_CMD_GATQ then None else Some (reply PROTOCOL_BINARY_RESPONSE_KEY_ENOENT)
      | Some (d, fl, ex, c) \<Rightarrow>
          if rq_opcode req = PROTOCOL_BINARY_CMD_TOUCH then Some (reply PROTOCOL_BINARY_RESPONSE_SUCCESS)
          else Some \<lparr>rs_ext = host32 fl, rs_body = d, rs_status = PROTOCOL_BINARY_RESPONSE_SUCCESS, rs_cas = c\<rparr>)"

definition touched :: "default_engine \<Rightarrow> key \<Rightarrow> u32 \<Rightarrow> (key \<rightharpoonup> entry)" where
  "touched e k exptime =
     (case cache e k of None \<Rightarrow> cache e
      | Some (d, fl, ex, c) \<Rightarrow> (cache e)(k := if expired e exptime then None else Some (d, fl, exptime, c)))"

lemma touch_found:
  assumes inv: "cache_inv e S C H" and v: "cache e k = Some (d, fl, ex, c)"
    and r: "rq_extlen req = 4" "rq_keylen req \<noteq> 0" "k = take (unat (rq_keylen req)) (rq_key req)"
  shows "\<exists>e' H'. touch e req = Some (touch_reply req (Some (d, fl, ex, c)), e') \<and> cache_inv e' S C H' \<and> H \<subseteq> H'
    \<and> cache e' = touched e k (srv_realtime (srv e) (uint (rq_word req)))"
proof -
  let ?t = "srv_realtime (srv e) (uint (rq_word req))"
  obtain x e1 where x: "do_touch_item e k ?t = Some (x, e1)" "x \<noteq> NULL" "x \<in> S" "cache_inv e1 S C H"
    "value_of (mem e1 x) = (d, fl, ?t, c)" "cache e1 = (cache e)(k := if expired e ?t then None else Some (d, fl, ?t, c))"
    using touch_cache [OF inv v, of ?t] by metis
  obtain e' H' where e': "do_item_release e1 x = Some e'" "cache_inv e' S C H'" "H - {x} \<subseteq> H'" "cache e' = cache e1"
    using release_cache [OF x(4), of x] x(3) by blast
  have "x \<notin> H" using x(3) engine_coreD(7) [OF cache_invD(3) [OF inv]] by auto
  moreover have "touch e req = Some (touch_reply req (Some (d, fl, ex, c)), e')"
    using r x(1,2,5) e'(1) by (simp add: touch_def locked touch_reply_def value_of_def Let_def)
  ultimately show ?thesis using e' x(6) v by (auto simp: touched_def)
qed

lemma touch_missing:
  assumes inv: "cache_inv e S C H" and v: "cache e k = None"
    and r: "rq_extlen req = 4" "rq_keylen req \<noteq> 0" "k = take (unat (rq_keylen req)) (rq_key req)"
  shows "\<exists>e' S' H'. touch e req = Some (touch_reply req None, e') \<and> cache_inv e' S' C H' \<and> H \<subseteq> H'
    \<and> cache e' = touched e k (srv_realtime (srv e) (uint (rq_word req)))"
proof -
  obtain e' S' H' where g: "do_item_get e k = Some (NULL, e')" "cache_inv e' S' C H'" "H \<subseteq> H'" "cache e' = cache e"
    using get_miss [OF inv v] by metis
  then have "touch e req = Some (touch_reply req None, e')"
    using r by (simp add: touch_def locked do_touch_item_def touch_reply_def)
  then show ?thesis using g v by (auto simp: touched_def)
qed

text \<open>
  C11. Touch, get-and-touch and its quiet form always return the answer the protocol asks for: the
  flags, value and CAS of the entry, or the miss (no answer when quiet). The expiration of the
  entry is replaced, so that the entry disappears when the new expiration is past; nothing else
  changes.
\<close>

theorem touch_correct:
  assumes "cache_inv e S C H" "rq_extlen req = 4" "rq_keylen req \<noteq> 0"
    "k = take (unat (rq_keylen req)) (rq_key req)"
  shows "\<exists>e' S' H'. touch e req = Some (touch_reply req (cache e k), e') \<and> cache_inv e' S' C H' \<and> H \<subseteq> H'
    \<and> cache e' = touched e k (srv_realtime (srv e) (uint (rq_word req)))"
proof (cases "cache e k")
  case None
  then show ?thesis using touch_missing [OF assms(1) None assms(2-4)] by simp
next
  case (Some v)
  obtain d fl ex c where v: "v = (d, fl, ex, c)" by (cases v) auto
  show ?thesis using touch_found [OF assms(1) Some [unfolded v] assms(2-4)] Some v by auto
qed

definition sample_gat :: request where
  "sample_gat = \<lparr>rq_opcode = PROTOCOL_BINARY_CMD_GAT, rq_keylen = 1, rq_extlen = 4, rq_vbucket = 0,
     rq_bodylen = 5, rq_word = 200, rq_key = [97]\<rparr>"

theorem touch_correct_witness:
  "\<exists>e'. touch sample_stored sample_gat
       = Some (Some \<lparr>rs_ext = host32 7, rs_body = [49, 50], rs_status = 0, rs_cas = 1\<rparr>, e')
    \<and> cache e' = [[97] \<mapsto> ([49, 50], 7, 200, 1)]"
proof -
  have t: "srv_realtime (srv sample_stored) 200 = 200" "current_time sample_stored = 100"
    unfolding env_frameD(3,14) [OF sample_stored(3)] by (simp_all add: sample_engine_def current_time_def)
  have g: "rq_extlen sample_gat = 4" "rq_keylen sample_gat \<noteq> 0" "[97] = take (unat (rq_keylen sample_gat)) (rq_key sample_gat)"
    "uint (rq_word sample_gat) = 200" by (simp_all add: sample_gat_def)
  obtain e' where r: "touch sample_stored sample_gat = Some (touch_reply sample_gat (cache sample_stored [97]), e')"
    "cache e' = touched sample_stored [97] 200"
    using touch_correct [OF sample_stored(1) g(1-3)] unfolding g(4) t(1) by blast
  moreover have "\<not> expired sample_stored 200" using t by (simp add: expired_def)
  ultimately show ?thesis
    by (simp add: touch_reply_def touched_def sample_stored(2) sample_gat_def PROTOCOL_BINARY_CMD_GAT_def
        PROTOCOL_BINARY_CMD_TOUCH_def PROTOCOL_BINARY_RESPONSE_SUCCESS_def)
qed

text \<open>
  C12. Increment and decrement of an existing value always return. A value that is not a number is
  refused and the cache is unchanged. A number becomes the sum modulo two to the 64, or the
  difference cut off at zero; the result is returned and its decimal digits are what the cache
  shows, with the flags and expiration of before and a new CAS, unless memory runs out.
\<close>

theorem default_arithmetic_counts:
  assumes "cache_inv e S C H" "handled_vbucket e vb" "cache e k = Some (d, fl, ex, c)"
    "card S < 2 ^ 30" "\<forall>x\<in>S. it_refcount (mem e x) \<noteq> 0xFFFF"
  shows "\<exists>code cas' res' e' S' H'.
    default_arithmetic e k incr create delta initial exptime cas result vb = Some (code, cas', res', e')
    \<and> cache_inv e' S' C H' \<and> H \<subseteq> H'
    \<and> (case number d of
         None \<Rightarrow> code = ENGINE_EINVAL \<and> cas' = cas \<and> res' = result \<and> cache e' = cache e
       | Some v \<Rightarrow> res' = counted incr delta v
           \<and> counted_ok (cache e) (cache e') k fl ex (counted incr delta v) (new_cas e) cas code cas')"
  using arithmetic_hit [OF assms(1,3-5), of incr create delta initial "srv_realtime (srv e) (uint exptime)" cas result] assms(2)
  unfolding default_arithmetic_def locked by (simp only: if_False not_True_eq_False) blast

lemma sample_number: "number [49, 50] = Some 12"
proof -
  have "print_decimal (unat (12 :: u64)) = [49, 50]" by (simp add: print_decimal.simps digit_char_def)
  then show ?thesis using safe_strtoull_print [of "[]" 12] c_string_id [of "[49, 50]"] by (simp add: number_def)
qed

theorem default_arithmetic_counts_witness:
  "\<exists>code cas' e'. default_arithmetic sample_stored [97] True False 5 0 0 0 0 0 = Some (code, cas', 17, e')
    \<and> counted_ok [[97] \<mapsto> ([49, 50], 7, 0, 1)] (cache e') [97] 7 0 17 (new_cas sample_stored) 0 code cas'"
  using default_arithmetic_counts [OF sample_stored(1) stored_handled, of "[97]" "[49, 50]" 7 0 1 True False 5 0 0 0 0]
    sample_stored(2,4) sample_number by (auto simp: counted_def)

text \<open>
  C13. Increment and decrement of a missing key always return. Without the create flag the miss is
  reported and nothing changes; with it the cache gets an entry with the decimal digits of the
  initial value, unless memory runs out.
\<close>

theorem default_arithmetic_creates:
  assumes "cache_inv e S C H" "handled_vbucket e vb" "cache e k = None" "length k < 2 ^ 16"
    "card S < 2 ^ 30" "\<forall>x\<in>S. it_refcount (mem e x) \<noteq> 0xFFFF"
  shows "\<exists>code cas' res' e' S' H' m.
    default_arithmetic e k incr create delta initial exptime cas result vb = Some (code, cas', res', e')
    \<and> cache_inv e' S' C H' \<and> H \<subseteq> H' \<and> m \<subseteq>\<^sub>m cache e
    \<and> (if \<not> create then code = ENGINE_KEY_ENOENT \<and> cas' = cas \<and> res' = result \<and> cache e' = cache e
       else code = ENGINE_ENOMEM \<and> cas' = cas \<and> res' = result \<and> cache e' = m
          \<or> code = ENGINE_SUCCESS \<and> cas' = new_cas e \<and> res' = initial
            \<and> cache e' = m(k := new_value e (padded initial 0) 0 (srv_realtime (srv e) (uint exptime))))"
  using arithmetic_miss [OF assms(1,3-6), of incr create delta initial "srv_realtime (srv e) (uint exptime)" cas result] assms(2)
  unfolding default_arithmetic_def locked by (simp only: if_False not_True_eq_False) blast

theorem default_arithmetic_creates_witness:
  "\<exists>code cas' res' e'. default_arithmetic sample_stored [98] True True 5 3 0 0 0 0 = Some (code, cas', res', e')
    \<and> (code = ENGINE_ENOMEM \<or> code = ENGINE_SUCCESS \<and> res' = 3)"
  using default_arithmetic_creates [OF sample_stored(1) stored_handled, of "[98]" True True 5 3 0 0 0] sample_stored(2,4)
  by auto



section \<open>Virtual buckets\<close>



lemma bit_state_field: "bit (((c :: u8) AND NOT 3) OR (ucast (to :: u32) AND 3)) n = (if n < 2 then bit to n else bit c n)"
proof -
  have b: "bit (3 :: u8) n \<longleftrightarrow> n < 2" using bit_mask_iff [of 2 n, where 'a = "8 word"] by (auto simp: mask_eq_exp_minus_1)
  have "\<not> bit c n" if "\<not> n < 8" using that bit_imp_le_length [of c n] by auto
  then show ?thesis using b by (auto simp: bit_simps)
qed

lemma get_set_vbucket_state:
  "get_vbucket_state (set_vbucket_state e vb to) v = (if v = vb then signed_take_bit 1 to else get_vbucket_state e v)"
proof (cases "v = vb")
  case True
  let ?c = "(vbucket_infos e vb AND NOT 3) OR (ucast to AND 3)"
  have "signed_take_bit 1 (ucast ?c :: u32) = signed_take_bit 1 to"
  proof (rule bit_word_eqI)
    fix n assume "n < LENGTH(32)"
    then show "bit (signed_take_bit 1 (ucast ?c :: u32)) n = bit (signed_take_bit 1 to) n"
      unfolding bit_signed_take_bit_iff bit_unsigned_iff bit_state_field
      by (cases n) (auto simp: min_def)
  qed
  then show ?thesis using True by (simp add: get_vbucket_state_def set_vbucket_state_def Let_def)
qed (simp add: get_vbucket_state_def set_vbucket_state_def Let_def)

text \<open>
  C17. After a valid vbucket state is set the vbucket is handled exactly when the state is active,
  and every other vbucket is handled as before. The two-bit signed field gives back 1 for active,
  -2 for replica, -1 for pending and 0 for dead.
\<close>

theorem set_vbucket_takes_effect:
  assumes "is_valid_vbucket_state_t to" "\<not> ignore_vbucket (config e)"
  shows "handled_vbucket (set_vbucket_state e vb to) v
      = (if v = vb then to = vbucket_state_active else handled_vbucket e v)
    \<and> get_vbucket_state (set_vbucket_state e vb to) vb
        = (if to = vbucket_state_active then 1 else if to = vbucket_state_replica then -2
           else if to = vbucket_state_pending then -1 else 0)"
proof -
  have s: "signed_take_bit 1 (1 :: u32) = 1" "signed_take_bit 1 (2 :: u32) = -2"
      "signed_take_bit 1 (3 :: u32) = -1" "signed_take_bit 1 (4 :: u32) = 0"
    by (simp_all add: signed_take_bit_def) 
  have c: "config (set_vbucket_state e vb to) = config e" by (simp add: set_vbucket_state_def Let_def)
  show ?thesis
    using assms unfolding handled_vbucket_def get_set_vbucket_state c is_valid_vbucket_state_t_def
    by (auto simp: vbucket_state_active_def vbucket_state_replica_def vbucket_state_pending_def vbucket_state_dead_def s)
qed

theorem set_vbucket_takes_effect_witness:
  "handled_vbucket (set_vbucket_state sample_engine 3 vbucket_state_active) 3
   \<and> get_vbucket_state (set_vbucket_state sample_engine 3 vbucket_state_active) 3 = 1"
proof -
  have "is_valid_vbucket_state_t vbucket_state_active" "\<not> ignore_vbucket (config sample_engine)"
    by (simp_all add: is_valid_vbucket_state_t_def sample_engine_def)
  from set_vbucket_takes_effect [OF this, of 3 3] show ?thesis by simp
qed

end
