(* ===== verification/Engine_Flush.thy ===== *)
theory Engine_Flush
  imports Engine_Cache
begin

unbundle bit_operations_syntax

text \<open>
  Flushing: the walk over the LRU queues unlinks every item that is as young as the flush, and the
  older ones are no longer visible. The queues have to be in the order of last use.
\<close>

section \<open>Flushing\<close>




lemma upd_class_frame [simp]: "mem (upd_class c f e) = mem e" "items (upd_class c f e) = items e"
  by (simp_all add: upd_class_def)


















end
