(* ===== verification/Engine_Init.thy ===== *)
theory Engine_Init
  imports Engine_Flush
begin

unbundle bit_operations_syntax

text \<open>
  A new engine: creating and initialising it establishes the invariant that every operation of the
  engine interface keeps, with an empty cache.
\<close>

section \<open>A new engine\<close>

definition init_class :: "u64 \<Rightarrow> slabclass \<Rightarrow> bool" where
  "init_class m k \<longleftrightarrow> (\<exists>sz per. k = zero_slabclass\<lparr>sc_size := sz, perslab := per\<rparr> \<and> 0 < sz \<and> 0 < per
     \<and> unat sz * unat per \<le> unat m)"

text \<open>The largest chunk below the last class leaves room for its alignment.\<close>

definition factor_ok :: "(rat \<Rightarrow> rat) \<Rightarrow> u64 \<Rightarrow> rat \<Rightarrow> bool" where
  "factor_ok rnd m f \<longleftrightarrow> f \<noteq> 0 \<and> rnd (rnd (of_nat (unat m)) / f) + 8 \<le> of_nat (unat m) \<and> 0 < m \<and> unat m < 2 ^ 31"

lemma within_factor_room:
  assumes "factor_ok rnd m f" "within_factor rnd m f sz"
  shows "unat sz + 8 \<le> unat m"
proof -
  have "rat_of_nat (unat sz) + 8 \<le> of_nat (unat m)" using assms by (auto simp: factor_ok_def within_factor_def)
  then have "rat_of_nat (unat sz + 8) \<le> of_nat (unat m)" by simp
  then show ?thesis by (simp only: of_nat_le_iff)
qed

lemma unat_align_chunk:
  assumes "unat sz + 8 \<le> n" "n < 2 ^ 31"
  shows "unat (align_chunk sz) \<le> n"
proof -
  have "unat (of_nat CHUNK_ALIGN_BYTES - sz mod of_nat CHUNK_ALIGN_BYTES) \<le> 8"
    unfolding CHUNK_ALIGN_BYTES_def
    using word_sub_le [of "sz mod 8" 8] word_mod_less_divisor [of 8 sz] order_less_imp_le [of "sz mod 8" 8]
    by (simp add: word_le_nat_alt)
  then show ?thesis
    using assms unat_plus_if' [of sz "of_nat CHUNK_ALIGN_BYTES - sz mod of_nat CHUNK_ALIGN_BYTES"]
    by (auto simp: align_chunk_def)
qed

lemma slabs_init_loop_classes:
  assumes "slabs_init_loop rnd f m i sz cs = Some (n, cs')" "factor_ok rnd m f"
    "length cs = MAX_NUMBER_OF_SLAB_CLASSES" "i < POWER_LARGEST" "\<forall>c \<in> {1..i}. init_class m (cs ! c)"
    "\<forall>c. i < c \<and> c < length cs \<longrightarrow> cs ! c = zero_slabclass"
  shows "length cs' = MAX_NUMBER_OF_SLAB_CLASSES \<and> i < n \<and> n \<le> POWER_LARGEST
    \<and> (\<forall>c \<in> {1..<n}. init_class m (cs' ! c)) \<and> (\<forall>c. n \<le> c \<and> c < length cs' \<longrightarrow> cs' ! c = zero_slabclass)"
  using assms
proof (induction rnd f m i sz cs rule: slabs_init_loop.induct)
  case (1 rnd f m i sz cs)
  show ?case
  proof (cases "i + 1 < POWER_LARGEST \<and> within_factor rnd m f sz")
    case False
    then have "n = i + 1" "cs' = cs" using 1(2) by (subst (asm) slabs_init_loop.simps; auto)+
    then show ?thesis using 1(4-7) by auto
  next
    case True
    let ?sz = "align_chunk sz" and ?per = "ucast (m div ucast (align_chunk sz)) :: u32"
    have c0: "cs ! (i + 1) = zero_slabclass" "i + 1 < length cs"
      using True 1(4,7) by (auto simp: MAX_NUMBER_OF_SLAB_CLASSES_def)
    have run: "?sz \<noteq> 0" "\<exists>sz'. times_factor rnd f ?sz = Some sz' \<and>
        slabs_init_loop rnd f m (i + 1) sz' (cs[i + 1 := zero_slabclass\<lparr>sc_size := ?sz, perslab := ?per\<rparr>]) = Some (n, cs')"
      using 1(2) True c0 by (subst (asm) slabs_init_loop.simps; auto simp: Let_def bind_eq_Some_conv)+
    then obtain sz' where sz': "times_factor rnd f ?sz = Some sz'"
      "slabs_init_loop rnd f m (i + 1) sz' (cs[i + 1 := zero_slabclass\<lparr>sc_size := ?sz, perslab := ?per\<rparr>]) = Some (n, cs')"
      by blast
    have le: "unat ?sz \<le> unat m" "unat m < 2 ^ 31"
      using unat_align_chunk [OF within_factor_room [OF 1(3)]] True 1(3) by (auto simp: factor_ok_def)
    have u: "unat (ucast ?sz :: u64) = unat ?sz" 
      using le by (simp add: unsigned_ucast_eq take_bit_eq_mod)
    have "unat ?per = unat m div unat ?sz"
    proof -
      have "unat m div unat ?sz < 2 ^ 32" 
        by (rule le_less_trans [OF div_le_dividend]) (use le(2) in simp) 
      moreover have "unat (m div ucast ?sz) = unat m div unat ?sz" unfolding unat_div u ..
      ultimately show ?thesis unfolding unsigned_ucast_eq by (simp add: take_bit_eq_mod)
    qed
    then have "unat ?sz * unat ?per \<le> unat m" "0 < unat ?per" "0 < unat ?sz"
      using le run(1) by (auto simp: div_greater_zero_iff unat_gt_0)
    then have "init_class m (zero_slabclass\<lparr>sc_size := ?sz, perslab := ?per\<rparr>)"
      unfolding init_class_def by (metis word_less_nat_alt unat_0)
    then have "\<forall>c \<in> {1..i + 1}. init_class m (cs[i + 1 := zero_slabclass\<lparr>sc_size := ?sz, perslab := ?per\<rparr>] ! c)"
      using 1(6) c0(2) by (auto simp: nth_list_update le_Suc_eq)
    moreover have "guard (?sz \<noteq> 0) = Some ()" "arr_get cs (i + 1) = Some zero_slabclass"
      using run(1) c0 by simp_all
    note ih = 1(1) [OF True refl this refl sz'(1) sz'(2) 1(3)]
    ultimately show ?thesis using ih 1(4,7) c0 True by (simp add: nth_list_update)
  qed
qed


lemma init_class_ok: "init_class m k \<Longrightarrow> unat m < 2 ^ 31 \<Longrightarrow> class_ok k \<and> sc_slabs k = 0 \<and> free_chunks k = []"
  by (auto simp: init_class_def class_ok_def zero_slabclass_def page_len_def free_chunks_def end_chunks_def)

text \<open>An allocator without pages.\<close>

lemma slab_rep_no_pages:
  assumes "slab_ok (slabs e)" "malloc_wf (os e)"
    "\<And>c. c \<in> {1..power_largest (slabs e)} \<Longrightarrow> sc_slabs (cls (slabs e) c) = 0 \<and> free_chunks (cls (slabs e) c) = []"
  shows "slab_rep e Map.empty {}"
proof -
  have "free_set (slabs e) = {}" "page_ids (slabs e) = {}"
    using assms(3) by (auto simp: free_set_def page_ids_def)
  then show ?thesis using assms by (auto simp: slab_rep_def page_bytes_def disjoint_family_on_def)
qed

definition same_but_slabs :: "default_engine \<Rightarrow> default_engine \<Rightarrow> bool" where
  "same_but_slabs e e' \<longleftrightarrow> assoc e' = assoc e \<and> items e' = items e \<and> mem e' = mem e \<and> srv e' = srv e \<and> config e' = config e
     \<and> os_malloc (os e') = os_malloc (os e)"

lemma slabs_init_shape:
  assumes run: "slabs_init rnd tm e limit f pre = Some (ENGINE_SUCCESS, e')" and base: "mem_base (slabs e) = NULL"
  shows "\<exists>n cs c e1 mm. slabs_init_loop rnd f (item_size_max (config e)) 0 (ucast (sizeof_hash_item + chunk_size (config e)))
        (replicate MAX_NUMBER_OF_SLAB_CLASSES zero_slabclass) = Some (n, cs) \<and> arr_get cs n = Some c
    \<and> e' = e1\<lparr>slabs := (slabs e1)\<lparr>slabclasses := cs[n := c\<lparr>sc_size := ucast (item_size_max (config e)), perslab := 1\<rparr>],
        power_largest := n, mem_malloced := mm\<rparr>\<rparr>
    \<and> same_but_slabs e e1 \<and> (mem_base (slabs e1) \<noteq> NULL \<longrightarrow> mem_current (slabs e1) \<noteq> NULL)"
proof -
  let ?m = "item_size_max (config e)"
  define e0 where "e0 = e\<lparr>slabs := (slabs e)\<lparr>mem_limit := limit\<rparr>\<rparr>"
  obtain e1 where e1: "(if pre then
               (let (p, e) = malloc (unat limit) e0 in
                if p \<noteq> NULL
                then (True, e\<lparr>slabs := (slabs e)\<lparr>mem_base := p, mem_current := p, mem_avail := limit\<rparr>\<rparr>)
                else (False, e\<lparr>slabs := (slabs e)\<lparr>mem_base := p\<rparr>\<rparr>))
             else (True, e0)) = (True, e1)"
    using run unfolding slabs_init_def e0_def Let_def by (auto split: prod.splits if_splits)
  have s1: "same_but_slabs e e1" "mem_base (slabs e1) \<noteq> NULL \<longrightarrow> mem_current (slabs e1) \<noteq> NULL"
    using e1 base by (auto simp: e0_def malloc_def same_but_slabs_def Let_def split: if_splits)
  have c1: "config e1 = config e" using s1(1) by (simp add: same_but_slabs_def)
  have "\<exists>n cs c. slabs_init_loop rnd f ?m 0 (ucast (sizeof_hash_item + chunk_size (config e)))
      (replicate MAX_NUMBER_OF_SLAB_CLASSES zero_slabclass) = Some (n, cs) \<and> arr_get cs n = Some c
    \<and> (let e2 = e1\<lparr>slabs := (slabs e1)\<lparr>slabclasses := cs[n := c\<lparr>sc_size := ucast ?m, perslab := 1\<rparr>], power_largest := n\<rparr>\<rparr>
        in e' = (case tm of None \<Rightarrow> e2 | Some v \<Rightarrow> e2\<lparr>slabs := (slabs e2)\<lparr>mem_malloced := v\<rparr>\<rparr>))"
    using run unfolding slabs_init_def Let_def e0_def [symmetric] e1 [unfolded Let_def]
    by (auto simp: bind_eq_Some_conv c1 POWER_SMALLEST_def split: option.split)
  then obtain n cs c where a: "slabs_init_loop rnd f ?m 0 (ucast (sizeof_hash_item + chunk_size (config e)))
      (replicate MAX_NUMBER_OF_SLAB_CLASSES zero_slabclass) = Some (n, cs)" "arr_get cs n = Some c"
    "let e2 = e1\<lparr>slabs := (slabs e1)\<lparr>slabclasses := cs[n := c\<lparr>sc_size := ucast ?m, perslab := 1\<rparr>], power_largest := n\<rparr>\<rparr>
     in e' = (case tm of None \<Rightarrow> e2 | Some v \<Rightarrow> e2\<lparr>slabs := (slabs e2)\<lparr>mem_malloced := v\<rparr>\<rparr>)"
    by blast
  have "\<exists>mm. e' = e1\<lparr>slabs := (slabs e1)\<lparr>slabclasses := cs[n := c\<lparr>sc_size := ucast ?m, perslab := 1\<rparr>],
      power_largest := n, mem_malloced := mm\<rparr>\<rparr>"
    using a(3) by (cases tm) (auto simp: Let_def intro: exI [of _ "mem_malloced (slabs e1)"])
  then show ?thesis using a(1,2) s1 by blast
qed

lemma slabs_init_rep:
  assumes run: "slabs_init rnd tm e limit f pre = Some (ENGINE_SUCCESS, e')"
    and f: "factor_ok rnd (item_size_max (config e)) f" and wf: "malloc_wf (os e)"
    and fit: "power_largest (slabs e') < POWER_LARGEST"
    and base: "mem_base (slabs e) = NULL"
  shows "slab_rep e' Map.empty {}"
proof -
  let ?m = "item_size_max (config e)"
  obtain n cs c e1 mm where l: "slabs_init_loop rnd f ?m 0 (ucast (sizeof_hash_item + chunk_size (config e)))
        (replicate MAX_NUMBER_OF_SLAB_CLASSES zero_slabclass) = Some (n, cs)" "arr_get cs n = Some c"
    and e': "e' = e1\<lparr>slabs := (slabs e1)\<lparr>slabclasses := cs[n := c\<lparr>sc_size := ucast ?m, perslab := 1\<rparr>],
        power_largest := n, mem_malloced := mm\<rparr>\<rparr>"
    and s1: "same_but_slabs e e1" "mem_base (slabs e1) \<noteq> NULL \<longrightarrow> mem_current (slabs e1) \<noteq> NULL"
    using slabs_init_shape [OF run base] by blast
  have i0: "length (replicate MAX_NUMBER_OF_SLAB_CLASSES zero_slabclass) = MAX_NUMBER_OF_SLAB_CLASSES" "0 < POWER_LARGEST"
    "\<forall>c \<in> {1..0}. init_class ?m (replicate MAX_NUMBER_OF_SLAB_CLASSES zero_slabclass ! c)"
    "\<forall>c. 0 < c \<and> c < length (replicate MAX_NUMBER_OF_SLAB_CLASSES zero_slabclass) \<longrightarrow>
       replicate MAX_NUMBER_OF_SLAB_CLASSES zero_slabclass ! c = zero_slabclass"
    by (simp_all add: POWER_LARGEST_def)
  have cs: "length cs = MAX_NUMBER_OF_SLAB_CLASSES" "0 < n" "\<forall>c \<in> {1..<n}. init_class ?m (cs ! c)"
    "\<forall>c. n \<le> c \<and> c < length cs \<longrightarrow> cs ! c = zero_slabclass"
    using slabs_init_loop_classes [OF l(1) f i0] by auto
  have n: "n < POWER_LARGEST" using fit e' by auto
  have m: "unat ?m < 2 ^ 31" "0 < unat ?m" "unat (ucast ?m :: u32) = unat ?m"
    using f by (auto simp: factor_ok_def word_less_nat_alt unsigned_ucast_eq take_bit_eq_mod)
  have cls': "init_class ?m (cls (slabs e') d)" if d: "d \<in> {1..n}" for d
  proof (cases "d = n")
    case True
    have "n < length cs \<and> c = cs ! n" using l(2) by (auto simp: arr_get_def split: if_splits)
    then have "c = zero_slabclass" "n < length cs" using cs(4) by auto
    then have "cls (slabs e') d = zero_slabclass\<lparr>sc_size := ucast ?m, perslab := 1\<rparr>" using e' True by auto
    moreover have "0 < (ucast ?m :: u32)" "unat (ucast ?m :: u32) * unat (1 :: u32) \<le> unat ?m"
      using m by (simp_all add: word_less_nat_alt)
    ultimately show ?thesis
      unfolding init_class_def by (intro exI [of _ "ucast ?m"] exI [of _ 1]) simp
  next
    case False
    then show ?thesis using e' cs(3) d by auto
  qed
  have pl: "power_largest (slabs e') = n" and len: "length (slabclasses (slabs e')) = MAX_NUMBER_OF_SLAB_CLASSES"
    and mb: "mem_base (slabs e') \<noteq> NULL \<longrightarrow> mem_current (slabs e') \<noteq> NULL"
    and same: "same_but_slabs e e'"
    using e' cs(1) s1 by (simp_all add: same_but_slabs_def)
  have ok: "class_ok (cls (slabs e') d)" "sc_slabs (cls (slabs e') d) = 0 \<and> free_chunks (cls (slabs e') d) = []"
    if "d \<in> {1..power_largest (slabs e')}" for d
    using init_class_ok [OF cls' m(1)] that pl by auto
  have "slab_ok (slabs e')"
    using ok(1) pl len mb cs(2) n by (simp add: slab_ok_def)
  moreover have "malloc_wf (os e')" using wf same malloc_wf_cong [of "os e'" "os e"] by (simp add: same_but_slabs_def)
  ultimately show ?thesis using ok(2) by (rule slab_rep_no_pages)
qed

text \<open>An engine as \<^verbatim>\<open>create_instance\<close> makes it.\<close>

definition new_engine :: "default_engine \<Rightarrow> bool" where
  "new_engine e \<longleftrightarrow> (\<exists>s l m c. create_instance 1 (Some s) l m c = (ENGINE_SUCCESS, Some e) \<and> malloc_wf l)"

lemma new_engineD:
  assumes "new_engine e"
  shows "hashpower (assoc e) = 16" "\<not> expanding (assoc e)" "hash_items (assoc e) = 0" "mem_base (slabs e) = NULL"
    "malloc_wf (os e)" "lru_rep e {}"
proof -
  obtain s l m c where l: "create_instance 1 (Some s) l m c = (ENGINE_SUCCESS, Some e)" "malloc_wf l"
    using assms by (auto simp: new_engine_def)
  show "hashpower (assoc e) = 16" "\<not> expanding (assoc e)" "hash_items (assoc e) = 0" "mem_base (slabs e) = NULL"
    using l(1) by (auto simp: create_instance_def split: if_splits)
  have "os_malloc (os e) = os_malloc l" using l(1) by (auto simp: create_instance_def split: if_splits)
  then show "malloc_wf (os e)" using l(2) malloc_wf_cong by blast
  have it: "items e = \<lparr>heads = replicate POWER_LARGEST NULL, tails = replicate POWER_LARGEST NULL,
                     itemstats = replicate POWER_LARGEST zero_itemstats, sizes = replicate POWER_LARGEST 0\<rparr>"
    using l(1) by (auto simp: create_instance_def split: if_splits)
  then have "lru_holds e d {}" if "d < POWER_LARGEST" for d
    using that by (auto simp: lru_holds_def lru_queue_def intro!: exI [of _ "[]"])
  then show "lru_rep e {}" using it by (simp add: lru_rep_def items_ok_def)
qed

text \<open>What configuring changes: the settings, the state of vbucket 0 and the features.\<close>

lemma configured_frame:
  assumes "initalize_configuration parse e cfg = (ret, e1)"
  shows "assoc e1 = assoc e \<and> items e1 = items e \<and> slabs e1 = slabs e \<and> os e1 = os e \<and> mem e1 = mem e \<and> srv e1 = srv e"
  using assms
  by (auto simp: initalize_configuration_def set_vbucket_state_def Let_def split: option.splits if_splits prod.splits)

lemma cache_inv_empty:
  assumes "assoc_rep e {}" "hashpower (assoc e) < 31" "lru_rep e {}" "slab_rep e Map.empty {}"
    "current_time e < - TAIL_REPAIR_TIME"
  shows "cache_inv e {} {} {}" "cache e = Map.empty"
proof -
  have "class_map e {} = Map.empty" by (simp add: class_map_def)
  then show "cache_inv e {} {} {}" using assms by (simp add: cache_inv_def engine_inv_def engine_core_def clock_ok_def)
  show "cache e = Map.empty" using cache_iff [OF assms(1)] by (intro ext) (metis empty_iff not_Some_eq)
qed

text \<open>
  C18. An engine that was created and initialised without an error satisfies the invariant of the
  engine and its cache is empty: every configured slab class can hold at least one chunk per page,
  the hash table and the LRU queues are empty. The configuration has to leave room for the
  alignment below the largest item, and the classes have to fit into the table.
\<close>

theorem default_initialize_establishes:
  assumes "new_engine e" "default_initialize rnd tm parse e cfg = Some (0, e')"
    "factor_ok rnd (item_size_max (config e')) (factor (config e'))"
    "power_largest (slabs e') < POWER_LARGEST" "current_time e' < - TAIL_REPAIR_TIME"
  shows "cache_inv e' {} {} {} \<and> cache e' = Map.empty"
proof -
  note n = new_engineD [OF assms(1)]
  obtain ret e1 where c: "initalize_configuration parse e cfg = (ret, e1)" by (cases "initalize_configuration parse e cfg")
  define e2 where "e2 = (if use_cas (config e1) then e1\<lparr>num_features := num_features e1 + 1\<rparr> else e1)"
  obtain r3 e3 where a: "assoc_init e2 = (r3, e3)" by (cases "assoc_init e2")
  have fr: "assoc e2 = assoc e" "items e2 = items e" "slabs e2 = slabs e" "os e2 = os e" "mem e2 = mem e" "srv e2 = srv e"
    using configured_frame [OF c] by (simp_all add: e2_def)
  have eq: "engine_error r = 0 \<longleftrightarrow> r = ENGINE_SUCCESS" for r by (cases r) simp_all
  have r3: "r3 = ENGINE_SUCCESS"
    and s: "slabs_init rnd tm e3 (maxbytes (config e3)) (factor (config e3)) (preallocate (config e3)) = Some (ENGINE_SUCCESS, e')"
    using assms(2) a unfolding default_initialize_def c
    by (auto simp: Let_def eq e2_def [symmetric] bind_eq_Some_conv split: if_splits)
  have fr3: "items e3 = items e2" "slabs e3 = slabs e2" "mem e3 = mem e2" "srv e3 = srv e2" "os_malloc (os e3) = os_malloc (os e2)"
    "hashpower (assoc e3) = hashpower (assoc e2)"
    using a by (auto simp: assoc_init_def os_call_def split: if_splits)
  have ar: "assoc_rep e3 {}" using assoc_init_rep [of e2 e3] a r3 n fr by simp
  have b3: "mem_base (slabs e3) = NULL" "malloc_wf (os e3)" using n(4,5) fr fr3 malloc_wf_cong [of "os e3" "os e"] by simp_all
  have same: "assoc e' = assoc e3" "items e' = items e" "mem e' = mem e3" "srv e' = srv e3" "config e' = config e3"
    using slabs_init_shape [OF s b3(1)] fr fr3 by (auto simp: same_but_slabs_def)
  have sl: "slab_rep e' Map.empty {}" using slabs_init_rep [OF s _ b3(2) assms(4) b3(1)] assms(3) same(5) by simp
  have "assoc_rep e' {}" by (rule assoc_rep_cong [OF ar same(1)]) (simp_all add: same)
  moreover have "lru_rep e' {}" by (rule lru_rep_cong [OF n(6) same(2)]) simp_all
  ultimately show ?thesis
    using cache_inv_empty [of e'] sl assms(5) same fr fr3 n(1) by simp
qed

lemma sample_init_loop:
  assumes "length cs = MAX_NUMBER_OF_SLAB_CLASSES"
  shows "\<exists>cs'. slabs_init_loop (\<lambda>x. x) 2 1024 0 96 cs = Some (4, cs') \<and> length cs' = MAX_NUMBER_OF_SLAB_CLASSES"
proof -
  have step: "slabs_init_loop (\<lambda>x. x) 2 1024 i sz cs =
      slabs_init_loop (\<lambda>x. x) 2 1024 (i + 1) (2 * sz) (cs[i + 1 := (cs ! (i + 1))\<lparr>sc_size := sz, perslab := ucast (1024 div ucast sz :: u64)\<rparr>])"
    if "i < 3" "sz \<in> {96, 192, 384}" "length cs = MAX_NUMBER_OF_SLAB_CLASSES" for i sz cs
    using that
    by (subst slabs_init_loop.simps)
      (auto simp: within_factor_def times_factor_def align_chunk_def CHUNK_ALIGN_BYTES_def POWER_LARGEST_def
        MAX_NUMBER_OF_SLAB_CLASSES_def Let_def)
  have stop: "slabs_init_loop (\<lambda>x. x) 2 1024 3 768 cs = Some (4, cs)" for cs
    by (subst slabs_init_loop.simps) (simp add: within_factor_def)
  show ?thesis using assms by (simp add: step stop [unfolded numeral_3_eq_3])
qed

definition sample_parse :: "byte list \<Rightarrow> config \<Rightarrow> int \<times> config" where
  "sample_parse cfg c = (0, c\<lparr>factor := 2, item_size_max := 1024\<rparr>)"

definition sample_created :: default_engine where
  "sample_created = the (snd (create_instance 1 (Some (srv sample_engine)) (os sample_engine) (\<lambda>_. zero_item) 0))"

lemma sample_created:
  "create_instance 1 (Some (srv sample_engine)) (os sample_engine) (\<lambda>_. zero_item) 0 = (ENGINE_SUCCESS, Some sample_created)"
  "new_engine sample_created" "config sample_created = default_config" "srv sample_created = srv sample_engine"
  "os_ok (os sample_created) n"
proof -
  show r: "create_instance 1 (Some (srv sample_engine)) (os sample_engine) (\<lambda>_. zero_item) 0 = (ENGINE_SUCCESS, Some sample_created)"
    by (simp add: sample_created_def create_instance_def) (simp add: sample_engine_def)
  then show "new_engine sample_created" using sample_malloc_wf unfolding new_engine_def by blast
  show "config sample_created = default_config" "srv sample_created = srv sample_engine" "os_ok (os sample_created) n"
    by (simp_all add: sample_created_def create_instance_def) (simp_all add: sample_engine_def)
qed

lemma sample_initialized:
  "\<exists>e'. default_initialize (\<lambda>x. x) None sample_parse sample_created (Some []) = Some (0, e')
    \<and> config e' = default_config\<lparr>vb0 := True, factor := 2, item_size_max := 1024\<rparr> \<and> power_largest (slabs e') = 4
    \<and> srv e' = srv sample_engine"
proof -
  obtain cs where "slabs_init_loop (\<lambda>x. x) 2 1024 0 96 (replicate MAX_NUMBER_OF_SLAB_CLASSES zero_slabclass) = Some (4, cs)"
    "length cs = MAX_NUMBER_OF_SLAB_CLASSES"
    using sample_init_loop [of "replicate MAX_NUMBER_OF_SLAB_CLASSES zero_slabclass"] by auto
  then show ?thesis
    using sample_created(3-5)
    by (simp add: default_initialize_def initalize_configuration_def sample_parse_def set_vbucket_state_def assoc_init_def
        os_call_def slabs_init_def default_config_def sizeof_hash_item_def POWER_SMALLEST_def
        MAX_NUMBER_OF_SLAB_CLASSES_def POWER_LARGEST_def Let_def)
qed

theorem default_initialize_establishes_witness:
  "\<exists>e'. default_initialize (\<lambda>x. x) None sample_parse sample_created (Some []) = Some (0, e')
    \<and> cache_inv e' {} {} {} \<and> cache e' = Map.empty"
proof -
  obtain e' where e': "default_initialize (\<lambda>x. x) None sample_parse sample_created (Some []) = Some (0, e')"
    "config e' = default_config\<lparr>vb0 := True, factor := 2, item_size_max := 1024\<rparr>" "power_largest (slabs e') = 4"
    "srv e' = srv sample_engine"
    using sample_initialized by blast
  have "factor_ok (\<lambda>x. x) (item_size_max (config e')) (factor (config e'))"
    by (simp add: e'(2) factor_ok_def)
  moreover have "power_largest (slabs e') < POWER_LARGEST" "current_time e' < - TAIL_REPAIR_TIME"
    using e'(3,4) by (simp_all add: POWER_LARGEST_def current_time_def TAIL_REPAIR_TIME_def) (simp add: sample_engine_def)
  ultimately show ?thesis
    using default_initialize_establishes [OF sample_created(2) e'(1)] e'(1) by blast
qed

end
