(* ===== verification/Storage_Props.thy ===== *)
theory Storage_Props
  imports Sample_Cache
begin

unbundle bit_operations_syntax

text \<open>
  The contracts of the two layers below the items, stated for the code: chunks of the slab
  allocator never overlap and are reused last in, first out, sizes are placed in the first class
  that fits, and the LRU queues are doubly linked lists with the newest item in front.
\<close>

section \<open>Properties of the slab allocator\<close>

abbreviation chunk_bytes :: "default_engine \<Rightarrow> ptr \<Rightarrow> nat \<Rightarrow> ptr set" where
  "chunk_bytes e p c \<equiv> region p (unat (sc_size (cls (slabs e) c)))"

text \<open>
  C27. Allocating a chunk of a slab class always returns. The chunks in use stay in use; a new chunk is
  not one of them, shares no byte with any of them and lies outside the memory that is reserved.
\<close>

theorem slabs_alloc_correct:
  assumes "slab_rep e A R" "c \<in> {1..power_largest (slabs e)}"
  shows "\<exists>p e'. slabs_alloc e sz c = Some (p, e') \<and> (p = NULL \<longrightarrow> slab_rep e' A R)
    \<and> (p \<noteq> NULL \<longrightarrow> slab_rep e' (A(p \<mapsto> c)) R \<and> p \<notin> R
         \<and> (\<forall>q d. A q = Some d \<longrightarrow> q \<noteq> p \<and> chunk_bytes e' p c \<inter> chunk_bytes e' q d = {}))"
proof -
  obtain p e' where r: "slabs_alloc e sz c = Some (p, e')" "p = NULL \<longrightarrow> slab_rep e' A R"
    "p \<noteq> NULL \<longrightarrow> slab_rep e' (A(p \<mapsto> c)) R \<and> p \<notin> R"
    using slabs_alloc_rep [OF assms, of sz] by blast
  have "q \<noteq> p \<and> chunk_bytes e' p c \<inter> chunk_bytes e' q d = {}" if "p \<noteq> NULL" "A q = Some d" for q d
    using sa.alloc_apart [OF assms r(1) that] by auto
  then show ?thesis using r by blast
qed

theorem slabs_alloc_correct_witness:
  "\<exists>e'. slabs_alloc sample_engine 59 1 = Some (131072, e') \<and> slab_rep e' [131072 \<mapsto> 1] {}"
proof -
  obtain e' where "slabs_alloc sample_engine 59 1 = Some (131072, e')" using sample_alloc by blast
  then show ?thesis using slabs_alloc_correct [OF sample_slab_rep, of 1 59] by auto
qed

lemma slabs_free_top:
  assumes run: "slabs_free e p sz c = Some e1" and c: "c \<in> {1..power_largest (slabs e)}"
    and k: "c < length (slabclasses (slabs e))" "class_ok (cls (slabs e) c)" and os: "\<forall>n. os_ok (os e) n"
  shows "c < length (slabclasses (slabs e1)) \<and> sl_curr (cls (slabs e1) c) \<noteq> 0
      \<and> sl_curr (cls (slabs e1) c) - 1 < length (slots (cls (slabs e1) c))
      \<and> slots (cls (slabs e1) c) ! (sl_curr (cls (slabs e1) c) - 1) = p"
proof (cases "sl_curr (cls (slabs e) c) = sl_total (cls (slabs e) c)")
  case True
  show ?thesis
    using run c k os True
    by (auto simp: slabs_free_def do_slabs_free_def POWER_SMALLEST_def os_call_def Let_def upd_class_def class_ok_def)
next
  case False
  show ?thesis
    using run c k False
    by (auto simp: slabs_free_def do_slabs_free_def POWER_SMALLEST_def Let_def upd_class_def class_ok_def)
qed

text \<open>
  C28. A chunk that is given back to its class is the next one that is handed out: freeing a chunk in
  use and allocating from the same class returns the same chunk, and the allocator is in order, when
  the list of free slots can be grown.
\<close>

theorem slabs_free_then_alloc:
  assumes rep: "slab_rep e A R" and p: "A p = Some c" "it_clsid (mem e p) = 0"
    and os: "\<forall>n. os_ok (os e) n"
  shows "\<exists>e1 e2. slabs_free e p sz c = Some e1 \<and> slab_rep e1 (A(p := None)) R
    \<and> slabs_alloc e1 sz' c = Some (p, e2) \<and> slab_rep e2 A R"
proof -
  have c: "c \<in> {1..power_largest (slabs e)}" by (rule slab_repD(6) [OF rep p(1)])
  have len: "c < length (slabclasses (slabs e))" "class_ok (cls (slabs e) c)"
    using slab_repD(1) [OF rep] c by (auto simp: slab_ok_def MAX_NUMBER_OF_SLAB_CLASSES_def)
  obtain e1 where e1: "slabs_free e p sz c = Some e1" "slab_rep e1 (A(p := None)) R" "slab_frame e e1"
    using slabs_free_rep [OF rep p, of sz] by blast
  have c1: "c \<in> {1..power_largest (slabs e1)}" using c slab_frameD(15) [OF e1(3)] by simp
  note top = slabs_free_top [OF e1(1) c len os]
  have "\<exists>e2. slabs_alloc e1 sz' c = Some (p, e2)"
    using top c1 by (auto simp: slabs_alloc_def do_slabs_alloc_def take_chunk_def POWER_SMALLEST_def)
  then obtain e2 where e2: "slabs_alloc e1 sz' c = Some (p, e2)" by blast
  have "p \<noteq> NULL" by (rule used_not_NULL(1) [OF rep p(1)])
  then have "slab_rep e2 (A(p := None, p \<mapsto> c)) R" using slabs_alloc_rep [OF e1(2) c1, of sz'] e2 by auto
  then have "slab_rep e2 A R" using p(1) by (simp add: fun_upd_idem)
  then show ?thesis using e1 e2 by blast
qed

theorem slabs_free_then_alloc_witness:
  "\<exists>e e1 e2. slabs_alloc sample_engine 59 1 = Some (131072, e) \<and> slabs_free e 131072 59 1 = Some e1
    \<and> slabs_alloc e1 70 1 = Some (131072, e2) \<and> slab_rep e2 [131072 \<mapsto> 1] {}"
proof -
  obtain e where e: "slabs_alloc sample_engine 59 1 = Some (131072, e)" using sample_alloc by blast
  then have "slab_rep e [131072 \<mapsto> 1] {}" "it_clsid (mem e 131072) = 0" "slab_frame sample_engine e"
    using slabs_alloc_rep [OF sample_slab_rep, of 1 59] by auto
  moreover have "\<forall>n. os_ok (os e) n"
    using slab_frameD(13) [OF \<open>slab_frame sample_engine e\<close>] by (simp add: sample_engine_def)
  ultimately show ?thesis
    using slabs_free_then_alloc [of e "[131072 \<mapsto> 1]" "{}" 131072 1 59 70] e by auto
qed

text \<open>
  The class chosen for a size is the first one whose chunks are large enough, and 0, which is no
  class, exactly when the size is 0 or no class is large enough.
\<close>

theorem slabs_clsid_correct:
  assumes "slab_ok (slabs e)"
  shows "\<exists>c. slabs_clsid e sz = Some c \<and> (if sz = 0 then c = 0 else first_fit (slabs e) sz 1 c)"
  by (rule slabs_clsid_first_fit [OF assms])

theorem slabs_clsid_correct_witness: "\<exists>c. slabs_clsid sample_engine 59 = Some c \<and> first_fit (slabs sample_engine) 59 1 c"
  using slabs_clsid_correct [OF slab_repD(1) [OF sample_slab_rep], of 59] by simp

section \<open>Properties of the LRU queues\<close>

text \<open>
  Linking an item into the queue of its class puts it in front of all others and counts it; every
  other queue stays as it is. Unlinking any item of the new queue gives the queue without it.
\<close>

theorem lru_link_then_unlink:
  assumes q: "lru_queue e (clsid e it) xs" and ok: "items_ok (items e)"
    and it: "it \<noteq> NULL" "it \<notin> set xs" "clsid e it < POWER_LARGEST" "\<not> slabbed (mem e it)"
  shows "\<exists>e1 e2. item_link_q e it = Some e1 \<and> lru_queue e1 (clsid e it) (it # xs)
    \<and> item_unlink_q e1 it = Some e2 \<and> lru_queue e2 (clsid e it) xs
    \<and> (\<forall>d ys. d \<noteq> clsid e it \<and> lru_queue e d ys \<and> set ys \<inter> set (it # xs) = {} \<longrightarrow> lru_queue e1 d ys)"
proof -
  obtain e1 where e1: "item_link_q e it = Some e1" "lru_queue e1 (clsid e it) (it # xs)"
    "queue_frame (clsid e it) e e1" "\<And>y. y \<notin> set (it # xs) \<Longrightarrow> mem e1 y = mem e y"
    using item_link_q_queue [OF assms] by metis
  have c: "clsid e1 it = clsid e it" "items_ok (items e1)"
    using same_but_q_fields [OF queue_frameD(9) [OF e1(3)]] queue_frameD(10) [OF e1(3)] ok by simp_all
  obtain e2 where e2: "item_unlink_q e1 it = Some e2" "lru_queue e2 (clsid e1 it) ([] @ xs)"
    using item_unlink_q_queue [of e1 it "[]" xs] e1(2) c it(3) by auto
  have "lru_queue e1 d ys" if d: "d \<noteq> clsid e it" "lru_queue e d ys" "set ys \<inter> set (it # xs) = {}" for d ys
  proof (rule lru_queue_other [OF d(2) e1(3) d(1)])
    fix y assume "y \<in> set ys"
    then have "y \<notin> set (it # xs)" using d(3) by blast
    then show "mem e1 y = mem e y" by (rule e1(4))
  qed
  then show ?thesis using e1(1,2) e2 c by auto
qed

theorem lru_link_then_unlink_witness:
  "\<exists>e1. item_link_q sample_full 131072 = Some e1 \<and> lru_queue e1 (clsid sample_full 131072) [131072]"
proof -
  note core = cache_invD(3) [OF sample_full(1)]
  have l: "lru_rep sample_full {}" using engine_coreD(3) [OF core] by simp
  have a: "class_map sample_full {131072, 131168} 131072 = Some (clsid sample_full 131072)" by (simp add: class_map_def)
  have s: "slab_rep sample_full (class_map sample_full {131072, 131168}) {}" using engine_coreD(4) [OF core] by simp
  have c: "clsid sample_full 131072 < POWER_LARGEST"
    by (rule slab_okD(4) [OF slab_repD(1) [OF s] slab_repD(6) [OF s a]])
  obtain xs where "lru_queue sample_full (clsid sample_full 131072) xs" "set xs = {}"
    using lru_repD(3) [OF l c] by (auto simp: lru_holds_def)
  moreover have "\<not> slabbed (mem sample_full 131072)" using engine_coreD(6) [OF core, of 131072] by (simp add: item_ok_def)
  ultimately show ?thesis
    using lru_link_then_unlink [of sample_full 131072 "[]"] c lru_repD(1) [OF l] by auto
qed

end
