(* ===== verification/Genhash.thy ===== *)
theory Genhash
  imports Prelude "HOL-Library.Multiset"
begin

unbundle bit_operations_syntax

text \<open>
  The generic hash table, \<^verbatim>\<open>memcached/utilities/genhash.c\<close>: a fixed number of buckets, each a chain of
  entries, newest first, with the operations on keys and values given by the client. The table
  holds several entries under one key. Keys and values are of arbitrary types; the operations that
  free them are recorded in the table, oldest call last.
\<close>

section \<open>The data\<close>

record ('k, 'v) genhash_entry =
  ge_key :: 'k
  ge_nkey :: u64
  ge_value :: 'v
  ge_nvalue :: u64

text \<open>\<open>freeKey\<close> and \<open>freeValue\<close> say whether the client gives such a function.\<close>

record ('k, 'v) hash_ops =
  hashfunc :: "'k \<Rightarrow> u64 \<Rightarrow> u32"
  hasheq :: "'k \<Rightarrow> u64 \<Rightarrow> 'k \<Rightarrow> u64 \<Rightarrow> bool"
  dupKey :: "('k \<Rightarrow> u64 \<Rightarrow> 'k) option"
  dupValue :: "('v \<Rightarrow> u64 \<Rightarrow> 'v) option"
  freeKey :: bool
  freeValue :: bool

record ('k, 'v) genhash =
  gh_size :: u64
  gh_ops :: "('k, 'v) hash_ops"
  gh_buckets :: "('k, 'v) genhash_entry list list"
  gh_freed_keys :: "'k list"
  gh_freed_values :: "'v list"

datatype update_type = MODIFICATION | NEW

definition prime_size_table :: "nat list" where
  "prime_size_table =
     [3, 7, 13, 23, 47, 97, 193, 383, 769, 1531, 3067, 6143, 12289, 24571, 49157,
      98299, 196613, 393209, 786433, 1572869, 3145721, 6291449, 12582917,
      25165813, 50331653, 100663291, 201326611, 402653189, 805306357, 1610612741]"

section \<open>Copying and freeing\<close>

definition dup_key :: "('k, 'v) genhash \<Rightarrow> 'k \<Rightarrow> u64 \<Rightarrow> 'k" where
  "dup_key h key klen = (case dupKey (gh_ops h) of None \<Rightarrow> key | Some f \<Rightarrow> f key klen)"

definition dup_value :: "('k, 'v) genhash \<Rightarrow> 'v \<Rightarrow> u64 \<Rightarrow> 'v" where
  "dup_value h val vlen = (case dupValue (gh_ops h) of None \<Rightarrow> val | Some f \<Rightarrow> f val vlen)"

definition free_key :: "'k \<Rightarrow> ('k, 'v) genhash \<Rightarrow> ('k, 'v) genhash" where
  "free_key key h = (if freeKey (gh_ops h) then h\<lparr>gh_freed_keys := key # gh_freed_keys h\<rparr> else h)"

definition free_value :: "'v \<Rightarrow> ('k, 'v) genhash \<Rightarrow> ('k, 'v) genhash" where
  "free_value val h = (if freeValue (gh_ops h) then h\<lparr>gh_freed_values := val # gh_freed_values h\<rparr> else h)"

definition free_item :: "('k, 'v) genhash_entry \<Rightarrow> ('k, 'v) genhash \<Rightarrow> ('k, 'v) genhash" where
  "free_item i h = free_value (ge_value i) (free_key (ge_key i) h)"

section \<open>Creating\<close>

text \<open>
  \<^verbatim>\<open>(int)log((double)est)/log(2)\<close>: the cast binds to the first logarithm. The quotient is cut to an
  integer by the assignment.
\<close>

definition table_magnitude :: "int \<Rightarrow> nat" where
  "table_magnitude est = nat (\<lfloor>real_of_int \<lfloor>ln (real_of_int est)\<rfloor> / ln 2\<rfloor> - 1)"

definition estimate_table_size :: "int \<Rightarrow> nat option" where
  "estimate_table_size est =
     do {
       guard (0 < est);
       arr_get prime_size_table (table_magnitude est)
     }"

definition genhash_init :: "bool \<Rightarrow> int \<Rightarrow> ('k, 'v) hash_ops \<Rightarrow> ('k, 'v) genhash option option" where
  "genhash_init alloc_ok est ops =
     (if est < 1 then Some None
      else do {
        guard ((dupKey ops \<noteq> None \<and> freeKey ops) \<or> \<not> freeKey ops);
        guard ((dupValue ops \<noteq> None \<and> freeValue ops) \<or> \<not> freeValue ops);
        sz \<leftarrow> estimate_table_size est;
        guard alloc_ok;
        Some (Some \<lparr>gh_size = of_nat sz, gh_ops = ops, gh_buckets = replicate sz [],
                    gh_freed_keys = [], gh_freed_values = []\<rparr>)
      })"

section \<open>Storing and finding\<close>

text \<open>The \<^verbatim>\<open>int\<close> of the hash function is converted to \<^verbatim>\<open>size_t\<close> before the remainder is taken.\<close>

definition bucket_of :: "('k, 'v) genhash \<Rightarrow> 'k \<Rightarrow> u64 \<Rightarrow> nat" where
  "bucket_of h k klen = unat ((scast (hashfunc (gh_ops h) k klen) :: u64) mod gh_size h)"

definition genhash_store :: "bool \<Rightarrow> ('k, 'v) genhash \<Rightarrow> 'k \<Rightarrow> u64 \<Rightarrow> 'v \<Rightarrow> u64 \<Rightarrow> ('k, 'v) genhash option" where
  "genhash_store alloc_ok h k klen v vlen =
     do {
       let n = bucket_of h k klen;
       b \<leftarrow> arr_get (gh_buckets h) n;
       guard alloc_ok;
       let p = \<lparr>ge_key = dup_key h k klen, ge_nkey = klen, ge_value = dup_value h v vlen, ge_nvalue = vlen\<rparr>;
       Some (h\<lparr>gh_buckets := (gh_buckets h)[n := p # b]\<rparr>)
     }"

text \<open>The position of the first entry with the key in its chain.\<close>

fun find_index :: "('a \<Rightarrow> bool) \<Rightarrow> 'a list \<Rightarrow> nat option" where
  "find_index P [] = None"
| "find_index P (x # xs) = (if P x then Some 0 else map_option Suc (find_index P xs))"

definition genhash_find_entry :: "('k, 'v) genhash \<Rightarrow> 'k \<Rightarrow> u64 \<Rightarrow> (nat \<times> nat) option option" where
  "genhash_find_entry h k klen =
     do {
       let n = bucket_of h k klen;
       b \<leftarrow> arr_get (gh_buckets h) n;
       Some (map_option (\<lambda>i. (n, i))
         (find_index (\<lambda>p. hasheq (gh_ops h) k klen (ge_key p) (ge_nkey p)) b))
     }"

definition entry_at :: "('k, 'v) genhash \<Rightarrow> nat \<times> nat \<Rightarrow> ('k, 'v) genhash_entry" where
  "entry_at h = (\<lambda>(n, i). gh_buckets h ! n ! i)"

definition genhash_find :: "('k, 'v) genhash \<Rightarrow> 'k \<Rightarrow> u64 \<Rightarrow> 'v option option" where
  "genhash_find h k klen =
     do {
       p \<leftarrow> genhash_find_entry h k klen;
       Some (map_option (\<lambda>loc. ge_value (entry_at h loc)) p)
     }"

definition set_value :: "nat \<times> nat \<Rightarrow> 'v \<Rightarrow> ('k, 'v) genhash \<Rightarrow> ('k, 'v) genhash" where
  "set_value = (\<lambda>(n, i) v h. h\<lparr>gh_buckets := (gh_buckets h)[n := (gh_buckets h ! n)
     [i := (gh_buckets h ! n ! i)\<lparr>ge_value := v\<rparr>]]\<rparr>)"

definition genhash_update ::
    "bool \<Rightarrow> ('k, 'v) genhash \<Rightarrow> 'k \<Rightarrow> u64 \<Rightarrow> 'v \<Rightarrow> u64 \<Rightarrow> (update_type \<times> ('k, 'v) genhash) option" where
  "genhash_update alloc_ok h k klen v vlen =
     do {
       p \<leftarrow> genhash_find_entry h k klen;
       case p of
         Some loc \<Rightarrow>
           (let h = free_value (ge_value (entry_at h loc)) h
            in Some (MODIFICATION, set_value loc (dup_value h v vlen) h))
       | None \<Rightarrow> do { h \<leftarrow> genhash_store alloc_ok h k klen v vlen; Some (NEW, h) }
     }"

text \<open>
  \<open>upd\<close> is the client's function; it returns the new value and its size. \<^verbatim>\<open>fr\<close>, which frees what
  \<open>upd\<close> returned once it has been copied, has no effect on the table.
\<close>

definition genhash_fun_update ::
    "bool \<Rightarrow> ('k, 'v) genhash \<Rightarrow> 'k \<Rightarrow> u64 \<Rightarrow> ('k \<Rightarrow> 'v \<Rightarrow> 'v \<times> u64) \<Rightarrow> 'v
     \<Rightarrow> (update_type \<times> ('k, 'v) genhash) option" where
  "genhash_fun_update alloc_ok h k klen upd def =
     do {
       p \<leftarrow> genhash_find_entry h k klen;
       case p of
         Some loc \<Rightarrow>
           (let (new, newSize) = upd k (ge_value (entry_at h loc));
                h = free_value (ge_value (entry_at h loc)) h
            in Some (MODIFICATION, set_value loc (dup_value h new newSize) h))
       | None \<Rightarrow>
           (let (new, newSize) = upd k def
            in do { h \<leftarrow> genhash_store alloc_ok h k klen new newSize; Some (NEW, h) })
     }"

section \<open>Deleting\<close>

text \<open>The first entry of a chain that satisfies a test, and the chain without it.\<close>

fun remove_first :: "('a \<Rightarrow> bool) \<Rightarrow> 'a list \<Rightarrow> 'a option \<times> 'a list" where
  "remove_first P [] = (None, [])"
| "remove_first P (x # xs) =
     (if P x then (Some x, xs) else (let (r, ys) = remove_first P xs in (r, x # ys)))"

definition genhash_delete :: "('k, 'v) genhash \<Rightarrow> 'k \<Rightarrow> u64 \<Rightarrow> (int \<times> ('k, 'v) genhash) option" where
  "genhash_delete h k klen =
     do {
       let n = bucket_of h k klen;
       b \<leftarrow> arr_get (gh_buckets h) n;
       let (deleteme, b') = remove_first (\<lambda>p. hasheq (gh_ops h) (ge_key p) (ge_nkey p) k klen) b;
       Some (case deleteme of
         None \<Rightarrow> (0, h)
       | Some p \<Rightarrow> (1, free_item p (h\<lparr>gh_buckets := (gh_buckets h)[n := b']\<rparr>)))
     }"

partial_function (option) genhash_delete_all ::
    "('k, 'v) genhash \<Rightarrow> 'k \<Rightarrow> u64 \<Rightarrow> int \<Rightarrow> (int \<times> ('k, 'v) genhash) option" where
  "genhash_delete_all h k klen rv =
     do {
       (d, h) \<leftarrow> genhash_delete h k klen;
       if d = 1 then genhash_delete_all h k klen (rv + 1) else Some (rv, h)
     }"

fun clear_bucket :: "('k, 'v) genhash_entry list \<Rightarrow> ('k, 'v) genhash \<Rightarrow> ('k, 'v) genhash" where
  "clear_bucket [] h = h"
| "clear_bucket (p # ps) h = clear_bucket ps (free_item p h)"

fun clear_buckets :: "nat list \<Rightarrow> ('k, 'v) genhash \<Rightarrow> ('k, 'v) genhash option" where
  "clear_buckets [] h = Some h"
| "clear_buckets (i # is) h =
     do {
       b \<leftarrow> arr_get (gh_buckets h) i;
       clear_buckets is (clear_bucket b (h\<lparr>gh_buckets := (gh_buckets h)[i := []]\<rparr>))
     }"

definition genhash_clear :: "('k, 'v) genhash \<Rightarrow> (int \<times> ('k, 'v) genhash) option" where
  "genhash_clear h = do { h \<leftarrow> clear_buckets [0..<unat (gh_size h)] h; Some (0, h) }"

text \<open>What is left of a table that is freed: the calls it made.\<close>

definition genhash_free :: "('k, 'v) genhash option \<Rightarrow> ('k list \<times> 'v list) option" where
  "genhash_free h =
     (case h of None \<Rightarrow> Some ([], [])
      | Some h \<Rightarrow> do { (rv, h) \<leftarrow> genhash_clear h; Some (gh_freed_keys h, gh_freed_values h) })"

section \<open>Iterating\<close>

text \<open>The client's function changes the client's state \<open>s\<close>.\<close>

definition visit :: "('k \<Rightarrow> u64 \<Rightarrow> 'v \<Rightarrow> u64 \<Rightarrow> 's \<Rightarrow> 's) \<Rightarrow> ('k, 'v) genhash_entry \<Rightarrow> 's \<Rightarrow> 's" where
  "visit f p s = f (ge_key p) (ge_nkey p) (ge_value p) (ge_nvalue p) s"

fun iter_buckets :: "('k \<Rightarrow> u64 \<Rightarrow> 'v \<Rightarrow> u64 \<Rightarrow> 's \<Rightarrow> 's) \<Rightarrow> nat list \<Rightarrow> ('k, 'v) genhash \<Rightarrow> 's \<Rightarrow> 's option" where
  "iter_buckets f [] h s = Some s"
| "iter_buckets f (i # is) h s =
     do {
       b \<leftarrow> arr_get (gh_buckets h) i;
       iter_buckets f is h (fold (visit f) b s)
     }"

definition genhash_iter :: "('k, 'v) genhash \<Rightarrow> ('k \<Rightarrow> u64 \<Rightarrow> 'v \<Rightarrow> u64 \<Rightarrow> 's \<Rightarrow> 's) \<Rightarrow> 's \<Rightarrow> 's option" where
  "genhash_iter h f s = iter_buckets f [0..<unat (gh_size h)] h s"

definition genhash_iter_key ::
    "('k, 'v) genhash \<Rightarrow> 'k \<Rightarrow> u64 \<Rightarrow> ('k \<Rightarrow> u64 \<Rightarrow> 'v \<Rightarrow> u64 \<Rightarrow> 's \<Rightarrow> 's) \<Rightarrow> 's \<Rightarrow> 's option" where
  "genhash_iter_key h key klen f s =
     do {
       b \<leftarrow> arr_get (gh_buckets h) (bucket_of h key klen);
       Some (fold (visit f) (filter (\<lambda>p. hasheq (gh_ops h) key klen (ge_key p) (ge_nkey p)) b) s)
     }"

definition count_entries :: "'k \<Rightarrow> u64 \<Rightarrow> 'v \<Rightarrow> u64 \<Rightarrow> int \<Rightarrow> int" where
  "count_entries key klen val vlen cnt = cnt + 1"

definition genhash_size :: "('k, 'v) genhash \<Rightarrow> int option" where
  "genhash_size h = genhash_iter h count_entries 0"

definition genhash_size_for_key :: "('k, 'v) genhash \<Rightarrow> 'k \<Rightarrow> u64 \<Rightarrow> int option" where
  "genhash_size_for_key h k klen = genhash_iter_key h k klen count_entries 0"

text \<open>\<^verbatim>\<open>rv = ((rv << 5) + rv) ^ str[i]\<close> on 32-bit integers, with signed characters.\<close>

definition genhash_string_hash :: "byte list \<Rightarrow> u32" where
  "genhash_string_hash bs = foldl (\<lambda>rv c. (push_bit 5 rv + rv) XOR scast c) 5381 bs"

section \<open>The table as a map from keys to lists of values\<close>

text \<open>
  What the table asks of its client: \<^verbatim>\<open>hasheq\<close> is an equivalence, equal keys have equal hashes, and a
  copy of a key is equal to it.
\<close>

abbreviation key_eq :: "('k, 'v) hash_ops \<Rightarrow> 'k \<times> u64 \<Rightarrow> 'k \<times> u64 \<Rightarrow> bool" where
  "key_eq ops a b \<equiv> hasheq ops (fst a) (snd a) (fst b) (snd b)"

definition good_ops :: "('k, 'v) hash_ops \<Rightarrow> bool" where
  "good_ops ops \<longleftrightarrow> equivp (key_eq ops)
     \<and> (\<forall>k n k' n'. hasheq ops k n k' n' \<longrightarrow> hashfunc ops k n = hashfunc ops k' n')
     \<and> (\<forall>f k n. dupKey ops = Some f \<longrightarrow> hasheq ops k n (f k n) n)"

definition gh_ok :: "('k, 'v) genhash \<Rightarrow> bool" where
  "gh_ok h \<longleftrightarrow> good_ops (gh_ops h) \<and> 0 < gh_size h \<and> length (gh_buckets h) = unat (gh_size h)
     \<and> (\<forall>n < length (gh_buckets h). \<forall>p \<in> set (gh_buckets h ! n). bucket_of h (ge_key p) (ge_nkey p) = n)"

text \<open>The values under a key, newest first.\<close>

definition matches :: "('k, 'v) genhash \<Rightarrow> 'k \<Rightarrow> u64 \<Rightarrow> ('k, 'v) genhash_entry \<Rightarrow> bool" where
  "matches h k n p = hasheq (gh_ops h) k n (ge_key p) (ge_nkey p)"

definition values_of :: "('k, 'v) genhash \<Rightarrow> 'k \<Rightarrow> u64 \<Rightarrow> 'v list" where
  "values_of h k n = map ge_value (filter (matches h k n) (gh_buckets h ! bucket_of h k n))"

lemma good_opsD:
  assumes "good_ops ops"
  shows "hasheq ops k n k n" "hasheq ops k n k' n' \<Longrightarrow> hasheq ops k' n' k n"
    "hasheq ops k n k' n' \<Longrightarrow> hasheq ops k' n' k'' n'' \<Longrightarrow> hasheq ops k n k'' n''"
    "hasheq ops k n k' n' \<Longrightarrow> hashfunc ops k n = hashfunc ops k' n'"
    "dupKey ops = Some f \<Longrightarrow> hasheq ops k n (f k n) n"
proof -
  have e: "equivp (key_eq ops)" using assms by (simp add: good_ops_def)
  show "hasheq ops k n k n" using equivp_reflp [OF e, of "(k, n)"] by simp
  show "hasheq ops k n k' n' \<Longrightarrow> hasheq ops k' n' k n" using equivp_symp [OF e, of "(k, n)" "(k', n')"] by simp
  show "hasheq ops k n k' n' \<Longrightarrow> hasheq ops k' n' k'' n'' \<Longrightarrow> hasheq ops k n k'' n''"
    using equivp_transp [OF e, of "(k, n)" "(k', n')" "(k'', n'')"] by simp
  show "hasheq ops k n k' n' \<Longrightarrow> hashfunc ops k n = hashfunc ops k' n'"
    "dupKey ops = Some f \<Longrightarrow> hasheq ops k n (f k n) n"
    using assms by (auto simp: good_ops_def)
qed

lemma gh_okD:
  assumes "gh_ok h"
  shows "good_ops (gh_ops h)" "length (gh_buckets h) = unat (gh_size h)" "bucket_of h k n < length (gh_buckets h)"
    "m < length (gh_buckets h) \<Longrightarrow> p \<in> set (gh_buckets h ! m) \<Longrightarrow> bucket_of h (ge_key p) (ge_nkey p) = m"
proof -
  show "good_ops (gh_ops h)" and l: "length (gh_buckets h) = unat (gh_size h)"
    "m < length (gh_buckets h) \<Longrightarrow> p \<in> set (gh_buckets h ! m) \<Longrightarrow> bucket_of h (ge_key p) (ge_nkey p) = m"
    using assms by (auto simp: gh_ok_def)
  have "0 < gh_size h" using assms by (simp add: gh_ok_def)
  then show "bucket_of h k n < length (gh_buckets h)"
    by (simp add: l(1) bucket_of_def unat_mod word_less_nat_alt)
qed

lemma bucket_of_eq: "good_ops (gh_ops h) \<Longrightarrow> hasheq (gh_ops h) k n k' n' \<Longrightarrow> bucket_of h k n = bucket_of h k' n'"
  using good_opsD(4) [of "gh_ops h" k n k' n'] by (simp add: bucket_of_def)

lemma matches_eq:
  assumes "good_ops (gh_ops h)" "hasheq (gh_ops h) k n k' n'"
  shows "matches h k n = matches h k' n'"
proof
  fix p
  show "matches h k n p = matches h k' n' p"
    unfolding matches_def using good_opsD(2,3) [OF assms(1)] assms(2) by metis
qed

lemma values_of_eq:
  "good_ops (gh_ops h) \<Longrightarrow> hasheq (gh_ops h) k n k' n' \<Longrightarrow> values_of h k n = values_of h k' n'"
  by (simp add: values_of_def matches_eq bucket_of_eq)

text \<open>Changing one bucket: the keys of other buckets and the keys that match nothing new keep their values.\<close>

lemma bucket_update:
  fixes h :: "('k, 'v) genhash"
  assumes ok: "gh_ok h" and n: "n < length (gh_buckets h)"
    and h': "gh_ops h' = gh_ops h" "gh_size h' = gh_size h" "gh_buckets h' = (gh_buckets h)[n := b]"
    and b: "\<And>p. p \<in> set b \<Longrightarrow> bucket_of h (ge_key p) (ge_nkey p) = n"
  shows "gh_ok h'" "bucket_of h' = bucket_of h" "matches h' = matches h"
    "values_of h' k m = (if bucket_of h k m = n then map ge_value (filter (matches h k m) b) else values_of h k m)"
proof -
  show bo: "bucket_of h' = bucket_of h" and ma: "matches h' = matches h"
    by (intro ext; simp add: bucket_of_def matches_def h')+
  show "gh_ok h'" using ok b n by (auto simp: gh_ok_def h' bo nth_list_update)
  show "values_of h' k m = (if bucket_of h k m = n then map ge_value (filter (matches h k m) b) else values_of h k m)"
    using n by (simp add: values_of_def bo ma h')
qed

section \<open>Store and find\<close>

lemma genhash_store_values:
  assumes ok: "gh_ok h"
  shows "\<exists>h'. genhash_store True h k n v vn = Some h' \<and> gh_ok h' \<and> gh_ops h' = gh_ops h
    \<and> (\<forall>k' n'. values_of h' k' n' =
         (if hasheq (gh_ops h) k n k' n' then dup_value h v vn # values_of h k' n' else values_of h k' n'))"
proof -
  note g = gh_okD(1) [OF ok]
  define N where "N = bucket_of h k n"
  define p where "p = \<lparr>ge_key = dup_key h k n, ge_nkey = n, ge_value = dup_value h v vn, ge_nvalue = vn\<rparr>"
  define h' where "h' = h\<lparr>gh_buckets := (gh_buckets h)[N := p # gh_buckets h ! N]\<rparr>"
  have N: "N < length (gh_buckets h)" using gh_okD(3) [OF ok] by (simp add: N_def)
  have eq: "hasheq (gh_ops h) k n (dup_key h k n) n"
    using good_opsD(1,5) [OF g] by (auto simp: dup_key_def split: option.splits)
  have b: "bucket_of h (ge_key q) (ge_nkey q) = N" if "q \<in> set (p # gh_buckets h ! N)" for q
    using that gh_okD(4) [OF ok N] bucket_of_eq [OF g eq] by (auto simp: p_def N_def)
  note u = bucket_update [OF ok N, of h' "p # gh_buckets h ! N", OF _ _ _ b]
  have "values_of h' k' n' = (if hasheq (gh_ops h) k n k' n' then dup_value h v vn # values_of h k' n' else values_of h k' n')"
    for k' n'
  proof -
    have m: "matches h k' n' p \<longleftrightarrow> hasheq (gh_ops h) k n k' n'"
      unfolding matches_def p_def genhash_entry.simps using good_opsD(2,3) [OF g] eq by metis
    show ?thesis
      using u(4) [of k' n'] bucket_of_eq [OF g, of k n k' n']
      by (auto simp: h'_def m values_of_def N_def) (simp add: p_def)
  qed
  moreover have "genhash_store True h k n v vn = Some h'"
    using N by (simp add: genhash_store_def h'_def p_def N_def Let_def)
  moreover have "gh_ok h'" using u(1) by (simp add: h'_def)
  ultimately show ?thesis by (auto simp: h'_def)
qed

lemma find_index_filter:
  "(case find_index P xs of None \<Rightarrow> filter P xs = []
    | Some i \<Rightarrow> i < length xs \<and> P (xs ! i) \<and> (\<forall>j<i. \<not> P (xs ! j)) \<and> (\<exists>ys. filter P xs = xs ! i # ys))"
proof (induction xs)
  case (Cons x xs)
  then show ?case by (cases "find_index P xs") (auto simp: less_Suc_eq_0_disj)
qed simp

lemma genhash_find_entry_values:
  assumes ok: "gh_ok h"
  shows "\<exists>r. genhash_find_entry h k n = Some r \<and> (case r of None \<Rightarrow> values_of h k n = []
    | Some (m, i) \<Rightarrow> m = bucket_of h k n \<and> i < length (gh_buckets h ! m) \<and> matches h k n (gh_buckets h ! m ! i)
        \<and> (\<forall>j<i. \<not> matches h k n (gh_buckets h ! m ! j))
        \<and> (\<exists>vs. values_of h k n = ge_value (gh_buckets h ! m ! i) # vs))"
proof -
  let ?m = "bucket_of h k n"
  have "find_index (\<lambda>p. hasheq (gh_ops h) k n (ge_key p) (ge_nkey p)) (gh_buckets h ! ?m)
      = find_index (matches h k n) (gh_buckets h ! ?m)"
    by (rule arg_cong [where f = "\<lambda>P. find_index P _"]) (simp add: matches_def fun_eq_iff)
  then have run: "genhash_find_entry h k n = Some (map_option (\<lambda>i. (?m, i)) (find_index (matches h k n) (gh_buckets h ! ?m)))"
    using gh_okD(3) [OF ok, of k n] by (simp add: genhash_find_entry_def Let_def)
  show ?thesis
    using find_index_filter [of "matches h k n" "gh_buckets h ! ?m"] unfolding run
    by (cases "find_index (matches h k n) (gh_buckets h ! ?m)") (auto simp: values_of_def)
qed

lemma genhash_find_values:
  assumes ok: "gh_ok h"
  shows "genhash_find h k n = Some (case values_of h k n of [] \<Rightarrow> None | v # vs \<Rightarrow> Some v)"
proof -
  obtain r where "genhash_find_entry h k n = Some r" "case r of None \<Rightarrow> values_of h k n = []
    | Some (m, i) \<Rightarrow> \<exists>vs. values_of h k n = ge_value (gh_buckets h ! m ! i) # vs"
    using genhash_find_entry_values [OF ok, of k n] by (auto split: option.splits)
  then show ?thesis by (auto simp: genhash_find_def entry_at_def split: option.splits)
qed

section \<open>Update and delete\<close>

lemma filter_nth_split:
  assumes "i < length xs" "P (xs ! i)" "\<And>j. j < i \<Longrightarrow> \<not> P (xs ! j)"
  shows "filter P xs = xs ! i # filter P (drop (Suc i) xs)" "filter P (take i xs) = []"
proof -
  show t: "filter P (take i xs) = []" using assms by (auto simp: filter_empty_conv in_set_conv_nth)
  have "filter P xs = filter P (take i xs) @ filter P (xs ! i # drop (Suc i) xs)"
    unfolding filter_append [symmetric] by (simp add: id_take_nth_drop [OF assms(1), symmetric])
  then show "filter P xs = xs ! i # filter P (drop (Suc i) xs)" using t assms(2) by simp
qed

lemma genhash_update_values:
  assumes ok: "gh_ok h"
  shows "\<exists>u h'. genhash_update True h k n v vn = Some (u, h') \<and> gh_ok h' \<and> gh_ops h' = gh_ops h
    \<and> (u = NEW \<longleftrightarrow> values_of h k n = [])
    \<and> (\<forall>k' n'. values_of h' k' n' =
         (if hasheq (gh_ops h) k n k' n' then dup_value h v vn # tl (values_of h k' n') else values_of h k' n'))"
proof -
  note g = gh_okD(1) [OF ok]
  obtain r where r: "genhash_find_entry h k n = Some r" "case r of None \<Rightarrow> values_of h k n = []
    | Some (m, i) \<Rightarrow> m = bucket_of h k n \<and> i < length (gh_buckets h ! m) \<and> matches h k n (gh_buckets h ! m ! i)
        \<and> (\<forall>j<i. \<not> matches h k n (gh_buckets h ! m ! j))
        \<and> (\<exists>vs. values_of h k n = ge_value (gh_buckets h ! m ! i) # vs)"
    using genhash_find_entry_values [OF ok, of k n] by blast
  show ?thesis
  proof (cases r)
    case None
    obtain h' where h': "genhash_store True h k n v vn = Some h'" "gh_ok h'" "gh_ops h' = gh_ops h"
      "\<forall>k' n'. values_of h' k' n' =
         (if hasheq (gh_ops h) k n k' n' then dup_value h v vn # values_of h k' n' else values_of h k' n')"
      using genhash_store_values [OF ok] by blast
    have nil: "values_of h k n = []" using r(2) None by simp
    then have "values_of h k' n' = []" if "hasheq (gh_ops h) k n k' n'" for k' n'
      using values_of_eq [OF g that] by simp
    then show ?thesis using r(1) None h' nil by (auto simp: genhash_update_def)
  next
    case (Some mi)
    obtain m i where mi: "mi = (m, i)" by (cases mi)
    define b p where "b = gh_buckets h ! m" and "p = b ! i"
    have m: "m = bucket_of h k n" "i < length b" "matches h k n p" "\<And>j. j < i \<Longrightarrow> \<not> matches h k n (b ! j)"
      "values_of h k n \<noteq> []"
      using r(2) Some mi by (auto simp: b_def p_def)
    have ml: "m < length (gh_buckets h)" using gh_okD(3) [OF ok] m(1) by simp
    define h1 where "h1 = free_value (ge_value p) h"
    define b' where "b' = b[i := p\<lparr>ge_value := dup_value h v vn\<rparr>]"
    define h' where "h' = h1\<lparr>gh_buckets := (gh_buckets h)[m := b']\<rparr>"
    have h1: "gh_ops h1 = gh_ops h" "gh_size h1 = gh_size h" "gh_buckets h1 = gh_buckets h"
      by (simp_all add: h1_def free_value_def)
    have run: "genhash_update True h k n v vn = Some (MODIFICATION, h')"
      using r(1) Some mi
      by (simp add: genhash_update_def set_value_def entry_at_def h'_def b'_def h1_def [symmetric] b_def [symmetric]
          p_def [symmetric] h1 dup_value_def)
    have bb: "bucket_of h (ge_key q) (ge_nkey q) = m" if "q \<in> set b'" for q
    proof -
      have "q = p\<lparr>ge_value := dup_value h v vn\<rparr> \<or> q \<in> set b"
        using that set_update_subset_insert [of b i] by (auto simp: b'_def)
      moreover have "p \<in> set b" using m(2) by (simp add: p_def)
      ultimately show ?thesis using gh_okD(4) [OF ok ml] by (auto simp: b_def)
    qed
    have h'f: "gh_ops h' = gh_ops h" "gh_size h' = gh_size h" "gh_buckets h' = (gh_buckets h)[m := b']"
      by (simp_all add: h'_def h1)
    note u = bucket_update [OF ok ml h'f bb]
    have split: "b' = take i b @ p\<lparr>ge_value := dup_value h v vn\<rparr> # drop (Suc i) b"
      "b = take i b @ p # drop (Suc i) b"
      using m(2) by (simp_all add: b'_def upd_conv_take_nth_drop p_def id_take_nth_drop [symmetric])
    have vals: "values_of h' k' n' =
         (if hasheq (gh_ops h) k n k' n' then dup_value h v vn # tl (values_of h k' n') else values_of h k' n')" for k' n'
    proof (cases "hasheq (gh_ops h) k n k' n'")
      case True
      have e: "matches h k' n' = matches h k n" "bucket_of h k' n' = m"
        using matches_eq [OF g True] bucket_of_eq [OF g True] m(1) by simp_all
      have f: "filter (matches h k n) b = p # filter (matches h k n) (drop (Suc i) b)" "filter (matches h k n) (take i b) = []"
        using filter_nth_split [OF m(2), of "matches h k n"] m(3,4) by (simp_all add: p_def)
      have "matches h k n (p\<lparr>ge_value := dup_value h v vn\<rparr>)" using m(3) by (simp add: matches_def)
      then have "filter (matches h k n) b' = p\<lparr>ge_value := dup_value h v vn\<rparr> # filter (matches h k n) (drop (Suc i) b)"
        unfolding split(1) using f(2) by simp
      then show ?thesis using True u(4) [of k' n'] e f(1) by (simp add: values_of_def b_def)
    next
      case False
      have "\<not> matches h k' n' p"
        using False m(3) good_opsD(2,3) [OF g] unfolding matches_def by metis
      then have "filter (matches h k' n') b' = filter (matches h k' n') b"
        unfolding split(1) by (subst (2) split(2)) (simp add: matches_def)
      then show ?thesis using False u(4) [of k' n'] by (simp add: values_of_def b_def)
    qed
    then show ?thesis using run u(1) h'f(1) m(5) by blast
  qed
qed

lemma remove_first_filter:
  "remove_first P xs = (r, ys) \<Longrightarrow>
     (case r of None \<Rightarrow> filter P xs = [] \<and> ys = xs
      | Some x \<Rightarrow> P x \<and> x \<in> set xs \<and> filter P xs = x # filter P ys \<and> mset xs = add_mset x (mset ys)
          \<and> (\<forall>Q. \<not> Q x \<longrightarrow> filter Q ys = filter Q xs))"
proof (induction xs arbitrary: r ys)
  case (Cons x xs)
  obtain r' ys' where r': "remove_first P xs = (r', ys')" by (cases "remove_first P xs")
  show ?case
  proof (cases "P x")
    case True
    then have "r = Some x" "ys = xs" using Cons.prems by simp_all
    then show ?thesis using True by simp
  next
    case False
    then have "r = r'" "ys = x # ys'" using Cons.prems r' by simp_all
    then show ?thesis using False Cons.IH [OF r'] by (cases r') simp_all
  qed
qed simp

lemma genhash_delete_values:
  assumes ok: "gh_ok h"
  shows "\<exists>d h'. genhash_delete h k n = Some (d, h') \<and> gh_ok h' \<and> gh_ops h' = gh_ops h
    \<and> d = (if values_of h k n = [] then 0 else 1) \<and> (d = 0 \<longrightarrow> h' = h)
    \<and> (\<forall>k' n'. values_of h' k' n' =
         (if hasheq (gh_ops h) k n k' n' then tl (values_of h k' n') else values_of h k' n'))"
proof -
  note g = gh_okD(1) [OF ok]
  define m where "m = bucket_of h k n"
  define b where "b = gh_buckets h ! m"
  have ml: "m < length (gh_buckets h)" using gh_okD(3) [OF ok] by (simp add: m_def)
  have P: "(\<lambda>p. hasheq (gh_ops h) (ge_key p) (ge_nkey p) k n) = matches h k n"
    using good_opsD(2) [OF g] by (auto simp: matches_def fun_eq_iff)
  obtain r b' where rb: "remove_first (matches h k n) b = (r, b')" by (cases "remove_first (matches h k n) b")
  note rf = remove_first_filter [OF rb]
  have run: "genhash_delete h k n = Some (case r of None \<Rightarrow> (0, h)
      | Some p \<Rightarrow> (1, free_item p (h\<lparr>gh_buckets := (gh_buckets h)[m := b']\<rparr>)))"
    using ml rb by (simp add: genhash_delete_def P Let_def m_def [symmetric] b_def [symmetric])
  show ?thesis
  proof (cases r)
    case None
    then have nil: "values_of h k n = []" using rf by (simp add: values_of_def b_def m_def)
    then have "values_of h k' n' = []" if "hasheq (gh_ops h) k n k' n'" for k' n'
      using values_of_eq [OF g that] by simp
    then show ?thesis using run None ok nil by auto
  next
    case (Some p)
    define h' where "h' = free_item p (h\<lparr>gh_buckets := (gh_buckets h)[m := b']\<rparr>)"
    have h'f: "gh_ops h' = gh_ops h" "gh_size h' = gh_size h" "gh_buckets h' = (gh_buckets h)[m := b']"
      by (simp_all add: h'_def free_item_def free_key_def free_value_def)
    have f: "matches h k n p" "filter (matches h k n) b = p # filter (matches h k n) b'"
      "\<And>Q. \<not> Q p \<Longrightarrow> filter Q b' = filter Q b" "mset b = add_mset p (mset b')"
      using rf Some by auto
    have "set b' \<subseteq> set b" using f(4) by (metis set_mset_add_mset_insert set_mset_mset subset_insertI)
    then have bb: "bucket_of h (ge_key q) (ge_nkey q) = m" if "q \<in> set b'" for q
      using that gh_okD(4) [OF ok ml] by (auto simp: b_def)
    note u = bucket_update [OF ok ml h'f bb]
    have "values_of h' k' n' = (if hasheq (gh_ops h) k n k' n' then tl (values_of h k' n') else values_of h k' n')" for k' n'
    proof (cases "hasheq (gh_ops h) k n k' n'")
      case True
      have e: "matches h k' n' = matches h k n" "bucket_of h k' n' = m"
        using matches_eq [OF g True] bucket_of_eq [OF g True] by (simp_all add: m_def)
      show ?thesis using True u(4) [of k' n'] e f(2) by (simp add: values_of_def b_def)
    next
      case False
      have "\<not> matches h k' n' p"
        using False f(1) good_opsD(2,3) [OF g] unfolding matches_def by metis
      then show ?thesis using False u(4) [of k' n'] f(3) by (simp add: values_of_def b_def)
    qed
    moreover have "values_of h k n \<noteq> []" using f(2) by (simp add: values_of_def b_def m_def)
    ultimately show ?thesis using run Some u(1) h'f(1) by (auto simp: h'_def [symmetric])
  qed
qed

lemma genhash_delete_all_values:
  assumes ok: "gh_ok h"
  shows "\<exists>h'. genhash_delete_all h k n rv = Some (rv + int (length (values_of h k n)), h') \<and> gh_ok h'
    \<and> gh_ops h' = gh_ops h
    \<and> (\<forall>k' n'. values_of h' k' n' = (if hasheq (gh_ops h) k n k' n' then [] else values_of h k' n'))"
  using ok
proof (induction "length (values_of h k n)" arbitrary: h rv)
  case 0
  note g = gh_okD(1) [OF 0(2)]
  obtain h' where h': "genhash_delete h k n = Some (0, h)"
    using genhash_delete_values [OF 0(2), of k n] 0(1) by auto
  have "values_of h k' n' = []" if "hasheq (gh_ops h) k n k' n'" for k' n'
    using values_of_eq [OF g that] 0(1) by simp
  then show ?case using h' 0 by (subst genhash_delete_all.simps) auto
next
  case (Suc l)
  note g = gh_okD(1) [OF Suc(3)]
  have ne: "values_of h k n \<noteq> []" using Suc(2) by auto
  obtain h1 where h1: "genhash_delete h k n = Some (1, h1)" "gh_ok h1" "gh_ops h1 = gh_ops h"
    "\<And>k' n'. values_of h1 k' n' = (if hasheq (gh_ops h) k n k' n' then tl (values_of h k' n') else values_of h k' n')"
    using genhash_delete_values [OF Suc(3), of k n] ne by auto
  have l: "l = length (values_of h1 k n)" using h1(4) [of k n] good_opsD(1) [OF g] Suc(2) by simp
  obtain h' where h': "genhash_delete_all h1 k n (rv + 1) = Some (rv + 1 + int l, h')" "gh_ok h'" "gh_ops h' = gh_ops h"
    "\<And>k' n'. values_of h' k' n' = (if hasheq (gh_ops h) k n k' n' then [] else values_of h1 k' n')"
    using Suc(1) [OF l h1(2), of "rv + 1"] l h1(3) by auto
  have "genhash_delete_all h k n rv = Some (rv + int (length (values_of h k n)), h')"
    using h1(1) h'(1) Suc(2) by (subst genhash_delete_all.simps) (simp add: Suc(2) [symmetric])
  then show ?case using h' h1(4) by auto
qed

section \<open>Iterating and clearing\<close>

abbreviation entries :: "('k, 'v) genhash \<Rightarrow> ('k, 'v) genhash_entry list" where
  "entries h \<equiv> concat (gh_buckets h)"

lemma iter_buckets_fold:
  assumes "\<forall>i \<in> set is. i < length (gh_buckets h)"
  shows "iter_buckets f is h s = Some (fold (visit f) (concat (map (\<lambda>i. gh_buckets h ! i) is)) s)"
  using assms by (induction "is" arbitrary: s) auto

lemma genhash_iter_fold:
  assumes "gh_ok h"
  shows "genhash_iter h f s = Some (fold (visit f) (entries h) s)"
proof -
  have "map (\<lambda>i. gh_buckets h ! i) [0..<unat (gh_size h)] = gh_buckets h"
    using gh_okD(2) [OF assms] by (metis map_nth)
  then show ?thesis
    using iter_buckets_fold [of "[0..<unat (gh_size h)]" h f s] gh_okD(2) [OF assms] by (simp add: genhash_iter_def)
qed

lemma fold_count: "fold (visit count_entries) ps c = c + int (length ps)"
  by (induction ps arbitrary: c) (auto simp: visit_def count_entries_def)

lemma genhash_size_length: "gh_ok h \<Longrightarrow> genhash_size h = Some (int (length (entries h)))"
  by (simp add: genhash_size_def genhash_iter_fold fold_count)

lemma genhash_size_for_key_length: "gh_ok h \<Longrightarrow> genhash_size_for_key h k n = Some (int (length (values_of h k n)))"
  using gh_okD(3) [of h k n]
  by (simp add: genhash_size_for_key_def genhash_iter_key_def values_of_def matches_def [abs_def] fold_count)

definition freed :: "('k, 'v) genhash \<Rightarrow> 'k multiset \<times> 'v multiset" where
  "freed h = (mset (gh_freed_keys h), mset (gh_freed_values h))"

lemma clear_bucket_simps:
  "gh_ops (clear_bucket ps h) = gh_ops h" "gh_size (clear_bucket ps h) = gh_size h"
  "gh_buckets (clear_bucket ps h) = gh_buckets h"
  "mset (gh_freed_keys (clear_bucket ps h)) = mset (gh_freed_keys h) + (if freeKey (gh_ops h) then mset (map ge_key ps) else {#})"
  "mset (gh_freed_values (clear_bucket ps h)) = mset (gh_freed_values h) + (if freeValue (gh_ops h) then mset (map ge_value ps) else {#})"
  by (induction ps arbitrary: h) (auto simp: free_item_def free_key_def free_value_def)

lemma clear_buckets_spec:
  assumes "distinct is" "\<forall>i \<in> set is. i < length (gh_buckets h)"
  shows "\<exists>h'. clear_buckets is h = Some h' \<and> gh_ops h' = gh_ops h \<and> gh_size h' = gh_size h
    \<and> length (gh_buckets h') = length (gh_buckets h)
    \<and> (\<forall>i < length (gh_buckets h). gh_buckets h' ! i = (if i \<in> set is then [] else gh_buckets h ! i))
    \<and> mset (gh_freed_keys h') = mset (gh_freed_keys h)
        + (if freeKey (gh_ops h) then mset (map ge_key (concat (map (\<lambda>i. gh_buckets h ! i) is))) else {#})
    \<and> mset (gh_freed_values h') = mset (gh_freed_values h)
        + (if freeValue (gh_ops h) then mset (map ge_value (concat (map (\<lambda>i. gh_buckets h ! i) is))) else {#})"
  using assms
proof (induction "is" arbitrary: h)
  case (Cons i "is")
  define h1 where "h1 = clear_bucket (gh_buckets h ! i) (h\<lparr>gh_buckets := (gh_buckets h)[i := []]\<rparr>)"
  have h1: "gh_buckets h1 = (gh_buckets h)[i := []]" "gh_ops h1 = gh_ops h" "gh_size h1 = gh_size h"
    by (simp_all add: h1_def clear_bucket_simps)
  have m: "map (\<lambda>i. gh_buckets h1 ! i) is = map (\<lambda>i. gh_buckets h ! i) is" using Cons.prems(1) by (auto simp: h1 intro!: nth_list_update_neq)
  have "distinct is" "\<forall>j \<in> set is. j < length (gh_buckets h1)" using Cons.prems by (auto simp: h1)
  from Cons.IH [OF this] obtain h' where h': "clear_buckets is h1 = Some h'" "gh_ops h' = gh_ops h" "gh_size h' = gh_size h"
    "length (gh_buckets h') = length (gh_buckets h)"
    "\<forall>j < length (gh_buckets h). gh_buckets h' ! j = (if j \<in> set is then [] else gh_buckets h1 ! j)"
    "mset (gh_freed_keys h') = mset (gh_freed_keys h1)
        + (if freeKey (gh_ops h) then mset (map ge_key (concat (map (\<lambda>i. gh_buckets h ! i) is))) else {#})"
    "mset (gh_freed_values h') = mset (gh_freed_values h1)
        + (if freeValue (gh_ops h) then mset (map ge_value (concat (map (\<lambda>i. gh_buckets h ! i) is))) else {#})"
    unfolding m by (auto simp: h1)
  have "clear_buckets (i # is) h = Some h'" using h'(1) Cons.prems(2) by (simp add: h1_def)
  moreover have "\<forall>j < length (gh_buckets h). gh_buckets h' ! j = (if j \<in> set (i # is) then [] else gh_buckets h ! j)"
    using h'(5) Cons.prems(2) by (auto simp: h1 nth_list_update)
  moreover have "mset (gh_freed_keys h1) = mset (gh_freed_keys h) + (if freeKey (gh_ops h) then mset (map ge_key (gh_buckets h ! i)) else {#})"
    "mset (gh_freed_values h1) = mset (gh_freed_values h) + (if freeValue (gh_ops h) then mset (map ge_value (gh_buckets h ! i)) else {#})"
    by (simp_all add: h1_def clear_bucket_simps)
  ultimately show ?case using h'(2-4,6,7) by auto
qed auto

lemma genhash_clear_spec:
  assumes ok: "gh_ok h"
  shows "\<exists>h'. genhash_clear h = Some (0, h') \<and> gh_ok h' \<and> entries h' = []
    \<and> mset (gh_freed_keys h') = mset (gh_freed_keys h) + (if freeKey (gh_ops h) then mset (map ge_key (entries h)) else {#})
    \<and> mset (gh_freed_values h') = mset (gh_freed_values h) + (if freeValue (gh_ops h) then mset (map ge_value (entries h)) else {#})"
proof -
  note l = gh_okD(2) [OF ok]
  have m: "map (\<lambda>i. gh_buckets h ! i) [0..<unat (gh_size h)] = gh_buckets h" using l by (metis map_nth)
  obtain h' where h': "clear_buckets [0..<unat (gh_size h)] h = Some h'" "gh_ops h' = gh_ops h" "gh_size h' = gh_size h"
    "length (gh_buckets h') = length (gh_buckets h)"
    "\<forall>i < length (gh_buckets h). gh_buckets h' ! i = []"
    "mset (gh_freed_keys h') = mset (gh_freed_keys h) + (if freeKey (gh_ops h) then mset (map ge_key (entries h)) else {#})"
    "mset (gh_freed_values h') = mset (gh_freed_values h) + (if freeValue (gh_ops h) then mset (map ge_value (entries h)) else {#})"
    using clear_buckets_spec [of "[0..<unat (gh_size h)]" h] l unfolding m by auto
  have "gh_ok h'" using ok h'(2-5) by (simp add: gh_ok_def)
  moreover have "entries h' = []" using h'(4,5) by (simp add: concat_eq_Nil_conv in_set_conv_nth) (metis in_set_conv_nth)
  ultimately show ?thesis using h'(1,6,7) by (auto simp: genhash_clear_def)
qed

section \<open>A new table\<close>

lemma genhash_init_ok:
  assumes "good_ops ops" "genhash_init True est ops = Some (Some h)"
  shows "gh_ok h" "values_of h k n = []" "gh_ops h = ops" "entries h = []"
proof -
  obtain sz where sz: "sz \<in> set prime_size_table" and h: "h = \<lparr>gh_size = of_nat sz, gh_ops = ops,
      gh_buckets = replicate sz [], gh_freed_keys = [], gh_freed_values = []\<rparr>"
    using assms(2) by (auto simp: genhash_init_def estimate_table_size_def bind_eq_Some_conv arr_get_eq_Some split: if_splits)
  have sz': "0 < sz" "sz < 2 ^ 31" using sz by (auto simp: prime_size_table_def)
  then have "unat (of_nat sz :: u64) = sz" by (simp add: unat_of_nat)
  then show ok: "gh_ok h" using assms(1) sz' by (simp add: gh_ok_def h word_less_nat_alt)
  show "gh_ops h = ops" "entries h = []" by (simp_all add: h)
  show "values_of h k n = []" using gh_okD(3) [OF ok, of k n] by (simp add: values_of_def h)
qed

section \<open>Properties of the generic hash table\<close>

definition sample_ops :: "(nat, nat) hash_ops" where
  "sample_ops = \<lparr>hashfunc = (\<lambda>k n. of_nat k), hasheq = (\<lambda>k n k' n'. k = k'), dupKey = None, dupValue = None,
     freeKey = False, freeValue = False\<rparr>"

definition sample_table :: "(nat, nat) genhash" where
  "sample_table = \<lparr>gh_size = 3, gh_ops = sample_ops, gh_buckets = [[], [], []], gh_freed_keys = [], gh_freed_values = []\<rparr>"

lemma sample_table: "gh_ok sample_table" "values_of sample_table k n = []" "gh_ops sample_table = sample_ops"
proof -
  have "equivp (key_eq sample_ops)" by (rule equivpI) (auto simp: sample_ops_def reflp_def symp_def transp_def)
  then have "good_ops sample_ops" by (auto simp: good_ops_def) (auto simp: sample_ops_def)
  moreover have "([[], [], []] :: (nat, nat) genhash_entry list list) ! n = []" if "n < Suc (Suc (Suc 0))" for n
    using that by (auto simp: less_Suc_eq)
  ultimately show "gh_ok sample_table" by (simp add: gh_ok_def sample_table_def)
  have "gh_buckets sample_table ! bucket_of sample_table k n = []"
    using gh_okD(3) [OF \<open>gh_ok sample_table\<close>, of k n]
    by (auto simp: sample_table_def less_Suc_eq numeral_3_eq_3 nth_Cons')
  then show "values_of sample_table k n = []" by (simp add: values_of_def)
  show "gh_ops sample_table = sample_ops" by (simp add: sample_table_def)
qed

lemma sample_value: "dup_value sample_table v n = v" "hasheq sample_ops k m k' m' = (k = k')"
  by (simp_all add: dup_value_def sample_table_def sample_ops_def)

text \<open>
  C29. The table maps every key to the list of the values stored under it, latest first. Storing puts
  the value in front of the list of its key and of no other, and a lookup returns the value stored
  last, of an equal key.
\<close>

theorem genhash_store_find:
  assumes "gh_ok h"
  shows "\<exists>h'. genhash_store True h k n v vn = Some h' \<and> gh_ok h'
    \<and> (\<forall>k' n'. values_of h' k' n' =
         (if hasheq (gh_ops h) k n k' n' then dup_value h v vn # values_of h k' n' else values_of h k' n'))
    \<and> (\<forall>k' n'. genhash_find h' k' n' =
         (if hasheq (gh_ops h) k n k' n' then Some (Some (dup_value h v vn)) else genhash_find h k' n'))"
proof -
  obtain h' where "genhash_store True h k n v vn = Some h'" "gh_ok h'"
    "\<forall>k' n'. values_of h' k' n' =
         (if hasheq (gh_ops h) k n k' n' then dup_value h v vn # values_of h k' n' else values_of h k' n')"
    using genhash_store_values [OF assms] by blast
  then show ?thesis by (auto simp: genhash_find_values assms)
qed

theorem genhash_store_find_witness:
  "\<exists>h'. genhash_store True sample_table 5 8 42 8 = Some h' \<and> genhash_find h' 5 8 = Some (Some 42)
    \<and> genhash_find h' 2 8 = Some None"
proof -
  obtain h' where "genhash_store True sample_table 5 8 42 8 = Some h'"
    "\<forall>k' n'. genhash_find h' k' n' = (if hasheq (gh_ops sample_table) 5 8 k' n'
        then Some (Some (dup_value sample_table 42 8)) else genhash_find sample_table k' n')"
    using genhash_store_find [OF sample_table(1), of 5 8 42 8] by blast
  then show ?thesis
    using genhash_find_values [OF sample_table(1)] sample_table(2)
    by (auto simp: sample_table(3) sample_value)
qed

text \<open>
  C30. Updating replaces the latest value of the key, or stores it when there is none, and says which;
  deleting removes the latest value of the key and reports whether there was one. Other keys keep
  their values.
\<close>

theorem genhash_update_delete:
  assumes "gh_ok h"
  shows "(\<exists>u h'. genhash_update True h k n v vn = Some (u, h') \<and> gh_ok h' \<and> (u = NEW \<longleftrightarrow> values_of h k n = [])
      \<and> (\<forall>k' n'. values_of h' k' n' =
           (if hasheq (gh_ops h) k n k' n' then dup_value h v vn # tl (values_of h k' n') else values_of h k' n')))
    \<and> (\<exists>d h'. genhash_delete h k n = Some (d, h') \<and> gh_ok h' \<and> d = (if values_of h k n = [] then 0 else 1)
      \<and> (\<forall>k' n'. values_of h' k' n' =
           (if hasheq (gh_ops h) k n k' n' then tl (values_of h k' n') else values_of h k' n')))"
  using genhash_update_values [OF assms, of k n v vn] genhash_delete_values [OF assms, of k n] by blast

theorem genhash_update_delete_witness:
  "(\<exists>h'. genhash_update True sample_table 5 8 42 8 = Some (NEW, h') \<and> values_of h' 5 8 = [42])
   \<and> (\<exists>h'. genhash_delete sample_table 5 8 = Some (0, h'))"
  using genhash_update_delete [OF sample_table(1), of 5 8 42 8]
  by (auto simp: sample_table sample_value)

text \<open>
  Removing all values of a key ends, returns their number and leaves none of them and all others;
  the size for a key is the length of its list, and clearing leaves nothing and frees every key and
  value that the table owns exactly once.
\<close>

theorem genhash_delete_all_clear:
  assumes "gh_ok h"
  shows "(\<exists>h'. genhash_delete_all h k n 0 = Some (int (length (values_of h k n)), h') \<and> gh_ok h'
      \<and> (\<forall>k' n'. values_of h' k' n' = (if hasheq (gh_ops h) k n k' n' then [] else values_of h k' n')))
    \<and> genhash_size_for_key h k n = Some (int (length (values_of h k n)))
    \<and> genhash_size h = Some (int (length (entries h)))
    \<and> (\<exists>h'. genhash_clear h = Some (0, h') \<and> gh_ok h' \<and> entries h' = []
      \<and> mset (gh_freed_values h') = mset (gh_freed_values h)
          + (if freeValue (gh_ops h) then mset (map ge_value (entries h)) else {#}))"
proof -
  have "\<exists>h'. genhash_clear h = Some (0, h') \<and> gh_ok h' \<and> entries h' = []
      \<and> mset (gh_freed_values h') = mset (gh_freed_values h)
          + (if freeValue (gh_ops h) then mset (map ge_value (entries h)) else {#})"
    using genhash_clear_spec [OF assms] by blast
  then show ?thesis
    using genhash_delete_all_values [OF assms, of k n 0] genhash_size_for_key_length [OF assms]
      genhash_size_length [OF assms] by auto
qed

theorem genhash_delete_all_clear_witness:
  "\<exists>h h'. genhash_store True sample_table 5 8 42 8 = Some h \<and> values_of h 5 8 = [42]
    \<and> genhash_delete_all h 5 8 0 = Some (1, h') \<and> values_of h' 5 8 = []"
proof -
  obtain h where h: "genhash_store True sample_table 5 8 42 8 = Some h" "gh_ok h" "gh_ops h = sample_ops" "values_of h 5 8 = [42]"
    using genhash_store_values [OF sample_table(1), of 5 8 42 8] sample_value sample_table(2,3) by auto
  then show ?thesis using genhash_delete_all_clear [OF h(2), of 5 8] by (auto simp: sample_value)
qed

end
