(* ===== verification/Topkeys.thy ===== *)
theory Topkeys
  imports Genhash Items_Walk
begin

unbundle bit_operations_syntax

text \<open>
  The most recently used keys with their counters, \<^verbatim>\<open>memcached/daemon/topkeys.c\<close> and \<^verbatim>\<open>topkeys.h\<close>: a
  circular doubly linked list of items with a sentinel, most recent first, and a hash table from
  keys to items. The links of the list are kept at the level of addresses; every operation runs
  under the mutex of the structure.
\<close>

section \<open>The data\<close>

datatype tk_op =
    get_hits | get_misses | cmd_set | incr_hits | incr_misses | decr_hits | decr_misses
  | delete_hits | delete_misses | evictions | cas_hits | cas_badval | cas_misses

record topkey_item =
  ti_key :: key
  ti_ctime :: u32
  ti_atime :: u32
  ti_counts :: "tk_op \<Rightarrow> u32"

text \<open>\<open>tk_self\<close> is the address of the sentinel, the field \<^verbatim>\<open>list\<close> of the structure itself.\<close>

record topkeys =
  tk_self :: ptr
  dl_next :: "ptr \<Rightarrow> ptr"
  dl_prev :: "ptr \<Rightarrow> ptr"
  tk_items :: "ptr \<Rightarrow> topkey_item"
  tk_hash :: "(key, ptr) genhash"
  nkeys :: int
  max_keys :: int

section \<open>Creating\<close>

definition topkey_item_init :: "ptr \<Rightarrow> key \<Rightarrow> u32 \<Rightarrow> topkeys \<Rightarrow> (ptr \<times> topkeys) option" where
  "topkey_item_init addr k ctime tk =
     do {
       guard (addr \<noteq> NULL);
       guard (0 < length k);
       Some (addr, tk\<lparr>dl_next := (dl_next tk)(addr := NULL), dl_prev := (dl_prev tk)(addr := NULL),
         tk_items := (tk_items tk)(addr := \<lparr>ti_key = k, ti_ctime = ctime, ti_atime = ctime,
                                            ti_counts = (\<lambda>_. 0)\<rparr>)\<rparr>)
     }"

text \<open>\<^verbatim>\<open>sizeof(topkey_item_t)\<close>: two links, three and thirteen words of 32 bits.\<close>

definition topkey_item_size :: "topkey_item \<Rightarrow> u64" where
  "topkey_item_size it = 80 + of_nat (length (ti_key it))"

definition topkeys_tail :: "topkeys \<Rightarrow> ptr" where
  "topkeys_tail tk = dl_prev tk (tk_self tk)"

definition my_hash_eq :: "key \<Rightarrow> u64 \<Rightarrow> key \<Rightarrow> u64 \<Rightarrow> bool" where
  "my_hash_eq k1 n1 k2 n2 = (n1 = n2 \<and> take (unat n1) k1 = take (unat n1) k2)"

definition my_hash_ops :: "(key, ptr) hash_ops" where
  "my_hash_ops = \<lparr>hashfunc = (\<lambda>k n. genhash_string_hash (take (unat n) k)), hasheq = my_hash_eq, dupKey = None,
     dupValue = None, freeKey = False, freeValue = False\<rparr>"

text \<open>\<open>addr\<close> is what \<^verbatim>\<open>calloc\<close> returns for the structure.\<close>

definition topkeys_init :: "ptr \<Rightarrow> bool \<Rightarrow> int \<Rightarrow> topkeys option option" where
  "topkeys_init addr alloc_ok maxk =
     (if addr = NULL then Some None
      else do {
        h \<leftarrow> genhash_init alloc_ok maxk my_hash_ops;
        Some (map_option (\<lambda>h. \<lparr>tk_self = addr, dl_next = (\<lambda>_. NULL)(addr := addr),
          dl_prev = (\<lambda>_. NULL)(addr := addr), tk_items = (\<lambda>_. \<lparr>ti_key = [], ti_ctime = 0, ti_atime = 0, ti_counts = (\<lambda>_. 0)\<rparr>),
          tk_hash = h, nkeys = 0, max_keys = maxk\<rparr>) h)
      })"

section \<open>The list\<close>

definition dlist_remove :: "ptr \<Rightarrow> topkeys \<Rightarrow> topkeys option" where
  "dlist_remove p tk =
     do {
       guard (dl_next tk (dl_prev tk p) = p);
       guard (dl_prev tk (dl_next tk p) = p);
       let tk = tk\<lparr>dl_next := (dl_next tk)(dl_prev tk p := dl_next tk p)\<rparr>;
       Some (tk\<lparr>dl_prev := (dl_prev tk)(dl_next tk p := dl_prev tk p)\<rparr>)
     }"

definition dlist_insert_after :: "ptr \<Rightarrow> ptr \<Rightarrow> topkeys \<Rightarrow> topkeys" where
  "dlist_insert_after l new tk =
     (let tk = tk\<lparr>dl_next := (dl_next tk)(new := dl_next tk l)\<rparr>;
          tk = tk\<lparr>dl_prev := (dl_prev tk)(new := l)\<rparr>;
          tk = tk\<lparr>dl_prev := (dl_prev tk)(dl_next tk l := new)\<rparr>
      in tk\<lparr>dl_next := (dl_next tk)(l := new)\<rparr>)"

text \<open>The addresses that \<^verbatim>\<open>dlist_iter\<close> visits, in order.\<close>

partial_function (option) dlist_iter :: "topkeys \<Rightarrow> ptr \<Rightarrow> ptr \<Rightarrow> ptr list option" where
  "dlist_iter tk l p =
     (let p = dl_next tk p in
      if p = l then Some []
      else do {
        guard (p \<noteq> NULL);
        ps \<leftarrow> dlist_iter tk l p;
        Some (p # ps)
      })"

section \<open>Operations\<close>

definition topkeys_item_delete :: "topkeys \<Rightarrow> ptr \<Rightarrow> topkeys option" where
  "topkeys_item_delete tk it =
     do {
       let k = ti_key (tk_items tk it);
       (d, h) \<leftarrow> genhash_delete (tk_hash tk) k (of_nat (length k));
       tk \<leftarrow> dlist_remove it (tk\<lparr>tk_hash := h\<rparr>);
       Some (tk\<lparr>nkeys := nkeys tk - 1\<rparr>)
     }"

text \<open>\<open>addr\<close> is the address a new item gets.\<close>

definition topkeys_item_get_or_create :: "topkeys \<Rightarrow> ptr \<Rightarrow> key \<Rightarrow> u32 \<Rightarrow> (ptr \<times> topkeys) option" where
  "topkeys_item_get_or_create tk addr k ctime =
     do {
       found \<leftarrow> genhash_find (tk_hash tk) k (of_nat (length k));
       (it, tk) \<leftarrow> (case found of
          None \<Rightarrow>
            do {
              (it, tk) \<leftarrow> topkey_item_init addr k ctime tk;
              let tk = tk\<lparr>nkeys := nkeys tk + 1\<rparr>;
              tk \<leftarrow> (if nkeys tk > max_keys tk then topkeys_item_delete tk (topkeys_tail tk) else Some tk);
              (u, h) \<leftarrow> genhash_update True (tk_hash tk) (ti_key (tk_items tk it))
                          (of_nat (length (ti_key (tk_items tk it)))) it (topkey_item_size (tk_items tk it));
              Some (it, tk\<lparr>tk_hash := h\<rparr>)
            }
        | Some it \<Rightarrow> do { tk \<leftarrow> dlist_remove it tk; Some (it, tk) });
       Some (it, dlist_insert_after (tk_self tk) it tk)
     }"

text \<open>The macro \<^verbatim>\<open>TK\<close>: count one operation on a key.\<close>

definition TK :: "topkeys \<Rightarrow> ptr \<Rightarrow> tk_op \<Rightarrow> key \<Rightarrow> u32 \<Rightarrow> topkeys option" where
  "TK tk addr op k ctime =
     do {
       guard (0 < length k);
       (tmp, tk) \<leftarrow> topkeys_item_get_or_create tk addr k ctime;
       Some (tk\<lparr>tk_items := (tk_items tk)(tmp := (tk_items tk tmp)\<lparr>ti_counts :=
         (ti_counts (tk_items tk tmp))(op := ti_counts (tk_items tk tmp) op + 1)\<rparr>)\<rparr>)
     }"

text \<open>The addresses that are freed with the structure.\<close>

definition topkeys_free :: "topkeys \<Rightarrow> ptr list option" where
  "topkeys_free tk =
     do {
       fr \<leftarrow> genhash_free (Some (tk_hash tk));
       dlist_iter tk (tk_self tk) (tk_self tk)
     }"

section \<open>Statistics\<close>

definition tk_ops :: "(string \<times> tk_op) list" where
  "tk_ops = [(''get_hits'', get_hits), (''get_misses'', get_misses), (''cmd_set'', cmd_set),
     (''incr_hits'', incr_hits), (''incr_misses'', incr_misses), (''decr_hits'', decr_hits),
     (''decr_misses'', decr_misses), (''delete_hits'', delete_hits), (''delete_misses'', delete_misses),
     (''evictions'', evictions), (''cas_hits'', cas_hits), (''cas_badval'', cas_badval),
     (''cas_misses'', cas_misses)]"

definition TK_MAX_VAL_LEN :: nat where "TK_MAX_VAL_LEN = 250"

text \<open>The text is cut at the size of the buffer, but its full length is passed on.\<close>

definition tk_text :: "u32 \<Rightarrow> topkey_item \<Rightarrow> byte list" where
  "tk_text now it =
     concat (map (\<lambda>(name, op). str name @ str ''='' @ print_int (sint (ti_counts it op)) @ str '','') tk_ops)
     @ str ''ctime='' @ print_u (now - ti_ctime it) @ str '',atime='' @ print_u (now - ti_atime it)"

definition tk_iterfunc :: "u32 \<Rightarrow> topkey_item \<Rightarrow> stat option" where
  "tk_iterfunc now it =
     do {
       let val = tk_text now it;
       guard (length val \<le> TK_MAX_VAL_LEN);
       Some (ti_key it, take (TK_MAX_VAL_LEN - 2) val @ drop (TK_MAX_VAL_LEN - 2) (replicate (length val) 0))
     }"

fun tk_rows :: "u32 \<Rightarrow> topkeys \<Rightarrow> ptr list \<Rightarrow> stat list option" where
  "tk_rows now tk [] = Some []"
| "tk_rows now tk (p # ps) =
     do {
       s \<leftarrow> tk_iterfunc now (tk_items tk p);
       ss \<leftarrow> tk_rows now tk ps;
       Some (s # ss)
     }"

definition topkeys_stats :: "topkeys \<Rightarrow> u32 \<Rightarrow> (ENGINE_ERROR_CODE \<times> stat list) option" where
  "topkeys_stats tk now =
     do {
       ps \<leftarrow> dlist_iter tk (tk_self tk) (tk_self tk);
       out \<leftarrow> tk_rows now tk ps;
       Some (ENGINE_SUCCESS, out)
     }"

section \<open>The table of the keys\<close>

text \<open>
  What the list of keys relies on of the hash table: a finite map from keys to addresses. \<open>fits k\<close> are
  the keys whose length the table can represent.
\<close>

locale key_table =
  fixes rep :: "'h \<Rightarrow> (key \<rightharpoonup> ptr) \<Rightarrow> bool"
    and fits :: "key \<Rightarrow> bool"
    and find :: "'h \<Rightarrow> key \<Rightarrow> ptr option option"
    and update :: "'h \<Rightarrow> key \<Rightarrow> ptr \<Rightarrow> 'h option"
    and remove :: "'h \<Rightarrow> key \<Rightarrow> 'h option"
  assumes find_rep: "rep h m \<Longrightarrow> fits k \<Longrightarrow> find h k = Some (m k)"
    and update_rep: "rep h m \<Longrightarrow> fits k \<Longrightarrow> \<exists>h'. update h k p = Some h' \<and> rep h' (m(k \<mapsto> p))"
    and remove_rep: "rep h m \<Longrightarrow> fits k \<Longrightarrow> \<exists>h'. remove h k = Some h' \<and> rep h' (m(k := None))"
begin

text \<open>Replacing one key by another, as an eviction followed by an insertion does.\<close>

lemma swap_rep:
  assumes "rep h m" "fits k" "fits k'"
  shows "\<exists>h1 h2. remove h k = Some h1 \<and> update h1 k' p = Some h2 \<and> rep h2 (m(k := None, k' \<mapsto> p))
    \<and> find h2 k' = Some (Some p) \<and> (k \<noteq> k' \<longrightarrow> find h2 k = Some None)"
proof -
  obtain h1 where h1: "remove h k = Some h1" "rep h1 (m(k := None))" using remove_rep assms by blast
  obtain h2 where h2: "update h1 k' p = Some h2" "rep h2 (m(k := None, k' \<mapsto> p))"
    using update_rep [OF h1(2) assms(3)] by blast
  then show ?thesis using h1 find_rep [OF h2(2)] assms(2,3) by auto
qed

end

abbreviation fits_length :: "key \<Rightarrow> bool" where
  "fits_length k \<equiv> length k < 2 ^ 64"

definition key_map :: "(key, ptr) genhash \<Rightarrow> (key \<rightharpoonup> ptr) \<Rightarrow> bool" where
  "key_map h m \<longleftrightarrow> gh_ok h \<and> gh_ops h = my_hash_ops
     \<and> (\<forall>k. fits_length k \<longrightarrow> values_of h k (of_nat (length k)) = (case m k of None \<Rightarrow> [] | Some p \<Rightarrow> [p]))"

lemma my_hash_eq_keys:
  "fits_length k \<Longrightarrow> fits_length k' \<Longrightarrow> my_hash_eq k (of_nat (length k)) k' (of_nat (length k')) = (k = k')"
  by (auto simp: my_hash_eq_def unat_of_nat word_of_nat_eq_iff take_bit_eq_mod)

lemma good_my_hash_ops: "good_ops my_hash_ops"
proof -
  have "equivp (key_eq my_hash_ops)"
    by (rule equivpI) (auto simp: my_hash_ops_def my_hash_eq_def reflp_def symp_def transp_def)
  then show ?thesis by (auto simp: good_ops_def my_hash_ops_def my_hash_eq_def)
qed

lemma key_map_dup [simp]: "key_map h m \<Longrightarrow> dup_value h v n = v"
  by (simp add: key_map_def dup_value_def my_hash_ops_def)

interpretation kt: key_table key_map fits_length "\<lambda>h k. genhash_find h k (of_nat (length k))"
  "\<lambda>h k p. map_option snd (genhash_update True h k (of_nat (length k)) p n)"
  "\<lambda>h k. map_option snd (genhash_delete h k (of_nat (length k)))" for n
proof unfold_locales
  fix h m k assume a: "key_map h m" "fits_length k"
  then show "genhash_find h k (of_nat (length k)) = Some (m k)"
    by (auto simp: key_map_def genhash_find_values split: option.splits)
next
  fix h m k and p :: ptr assume a: "key_map h m" "fits_length k"
  obtain u h' where h': "genhash_update True h k (of_nat (length k)) p n = Some (u, h')" "gh_ok h'" "gh_ops h' = my_hash_ops"
    "\<forall>k' n'. values_of h' k' n' = (if my_hash_eq k (of_nat (length k)) k' n'
        then p # tl (values_of h k' n') else values_of h k' n')"
    using genhash_update_values [of h k "of_nat (length k)" p n] a by (auto simp: key_map_def my_hash_ops_def dup_value_def)
  then have "key_map h' (m(k \<mapsto> p))"
    using a my_hash_eq_keys [OF a(2)] by (auto simp: key_map_def split: option.splits)
  then show "\<exists>h'. map_option snd (genhash_update True h k (of_nat (length k)) p n) = Some h' \<and> key_map h' (m(k \<mapsto> p))"
    using h'(1) by auto
next
  fix h m k assume a: "key_map h m" "fits_length k"
  obtain d h' where h': "genhash_delete h k (of_nat (length k)) = Some (d, h')" "gh_ok h'" "gh_ops h' = my_hash_ops"
    "\<forall>k' n'. values_of h' k' n' = (if my_hash_eq k (of_nat (length k)) k' n'
        then tl (values_of h k' n') else values_of h k' n')"
    using genhash_delete_values [of h k "of_nat (length k)"] a by (auto simp: key_map_def my_hash_ops_def)
  then have "key_map h' (m(k := None))"
    using a my_hash_eq_keys [OF a(2)] by (auto simp: key_map_def split: option.splits)
  then show "\<exists>h'. map_option snd (genhash_delete h k (of_nat (length k))) = Some h' \<and> key_map h' (m(k := None))"
    using h'(1) by auto
qed

section \<open>The list of the keys\<close>

text \<open>The items from the most to the least recently used one, in a ring through the sentinel.\<close>

definition ring :: "(ptr \<Rightarrow> ptr) \<Rightarrow> (ptr \<Rightarrow> ptr) \<Rightarrow> ptr \<Rightarrow> ptr list \<Rightarrow> bool" where
  "ring nx pv s ps \<longleftrightarrow> dll nx pv s (nx s) ps s \<and> pv s = last_or s ps \<and> distinct (s # ps)"

lemma ring_insert:
  assumes r: "ring nx pv s ps" and new: "new \<notin> set (s # ps)" "new \<noteq> NULL"
  shows "ring ((nx(new := nx s))(s := new)) ((pv(new := s))(nx s := new)) s (new # ps)"
proof (cases ps)
  case Nil
  then show ?thesis using assms by (auto simp: ring_def)
next
  case (Cons p qs)
  have d: "dll nx pv p (nx p) qs s" "nx s = p" "distinct (s # p # qs)" "pv s = last_or p qs" "p \<noteq> NULL"
    using r Cons by (auto simp: ring_def)
  have "dll ((nx(new := nx s))(s := new)) ((pv(new := s))(nx s := new)) p (nx p) qs s"
    using d new Cons by (subst dll_cong [where nx = nx and pv = pv]) auto
  then show ?thesis using d new Cons by (auto simp: ring_def)
qed

lemma ring_middle:
  assumes "ring nx pv s (xs @ p # ys)"
  shows "pv p = last_or s xs" "nx p = (case ys of [] \<Rightarrow> s | y # _ \<Rightarrow> y)"
    "nx (pv p) = p" "pv (nx p) = p"
proof -
  obtain r where r: "dll nx pv s (nx s) xs r" "dll nx pv (last_or s xs) r (p # ys) s" "pv s = last_or s (xs @ p # ys)"
    using assms by (auto simp: ring_def dll_append)
  show a: "pv p = last_or s xs" "nx p = (case ys of [] \<Rightarrow> s | y # _ \<Rightarrow> y)"
    using r(2) by (auto split: list.splits)
  show "pv (nx p) = p" using r(2,3) by (cases ys) (auto simp: last_or_append)
  have "nx (last_or s xs) = r" using r(1)
  proof (cases xs rule: rev_cases)
    case (snoc us a)
    then show ?thesis using r(1) by (auto simp: dll_append)
  qed simp
  then show "nx (pv p) = p" using a r(2) by simp
qed

lemma ring_remove:
  assumes r: "ring nx pv s (xs @ p # ys)"
  shows "ring (nx(pv p := nx p)) (pv(nx p := pv p)) s (xs @ ys)"
proof -
  note m = ring_middle [OF r]
  let ?nx = "nx(pv p := nx p)" and ?pv = "pv(nx p := pv p)"
  obtain q where q: "dll nx pv s (nx s) xs q" "q = p" "dll nx pv p (nx p) ys s"
    using r by (auto simp: ring_def dll_append)
  have d: "distinct (s # xs @ p # ys)" using r by (simp add: ring_def)
  have ys: "dll ?nx ?pv (pv p) (nx p) ys s"
  proof (cases ys)
    case Nil
    then show ?thesis using m(2) by simp
  next
    case (Cons y zs)
    have "last_or s xs \<notin> set ys" using d last_or_nonempty [of xs s] by (cases "xs = []") auto
    then have "dll ?nx ?pv y (nx y) zs s"
      using q(3) m Cons d by (subst dll_cong [where nx = nx and pv = pv]) auto
    then show ?thesis using q(3) m Cons \<open>last_or s xs \<notin> set ys\<close> by auto
  qed
  have xs: "dll ?nx ?pv s (?nx s) xs (nx p)"
  proof (cases xs rule: rev_cases)
    case Nil
    then show ?thesis using m(1) by simp
  next
    case (snoc us a)
    have b: "nx p \<notin> set xs" using m(2) d by (cases ys) auto
    have "dll ?nx ?pv s (nx s) us a" "pv a = last_or s us" "a \<noteq> NULL" "pv p = a"
      using q(1) snoc d b m(1) by (auto simp: dll_append) (subst dll_cong [where nx = nx and pv = pv]; auto)
    moreover have "a \<noteq> s" "a \<noteq> nx p" using d snoc b by auto
    ultimately show ?thesis using snoc by (auto simp: dll_append)
  qed
  have "?pv s = last_or s (xs @ ys)"
    using m r d by (cases ys) (auto simp: ring_def last_or_append)
  then show ?thesis using xs ys m(1) d by (auto simp: ring_def dll_append)
qed

abbreviation tkey :: "topkeys \<Rightarrow> ptr \<Rightarrow> key" where
  "tkey tk p \<equiv> ti_key (tk_items tk p)"

definition indexed :: "topkeys \<Rightarrow> (key \<rightharpoonup> ptr) \<Rightarrow> ptr list \<Rightarrow> bool" where
  "indexed tk m ps \<longleftrightarrow> key_map (tk_hash tk) m \<and> (\<forall>k p. m k = Some p \<longleftrightarrow> p \<in> set ps \<and> tkey tk p = k)"

definition tk_rep :: "topkeys \<Rightarrow> ptr list \<Rightarrow> bool" where
  "tk_rep tk ps \<longleftrightarrow> ring (dl_next tk) (dl_prev tk) (tk_self tk) ps \<and> (\<exists>m. indexed tk m ps)
     \<and> (\<forall>p \<in> set ps. p \<noteq> NULL \<and> fits_length (tkey tk p)) \<and> nkeys tk = int (length ps) \<and> int (length ps) \<le> max_keys tk
     \<and> 0 < max_keys tk"

lemma dlist_remove_ring:
  assumes "ring (dl_next tk) (dl_prev tk) (tk_self tk) (xs @ p # ys)"
  shows "\<exists>nx pv. dlist_remove p tk = Some (tk\<lparr>dl_next := nx, dl_prev := pv\<rparr>) \<and> ring nx pv (tk_self tk) (xs @ ys)"
proof -
  note m = ring_middle [OF assms]
  have "dl_prev tk p \<noteq> p" using m(1) assms last_or_nonempty [of xs "tk_self tk"] by (cases "xs = []") (auto simp: ring_def)
  then have "dlist_remove p tk = Some (tk\<lparr>dl_next := (dl_next tk)(dl_prev tk p := dl_next tk p),
      dl_prev := (dl_prev tk)(dl_next tk p := dl_prev tk p)\<rparr>)"
    using m(3,4) by (simp add: dlist_remove_def)
  then show ?thesis using ring_remove [OF assms] by blast
qed

lemma dlist_insert_ring:
  assumes "ring (dl_next tk) (dl_prev tk) (tk_self tk) ps" "new \<notin> set (tk_self tk # ps)" "new \<noteq> NULL"
  shows "\<exists>nx pv. dlist_insert_after (tk_self tk) new tk = tk\<lparr>dl_next := nx, dl_prev := pv\<rparr> \<and> ring nx pv (tk_self tk) (new # ps)"
proof -
  have "dlist_insert_after (tk_self tk) new tk = tk\<lparr>dl_next := (dl_next tk)(new := dl_next tk (tk_self tk), tk_self tk := new),
      dl_prev := (dl_prev tk)(new := tk_self tk, dl_next tk (tk_self tk) := new)\<rparr>"
    using assms(2) by (simp add: dlist_insert_after_def Let_def)
  then show ?thesis using ring_insert [OF assms] by blast
qed

lemma kt_find: "key_map h m \<Longrightarrow> fits_length k \<Longrightarrow> genhash_find h k (of_nat (length k)) = Some (m k)"
  by (rule kt.find_rep)

lemma kt_update:
  assumes "key_map h m" "fits_length k"
  obtains u h' where "genhash_update True h k (of_nat (length k)) p n = Some (u, h')" "key_map h' (m(k \<mapsto> p))"
  using kt.update_rep [OF assms, of p n] by auto

lemma kt_delete:
  assumes "key_map h m" "fits_length k"
  obtains d h' where "genhash_delete h k (of_nat (length k)) = Some (d, h')" "key_map h' (m(k := None))"
  using kt.remove_rep [OF assms] by auto

lemma tk_repD:
  assumes "tk_rep tk ps"
  shows "ring (dl_next tk) (dl_prev tk) (tk_self tk) ps" "\<exists>m. indexed tk m ps"
    "\<And>p. p \<in> set ps \<Longrightarrow> p \<noteq> NULL" "\<And>p. p \<in> set ps \<Longrightarrow> fits_length (tkey tk p)"
    "nkeys tk = int (length ps)" "int (length ps) \<le> max_keys tk" "0 < max_keys tk" "distinct (tk_self tk # ps)"
  using assms by (auto simp: tk_rep_def ring_def)

lemma indexed_in: "indexed tk m ps \<Longrightarrow> p \<in> set ps \<Longrightarrow> m (tkey tk p) = Some p"
  unfolding indexed_def by metis

lemma indexed_inj: "indexed tk m ps \<Longrightarrow> p \<in> set ps \<Longrightarrow> q \<in> set ps \<Longrightarrow> tkey tk p = tkey tk q \<Longrightarrow> p = q"
  unfolding indexed_def by (metis option.inject)

text \<open>An item that is there already moves to the front.\<close>

lemma get_existing:
  assumes rep: "tk_rep tk ps" and ix: "indexed tk m ps" and k: "m k = Some p" "fits_length k"
  shows "\<exists>tk'. topkeys_item_get_or_create tk addr k ctime = Some (p, tk') \<and> tk_rep tk' (p # remove1 p ps)
    \<and> tk_items tk' = tk_items tk \<and> max_keys tk' = max_keys tk"
proof -
  note r = tk_repD [OF rep]
  have p: "p \<in> set ps" "tkey tk p = k" using ix k by (auto simp: indexed_def)
  then obtain xs ys where ps: "ps = xs @ p # ys" by (meson split_list)
  have rem: "remove1 p ps = xs @ ys" using r(8) ps by (simp add: remove1_append)
  obtain nx pv where a: "dlist_remove p tk = Some (tk\<lparr>dl_next := nx, dl_prev := pv\<rparr>)" "ring nx pv (tk_self tk) (xs @ ys)"
    using dlist_remove_ring r(1) ps by blast
  obtain nx' pv' where b: "dlist_insert_after (tk_self tk) p (tk\<lparr>dl_next := nx, dl_prev := pv\<rparr>)
      = tk\<lparr>dl_next := nx', dl_prev := pv'\<rparr>" "ring nx' pv' (tk_self tk) (p # xs @ ys)"
    using dlist_insert_ring [of "tk\<lparr>dl_next := nx, dl_prev := pv\<rparr>" "xs @ ys" p] a(2) r(3) [OF p(1)] r(8) ps by auto
  have "genhash_find (tk_hash tk) k (of_nat (length k)) = Some (Some p)"
    using kt_find [of "tk_hash tk" m k] ix k by (simp add: indexed_def)
  then have "topkeys_item_get_or_create tk addr k ctime = Some (p, tk\<lparr>dl_next := nx', dl_prev := pv'\<rparr>)"
    using a(1) b(1) by (simp add: topkeys_item_get_or_create_def)
  moreover have "indexed (tk\<lparr>dl_next := nx', dl_prev := pv'\<rparr>) m (p # xs @ ys)"
    using ix ps by (auto simp: indexed_def)
  then have "tk_rep (tk\<lparr>dl_next := nx', dl_prev := pv'\<rparr>) (p # xs @ ys)"
    using b(2) r ps by (auto simp: tk_rep_def)
  ultimately show ?thesis unfolding rem by auto
qed

text \<open>The least recently used item is dropped.\<close>

lemma delete_tail:
  assumes ring: "ring (dl_next tk) (dl_prev tk) (tk_self tk) (xs @ [t])" and ix: "indexed tk m (xs @ [t])"
    and fit: "fits_length (tkey tk t)"
  shows "\<exists>h nx pv. topkeys_item_delete tk (topkeys_tail tk)
      = Some (tk\<lparr>tk_hash := h, dl_next := nx, dl_prev := pv, nkeys := nkeys tk - 1\<rparr>)
    \<and> ring nx pv (tk_self tk) xs \<and> key_map h (m(tkey tk t := None))"
proof -
  have t: "topkeys_tail tk = t" using ring by (simp add: topkeys_tail_def ring_def)
  obtain d h where h: "genhash_delete (tk_hash tk) (tkey tk t) (of_nat (length (tkey tk t))) = Some (d, h)"
    "key_map h (m(tkey tk t := None))"
    using kt_delete [of "tk_hash tk" m "tkey tk t"] ix fit unfolding indexed_def by blast
  have "ring (dl_next (tk\<lparr>tk_hash := h\<rparr>)) (dl_prev (tk\<lparr>tk_hash := h\<rparr>)) (tk_self (tk\<lparr>tk_hash := h\<rparr>)) (xs @ t # [])"
    using ring by simp
  from dlist_remove_ring [OF this] obtain nx pv where
    "dlist_remove t (tk\<lparr>tk_hash := h\<rparr>) = Some (tk\<lparr>tk_hash := h, dl_next := nx, dl_prev := pv\<rparr>)" "ring nx pv (tk_self tk) xs"
    by auto
  then show ?thesis using h t by (auto simp: topkeys_item_delete_def)
qed

text \<open>A new item comes to the front, and the last one goes when there is no room.\<close>

lemma create_new:
  assumes rep: "tk_rep tk ps" and ix: "indexed tk m ps" and k: "m k = None" "fits_length k" "0 < length k"
    and addr: "addr \<notin> set (tk_self tk # ps)" "addr \<noteq> NULL"
  shows "\<exists>tk'. topkeys_item_get_or_create tk addr k ctime = Some (addr, tk')
    \<and> tk_rep tk' (addr # (if int (length ps) = max_keys tk then butlast ps else ps))
    \<and> tk_items tk' = (tk_items tk)(addr := \<lparr>ti_key = k, ti_ctime = ctime, ti_atime = ctime, ti_counts = (\<lambda>_. 0)\<rparr>)
    \<and> max_keys tk' = max_keys tk"
proof -
  note r = tk_repD [OF rep]
  let ?it = "\<lparr>ti_key = k, ti_ctime = ctime, ti_atime = ctime, ti_counts = (\<lambda>_. 0)\<rparr>"
  let ?ps = "if int (length ps) = max_keys tk then butlast ps else ps"
  define tk1 where "tk1 = tk\<lparr>dl_next := (dl_next tk)(addr := NULL), dl_prev := (dl_prev tk)(addr := NULL),
         tk_items := (tk_items tk)(addr := ?it), nkeys := nkeys tk + 1\<rparr>"
  have ring1: "ring (dl_next tk1) (dl_prev tk1) (tk_self tk1) ps"
  proof -
    have "dll (dl_next tk1) (dl_prev tk1) (tk_self tk) (dl_next tk (tk_self tk)) ps (tk_self tk)"
      using r(1) addr(1) by (subst dll_cong [where nx = "dl_next tk" and pv = "dl_prev tk"]) (auto simp: ring_def tk1_def)
    then show ?thesis using r(1) addr(1) by (auto simp: ring_def tk1_def)
  qed
  have key1: "tkey tk1 p = tkey tk p" if "p \<in> set ps" for p using that addr(1) by (auto simp: tk1_def)
  have ix1: "indexed tk1 m ps" using ix addr(1) unfolding indexed_def tk1_def by auto
  have s1: "nkeys tk1 = int (length ps) + 1" "max_keys tk1 = max_keys tk" "tk_self tk1 = tk_self tk"
    using r(5) by (simp_all add: tk1_def)
  let ?cut = "\<lambda>h nx pv m'. (if nkeys tk1 > max_keys tk1 then topkeys_item_delete tk1 (topkeys_tail tk1) else Some tk1)
      = Some (tk1\<lparr>tk_hash := h, dl_next := nx, dl_prev := pv, nkeys := int (length ?ps) + 1\<rparr>)
    \<and> ring nx pv (tk_self tk) ?ps \<and> key_map h m' \<and> (\<forall>k p. m' k = Some p \<longleftrightarrow> p \<in> set ?ps \<and> tkey tk1 p = k)"
  have "\<exists>h nx pv m'. ?cut h nx pv m'"
  proof (cases "int (length ps) = max_keys tk")
    case True
    then obtain xs t where ps: "ps = xs @ [t]" using r(7) by (cases ps rule: rev_cases) auto
    have fit: "fits_length (tkey tk1 t)" using r(4) [of t] key1 [of t] ps by simp
    obtain h nx pv where a: "topkeys_item_delete tk1 (topkeys_tail tk1)
        = Some (tk1\<lparr>tk_hash := h, dl_next := nx, dl_prev := pv, nkeys := nkeys tk1 - 1\<rparr>)"
      "ring nx pv (tk_self tk1) xs" "key_map h (m(tkey tk1 t := None))"
      using delete_tail [OF ring1 [unfolded ps] ix1 [unfolded ps] fit] by blast
    have "(m(tkey tk1 t := None)) k' = Some p \<longleftrightarrow> p \<in> set xs \<and> tkey tk1 p = k'" for k' p
    proof -
      have "p \<noteq> t \<Longrightarrow> p \<in> set xs \<Longrightarrow> tkey tk1 p \<noteq> tkey tk1 t"
        using indexed_inj [OF ix1, of p t] ps by auto
      moreover have "t \<notin> set xs" using r(8) ps by auto
      ultimately show ?thesis using ix1 ps by (auto simp: indexed_def)
    qed
    then have "?cut h nx pv (m(tkey tk1 t := None))" using a True ps s1 by simp
    then show ?thesis by blast
  next
    case False
    then have "\<not> nkeys tk1 > max_keys tk1" using r(6) s1 by simp
    moreover have "tk1\<lparr>tk_hash := tk_hash tk1, dl_next := dl_next tk1, dl_prev := dl_prev tk1, nkeys := nkeys tk1\<rparr> = tk1" by simp
    ultimately have "?cut (tk_hash tk1) (dl_next tk1) (dl_prev tk1) m"
      using ring1 ix1 False s1 by (simp add: indexed_def)
    then show ?thesis by blast
  qed
  then obtain h nx pv m' where d: "(if nkeys tk1 > max_keys tk1 then topkeys_item_delete tk1 (topkeys_tail tk1) else Some tk1)
      = Some (tk1\<lparr>tk_hash := h, dl_next := nx, dl_prev := pv, nkeys := int (length ?ps) + 1\<rparr>)"
    "ring nx pv (tk_self tk) ?ps" "key_map h m'" "\<forall>k p. m' k = Some p \<longleftrightarrow> p \<in> set ?ps \<and> tkey tk1 p = k"
    by blast
  let ?tk2 = "tk1\<lparr>tk_hash := h, dl_next := nx, dl_prev := pv, nkeys := int (length ?ps) + 1\<rparr>"
  obtain u h' where u: "genhash_update True h k (of_nat (length k)) addr (topkey_item_size ?it) = Some (u, h')"
    "key_map h' (m'(k \<mapsto> addr))"
    using kt_update [OF d(3) k(2)] .
  have sub: "set ?ps \<subseteq> set ps" by (auto dest: in_set_butlastD)
  obtain nx' pv' where b: "dlist_insert_after (tk_self tk) addr (?tk2\<lparr>tk_hash := h'\<rparr>)
      = ?tk2\<lparr>tk_hash := h', dl_next := nx', dl_prev := pv'\<rparr>" "ring nx' pv' (tk_self tk) (addr # ?ps)"
    using dlist_insert_ring [of "?tk2\<lparr>tk_hash := h'\<rparr>" ?ps addr] d(2) addr sub by (auto simp: tk1_def)
  let ?tk' = "?tk2\<lparr>tk_hash := h', dl_next := nx', dl_prev := pv'\<rparr>"
  have it: "tk_items tk1 = (tk_items tk)(addr := ?it)" "tk_self tk1 = tk_self tk" "max_keys tk1 = max_keys tk"
    by (simp_all add: tk1_def)
  have "genhash_find (tk_hash tk) k (of_nat (length k)) = Some None"
    using kt_find [of "tk_hash tk" m k] ix k by (simp add: indexed_def)
  then have "topkeys_item_get_or_create tk addr k ctime = do {
      tk2 \<leftarrow> (if nkeys tk1 > max_keys tk1 then topkeys_item_delete tk1 (topkeys_tail tk1) else Some tk1);
      (u, h) \<leftarrow> genhash_update True (tk_hash tk2) (ti_key (tk_items tk2 addr))
                  (of_nat (length (ti_key (tk_items tk2 addr)))) addr (topkey_item_size (tk_items tk2 addr));
      Some (addr, dlist_insert_after (tk_self tk2) addr (tk2\<lparr>tk_hash := h\<rparr>)) }"
    using k(3) addr(2) unfolding tk1_def
    by (simp add: topkeys_item_get_or_create_def topkey_item_init_def Let_def split: bind_splits)
  then have run: "topkeys_item_get_or_create tk addr k ctime = Some (addr, ?tk')"
    unfolding d(1) using u(1) b(1) it by simp
  have nk: "tkey tk1 p \<noteq> k" if "p \<in> set ps" for p
    using k(1) indexed_in [OF ix that] key1 [OF that] by auto
  have "(m'(k \<mapsto> addr)) k' = Some p \<longleftrightarrow> p \<in> set (addr # ?ps) \<and> tkey tk1 p = k'" for k' p
  proof (cases "p = addr")
    case True
    have "addr \<notin> set ?ps" using addr(1) sub by auto
    then show ?thesis using True it(1) d(4) by auto
  next
    case False
    then show ?thesis using d(4) nk [of p] sub by auto
  qed
  then have "indexed ?tk' (m'(k \<mapsto> addr)) (addr # ?ps)"
    using u(2) by (simp add: indexed_def)
  moreover have "int (length (addr # ?ps)) \<le> max_keys tk" using r(6,7) by auto
  ultimately have "tk_rep ?tk' (addr # ?ps)"
    using b(2) r(3,4,7) sub it key1 addr k(2) unfolding tk_rep_def by auto
  then show ?thesis using run it by auto
qed

section \<open>The keys and their counters\<close>

type_synonym counters = "tk_op \<Rightarrow> u32"

text \<open>What a client sees: the keys with their counters, most recently used first.\<close>

definition tk_list :: "topkeys \<Rightarrow> ptr list \<Rightarrow> (key \<times> counters) list" where
  "tk_list tk ps = map (\<lambda>p. (tkey tk p, ti_counts (tk_items tk p))) ps"

text \<open>Counting on that list: the key comes to the front, and at most \<open>n\<close> keys are kept.\<close>

definition count_key :: "nat \<Rightarrow> key \<Rightarrow> tk_op \<Rightarrow> (key \<times> counters) list \<Rightarrow> (key \<times> counters) list" where
  "count_key n k op l =
     (let c = (case map_of l k of None \<Rightarrow> (\<lambda>_. 0) | Some c \<Rightarrow> c)
      in take n ((k, c(op := c op + 1)) # filter (\<lambda>x. fst x \<noteq> k) l))"

definition bump :: "tk_op \<Rightarrow> topkey_item \<Rightarrow> topkey_item" where
  "bump op i = i\<lparr>ti_counts := (ti_counts i)(op := ti_counts i op + 1)\<rparr>"

lemma indexed_items:
  assumes "\<And>p. p \<in> set ps \<Longrightarrow> ti_key (f p) = tkey tk p"
  shows "indexed (tk\<lparr>tk_items := f\<rparr>) m ps = indexed tk m ps"
  using assms by (auto simp: indexed_def)

lemma tk_rep_items:
  assumes "\<And>p. p \<in> set ps \<Longrightarrow> ti_key (f p) = tkey tk p"
  shows "tk_rep (tk\<lparr>tk_items := f\<rparr>) ps = tk_rep tk ps"
  using assms by (auto simp: tk_rep_def indexed_items)

lemma TK_run:
  assumes "topkeys_item_get_or_create tk addr k ctime = Some (p, tk1)" "0 < length k"
  shows "TK tk addr op k ctime = Some (tk1\<lparr>tk_items := (tk_items tk1)(p := bump op (tk_items tk1 p))\<rparr>)"
  using assms by (simp add: TK_def bump_def)

lemma tk_list_bump:
  "p \<notin> set qs \<Longrightarrow> tk_list (tk\<lparr>tk_items := (tk_items tk)(p := bump op (tk_items tk p))\<rparr>) (p # qs)
     = (tkey tk p, (ti_counts (tk_items tk p))(op := ti_counts (tk_items tk p) op + 1)) # tk_list tk qs"
  by (auto simp: tk_list_def bump_def)

lemma map_of_tk_list:
  assumes "indexed tk m ps"
  shows "map_of (tk_list tk ps) k = map_option (\<lambda>p. ti_counts (tk_items tk p)) (m k)"
proof (cases "m k")
  case None
  then have "\<forall>p \<in> set ps. tkey tk p \<noteq> k" using indexed_in [OF assms] by force
  then show ?thesis using None by (auto simp: tk_list_def map_of_eq_None_iff)
next
  case (Some p)
  then have p: "p \<in> set ps" "tkey tk p = k" using assms by (auto simp: indexed_def)
  have "inj_on (tkey tk) (set ps)" using indexed_inj [OF assms] by (auto simp: inj_on_def)
  then have "map_of (tk_list tk ps) (tkey tk p) = Some (ti_counts (tk_items tk p))"
    using p(1)
  proof (induction ps)
    case (Cons a qs)
    show ?case
    proof (cases "a = p")
      case False
      then have "p \<in> set qs" "tkey tk a \<noteq> tkey tk p" using Cons.prems by (auto dest: inj_onD)
      then show ?thesis using Cons by (auto simp: tk_list_def)
    qed (simp add: tk_list_def)
  qed simp
  then show ?thesis using p Some by simp
qed

lemma filter_tk_list:
  assumes "indexed tk m ps" "distinct ps"
  shows "filter (\<lambda>x. fst x \<noteq> k) (tk_list tk ps) = tk_list tk (case m k of None \<Rightarrow> ps | Some p \<Rightarrow> remove1 p ps)"
proof -
  have k: "tkey tk q \<noteq> k \<longleftrightarrow> (case m k of None \<Rightarrow> True | Some p \<Rightarrow> q \<noteq> p)" if "q \<in> set ps" for q
  proof (cases "m k")
    case None
    then show ?thesis using indexed_in [OF assms(1) that] by auto
  next
    case (Some p)
    then have "p \<in> set ps" "tkey tk p = k" using assms(1) by (auto simp: indexed_def)
    then show ?thesis using Some indexed_inj [OF assms(1) that, of p] by auto
  qed
  have "filter (\<lambda>x. fst x \<noteq> k) (tk_list tk ps) = tk_list tk (filter (\<lambda>q. tkey tk q \<noteq> k) ps)"
    by (simp add: tk_list_def filter_map comp_def)
  also have "filter (\<lambda>q. tkey tk q \<noteq> k) ps = filter (\<lambda>q. case m k of None \<Rightarrow> True | Some p \<Rightarrow> q \<noteq> p) ps"
    using k by (intro filter_cong) auto
  also have "\<dots> = (case m k of None \<Rightarrow> ps | Some p \<Rightarrow> remove1 p ps)"
    using assms(2) by (cases "m k") (auto simp: distinct_remove1_removeAll removeAll_filter_not_eq intro: filter_cong)
  finally show ?thesis .
qed

text \<open>
  C31. Counting an operation on a key always returns, and on the keys with their counters it is the
  bounded most-recently-used list: the key comes to the front with its counter one higher, from zero
  when it was not there, the other keys keep their order and their counters, and the least recently
  used key goes when there are too many.
\<close>

theorem topkeys_count_refines:
  assumes rep: "tk_rep tk ps" and k: "fits_length k" "0 < length k"
    and addr: "addr \<notin> set (tk_self tk # ps)" "addr \<noteq> NULL"
  shows "\<exists>tk' ps'. TK tk addr op k ctime = Some tk' \<and> tk_rep tk' ps' \<and> max_keys tk' = max_keys tk
    \<and> tk_list tk' ps' = count_key (nat (max_keys tk)) k op (tk_list tk ps)"
proof -
  note r = tk_repD [OF rep]
  obtain m where ix: "indexed tk m ps" using r(2) by blast
  note l = map_of_tk_list [OF ix, of k] filter_tk_list [OF ix, of k]
  have d: "distinct ps" using r(8) by simp
  show ?thesis
  proof (cases "m k")
    case (Some p)
    obtain tk1 where t: "topkeys_item_get_or_create tk addr k ctime = Some (p, tk1)" "tk_rep tk1 (p # remove1 p ps)"
      "tk_items tk1 = tk_items tk" "max_keys tk1 = max_keys tk"
      using get_existing [OF rep ix Some k(1)] by blast
    have p: "p \<in> set ps" "tkey tk p = k" using ix Some by (auto simp: indexed_def)
    let ?tk' = "tk1\<lparr>tk_items := (tk_items tk1)(p := bump op (tk_items tk1 p))\<rparr>"
    have "tk_rep ?tk' (p # remove1 p ps)" using t(2) by (subst tk_rep_items) (auto simp: bump_def)
    moreover have "p \<notin> set (remove1 p ps)" using d by simp
    then have "tk_list ?tk' (p # remove1 p ps) = (k, (ti_counts (tk_items tk p))(op := ti_counts (tk_items tk p) op + 1))
        # tk_list tk (remove1 p ps)"
      using tk_list_bump [of p "remove1 p ps" tk1 op] t(3) p(2) by (simp add: tk_list_def)
    moreover have "length (remove1 p ps) < length ps" "length ps \<le> nat (max_keys tk)"
      using p(1) r(6) length_pos_if_in_set [OF p(1)] by (auto simp: length_remove1)
    then have "take (nat (max_keys tk) - 1) (tk_list tk (remove1 p ps)) = tk_list tk (remove1 p ps)"
      by (simp add: tk_list_def)
    ultimately show ?thesis
      using TK_run [OF t(1) k(2), of op] t(4) l(1) l(2) [OF d] Some r(7)
      by (intro exI [of _ ?tk'] exI [of _ "p # remove1 p ps"]) (simp add: count_key_def Let_def take_Cons')
  next
    case None
    let ?ps = "if int (length ps) = max_keys tk then butlast ps else ps"
    obtain tk1 where t: "topkeys_item_get_or_create tk addr k ctime = Some (addr, tk1)" "tk_rep tk1 (addr # ?ps)"
      "tk_items tk1 = (tk_items tk)(addr := \<lparr>ti_key = k, ti_ctime = ctime, ti_atime = ctime, ti_counts = (\<lambda>_. 0)\<rparr>)"
      "max_keys tk1 = max_keys tk"
      using create_new [OF rep ix None k addr] by blast
    let ?tk' = "tk1\<lparr>tk_items := (tk_items tk1)(addr := bump op (tk_items tk1 addr))\<rparr>"
    have rep': "tk_rep ?tk' (addr # ?ps)" using t(2) by (subst tk_rep_items) (auto simp: bump_def)
    have na: "addr \<notin> set ?ps" using addr(1) by (auto dest: in_set_butlastD)
    have "tk_list tk1 ?ps = tk_list tk ?ps" using na t(3) by (auto simp: tk_list_def)
    then have a: "tk_list ?tk' (addr # ?ps) = (k, (\<lambda>_. 0)(op := 1)) # tk_list tk ?ps"
      using tk_list_bump [OF na, of tk1 op] t(3) by simp
    have "take (nat (max_keys tk) - 1) (tk_list tk ps) = tk_list tk ?ps"
    proof (cases "int (length ps) = max_keys tk")
      case True
      then have "nat (max_keys tk) = length ps" by linarith
      then show ?thesis using True by (simp add: tk_list_def take_map butlast_conv_take)
    qed (use r(6) in \<open>simp add: tk_list_def\<close>)
    then show ?thesis
      using TK_run [OF t(1) k(2), of op] t(4) rep' a l(1) l(2) [OF d] None r(7)
      by (intro exI [of _ ?tk'] exI [of _ "addr # ?ps"]) (simp add: count_key_def Let_def take_Cons')
  qed
qed

lemma empty_key_map:
  assumes "gh_ok h" "gh_ops h = my_hash_ops" "\<And>k n. values_of h k n = []"
  shows "key_map h Map.empty"
  using assms by (simp add: key_map_def)

lemma topkeys_init_rep:
  assumes "topkeys_init addr True maxk = Some (Some tk)" "0 < maxk"
  shows "tk_rep tk [] \<and> max_keys tk = maxk"
proof -
  obtain h where h: "genhash_init True maxk my_hash_ops = Some (Some h)" "addr \<noteq> NULL" "tk_hash tk = h"
    "dl_next tk (tk_self tk) = tk_self tk" "dl_prev tk (tk_self tk) = tk_self tk" "nkeys tk = 0" "max_keys tk = maxk"
    using assms(1) by (auto simp: topkeys_init_def bind_eq_Some_conv split: if_splits)
  have "key_map h Map.empty"
    using genhash_init_ok [OF good_my_hash_ops h(1)] by (intro empty_key_map) auto
  then have "indexed tk Map.empty []" using h(3) by (simp add: indexed_def)
  then show ?thesis using h assms(2) by (auto simp: tk_rep_def ring_def)
qed

definition sample_topkeys :: topkeys where
  "sample_topkeys = \<lparr>tk_self = 8, dl_next = (\<lambda>_. NULL)(8 := 8), dl_prev = (\<lambda>_. NULL)(8 := 8),
     tk_items = (\<lambda>_. \<lparr>ti_key = [], ti_ctime = 0, ti_atime = 0, ti_counts = (\<lambda>_. 0)\<rparr>),
     tk_hash = \<lparr>gh_size = 1, gh_ops = my_hash_ops, gh_buckets = [[]], gh_freed_keys = [], gh_freed_values = []\<rparr>,
     nkeys = 0, max_keys = 2\<rparr>"

lemma sample_topkeys: "tk_rep sample_topkeys []"
proof -
  have ok: "gh_ok (tk_hash sample_topkeys)"
    using good_my_hash_ops by (simp add: gh_ok_def sample_topkeys_def)
  have "values_of (tk_hash sample_topkeys) k n = []" for k n
    using gh_okD(3) [OF ok, of k n] by (simp add: values_of_def) (simp add: sample_topkeys_def)
  then have "key_map (tk_hash sample_topkeys) Map.empty"
    using ok by (intro empty_key_map) (simp_all add: sample_topkeys_def)
  then have "indexed sample_topkeys Map.empty []" by (simp add: indexed_def)
  then show ?thesis by (auto simp: tk_rep_def) (auto simp: ring_def sample_topkeys_def)
qed

theorem topkeys_count_refines_witness:
  "\<exists>tk' ps'. TK sample_topkeys 16 get_hits [97] 5 = Some tk' \<and> tk_list tk' ps' = [([97], (\<lambda>_. 0)(get_hits := 1))]"
proof -
  have a: "16 \<notin> set (tk_self sample_topkeys # [])" "max_keys sample_topkeys = 2" by (simp_all add: sample_topkeys_def)
  have "count_key 2 [97] get_hits (tk_list sample_topkeys []) = [([97], (\<lambda>_. 0)(get_hits := 1))]"
    by (simp add: count_key_def tk_list_def)
  then show ?thesis
    using topkeys_count_refines [OF sample_topkeys _ _ a(1), of "[97]" get_hits 5] a(2) by auto
qed

end
