(* ===== verification/Object_Cache.thy ===== *)
theory Object_Cache
  imports Prelude
begin

text \<open>
  The cache of equally sized buffers, \<^verbatim>\<open>memcached/daemon/cache.c\<close>, compiled with its checks
  (\<^verbatim>\<open>NDEBUG\<close> not defined): a stack of buffers that are not in use, and a red zone of eight bytes in front of
  and behind every object. Memory is a map from addresses to 64-bit words, of which only the red
  zones matter. The answers of \<^verbatim>\<open>malloc\<close> and \<^verbatim>\<open>realloc\<close> and of the constructor are arguments.
\<close>

section \<open>The data\<close>

definition redzone_pattern :: u64 where "redzone_pattern = 0xdeadbeefcafebabe"

definition initial_pool_size :: nat where "initial_pool_size = 64"

text \<open>
  \<open>oc_words\<close> is the memory, \<open>oc_error\<close> the global \<^verbatim>\<open>cache_error\<close>, \<open>oc_released\<close> the buffers given back
  to the system and \<open>oc_destroyed\<close> the arguments of the calls of the destructor, latest first.
\<close>

record cache_t =
  oc_ptr :: "ptr list"
  oc_bufsize :: nat
  oc_freetotal :: nat
  oc_freecurr :: nat
  oc_constructor :: bool
  oc_destructor :: bool
  oc_words :: "ptr \<Rightarrow> u64"
  oc_error :: int
  oc_released :: "ptr list"
  oc_destroyed :: "ptr list"

definition inFreeList :: "cache_t \<Rightarrow> ptr \<Rightarrow> bool" where
  "inFreeList c obj = (obj \<in> set (take (oc_freecurr c) (oc_ptr c)))"

section \<open>Operations\<close>

text \<open>The four allocations and initialisations of \<^verbatim>\<open>cache_create\<close> succeed or fail together with \<open>ok\<close>.\<close>

definition cache_create :: "bool \<Rightarrow> nat \<Rightarrow> bool \<Rightarrow> bool \<Rightarrow> (ptr \<Rightarrow> u64) \<Rightarrow> cache_t option" where
  "cache_create ok bufsize constructor destructor words =
     (if \<not> ok then None
      else Some \<lparr>oc_ptr = replicate initial_pool_size NULL, oc_bufsize = bufsize + 2 * 8,
                 oc_freetotal = initial_pool_size, oc_freecurr = 0, oc_constructor = constructor,
                 oc_destructor = destructor, oc_words = words, oc_error = 0,
                 oc_released = [], oc_destroyed = []\<rparr>)"

definition get_object :: "ptr \<Rightarrow> ptr" where
  "get_object p = p + 8"

definition oc_release :: "ptr \<Rightarrow> cache_t \<Rightarrow> cache_t" where
  "oc_release p c = c\<lparr>oc_released := p # oc_released c\<rparr>"

definition oc_destruct :: "ptr \<Rightarrow> cache_t \<Rightarrow> cache_t" where
  "oc_destruct obj c = (if oc_destructor c then c\<lparr>oc_destroyed := obj # oc_destroyed c\<rparr> else c)"

function cache_destroy :: "cache_t \<Rightarrow> cache_t option" where
  "cache_destroy c =
     (if oc_freecurr c > 0 then
        do {
          p \<leftarrow> arr_get (oc_ptr c) (oc_freecurr c - 1);
          cache_destroy (oc_release p (oc_destruct (get_object p) (c\<lparr>oc_freecurr := oc_freecurr c - 1\<rparr>)))
        }
      else Some c)"
  by pat_completeness auto
termination
  by (relation "measure oc_freecurr") (auto simp: oc_release_def oc_destruct_def)

declare cache_destroy.simps [simp del]

text \<open>\<open>fresh\<close> is what \<^verbatim>\<open>malloc\<close> returns, \<open>constr_ok\<close> whether the constructor succeeds.\<close>

definition cache_alloc :: "ptr \<Rightarrow> bool \<Rightarrow> cache_t \<Rightarrow> (ptr \<times> cache_t) option" where
  "cache_alloc fresh constr_ok c =
     do {
       (ret, obj, c) \<leftarrow>
         (if oc_freecurr c > 0 then
            do {
              ret \<leftarrow> arr_get (oc_ptr c) (oc_freecurr c - 1);
              let c = c\<lparr>oc_freecurr := oc_freecurr c - 1\<rparr>;
              guard (\<not> inFreeList c ret);
              Some (ret, get_object ret, c)
            }
          else if fresh = NULL then Some (NULL, NULL, c)
          else if oc_constructor c \<and> \<not> constr_ok then Some (fresh, NULL, oc_release fresh c)
          else Some (fresh, get_object fresh, c));
       Some (obj, if obj \<noteq> NULL
         then c\<lparr>oc_words := (oc_words c)(ret := redzone_pattern,
                               ret + 8 + (oc_bufsize c - 2 * 8) := redzone_pattern)\<rparr>
         else c)
     }"

text \<open>
  A damaged red zone raises \<^verbatim>\<open>SIGABRT\<close>; \<open>survives\<close> says whether the process ignores it. \<open>realloc_ok\<close>
  is whether the stack can grow.
\<close>

definition cache_free :: "bool \<Rightarrow> bool \<Rightarrow> cache_t \<Rightarrow> ptr \<Rightarrow> cache_t option" where
  "cache_free survives realloc_ok c obj =
     (if oc_words c (obj + oc_bufsize c - 2 * 8) \<noteq> redzone_pattern then
        do { guard survives; Some (c\<lparr>oc_error := 1\<rparr>) }
      else if oc_words c (obj - 8) \<noteq> redzone_pattern then
        do { guard survives; Some (c\<lparr>oc_error := -1\<rparr>) }
      else do {
        let p = obj - 8;
        guard (\<not> inFreeList c p);
        if oc_freecurr c < oc_freetotal c then
          do {
            xs \<leftarrow> arr_set (oc_ptr c) (oc_freecurr c) p;
            let c = c\<lparr>oc_ptr := xs, oc_freecurr := oc_freecurr c + 1\<rparr>;
            guard (inFreeList c p);
            Some c
          }
        else if realloc_ok then
          do {
            let newtotal = oc_freetotal c * 2;
            let c = c\<lparr>oc_freetotal := newtotal,
                      oc_ptr := take newtotal (oc_ptr c) @ replicate (newtotal - length (oc_ptr c)) NULL\<rparr>;
            xs \<leftarrow> arr_set (oc_ptr c) (oc_freecurr c) p;
            let c = c\<lparr>oc_ptr := xs, oc_freecurr := oc_freecurr c + 1\<rparr>;
            guard (inFreeList c p);
            Some c
          }
        else Some (oc_release p (oc_destruct p c))
      })"

section \<open>Correctness\<close>

text \<open>
  The stack holds distinct buffers, none of them in use; \<open>A\<close> are the objects in use, whose red zones
  are intact.
\<close>

abbreviation idle_buffers :: "cache_t \<Rightarrow> ptr list" where
  "idle_buffers c \<equiv> take (oc_freecurr c) (oc_ptr c)"

definition red_intact :: "cache_t \<Rightarrow> ptr \<Rightarrow> bool" where
  "red_intact c obj \<longleftrightarrow> 8 < obj \<and> oc_words c (obj - 8) = redzone_pattern
     \<and> oc_words c (obj + (oc_bufsize c - 2 * 8)) = redzone_pattern"

definition buffer :: "cache_t \<Rightarrow> ptr \<Rightarrow> ptr set" where
  "buffer c p = {p..<p + oc_bufsize c}"

definition cache_rep :: "cache_t \<Rightarrow> ptr set \<Rightarrow> bool" where
  "cache_rep c A \<longleftrightarrow> 16 \<le> oc_bufsize c \<and> length (oc_ptr c) = oc_freetotal c \<and> 0 < oc_freetotal c
     \<and> oc_freecurr c \<le> oc_freetotal c
     \<and> distinct (idle_buffers c) \<and> (\<forall>obj\<in>A. red_intact c obj)
     \<and> (\<forall>p \<in> set (idle_buffers c). p \<noteq> NULL \<and> get_object p \<notin> A)
     \<and> (\<forall>p \<in> set (idle_buffers c) \<union> (\<lambda>obj. obj - 8) ` A. \<forall>q \<in> set (idle_buffers c) \<union> (\<lambda>obj. obj - 8) ` A.
          p \<noteq> q \<longrightarrow> buffer c p \<inter> buffer c q = {})"

lemma cache_repD:
  assumes "cache_rep c A"
  shows "16 \<le> oc_bufsize c" "length (oc_ptr c) = oc_freetotal c" "0 < oc_freetotal c" "oc_freecurr c \<le> oc_freetotal c"
    "distinct (idle_buffers c)" "\<And>obj. obj \<in> A \<Longrightarrow> red_intact c obj" "\<And>p. p \<in> set (idle_buffers c) \<Longrightarrow> p \<noteq> NULL"
    "\<And>p. p \<in> set (idle_buffers c) \<Longrightarrow> get_object p \<notin> A"
    "\<And>p q. p \<in> set (idle_buffers c) \<union> (\<lambda>obj. obj - 8) ` A \<Longrightarrow> q \<in> set (idle_buffers c) \<union> (\<lambda>obj. obj - 8) ` A \<Longrightarrow>
       p \<noteq> q \<Longrightarrow> buffer c p \<inter> buffer c q = {}"
  using assms unfolding cache_rep_def by blast+

lemma cache_rep_cong:
  assumes "oc_ptr c' = oc_ptr c" "oc_bufsize c' = oc_bufsize c" "oc_freetotal c' = oc_freetotal c"
    "oc_freecurr c' = oc_freecurr c" "oc_words c' = oc_words c"
  shows "cache_rep c' A = cache_rep c A"
proof -
  have "red_intact c' = red_intact c" "buffer c' = buffer c"
    using assms by (simp_all add: red_intact_def buffer_def fun_eq_iff)
  then show ?thesis using assms by (simp add: cache_rep_def)
qed

text \<open>The buffers the cache has handed out or keeps.\<close>

abbreviation buffers :: "cache_t \<Rightarrow> ptr set \<Rightarrow> ptr set" where
  "buffers c A \<equiv> set (idle_buffers c) \<union> (\<lambda>obj. obj - 8) ` A"

text \<open>Writing the red zones of a buffer that overlaps no other one.\<close>

definition mark :: "ptr \<Rightarrow> cache_t \<Rightarrow> cache_t" where
  "mark p c = c\<lparr>oc_words := (oc_words c)(p := redzone_pattern, p + 8 + (oc_bufsize c - 2 * 8) := redzone_pattern)\<rparr>"

lemma mark_fields [simp]:
  "oc_ptr (mark p c) = oc_ptr c" "oc_bufsize (mark p c) = oc_bufsize c" "oc_freetotal (mark p c) = oc_freetotal c"
  "oc_freecurr (mark p c) = oc_freecurr c" "buffer (mark p c) = buffer c"
  by (simp_all add: mark_def buffer_def fun_eq_iff)

lemma red_intact_mark:
  assumes "16 \<le> oc_bufsize c"
  shows "p \<noteq> NULL \<Longrightarrow> red_intact (mark p c) (get_object p)"
    "red_intact c obj \<Longrightarrow> buffer c p \<inter> buffer c (obj - 8) = {} \<Longrightarrow> red_intact (mark p c) obj"
proof -
  show "p \<noteq> NULL \<Longrightarrow> red_intact (mark p c) (get_object p)" using assms by (auto simp: red_intact_def mark_def get_object_def)
  assume r: "red_intact c obj" and d: "buffer c p \<inter> buffer c (obj - 8) = {}"
  have "{p, p + 8 + (oc_bufsize c - 2 * 8)} \<subseteq> buffer c p" "{obj - 8, obj + (oc_bufsize c - 2 * 8)} \<subseteq> buffer c (obj - 8)"
    using assms r by (auto simp: buffer_def red_intact_def)
  then show "red_intact (mark p c) obj" using r d by (auto simp: red_intact_def mark_def)
qed

lemma cache_rep_mark:
  assumes rep: "cache_rep c A" and p: "p \<notin> buffers c A" "p \<noteq> NULL"
    and apart: "\<And>q. q \<in> buffers c A \<Longrightarrow> buffer c p \<inter> buffer c q = {}"
  shows "cache_rep (mark p c) (insert (get_object p) A)" "get_object p \<notin> A"
proof -
  note r = cache_repD [OF rep]
  show n: "get_object p \<notin> A" using p(1) by (auto simp: get_object_def image_iff)
  have g: "get_object p - 8 = p" by (simp add: get_object_def)
  have red: "red_intact (mark p c) obj" if "obj \<in> insert (get_object p) A" for obj
    using that red_intact_mark(1) [OF r(1) p(2)] red_intact_mark(2) [OF r(1) r(6), of obj p] apart by auto
  have "get_object q \<notin> insert (get_object p) A" if "q \<in> set (idle_buffers c)" for q
    using that p(1) r(8) by (auto simp: get_object_def)
  moreover have "buffer c q \<inter> buffer c q' = {}"
    if "q \<in> buffers c (insert (get_object p) A)" "q' \<in> buffers c (insert (get_object p) A)" "q \<noteq> q'" for q q'
  proof -
    have "q \<in> insert p (buffers c A)" "q' \<in> insert p (buffers c A)" using that(1,2) g by auto
    then show ?thesis using apart r(9) that(3) by (metis Int_commute insertE)
  qed
  ultimately show "cache_rep (mark p c) (insert (get_object p) A)"
    unfolding cache_rep_def mark_fields using r(1-5,7) red by blast
qed

lemma cache_alloc_rep:
  assumes rep: "cache_rep c A"
    and fresh: "fresh \<noteq> NULL \<longrightarrow> fresh \<notin> buffers c A \<and> (\<forall>q \<in> buffers c A. buffer c fresh \<inter> buffer c q = {})"
  shows "\<exists>obj c'. cache_alloc fresh ok c = Some (obj, c')
    \<and> (obj = NULL \<longrightarrow> cache_rep c' A) \<and> (obj \<noteq> NULL \<longrightarrow> obj \<notin> A \<and> cache_rep c' (insert obj A))
    \<and> (0 < oc_freecurr c \<longrightarrow> obj = get_object (oc_ptr c ! (oc_freecurr c - 1)))"
proof (cases "0 < oc_freecurr c")
  case True
  note r = cache_repD [OF rep]
  let ?n = "oc_freecurr c - 1"
  let ?p = "oc_ptr c ! ?n" and ?c = "c\<lparr>oc_freecurr := ?n\<rparr>"
  have idle: "idle_buffers c = idle_buffers ?c @ [?p]"
    using True r(2,4) take_Suc_conv_app_nth [of ?n "oc_ptr c"] by simp
  have p: "?p \<notin> set (idle_buffers ?c)" "?p \<noteq> NULL" "get_object ?p \<notin> A" "?p \<notin> (\<lambda>obj. obj - 8) ` A"
  proof -
    show "?p \<notin> set (idle_buffers ?c)" "?p \<noteq> NULL" "get_object ?p \<notin> A" using r(5,7,8) idle by auto
    show "?p \<notin> (\<lambda>obj. obj - 8) ` A"
    proof
      assume "?p \<in> (\<lambda>obj. obj - 8) ` A"
      then obtain obj where o: "obj \<in> A" "?p = obj - 8" by blast
      have "get_object (obj - 8) = obj" using r(6) [OF o(1)] by (simp add: get_object_def red_intact_def)
      then show False using \<open>get_object ?p \<notin> A\<close> o by metis
    qed
  qed
  have rep1: "cache_rep ?c A"
  proof -
    have "set (idle_buffers ?c) \<subseteq> set (idle_buffers c)" "distinct (idle_buffers ?c)" using idle r(5) by auto
    moreover have "red_intact ?c = red_intact c" "buffer ?c = buffer c" by (simp_all add: red_intact_def buffer_def fun_eq_iff)
    ultimately show ?thesis
      unfolding cache_rep_def using r by (intro conjI) (simp_all, blast+)
  qed
  have "buffer ?c ?p \<inter> buffer ?c q = {}" if "q \<in> buffers ?c A" for q
  proof -
    have "?p \<in> buffers c A" "q \<in> buffers c A" "?p \<noteq> q" using that idle p by auto
    then show ?thesis using r(9) [of ?p q] by (simp add: buffer_def)
  qed
  from cache_rep_mark [OF rep1 _ p(2) this] p have "cache_rep (mark ?p ?c) (insert (get_object ?p) A)" by auto
  moreover have "arr_get (oc_ptr c) ?n = Some ?p" using True r(2,4) by simp
  then have "cache_alloc fresh ok c = Some (get_object ?p, mark ?p ?c)"
    using True p(1) by (simp add: cache_alloc_def inFreeList_def mark_def) (simp add: get_object_def)
  ultimately show ?thesis using p(3) True by (auto simp: get_object_def)
next
  case False
  show ?thesis
  proof (cases "fresh = NULL \<or> oc_constructor c \<and> \<not> ok")
    case True
    have "cache_rep (oc_release fresh c) A"
      using rep by (subst cache_rep_cong [of _ c]) (simp_all add: oc_release_def)
    then show ?thesis using True False rep by (auto simp: cache_alloc_def)
  next
    case False2: False
    then have "cache_alloc fresh ok c = Some (get_object fresh, mark fresh c)"
      using False by (simp add: cache_alloc_def mark_def) (simp add: get_object_def)
    then show ?thesis using cache_rep_mark [OF rep, of fresh] fresh False False2 by (auto simp: get_object_def)
  qed
qed

text \<open>
  C32. Allocating from the cache always returns, and the stack is used before new memory. The object
  that comes back is not in use and its buffer overlaps no other buffer of the cache; its red zones
  are set and those of the objects in use are intact. What \<^verbatim>\<open>malloc\<close> gives has to be apart from the
  buffers of the cache.
\<close>

theorem cache_alloc_correct:
  assumes "cache_rep c A"
    and "fresh \<noteq> NULL \<longrightarrow> fresh \<notin> buffers c A \<and> (\<forall>q \<in> buffers c A. buffer c fresh \<inter> buffer c q = {})"
  shows "\<exists>obj c'. cache_alloc fresh ok c = Some (obj, c')
    \<and> (obj = NULL \<longrightarrow> cache_rep c' A) \<and> (obj \<noteq> NULL \<longrightarrow> obj \<notin> A \<and> cache_rep c' (insert obj A))
    \<and> (0 < oc_freecurr c \<longrightarrow> obj = get_object (oc_ptr c ! (oc_freecurr c - 1)))"
  by (rule cache_alloc_rep [OF assms])

text \<open>Pushing the buffer of an object on the stack.\<close>

lemma cache_rep_push:
  assumes rep: "cache_rep c A" and obj: "obj \<in> A"
    and xs: "length xs = n" "oc_freecurr c < n" "take (oc_freecurr c) xs = idle_buffers c"
    and c': "c' = c\<lparr>oc_ptr := xs[oc_freecurr c := obj - 8], oc_freetotal := n, oc_freecurr := oc_freecurr c + 1\<rparr>"
  shows "cache_rep c' (A - {obj})" "idle_buffers c' = idle_buffers c @ [obj - 8]" "\<not> inFreeList c (obj - 8)" "inFreeList c' (obj - 8)"
proof -
  note r = cache_repD [OF rep]
  have o: "8 < obj" using r(6) [OF obj] by (simp add: red_intact_def)
  then have g: "get_object (obj - 8) = obj" by (simp add: get_object_def)
  show idle: "idle_buffers c' = idle_buffers c @ [obj - 8]"
    using xs c' by (simp add: take_Suc_conv_app_nth take_update_cancel)
  have ni: "obj - 8 \<notin> set (idle_buffers c)" using r(8) [of "obj - 8"] g obj by auto
  then show "\<not> inFreeList c (obj - 8)" "inFreeList c' (obj - 8)" using idle by (auto simp: inFreeList_def)
  have same: "red_intact c' = red_intact c" "buffer c' = buffer c"
    using c' by (simp_all add: red_intact_def buffer_def fun_eq_iff)
  have nn: "obj - 8 \<noteq> NULL" using o by simp
  have inj: "obj' - 8 = obj - 8 \<Longrightarrow> obj' = obj" if "obj' \<in> A" for obj'
    using r(6) [OF that] o by (auto simp: red_intact_def)
  have "get_object q \<notin> A - {obj}" if "q \<in> set (idle_buffers c')" for q using that idle r(8) g by auto
  moreover have "buffers c' (A - {obj}) \<subseteq> buffers c A" using idle obj by auto
  then have "\<And>p q. p \<in> buffers c' (A - {obj}) \<Longrightarrow> q \<in> buffers c' (A - {obj}) \<Longrightarrow> p \<noteq> q \<Longrightarrow> buffer c p \<inter> buffer c q = {}"
    using r(9) by blast
  moreover have "oc_bufsize c' = oc_bufsize c" "length (oc_ptr c') = oc_freetotal c'" "0 < oc_freetotal c'"
    "oc_freecurr c' \<le> oc_freetotal c'" "distinct (idle_buffers c')"
    using c' xs r(5) idle ni by auto
  ultimately show "cache_rep c' (A - {obj})"
    unfolding cache_rep_def same using r(1,6,7) idle nn by auto
qed

lemma cache_free_pushes:
  assumes rep: "cache_rep c A" and obj: "obj \<in> A" and room: "oc_freecurr c < oc_freetotal c \<or> realloc_ok"
  shows "\<exists>c'. cache_free survives realloc_ok c obj = Some c' \<and> cache_rep c' (A - {obj})
    \<and> oc_freecurr c' = oc_freecurr c + 1 \<and> oc_ptr c' ! oc_freecurr c = obj - 8"
proof -
  note r = cache_repD [OF rep]
  have red: "oc_words c (obj - 8) = redzone_pattern" "oc_words c (obj + oc_bufsize c - 2 * 8) = redzone_pattern"
    using r(1) r(6) [OF obj] by (auto simp: red_intact_def)
  define xs where "xs = (if oc_freecurr c < oc_freetotal c then oc_ptr c
    else take (oc_freetotal c * 2) (oc_ptr c) @ replicate (oc_freetotal c * 2 - length (oc_ptr c)) NULL)"
  define n where "n = (if oc_freecurr c < oc_freetotal c then oc_freetotal c else oc_freetotal c * 2)"
  have xs: "length xs = n" "oc_freecurr c < n" "take (oc_freecurr c) xs = idle_buffers c"
    using r(2-4) by (auto simp: xs_def n_def)
  define c' where "c' = c\<lparr>oc_ptr := xs[oc_freecurr c := obj - 8], oc_freetotal := n, oc_freecurr := oc_freecurr c + 1\<rparr>"
  note p = cache_rep_push [OF rep obj xs c'_def]
  have "cache_free survives realloc_ok c obj = Some c'"
  proof (cases "oc_freecurr c < oc_freetotal c")
    case True
    then have "c' = c\<lparr>oc_ptr := (oc_ptr c)[oc_freecurr c := obj - 8], oc_freecurr := oc_freecurr c + 1\<rparr>"
      by (simp add: c'_def xs_def n_def)
    then show ?thesis using True red p(3,4) r(2) by (simp add: cache_free_def Let_def)
  next
    case False
    then have "c' = c\<lparr>oc_freetotal := oc_freetotal c * 2, oc_ptr := xs[oc_freecurr c := obj - 8], oc_freecurr := oc_freecurr c + 1\<rparr>"
      "xs = take (oc_freetotal c * 2) (oc_ptr c) @ replicate (oc_freetotal c * 2 - length (oc_ptr c)) NULL"
      by (simp_all add: c'_def xs_def n_def)
    then show ?thesis using False room red p(3,4) xs by (simp add: cache_free_def Let_def)
  qed
  then show ?thesis using p(1) xs by (auto simp: c'_def)
qed

text \<open>
  Freeing an object in use, with intact red zones, always returns, keeps the other objects and
  buffers as they are, and the next allocation returns the same object, when there is room on the
  stack or it can grow.
\<close>

theorem cache_free_then_alloc:
  assumes "cache_rep c A" "obj \<in> A" "oc_freecurr c < oc_freetotal c \<or> realloc_ok"
  shows "\<exists>c1 c2. cache_free survives realloc_ok c obj = Some c1 \<and> cache_rep c1 (A - {obj})
    \<and> cache_alloc NULL ok c1 = Some (obj, c2) \<and> cache_rep c2 A"
proof -
  obtain c1 where c1: "cache_free survives realloc_ok c obj = Some c1" "cache_rep c1 (A - {obj})"
    "oc_freecurr c1 = oc_freecurr c + 1" "oc_ptr c1 ! oc_freecurr c = obj - 8"
    using cache_free_pushes [OF assms] by blast
  have "8 < obj" using cache_repD(6) [OF assms(1,2)] by (simp add: red_intact_def)
  then have g: "get_object (obj - 8) = obj" by (simp add: get_object_def)
  obtain obj' c2 where c2: "cache_alloc NULL ok c1 = Some (obj', c2)" "obj' \<noteq> NULL \<longrightarrow> cache_rep c2 (insert obj' (A - {obj}))"
    "0 < oc_freecurr c1 \<longrightarrow> obj' = get_object (oc_ptr c1 ! (oc_freecurr c1 - 1))"
    using cache_alloc_rep [OF c1(2), of NULL ok] by auto
  have "obj' = obj" using c2(3) c1(3,4) g by simp
  moreover have "insert obj (A - {obj}) = A" using assms(2) by auto
  ultimately show ?thesis using c1 c2 \<open>8 < obj\<close> by auto
qed

text \<open>
  An object whose red zones were overwritten is not taken back: the process is aborted, or when
  it survives the signal the error variable says which end was damaged (the end behind the object
  first) and nothing else changes.
\<close>

theorem cache_free_detects_overrun:
  assumes "oc_words c (obj + oc_bufsize c - 16) \<noteq> redzone_pattern \<or> oc_words c (obj - 8) \<noteq> redzone_pattern"
  shows "cache_free survives realloc_ok c obj =
    (if survives then Some (c\<lparr>oc_error := if oc_words c (obj + oc_bufsize c - 16) \<noteq> redzone_pattern then 1 else -1\<rparr>) else None)"
  using assms by (auto simp: cache_free_def)

section \<open>A small cache\<close>

definition sample_objects :: cache_t where
  "sample_objects = the (cache_create True 32 False False (\<lambda>_. 0))"

lemma sample_objects: "cache_create True 32 False False (\<lambda>_. 0) = Some sample_objects" "cache_rep sample_objects {}"
  "oc_freecurr sample_objects = 0" "oc_freetotal sample_objects = 64" "oc_constructor sample_objects = False"
  by (simp_all add: sample_objects_def cache_create_def cache_rep_def initial_pool_size_def)

theorem cache_alloc_correct_witness:
  "\<exists>obj c'. cache_alloc 4096 True sample_objects = Some (obj, c') \<and> (obj \<noteq> NULL \<longrightarrow> cache_rep c' {obj})"
  using cache_alloc_correct [OF sample_objects(2), of 4096 True] sample_objects(3) by auto

lemma sample_object: "\<exists>c. cache_alloc 4096 True sample_objects = Some (4104, c) \<and> cache_rep c {4104} \<and> oc_freecurr c = 0 \<and> oc_freetotal c = 64"
proof -
  have "cache_alloc 4096 True sample_objects = Some (4104, mark 4096 sample_objects)"
    using sample_objects(3,5) by (simp add: cache_alloc_def mark_def get_object_def)
  then show ?thesis using cache_alloc_rep [OF sample_objects(2), of 4096 True] sample_objects(3,4) by auto
qed

theorem cache_free_then_alloc_witness:
  "\<exists>c c1 c2. cache_alloc 4096 True sample_objects = Some (4104, c) \<and> cache_free False False c 4104 = Some c1
    \<and> cache_alloc NULL True c1 = Some (4104, c2)"
proof -
  obtain c where c: "cache_alloc 4096 True sample_objects = Some (4104, c)" "cache_rep c {4104}" "oc_freecurr c = 0" "oc_freetotal c = 64"
    using sample_object by blast
  then show ?thesis using cache_free_then_alloc [OF c(2), of 4104 False False True] by auto
qed

theorem cache_free_detects_overrun_witness: "cache_free False False sample_objects 4104 = None"
proof -
  have "oc_words sample_objects (4104 - 8) \<noteq> redzone_pattern"
    by (simp add: sample_objects_def cache_create_def redzone_pattern_def)
  then show ?thesis using cache_free_detects_overrun [of sample_objects 4104 False False] by simp
qed

end
