(* ===== verification/VBucket.thy ===== *)
theory VBucket
  imports Prelude
begin

unbundle bit_operations_syntax

text \<open>
  The client library that maps keys to virtual buckets and buckets to servers,
  \<^verbatim>\<open>libvbucket/src/vbucket.c\<close>. The parsed JSON document is a tree as \<^verbatim>\<open>cJSON.c\<close> builds it; the JSON
  parser itself and the digest functions of \<^verbatim>\<open>libhashkit\<close> are parameters. C \<^verbatim>\<open>int\<close> values that are
  server numbers and counts are integers.
\<close>

section \<open>JSON documents\<close>

datatype cJSON =
    cJSON_False | cJSON_True | cJSON_NULL | cJSON_Number int | cJSON_String string
  | cJSON_Array "cJSON list" | cJSON_Object "(string \<times> cJSON) list"

definition tolower :: "char \<Rightarrow> nat" where
  "tolower c = (let n = of_char c in if 65 \<le> n \<and> n \<le> 90 then n + 32 else n)"

definition same_nocase :: "string \<Rightarrow> string \<Rightarrow> bool" where
  "same_nocase a b = (map tolower a = map tolower b)"

fun cJSON_children :: "cJSON \<Rightarrow> cJSON list" where
  "cJSON_children (cJSON_Array xs) = xs"
| "cJSON_children (cJSON_Object ms) = map snd ms"
| "cJSON_children _ = []"

definition cJSON_GetArraySize :: "cJSON \<Rightarrow> int" where
  "cJSON_GetArraySize c = int (length (cJSON_children c))"

definition cJSON_GetArrayItem :: "cJSON \<Rightarrow> nat \<Rightarrow> cJSON option" where
  "cJSON_GetArrayItem c i = arr_get (cJSON_children c) i"

fun find_member :: "string \<Rightarrow> (string \<times> cJSON) list \<Rightarrow> cJSON option" where
  "find_member s [] = None"
| "find_member s ((name, v) # ms) = (if same_nocase name s then Some v else find_member s ms)"

fun cJSON_GetObjectItem :: "cJSON \<Rightarrow> string \<Rightarrow> cJSON option" where
  "cJSON_GetObjectItem (cJSON_Object ms) s = find_member s ms"
| "cJSON_GetObjectItem _ s = None"

section \<open>The configuration\<close>

definition MAX_REPLICAS :: int where "MAX_REPLICAS = 4"
definition MAX_CONFIG_SIZE :: int where "MAX_CONFIG_SIZE = 100 * 1048576"
definition HASHKIT_HASH_MAX :: nat where "HASHKIT_HASH_MAX = 11"

record vbucket_config =
  hk_algorithm :: nat
  num_vbuckets :: int
  vb_mask :: u32
  num_servers :: int
  num_replicas :: int
  vb_user :: "string option"
  vb_password :: "string option"
  vb_servers :: "string option list"
  fvbuckets :: "int list list option"
  vbuckets :: "int list list"

text \<open>
  The error text, and which allocations succeed: \<open>ve_alloc n\<close> is the answer of the \<open>n\<close>-th one.
\<close>

record vb_env =
  errstr :: "string option"
  ve_alloc :: "nat \<Rightarrow> bool"
  ve_tick :: nat

definition vbucket_get_error :: "vb_env \<Rightarrow> string option" where
  "vbucket_get_error v = errstr v"

definition set_err :: "string \<Rightarrow> vb_env \<Rightarrow> vb_env" where
  "set_err s v = v\<lparr>errstr := Some s\<rparr>"

definition vb_alloc :: "vb_env \<Rightarrow> bool \<times> vb_env" where
  "vb_alloc v = (ve_alloc v (ve_tick v), v\<lparr>ve_tick := Suc (ve_tick v)\<rparr>)"

text \<open>
  The loop over the names runs to the size of the array in bytes, beyond its end: a name that is
  not in the table makes it read past the array.
\<close>

definition hash_names :: "string option list" where
  "hash_names = [Some ''default'', Some ''md5'', Some ''crc'', Some ''fnv1_64'', Some ''fnv1a_64'',
     Some ''fnv1_32'', Some ''fnv1a_32'', Some ''hsieh'', Some ''murmur'', Some ''jenkins'', None]"

fun lookup_hash_loop :: "string \<Rightarrow> nat \<Rightarrow> nat \<Rightarrow> nat option" where
  "lookup_hash_loop s 0 i = Some HASHKIT_HASH_MAX"
| "lookup_hash_loop s (Suc n) i =
     do {
       h \<leftarrow> arr_get hash_names i;
       if (case h of None \<Rightarrow> False | Some name \<Rightarrow> same_nocase s name) then Some i
       else lookup_hash_loop s n (i + 1)
     }"

definition lookup_hash_algorithm :: "string \<Rightarrow> nat option" where
  "lookup_hash_algorithm s = lookup_hash_loop s (8 * HASHKIT_HASH_MAX) 0"

definition set_username :: "string option \<Rightarrow> vbucket_config \<Rightarrow> vb_env \<Rightarrow> vbucket_config \<times> vb_env" where
  "set_username user vb v =
     (if vb_user vb = None \<and> user \<noteq> None \<and> user \<noteq> Some ''default'' then
        (let (ok, v) = vb_alloc v in (if ok then vb\<lparr>vb_user := user\<rparr> else vb, v))
      else (vb, v))"

definition set_password :: "string option \<Rightarrow> vbucket_config \<Rightarrow> vb_env \<Rightarrow> vbucket_config \<times> vb_env" where
  "set_password password vb v =
     (if vb_password vb = None \<and> password \<noteq> None then
        (let (ok, v) = vb_alloc v in (if ok then vb\<lparr>vb_password := password\<rparr> else vb, v))
      else (vb, v))"

definition config_create ::
    "string \<Rightarrow> int \<Rightarrow> int \<Rightarrow> int \<Rightarrow> string option \<Rightarrow> string option \<Rightarrow> vb_env
     \<Rightarrow> (vbucket_config option \<times> vb_env) option" where
  "config_create hash_algorithm nservers nvbuckets nreplicas user password v =
     do {
       ha \<leftarrow> lookup_hash_algorithm hash_algorithm;
       if ha = HASHKIT_HASH_MAX then Some (None, set_err ''Bogus hash algorithm specified'' v)
       else
         (let (ok, v) = vb_alloc v in
          if \<not> ok then Some (None, set_err ''Failed to allocate vbucket config struct'' v)
          else
            (let (ok, v) = vb_alloc v in
             if \<not> ok then Some (None, set_err ''Failed to allocate servers array'' v)
             else
               (let vb = \<lparr>hk_algorithm = ha, num_vbuckets = nvbuckets, vb_mask = word_of_int (nvbuckets - 1),
                          num_servers = nservers, num_replicas = nreplicas, vb_user = None, vb_password = None,
                          vb_servers = replicate (nat nservers) None, fvbuckets = None,
                          vbuckets = replicate (nat nvbuckets) (replicate 5 0)\<rparr>;
                    (vb, v) = set_username user vb v;
                    (vb, v) = set_password password vb v
                in Some (Some vb, v))))
     }"

fun populate_servers_loop :: "nat list \<Rightarrow> cJSON \<Rightarrow> vbucket_config \<Rightarrow> vb_env \<Rightarrow> (bool \<times> vbucket_config \<times> vb_env) option" where
  "populate_servers_loop [] c vb v = Some (True, vb, v)"
| "populate_servers_loop (i # is) c vb v =
     (case cJSON_GetArrayItem c i of
        Some (cJSON_String s) \<Rightarrow>
          (let (ok, v) = vb_alloc v in
           if \<not> ok then Some (False, vb, set_err ''Failed to allocate storage for server string'' v)
           else do {
             xs \<leftarrow> arr_set (vb_servers vb) i (Some s);
             populate_servers_loop is c (vb\<lparr>vb_servers := xs\<rparr>) v
           })
      | _ \<Rightarrow> Some (False, vb, set_err ''Expected array of strings for serverList'' v))"

definition populate_servers :: "vbucket_config \<Rightarrow> cJSON \<Rightarrow> vb_env \<Rightarrow> (bool \<times> vbucket_config \<times> vb_env) option" where
  "populate_servers vb c v = populate_servers_loop [0..<nat (num_servers vb)] c vb v"

text \<open>One row of the map; a row is an array of five integers.\<close>

fun populate_row :: "nat list \<Rightarrow> cJSON \<Rightarrow> int \<Rightarrow> int list \<Rightarrow> (bool \<times> int list) option" where
  "populate_row [] jBucket ns row = Some (True, row)"
| "populate_row (j # js) jBucket ns row =
     (case cJSON_GetArrayItem jBucket j of
        Some (cJSON_Number n) \<Rightarrow>
          if n < -1 \<or> n \<ge> ns then Some (False, row)
          else do { row \<leftarrow> arr_set row j n; populate_row js jBucket ns row }
      | _ \<Rightarrow> Some (False, row))"

fun populate_rows ::
    "nat list \<Rightarrow> cJSON \<Rightarrow> vbucket_config \<Rightarrow> int list list \<Rightarrow> vb_env \<Rightarrow> (bool \<times> int list list \<times> vb_env) option" where
  "populate_rows [] c vb rows v = Some (True, rows, v)"
| "populate_rows (i # is) c vb rows v =
     (case cJSON_GetArrayItem c i of
        Some (cJSON_Array xs) \<Rightarrow>
          if int (length xs) \<noteq> num_replicas vb + 1 then
            Some (False, rows, set_err ''Expected array of arrays each with numReplicas + 1 ints for vBucketMap'' v)
          else do {
            row \<leftarrow> arr_get rows i;
            (ok, row) \<leftarrow> populate_row [0..<nat (num_replicas vb + 1)] (cJSON_Array xs) (num_servers vb) row;
            if \<not> ok then Some (False, rows[i := row], set_err ''Server ID must be >= -1 and < num_servers'' v)
            else populate_rows is c vb (rows[i := row]) v
          }
      | _ \<Rightarrow> Some (False, rows, set_err ''Expected array of arrays each with numReplicas + 1 ints for vBucketMap'' v))"

text \<open>\<open>junk\<close> is what the memory of a new forward map holds.\<close>

definition populate_buckets ::
    "int list list \<Rightarrow> vbucket_config \<Rightarrow> cJSON \<Rightarrow> bool \<Rightarrow> vb_env \<Rightarrow> (bool \<times> vbucket_config \<times> vb_env) option" where
  "populate_buckets junk vb c is_ft v =
     (if is_ft then
        (let (ok, v) = vb_alloc v in
         if \<not> ok then Some (False, vb, set_err ''Failed to allocate storage for forward vbucket map'' v)
         else do {
           (ok, rows, v) \<leftarrow> populate_rows [0..<nat (num_vbuckets vb)] c vb junk v;
           Some (ok, vb\<lparr>fvbuckets := Some rows\<rparr>, v)
         })
      else do {
        (ok, rows, v) \<leftarrow> populate_rows [0..<nat (num_vbuckets vb)] c vb (vbuckets vb) v;
        Some (ok, vb\<lparr>vbuckets := rows\<rparr>, v)
      })"

definition get_char_val :: "cJSON \<Rightarrow> string \<Rightarrow> string option" where
  "get_char_val c key = (case cJSON_GetObjectItem c key of Some (cJSON_String s) \<Rightarrow> Some s | _ \<Rightarrow> None)"

section \<open>Parsing\<close>

text \<open>The part of \<^verbatim>\<open>parse_cjson\<close> that reads a document without an envelope.\<close>

definition power_of_two :: "int \<Rightarrow> bool" where
  "power_of_two n = (n \<noteq> 0 \<and> n AND (n - 1) = 0)"

definition parse_body ::
    "int list list \<Rightarrow> cJSON \<Rightarrow> string option \<Rightarrow> string option \<Rightarrow> vb_env \<Rightarrow> (vbucket_config option \<times> vb_env) option" where
  "parse_body junk c user password v =
     (case cJSON_GetObjectItem c ''hashAlgorithm'' of
        Some (cJSON_String hashAlgorithm) \<Rightarrow>
     (case cJSON_GetObjectItem c ''numReplicas'' of
        Some (cJSON_Number numReplicas) \<Rightarrow>
     (if numReplicas > MAX_REPLICAS then Some (None, set_err ''Expected number <= MAX_REPLICAS for numReplicas'' v) else
     (case cJSON_GetObjectItem c ''serverList'' of
        Some (cJSON_Array jServers) \<Rightarrow>
     (if jServers = [] then Some (None, set_err ''Empty serverList'' v) else
     (case cJSON_GetObjectItem c ''vBucketMap'' of
        Some (cJSON_Array jBuckets) \<Rightarrow>
     (let jBucketsForward = cJSON_GetObjectItem c ''vBucketMapForward'';
          numBuckets = int (length jBuckets)
      in if \<not> power_of_two numBuckets then
           Some (None, set_err ''Number of buckets must be a power of two > 0 and <= MAX_BUCKETS'' v)
         else do {
           (r, v) \<leftarrow> config_create hashAlgorithm (int (length jServers)) numBuckets numReplicas user password v;
           case r of None \<Rightarrow> Some (None, v)
           | Some vb \<Rightarrow>
               do {
                 (ok, vb, v) \<leftarrow> populate_servers vb (cJSON_Array jServers) v;
                 if \<not> ok then Some (None, v)
                 else do {
                   (ok, vb, v) \<leftarrow> populate_buckets junk vb (cJSON_Array jBuckets) False v;
                   if \<not> ok then Some (None, v)
                   else (case jBucketsForward of
                     None \<Rightarrow> Some (Some vb, v)
                   | Some f \<Rightarrow>
                       do {
                         (ok, vb, v) \<leftarrow> populate_buckets junk vb f True v;
                         Some (if ok then Some vb else None, v)
                       })
                 }
               }
         })
      | _ \<Rightarrow> Some (None, set_err ''Expected array for vBucketMap'' v)))
      | _ \<Rightarrow> Some (None, set_err ''Expected array for serverList'' v)))
      | _ \<Rightarrow> Some (None, set_err ''Expected number <= MAX_REPLICAS for numReplicas'' v))
      | _ \<Rightarrow> Some (None, set_err ''Expected string for hashAlgorithm'' v))"

lemma find_member_size: "find_member s ms = Some b \<Longrightarrow> size b < size_list (size_prod (\<lambda>_. 0) size) ms + 1"
  by (induction s ms rule: find_member.induct) (auto split: if_splits)

lemma GetObjectItem_size: "cJSON_GetObjectItem c s = Some b \<Longrightarrow> size b < size c"
  by (cases c) (auto dest: find_member_size)

function parse_cjson :: "int list list \<Rightarrow> cJSON \<Rightarrow> vb_env \<Rightarrow> (vbucket_config option \<times> vb_env) option" where
  "parse_cjson junk c v =
     (let user = get_char_val c ''name''; password = get_char_val c ''saslPassword'' in
      case cJSON_GetObjectItem c ''vBucketServerMap'' of
        Some body \<Rightarrow>
          do {
            (ret, v) \<leftarrow> parse_cjson junk body v;
            case ret of None \<Rightarrow> Some (None, v)
            | Some vb \<Rightarrow>
                (let (vb, v) = set_username user vb v;
                     (vb, v) = set_password password vb v
                 in Some (Some vb, v))
          }
      | None \<Rightarrow> parse_body junk c user password v)"
  by pat_completeness auto
termination
  by (relation "measure (\<lambda>(junk, c, v). size c)") (auto dest: GetObjectItem_size)

declare parse_cjson.simps [simp del]

text \<open>\<open>json\<close> is \<^verbatim>\<open>cJSON_Parse\<close>.\<close>

definition vbucket_config_parse_string ::
    "(string \<Rightarrow> cJSON option) \<Rightarrow> int list list \<Rightarrow> string \<Rightarrow> vb_env \<Rightarrow> (vbucket_config option \<times> vb_env) option" where
  "vbucket_config_parse_string json junk data v =
     (let c = json data; v = set_err ''Failed to parse data'' v in
      case c of None \<Rightarrow> Some (None, v) | Some c \<Rightarrow> parse_cjson junk c v)"

text \<open>A file is its size as \<^verbatim>\<open>ftell\<close> gives it and the bytes that \<^verbatim>\<open>fread\<close> delivers.\<close>

definition vbucket_config_parse_file ::
    "(string \<Rightarrow> cJSON option) \<Rightarrow> int list list \<Rightarrow> (string \<Rightarrow> (int \<times> string) option) \<Rightarrow> string \<Rightarrow> vb_env
     \<Rightarrow> (vbucket_config option \<times> vb_env) option" where
  "vbucket_config_parse_file json junk files filename v =
     (case files filename of
        None \<Rightarrow> Some (None, set_err ''Unable to open file'' v)
      | Some (sz, contents) \<Rightarrow>
          if sz > MAX_CONFIG_SIZE then Some (None, set_err ''File too large'' v)
          else
            (let (ok, v) = vb_alloc v in
             if \<not> ok then Some (None, set_err ''Unable to allocate buffer to read file'' v)
             else if int (length contents) \<noteq> sz then Some (None, set_err ''Failed to read entire file'' v)
             else vbucket_config_parse_string json junk contents v))"

section \<open>Using a configuration\<close>

definition vbucket_config_get_num_replicas :: "vbucket_config \<Rightarrow> int" where
  "vbucket_config_get_num_replicas vb = num_replicas vb"

definition vbucket_config_get_num_vbuckets :: "vbucket_config \<Rightarrow> int" where
  "vbucket_config_get_num_vbuckets vb = num_vbuckets vb"

definition vbucket_config_get_num_servers :: "vbucket_config \<Rightarrow> int" where
  "vbucket_config_get_num_servers vb = num_servers vb"

definition vbucket_config_get_server :: "vbucket_config \<Rightarrow> nat \<Rightarrow> string option option" where
  "vbucket_config_get_server vb i = arr_get (vb_servers vb) i"

definition vbucket_config_get_user :: "vbucket_config \<Rightarrow> string option" where
  "vbucket_config_get_user vb = vb_user vb"

definition vbucket_config_get_password :: "vbucket_config \<Rightarrow> string option" where
  "vbucket_config_get_password vb = vb_password vb"

text \<open>\<open>digest\<close> is \<^verbatim>\<open>libhashkit_digest\<close>.\<close>

definition vbucket_get_vbucket_by_key :: "(nat \<Rightarrow> key \<Rightarrow> u32) \<Rightarrow> vbucket_config \<Rightarrow> key \<Rightarrow> int" where
  "vbucket_get_vbucket_by_key digest vb k = sint (digest (hk_algorithm vb) k AND vb_mask vb)"

definition vbucket_get_master :: "vbucket_config \<Rightarrow> nat \<Rightarrow> int option" where
  "vbucket_get_master vb vbucket = do { row \<leftarrow> arr_get (vbuckets vb) vbucket; arr_get row 0 }"

definition vbucket_get_replica :: "vbucket_config \<Rightarrow> nat \<Rightarrow> nat \<Rightarrow> int option" where
  "vbucket_get_replica vb vbucket i = do { row \<leftarrow> arr_get (vbuckets vb) vbucket; arr_get row (i + 1) }"

fun copy_replicas :: "nat list \<Rightarrow> int list \<Rightarrow> int list \<Rightarrow> int list option" where
  "copy_replicas [] from to = Some to"
| "copy_replicas (i # is) from to =
     do {
       x \<leftarrow> arr_get from (i + 1);
       to \<leftarrow> arr_set to (i + 1) x;
       copy_replicas is from to
     }"

definition vbucket_found_incorrect_master :: "vbucket_config \<Rightarrow> nat \<Rightarrow> int \<Rightarrow> (int \<times> vbucket_config) option" where
  "vbucket_found_incorrect_master vb vbucket wrongserver =
     do {
       row \<leftarrow> arr_get (vbuckets vb) vbucket;
       mappedServer \<leftarrow> arr_get row 0;
       case fvbuckets vb of
         Some f \<Rightarrow>
           do {
             frow \<leftarrow> arr_get f vbucket;
             rv \<leftarrow> arr_get frow 0;
             row \<leftarrow> arr_set row 0 rv;
             row \<leftarrow> copy_replicas [0..<nat (num_replicas vb)] frow row;
             Some (rv, vb\<lparr>vbuckets := (vbuckets vb)[vbucket := row]\<rparr>)
           }
       | None \<Rightarrow>
           if mappedServer = wrongserver then
             do {
               guard (num_servers vb \<noteq> 0);
               let rv = (mappedServer + 1) mod num_servers vb;
               row \<leftarrow> arr_set row 0 rv;
               Some (rv, vb\<lparr>vbuckets := (vbuckets vb)[vbucket := row]\<rparr>)
             }
           else Some (mappedServer, vb)
     }"

section \<open>Comparing configurations\<close>

record vbucket_config_diff =
  servers_added :: "string list"
  servers_removed :: "string list"
  n_vb_changes :: int
  sequence_changed :: bool

fun get_servers :: "nat list \<Rightarrow> vbucket_config \<Rightarrow> string list option" where
  "get_servers [] vb = Some []"
| "get_servers (i # is) vb =
     do {
       s \<leftarrow> vbucket_config_get_server vb i;
       s \<leftarrow> s;
       ss \<leftarrow> get_servers is vb;
       Some (s # ss)
     }"

definition all_servers :: "vbucket_config \<Rightarrow> string list option" where
  "all_servers vb = get_servers [0..<nat (num_servers vb)] vb"

text \<open>The servers of \<open>to\<close> that are not among those of \<open>from\<close>, in order.\<close>

definition compute_vb_list_diff :: "vbucket_config \<Rightarrow> vbucket_config \<Rightarrow> string list option" where
  "compute_vb_list_diff from to =
     do {
       fs \<leftarrow> all_servers from;
       ts \<leftarrow> all_servers to;
       Some (filter (\<lambda>sn. \<not> (\<exists>sn2 \<in> set fs. sn2 = sn)) ts)
     }"

fun count_changes :: "nat list \<Rightarrow> vbucket_config \<Rightarrow> vbucket_config \<Rightarrow> int option" where
  "count_changes [] from to = Some 0"
| "count_changes (i # is) from to =
     do {
       a \<leftarrow> vbucket_get_master from i;
       b \<leftarrow> vbucket_get_master to i;
       n \<leftarrow> count_changes is from to;
       Some ((if a = b then 0 else 1) + n)
     }"

text \<open>Two optional texts differ: both present and different, or only one present.\<close>

definition vbucket_compare :: "vbucket_config \<Rightarrow> vbucket_config \<Rightarrow> vbucket_config_diff option" where
  "vbucket_compare from to =
     do {
       added \<leftarrow> compute_vb_list_diff from to;
       removed \<leftarrow> compute_vb_list_diff to from;
       fs \<leftarrow> all_servers from;
       ts \<leftarrow> all_servers to;
       let seq = (if num_servers to = num_servers from then fs \<noteq> ts else True);
       let seq = seq \<or> vb_user from \<noteq> vb_user to;
       let seq = seq \<or> vb_password from \<noteq> vb_password to;
       n \<leftarrow> (if num_vbuckets to = num_vbuckets from then count_changes [0..<nat (num_vbuckets to)] from to
             else Some (-1));
       Some \<lparr>servers_added = added, servers_removed = removed, n_vb_changes = n, sequence_changed = seq\<rparr>
     }"

end
