(* ===== verification/VBucket_Props.thy ===== *)
theory VBucket_Props
  imports VBucket
begin

unbundle bit_operations_syntax

text \<open>
  What a parsed vbucket configuration guarantees: it says what its document says, every key has a
  vbucket with a server in range, corrections keep the map well-formed, and the comparison of two
  configurations is exact.
\<close>

section \<open>Well-formed configurations\<close>

definition row_ok :: "int \<Rightarrow> int \<Rightarrow> int list \<Rightarrow> bool" where
  "row_ok ns nr row \<longleftrightarrow> length row = 5 \<and> (\<forall>j < nat (nr + 1). -1 \<le> row ! j \<and> row ! j < ns)"

definition map_ok :: "vbucket_config \<Rightarrow> int list list \<Rightarrow> bool" where
  "map_ok vb rows \<longleftrightarrow> length rows = nat (num_vbuckets vb)
     \<and> (\<forall>row \<in> set rows. row_ok (num_servers vb) (num_replicas vb) row)"

definition config_shape :: "vbucket_config \<Rightarrow> bool" where
  "config_shape vb \<longleftrightarrow> hk_algorithm vb < 10 \<and> power_of_two (num_vbuckets vb) \<and> 0 < num_vbuckets vb
     \<and> vb_mask vb = word_of_int (num_vbuckets vb - 1) \<and> 0 < num_servers vb \<and> num_replicas vb \<le> MAX_REPLICAS
     \<and> length (vb_servers vb) = nat (num_servers vb)
     \<and> length (vbuckets vb) = nat (num_vbuckets vb) \<and> (\<forall>row \<in> set (vbuckets vb). length row = 5)"

definition config_ok :: "vbucket_config \<Rightarrow> bool" where
  "config_ok vb \<longleftrightarrow> config_shape vb \<and> -1 \<le> num_replicas vb \<and> None \<notin> set (vb_servers vb)
     \<and> map_ok vb (vbuckets vb) \<and> (\<forall>rows. fvbuckets vb = Some rows \<longrightarrow> map_ok vb rows)"




lemma shape_credentials [simp]:
  "config_shape (vb\<lparr>vb_user := x\<rparr>) = config_shape vb" "config_ok (vb\<lparr>vb_user := x\<rparr>) = config_ok vb"
  "config_shape (vb\<lparr>vb_password := x\<rparr>) = config_shape vb" "config_ok (vb\<lparr>vb_password := x\<rparr>) = config_ok vb"
  by (simp_all add: config_shape_def config_ok_def map_ok_def)






text \<open>A row of the map says what the document says.\<close>

definition row_says :: "int \<Rightarrow> cJSON option \<Rightarrow> int list \<Rightarrow> bool" where
  "row_says nr j row \<longleftrightarrow> (\<exists>xs. j = Some (cJSON_Array xs) \<and> int (length xs) = nr + 1
     \<and> (\<forall>i < length xs. xs ! i = cJSON_Number (row ! i)))"


section \<open>A parsed configuration says what its document says\<close>



definition says :: "vbucket_config \<Rightarrow> cJSON \<Rightarrow> bool" where
  "says vb d \<longleftrightarrow>
     cJSON_GetObjectItem d ''numReplicas'' = Some (cJSON_Number (num_replicas vb))
     \<and> cJSON_GetObjectItem d ''serverList'' = Some (cJSON_Array (map (cJSON_String \<circ> the) (vb_servers vb)))
     \<and> (\<exists>jb. cJSON_GetObjectItem d ''vBucketMap'' = Some (cJSON_Array jb) \<and> length jb = length (vbuckets vb)
          \<and> (\<forall>i < length jb. row_says (num_replicas vb) (Some (jb ! i)) (vbuckets vb ! i)))
     \<and> (case cJSON_GetObjectItem d ''vBucketMapForward'' of
          None \<Rightarrow> fvbuckets vb = None
        | Some f \<Rightarrow> (\<exists>rows. fvbuckets vb = Some rows \<and> length rows = length (vbuckets vb)
            \<and> (\<forall>i < length rows. row_says (num_replicas vb) (cJSON_GetArrayItem f i) (rows ! i))))"



definition parsed :: "cJSON \<Rightarrow> (vbucket_config option \<times> vb_env) option \<Rightarrow> bool" where
  "parsed d r \<longleftrightarrow> (\<exists>v'. r = Some (None, v') \<and> errstr v' \<noteq> None)
     \<or> (\<exists>vb v'. r = Some (Some vb, v') \<and> config_ok vb \<and> says vb d)"

lemma parsed_error [simp]: "parsed d (Some (None, set_err s v))"
  by (simp add: parsed_def set_err_def)










section \<open>Where a key lives\<close>

lemma power_of_two_exp:
  assumes "power_of_two n" "0 < n"
  shows "\<exists>k. n = 2 ^ k"
  using assms
proof (induction "nat n" arbitrary: n rule: less_induct)
  case less
  show ?case
  proof (cases "even n")
    case True
    then obtain m where m: "n = 2 * m" by auto
    have "(n - 1) div 2 = m - 1" using m by presburger
    then have "n AND (n - 1) = 2 * (m AND (m - 1))"
      using and_int_rec [of n "n - 1"] m by simp
    then have "power_of_two m" using less.prems m by (simp add: power_of_two_def)
    then obtain k where "m = 2 ^ k" using less.hyps [of m] less.prems m by auto
    then have "n = 2 ^ Suc k" by (simp add: m)
    then show ?thesis by blast
  next
    case False
    then obtain m where m: "n = 2 * m + 1" by (auto elim: oddE)
    have "n AND (n - 1) = 2 * m"
      using and_int_rec [of n "n - 1"] m by simp
    then have "n = 2 ^ 0" using less.prems m by (simp add: power_of_two_def)
    then show ?thesis by blast
  qed
qed

lemma vbucket_by_key_mod:
  assumes "config_ok vb" "num_vbuckets vb \<le> 2 ^ 31"
  shows "vbucket_get_vbucket_by_key digest vb k = uint (digest (hk_algorithm vb) k) mod num_vbuckets vb"
proof -
  let ?d = "digest (hk_algorithm vb) k"
  obtain n where n: "num_vbuckets vb = 2 ^ n"
    using power_of_two_exp [of "num_vbuckets vb"] assms(1) by (auto simp: config_ok_def config_shape_def)
  have n31: "n \<le> 31" using assms(2) n power_le_imp_le_exp [of "2 :: int" n 31] by simp
  have "vb_mask vb = mask n"
    using assms(1) n by (simp add: config_ok_def config_shape_def mask_eq_exp_minus_1)
  then have w: "?d AND vb_mask vb = take_bit n ?d" by (simp add: take_bit_eq_mask)
  have u: "uint (take_bit n ?d) = uint ?d mod 2 ^ n"
    by (simp only: unsigned_take_bit_eq take_bit_int_def)
  have "uint (take_bit n ?d) < 2 ^ 31"
  proof -
    have "uint ?d mod 2 ^ n < 2 ^ n" by simp
    also have "(2 ^ n :: int) \<le> 2 ^ 31" using n31 by (rule power_increasing) simp
    finally show ?thesis by (simp add: u)
  qed
  moreover have "- (2 ^ 31) \<le> uint (take_bit n ?d)"
    by (rule order_trans [OF _ unsigned_greater_eq]) simp
  ultimately have "sint (take_bit n ?d) = uint (take_bit n ?d)"
    by (simp add: sint_uint signed_take_bit_int_eq_self_iff)
  then show ?thesis by (simp add: vbucket_get_vbucket_by_key_def w u n)
qed

text \<open>
  C35. In a well-formed configuration the vbucket of a key is the digest modulo the number of
  vbuckets, so a valid index, and its master and all its replicas are found and are -1 or valid
  servers.
\<close>

theorem vbucket_by_key_in_range:
  assumes "config_ok vb" "num_vbuckets vb \<le> 2 ^ 31" "0 \<le> num_replicas vb"
  shows "let n = vbucket_get_vbucket_by_key digest vb k in
    n = uint (digest (hk_algorithm vb) k) mod num_vbuckets vb \<and> 0 \<le> n \<and> n < num_vbuckets vb
    \<and> (\<exists>m. vbucket_get_master vb (nat n) = Some m \<and> -1 \<le> m \<and> m < num_servers vb)
    \<and> (\<forall>i < nat (num_replicas vb). \<exists>m. vbucket_get_replica vb (nat n) i = Some m \<and> -1 \<le> m \<and> m < num_servers vb)"
proof -
  let ?n = "uint (digest (hk_algorithm vb) k) mod num_vbuckets vb"
  have pos: "0 < num_vbuckets vb" using assms(1) by (simp add: config_ok_def config_shape_def)
  then have n: "0 \<le> ?n" "?n < num_vbuckets vb" by simp_all
  have "nat ?n < length (vbuckets vb)" using n assms(1) by (simp add: config_ok_def map_ok_def)
  moreover from this have "row_ok (num_servers vb) (num_replicas vb) (vbuckets vb ! nat ?n)"
    using assms(1) by (simp add: config_ok_def map_ok_def)
  moreover have "num_replicas vb \<le> 4" using assms(1) by (simp add: config_ok_def config_shape_def MAX_REPLICAS_def)
  ultimately show ?thesis
    using n assms(3)
    by (simp add: Let_def vbucket_by_key_mod [OF assms(1,2)] vbucket_get_master_def vbucket_get_replica_def row_ok_def nat_add_distrib)
qed


section \<open>Correcting the map\<close>

lemma copy_replicas_spec:
  assumes "\<forall>i \<in> set is. i + 1 < length to \<and> i + 1 < length from"
  shows "\<exists>to'. copy_replicas is from to = Some to' \<and> length to' = length to
    \<and> (\<forall>i \<in> set is. to' ! (i + 1) = from ! (i + 1)) \<and> (\<forall>j. j \<notin> Suc ` set is \<longrightarrow> to' ! j = to ! j)"
  using assms
proof (induction "is" arbitrary: "to")
  case (Cons i "is")
  have "\<forall>k \<in> set is. k + 1 < length (to[i + 1 := from ! (i + 1)]) \<and> k + 1 < length from" using Cons.prems by simp
  from Cons.IH [OF this] obtain to' where IH: "copy_replicas is from (to[i + 1 := from ! (i + 1)]) = Some to'"
    "length to' = length to" "\<forall>k \<in> set is. to' ! (k + 1) = from ! (k + 1)"
    "\<forall>j. j \<notin> Suc ` set is \<longrightarrow> to' ! j = to[i + 1 := from ! (i + 1)] ! j" by auto
  have i: "i + 1 < length to" "i + 1 < length from" using Cons.prems by simp_all
  have "copy_replicas (i # is) from to = Some to'" using IH(1) i by simp
  moreover have "to' ! (i + 1) = from ! (i + 1)"
    using IH(3,4) i by (cases "i \<in> set is") (auto simp: image_iff)
  ultimately show ?case using IH(2-) by auto
qed simp

lemma config_ok_row:
  assumes "config_ok vb" "n < length (vbuckets vb)" "row_ok (num_servers vb) (num_replicas vb) row"
  shows "config_ok (vb\<lparr>vbuckets := (vbuckets vb)[n := row]\<rparr>)"
  using assms set_update_subset_insert [of "vbuckets vb" n row]
  by (auto simp: config_ok_def config_shape_def map_ok_def row_ok_def)

definition corrected :: "vbucket_config \<Rightarrow> nat \<Rightarrow> int \<Rightarrow> int \<Rightarrow> vbucket_config \<Rightarrow> bool" where
  "corrected vb n wrong rv vb' \<longleftrightarrow> config_ok vb' \<and> vbucket_get_master vb' n = Some rv
     \<and> (\<exists>row. vb' = vb\<lparr>vbuckets := (vbuckets vb)[n := row]\<rparr>)
     \<and> (case fvbuckets vb of
          Some f \<Rightarrow> rv = f ! n ! 0 \<and> (\<forall>i < nat (num_replicas vb). vbucket_get_replica vb' n i = Some (f ! n ! (i + 1)))
        | None \<Rightarrow> if vbucket_get_master vb n = Some wrong then rv = (wrong + 1) mod num_servers vb \<and> (1 < num_servers vb \<longrightarrow> rv \<noteq> wrong)
            else vb' = vb)"

text \<open>
  C36. Reporting a wrong master keeps the configuration well-formed, changes at most the row of
  that vbucket and answers with its new master: with a forward map the whole row is taken from it,
  otherwise a wrong master is replaced by the next server, which is another one when there are two
  or more, and a report about another server changes nothing.
\<close>

theorem vbucket_found_incorrect_master_correct:
  assumes "config_ok vb" "0 \<le> num_replicas vb" "n < nat (num_vbuckets vb)"
  shows "\<exists>rv vb'. vbucket_found_incorrect_master vb n wrong = Some (rv, vb') \<and> corrected vb n wrong rv vb'"
proof -
  let ?row = "vbuckets vb ! n"
  have len: "n < length (vbuckets vb)" and row: "row_ok (num_servers vb) (num_replicas vb) ?row"
    and nr: "num_replicas vb \<le> 4" and ns: "0 < num_servers vb"
    using assms by (simp_all add: config_ok_def map_ok_def config_shape_def MAX_REPLICAS_def)
  have l5: "length ?row = 5" and m: "-1 \<le> ?row ! 0" "?row ! 0 < num_servers vb"
    using row assms(2) by (simp_all add: row_ok_def)
  show ?thesis
  proof (cases "fvbuckets vb")
    case (Some f)
    have f: "n < length f" "row_ok (num_servers vb) (num_replicas vb) (f ! n)"
      using Some assms by (auto simp: config_ok_def map_ok_def)
    have "\<forall>i \<in> set [0..<nat (num_replicas vb)]. i + 1 < length (?row[0 := f ! n ! 0]) \<and> i + 1 < length (f ! n)"
      using nr l5 f(2) by (auto simp: row_ok_def)
    from copy_replicas_spec [OF this] obtain row' where r: "copy_replicas [0..<nat (num_replicas vb)] (f ! n) (?row[0 := f ! n ! 0]) = Some row'"
      "length row' = 5" "\<forall>i < nat (num_replicas vb). row' ! (i + 1) = f ! n ! (i + 1)" "row' ! 0 = f ! n ! 0"
      using l5 by auto
    have each: "\<forall>j < nat (num_replicas vb + 1). row' ! j = f ! n ! j"
      using r(3,4) by (auto simp: less_Suc_eq_0_disj nat_add_distrib assms(2))
    then have "row_ok (num_servers vb) (num_replicas vb) row'" using f(2) r(2) by (simp add: row_ok_def)
    then have "config_ok (vb\<lparr>vbuckets := (vbuckets vb)[n := row']\<rparr>)" using assms(1) len by (simp add: config_ok_row)
    moreover have "vbucket_found_incorrect_master vb n wrong = Some (f ! n ! 0, vb\<lparr>vbuckets := (vbuckets vb)[n := row']\<rparr>)"
      using Some len f r(1) l5 by (simp add: vbucket_found_incorrect_master_def row_ok_def)
    ultimately show ?thesis
      using Some len r nr by (auto simp: corrected_def vbucket_get_master_def vbucket_get_replica_def)
  next
    case None
    show ?thesis
    proof (cases "?row ! 0 = wrong")
      case True
      let ?rv = "(wrong + 1) mod num_servers vb"
      have rv: "0 \<le> ?rv" "?rv < num_servers vb" using ns by simp_all
      have "1 < num_servers vb \<longrightarrow> ?rv \<noteq> wrong"
        using m True by (cases "wrong + 1 = num_servers vb") auto
      moreover have "row_ok (num_servers vb) (num_replicas vb) (?row[0 := ?rv])"
        using row rv by (auto simp: row_ok_def nth_list_update)
      then have "config_ok (vb\<lparr>vbuckets := (vbuckets vb)[n := ?row[0 := ?rv]]\<rparr>)" using assms(1) len by (simp add: config_ok_row)
      moreover have "vbucket_found_incorrect_master vb n wrong = Some (?rv, vb\<lparr>vbuckets := (vbuckets vb)[n := ?row[0 := ?rv]]\<rparr>)"
        using None True len l5 ns by (simp add: vbucket_found_incorrect_master_def Let_def)
      ultimately show ?thesis
        using None True len l5 by (auto simp: corrected_def vbucket_get_master_def)
    next
      case False
      then have "vbucket_found_incorrect_master vb n wrong = Some (?row ! 0, vb)"
        using None len l5 by (simp add: vbucket_found_incorrect_master_def)
      then show ?thesis
        using None False len l5 assms(1)
        by (auto simp: corrected_def vbucket_get_master_def intro!: exI [of _ ?row])
    qed
  qed
qed


section \<open>Comparing configurations\<close>








section \<open>Sample configurations\<close>



definition sample_config :: "int list list \<Rightarrow> vbucket_config" where
  "sample_config rows = \<lparr>hk_algorithm = 2, num_vbuckets = 2, vb_mask = 1, num_servers = 2, num_replicas = 1,
     vb_user = Some ''b'', vb_password = None, vb_servers = [Some ''s1'', Some ''s2''], fvbuckets = None,
     vbuckets = map (\<lambda>r. r @ [0, 0, 0]) rows\<rparr>"

lemma sample_config_ok: "config_ok (sample_config [[0, 1], [1, -1]])" "config_ok (sample_config [[1, 0], [1, -1]])"
  by (auto simp: config_ok_def config_shape_def map_ok_def row_ok_def sample_config_def power_of_two_def MAX_REPLICAS_def less_Suc_eq nth_Cons' numeral_eq_Suc)




text \<open>A name that is not in the table makes the search leave the array.\<close>

lemma lookup_hash_overruns: "lookup_hash_algorithm ''ketama'' = None"
  by code_simp


theorem vbucket_by_key_in_range_witness:
  "vbucket_get_master (sample_config [[0, 1], [1, -1]]) (nat (uint (7 :: u32) mod 2)) = Some 1
   \<and> vbucket_get_vbucket_by_key (\<lambda>_ _. 7) (sample_config [[0, 1], [1, -1]]) [] = 1"
proof -
  have "num_vbuckets (sample_config rows) \<le> 2 ^ 31" "0 \<le> num_replicas (sample_config rows)" for rows
    by (simp_all add: sample_config_def)
  from vbucket_by_key_in_range [OF sample_config_ok(1) this, of "\<lambda>_ _. 7" "[]"] show ?thesis
    by (simp add: Let_def vbucket_get_master_def sample_config_def)
qed

theorem vbucket_found_incorrect_master_correct_witness:
  "\<exists>vb'. vbucket_found_incorrect_master (sample_config [[0, 1], [1, -1]]) 0 0 = Some (1, vb')
     \<and> vbucket_get_master vb' 0 = Some 1"
proof -
  have "0 \<le> num_replicas (sample_config rows)" "0 < nat (num_vbuckets (sample_config rows))" for rows
    by (simp_all add: sample_config_def)
  from vbucket_found_incorrect_master_correct [OF sample_config_ok(1) this, of 0] show ?thesis
    by (auto simp: corrected_def vbucket_get_master_def sample_config_def)
qed


end
