(* ===== verification/Config_Parser.thy ===== *)
theory Config_Parser
  imports Util
begin

unbundle bit_operations_syntax

text \<open>
  The parser of configuration strings, \<^verbatim>\<open>memcached/utilities/config_parser.c\<close>. A C string is the list of
  its bytes; a pointer into it is the list of the bytes from there on, and a pointer behind the
  terminating zero is \<open>None\<close>: reading through it is an access out of bounds. Messages are left out.
\<close>

section \<open>The data\<close>

datatype config_datatype = DT_SIZE | DT_FLOAT | DT_BOOL | DT_STRING | DT_CONFIGFILE

text \<open>The variable an entry points to, with its value.\<close>

datatype config_value = VSize u64 | VFloat rat | VBool bool | VString "byte list option" | VNone

record config_item =
  ci_key :: "byte list"
  ci_datatype :: config_datatype
  ci_value :: config_value
  ci_found :: bool

section \<open>Copying a word\<close>

text \<open>The byte at a position; the one behind the last is the terminating zero.\<close>

definition c_at :: "byte list \<Rightarrow> nat \<Rightarrow> byte option" where
  "c_at s i = (if i < length s then Some (s ! i) else if i = length s then Some 0 else None)"

text \<open>
  The position of \<^verbatim>\<open>lastchar\<close>: the last character that is not white space (the first character if
  all are), one further when that is a backslash or when there is no character at all.
\<close>

fun last_nonspace :: "byte list \<Rightarrow> nat \<Rightarrow> nat" where
  "last_nonspace s 0 = 0"
| "last_nonspace s (Suc i) = (if isspace (s ! Suc i) then last_nonspace s i else Suc i)"

definition last_char :: "byte list \<Rightarrow> nat" where
  "last_char s =
     (if s = [] then 0
      else (let i = last_nonspace s (length s - 1) in if s ! i = 92 then i + 1 else i))"

text \<open>
  The loop. \<open>dest\<close> is what has been copied, \<open>i\<close> the position in the source; the end of the loop gives
  the position and whether the buffer is full.
\<close>

function trim_loop :: "nat \<Rightarrow> byte \<Rightarrow> byte list \<Rightarrow> nat \<Rightarrow> byte list \<Rightarrow> nat \<Rightarrow> nat \<Rightarrow> (byte list \<times> nat \<times> bool) option" where
  "trim_loop sz stop s lastc dest i n =
     do {
       c \<leftarrow> c_at s i;
       let escape = (c = 92);
       let dest = (if escape then dest else dest @ [c]);
       if n + 1 = sz then Some (dest, i + 1, True)
       else if i + 1 > lastc then Some (dest, i + 1, False)
       else do {
         d \<leftarrow> c_at s (i + 1);
         if (d = stop \<and> \<not> escape) \<or> d = 0 then Some (dest, i + 1, False)
         else trim_loop sz stop s lastc dest (i + 1) (n + 1)
       }
     }"
  by pat_completeness auto
termination
  by (relation "measure (\<lambda>(sz, stop, s, lastc, dest, i, n). Suc (length s) - i)")
     (auto simp: c_at_def split: if_splits)

declare trim_loop.simps [simp del]

text \<open>
  The result: whether it succeeded, the copied string, and where the copying ended. When the
  buffer is full its last byte is overwritten by the terminating zero.
\<close>

definition from_pos :: "byte list \<Rightarrow> nat \<Rightarrow> byte list option" where
  "from_pos s i = (if i \<le> length s then Some (drop i s) else None)"

definition trim_copy :: "nat \<Rightarrow> byte list \<Rightarrow> byte \<Rightarrow> (bool \<times> byte list \<times> byte list option) option" where
  "trim_copy sz src stop =
     do {
       let s = dropWhile isspace src;
       (dest, i, full) \<leftarrow> trim_loop sz stop s (last_char s) [] 0 0;
       if full then
         do { guard (dest \<noteq> []); Some (False, c_string (butlast dest), from_pos s i) }
       else Some (True, c_string dest, from_pos s i)
     }"

section \<open>Values\<close>

definition toupper_byte :: "byte \<Rightarrow> byte" where
  "toupper_byte c = (if 97 \<le> c \<and> c \<le> 122 then c - 32 else c)"

definition tolower_byte :: "byte \<Rightarrow> byte" where
  "tolower_byte c = (if 65 \<le> c \<and> c \<le> 90 then c + 32 else c)"

text \<open>The part of a string in front of the first occurrence of a character, if it occurs.\<close>

definition cut_at :: "byte \<Rightarrow> byte list \<Rightarrow> byte list option" where
  "cut_at c s = (if c \<in> set s then Some (takeWhile (\<lambda>b. b \<noteq> c) s) else None)"

text \<open>
  The suffixes k, m, g and t. \<^verbatim>\<open>m\<close> is an \<^verbatim>\<open>int\<close>: its fourth power of 1024 does not fit (in C this is
  undefined; here it wraps around to 0, as the compiled code does).
\<close>

fun size_suffix :: "byte list \<Rightarrow> u32 \<Rightarrow> byte list \<Rightarrow> u32 \<times> byte list" where
  "size_suffix [] m val = (1, val)"
| "size_suffix (p # ps) m val =
     (let m = m * 1024 in
      case cut_at p val of
        Some v \<Rightarrow> (m, v)
      | None \<Rightarrow> (case cut_at (toupper_byte p) val of Some v \<Rightarrow> (m, v) | None \<Rightarrow> size_suffix ps m val))"

definition parse_size :: "byte list \<Rightarrow> u64 option" where
  "parse_size val =
     (let (multiplier, v) = size_suffix [107, 109, 103, 116] 1 val;
          (ok, n) = safe_strtoull v
      in if ok then Some (n * scast multiplier) else None)"

definition same_word :: "byte list \<Rightarrow> byte list \<Rightarrow> bool" where
  "same_word a b = (map tolower_byte a = map tolower_byte b)"

definition word_true :: "byte list" where "word_true = [116, 114, 117, 101]"
definition word_on :: "byte list" where "word_on = [111, 110]"
definition word_false :: "byte list" where "word_false = [102, 97, 108, 115, 101]"
definition word_off :: "byte list" where "word_off = [111, 102, 102]"

definition parse_bool :: "byte list \<Rightarrow> bool option" where
  "parse_bool val =
     (if same_word val word_true \<or> same_word val word_on then Some True
      else if same_word val word_false \<or> same_word val word_off then Some False
      else None)"

section \<open>Parsing\<close>

text \<open>
  One entry. \<open>strtof\<close> is \<^verbatim>\<open>safe_strtof\<close>, \<open>file\<close> reads a nested configuration file. The result is the
  return value so far and the entries.
\<close>

definition apply_item ::
    "(byte list \<Rightarrow> rat option) \<Rightarrow> (byte list \<Rightarrow> config_item list \<Rightarrow> (int \<times> config_item list) option)
     \<Rightarrow> config_item list \<Rightarrow> nat \<Rightarrow> byte list \<Rightarrow> int \<Rightarrow> (int \<times> config_item list) option" where
  "apply_item strtof file items ii val ret =
     (let put = (\<lambda>v. items[ii := (items ! ii)\<lparr>ci_value := v, ci_found := True\<rparr>]) in
      case ci_datatype (items ! ii) of
        DT_SIZE \<Rightarrow> Some (case parse_size val of Some n \<Rightarrow> (ret, put (VSize n)) | None \<Rightarrow> (-1, items))
      | DT_FLOAT \<Rightarrow> Some (case strtof val of Some x \<Rightarrow> (ret, put (VFloat x)) | None \<Rightarrow> (-1, items))
      | DT_STRING \<Rightarrow> Some (ret, put (VString (Some val)))
      | DT_BOOL \<Rightarrow> Some (case parse_bool val of Some b \<Rightarrow> (ret, put (VBool b)) | None \<Rightarrow> (-1, items))
      | DT_CONFIGFILE \<Rightarrow>
          do {
            (r, items) \<leftarrow> file val items;
            Some (if r \<noteq> 0 then r else ret, items)
          })"

fun find_key_index :: "byte list \<Rightarrow> config_item list \<Rightarrow> nat \<Rightarrow> nat option" where
  "find_key_index key [] ii = None"
| "find_key_index key (it # its) ii = (if key = ci_key it then Some ii else find_key_index key its (ii + 1))"

partial_function (option) parse_config_loop ::
    "(byte list \<Rightarrow> rat option) \<Rightarrow> (byte list \<Rightarrow> config_item list \<Rightarrow> (int \<times> config_item list) option)
     \<Rightarrow> byte list \<Rightarrow> config_item list \<Rightarrow> int \<Rightarrow> (int \<times> config_item list) option" where
  "parse_config_loop strtof file p items ret =
     (if p = [] then Some (ret, items)
      else
        (let p = dropWhile isspace p in
         if p = [] then Some (0, items)
         else do {
           (ok, key, e) \<leftarrow> trim_copy 80 p 61;
           if \<not> ok then Some (-1, items)
           else do {
             e \<leftarrow> e;
             guard (e \<noteq> []);
             (ok, val, e) \<leftarrow> trim_copy 1024 (tl e) 59;
             if \<not> ok then Some (-1, items)
             else do {
               e \<leftarrow> e;
               let p = (if e \<noteq> [] \<and> hd e = 59 then tl e else e);
               case find_key_index key items 0 of
                 Some ii \<Rightarrow>
                   do {
                     (ret, items) \<leftarrow> apply_item strtof file items ii val ret;
                     if ret = -1 then Some (-1, items) else parse_config_loop strtof file p items ret
                   }
               | None \<Rightarrow> parse_config_loop strtof file p items 1
             }
           }
         }))"

text \<open>The lines of a file, as \<^verbatim>\<open>fgets\<close> cuts it; a line that starts with \<^verbatim>\<open>#\<close> is skipped.\<close>

fun read_lines ::
    "(byte list \<Rightarrow> config_item list \<Rightarrow> (int \<times> config_item list) option)
     \<Rightarrow> byte list list \<Rightarrow> config_item list \<Rightarrow> int \<Rightarrow> (int \<times> config_item list) option" where
  "read_lines parse [] items ret = Some (ret, items)"
| "read_lines parse (l # ls) items ret =
     (if ret = -1 then Some (ret, items)
      else if l \<noteq> [] \<and> hd l = 35 then read_lines parse ls items ret
      else do {
        (r, items) \<leftarrow> parse l items;
        read_lines parse ls items (if r \<noteq> 0 then r else ret)
      })"

text \<open>
  Files can name files: \<open>depth\<close> bounds the nesting. \<open>files\<close> gives the lines of a file that can be
  opened.
\<close>

fun parse_config ::
    "nat \<Rightarrow> (byte list \<Rightarrow> rat option) \<Rightarrow> (byte list \<Rightarrow> byte list list option) \<Rightarrow> byte list \<Rightarrow> config_item list
     \<Rightarrow> (int \<times> config_item list) option"
  and read_config_file ::
    "nat \<Rightarrow> (byte list \<Rightarrow> rat option) \<Rightarrow> (byte list \<Rightarrow> byte list list option) \<Rightarrow> byte list \<Rightarrow> config_item list
     \<Rightarrow> (int \<times> config_item list) option" where
  "parse_config 0 strtof files cfg items = None"
| "parse_config (Suc depth) strtof files cfg items =
     parse_config_loop strtof (read_config_file depth strtof files) cfg items 0"
| "read_config_file 0 strtof files fname items = None"
| "read_config_file (Suc depth) strtof files fname items =
     (case files fname of
        None \<Rightarrow> Some (-1, items)
      | Some ls \<Rightarrow> read_lines (parse_config depth strtof files) ls items 0)"

section \<open>Copying a plain word\<close>

definition plain :: "byte list \<Rightarrow> bool" where
  "plain w \<longleftrightarrow> w \<noteq> [] \<and> (\<forall>c \<in> set w. \<not> isspace c \<and> c \<noteq> 0 \<and> c \<noteq> 61 \<and> c \<noteq> 59 \<and> c \<noteq> 92)"

lemma last_nonspace_ge: "j \<le> i \<Longrightarrow> \<not> isspace (s ! j) \<Longrightarrow> j \<le> last_nonspace s i"
  by (induction s i rule: last_nonspace.induct) (auto simp: le_Suc_eq)

lemma last_char_ge: "j < length s \<Longrightarrow> \<not> isspace (s ! j) \<Longrightarrow> j \<le> last_char s"
  using last_nonspace_ge [of j "length s - 1" s] by (force simp: last_char_def Let_def intro: le_SucI)

lemma trim_loop_plain:
  assumes "w \<noteq> []" "\<forall>c \<in> set w. c \<noteq> 0 \<and> c \<noteq> stop \<and> c \<noteq> 92" "post = [] \<or> hd post = stop"
    "n + length w < sz" "length pre + length w - 1 \<le> lastc"
  shows "trim_loop sz stop (pre @ w @ post) lastc dest (length pre) n = Some (dest @ w, length pre + length w, False)"
  using assms
proof (induction w arbitrary: pre dest n)
  case (Cons c w)
  define s where "s = pre @ (c # w) @ post"
  have c: "c_at s (length pre) = Some c" by (simp add: c_at_def s_def)
  have "trim_loop sz stop s lastc dest (length pre) n = Some (dest @ c # w, length pre + length (c # w), False)"
  proof (cases w)
    case Nil
    have "post \<noteq> [] \<Longrightarrow> c_at s (Suc (length pre)) = Some stop" using Cons.prems(3) Nil
      by (cases post) (auto simp: c_at_def nth_append s_def)
    moreover have "post = [] \<Longrightarrow> c_at s (Suc (length pre)) = Some 0" using Nil by (simp add: c_at_def s_def)
    ultimately show ?thesis
      using Cons.prems c Nil by (subst trim_loop.simps) (cases "post = []"; auto simp: Let_def)
  next
    case w: (Cons d w')
    have d: "c_at s (Suc (length pre)) = Some d" using w by (simp add: c_at_def nth_append s_def)
    have "trim_loop sz stop s lastc (dest @ [c]) (Suc (length pre)) (Suc n) = Some (dest @ c # w, length pre + length (c # w), False)"
      using Cons.IH [of "Suc n" "pre @ [c]" "dest @ [c]"] Cons.prems w by (simp add: s_def)
    then show ?thesis
      using Cons.prems c d w by (subst trim_loop.simps) (auto simp: Let_def)
  qed
  then show ?case by (simp add: s_def)
qed simp

lemma trim_copy_plain:
  assumes "plain w" "post = [] \<or> hd post = stop" "stop = 61 \<or> stop = 59" "length w < sz"
  shows "trim_copy sz (w @ post) stop = Some (True, w, Some post)"
proof -
  have w: "w \<noteq> []" "\<forall>c \<in> set w. c \<noteq> 0 \<and> c \<noteq> stop \<and> c \<noteq> 92" "\<not> isspace (hd w)" "\<not> isspace (last w)" "0 \<notin> set w"
    using assms(1,3) by (auto simp: plain_def)
  have s: "dropWhile isspace (w @ post) = w @ post" using w(1,3) by (cases w) simp_all
  have "length w - 1 \<le> last_char (w @ post)"
    using w(1,4) by (cases w rule: rev_cases) (auto intro: last_char_ge)
  then have "trim_loop sz stop (w @ post) (last_char (w @ post)) [] 0 0 = Some (w, length w, False)"
    using trim_loop_plain [of w stop post 0 sz "[]" "last_char (w @ post)" "[]"] w assms by simp
  then show ?thesis
    using c_string_id [OF w(5)] by (simp add: trim_copy_def s from_pos_def)
qed

section \<open>Parsing what was printed\<close>

text \<open>A configuration: assignments of plain words, separated by semicolons.\<close>

fun render :: "(byte list \<times> byte list) list \<Rightarrow> byte list" where
  "render [] = []"
| "render [(k, v)] = k @ 61 # v"
| "render ((k, v) # kvs) = k @ 61 # v @ 59 # render kvs"

text \<open>The assignments, one after the other.\<close>

fun assign ::
    "(byte list \<Rightarrow> rat option) \<Rightarrow> (byte list \<Rightarrow> config_item list \<Rightarrow> (int \<times> config_item list) option)
     \<Rightarrow> (byte list \<times> byte list) list \<Rightarrow> config_item list \<Rightarrow> int \<Rightarrow> (int \<times> config_item list) option" where
  "assign strtof file [] items ret = Some (ret, items)"
| "assign strtof file ((k, v) # kvs) items ret =
     (case find_key_index k items 0 of
        Some ii \<Rightarrow>
          do { (ret, items) \<leftarrow> apply_item strtof file items ii v ret;
               if ret = -1 then Some (-1, items) else assign strtof file kvs items ret }
      | None \<Rightarrow> assign strtof file kvs items 1)"

definition kvs_ok :: "(byte list \<times> byte list) list \<Rightarrow> bool" where
  "kvs_ok kvs \<longleftrightarrow> (\<forall>(k, v) \<in> set kvs. plain k \<and> length k < 80 \<and> plain v \<and> length v < 1024)"

lemma parse_loop_render:
  assumes "kvs_ok kvs"
  shows "parse_config_loop strtof file (render kvs) items ret = assign strtof file kvs items ret"
  using assms
proof (induction kvs arbitrary: items ret)
  case Nil
  show ?case by (subst parse_config_loop.simps) simp
next
  case (Cons kv kvs)
  obtain k v where kv: "kv = (k, v)" by (cases kv)
  have k: "plain k" "length k < 80" and v: "plain v" "length v < 1024" and kvs: "kvs_ok kvs"
    using Cons.prems by (auto simp: kvs_ok_def kv)
  define post where "post = (if kvs = [] then [] else 59 # render kvs)"
  have p: "render (kv # kvs) = k @ (61 # v @ post)" by (cases kvs) (simp_all add: kv post_def)
  have ns: "k \<noteq> []" "dropWhile isspace (k @ xs) = k @ xs" for xs
    using k(1) by (cases k; auto simp: plain_def)+
  have tk: "trim_copy 80 (k @ (61 # v @ post)) 61 = Some (True, k, Some (61 # v @ post))"
    using k by (intro trim_copy_plain) auto
  have tv: "trim_copy 1024 (v @ post) 59 = Some (True, v, Some post)"
    using v by (intro trim_copy_plain) (auto simp: post_def)
  have IH: "parse_config_loop strtof file (render kvs) = assign strtof file kvs"
    using Cons.IH [OF kvs] by (intro ext)
  have p0: "k @ 61 # v @ post \<noteq> []" by simp
  have "parse_config_loop strtof file (k @ 61 # v @ post) items ret = assign strtof file (kv # kvs) items ret"
  proof (cases "kvs = []")
    case True
    then have post: "post = []" by (simp add: post_def)
    show ?thesis using IH True tk tv unfolding post
      by (subst parse_config_loop.simps) (simp add: ns kv split: option.split cong: if_cong)
  next
    case False
    then have post: "post = 59 # render kvs" by (simp add: post_def)
    show ?thesis using IH tk tv unfolding post
      by (subst parse_config_loop.simps) (simp add: ns kv split: option.split cong: if_cong)
  qed
  then show ?case by (simp add: p)
qed


text \<open>
  C38. Parsing the text of a list of assignments of plain words, separated by semicolons, performs
  these assignments in order: each key sets its entry, an unknown key makes the result 1, a bad
  value stops the parser with -1.
\<close>

theorem parse_config_render:
  assumes "kvs_ok kvs"
  shows "parse_config (Suc depth) strtof files (render kvs) items
    = assign strtof (read_config_file depth strtof files) kvs items 0"
  using parse_loop_render [OF assms] by simp

definition sample_items :: "config_item list" where
  "sample_items = [\<lparr>ci_key = [109, 97, 120], ci_datatype = DT_SIZE, ci_value = VSize 0, ci_found = False\<rparr>,
     \<lparr>ci_key = [99, 97, 115], ci_datatype = DT_BOOL, ci_value = VBool True, ci_found = False\<rparr>]"

definition sample_kvs :: "(byte list \<times> byte list) list" where
  "sample_kvs = [([109, 97, 120], [50, 107]), ([110, 111], [49]), ([99, 97, 115], [79, 70, 70])]"

text \<open>\<^verbatim>\<open>"max=2k;no=1;cas=OFF"\<close>: the first and the last set their entries, the unknown key makes the result 1.\<close>

lemma sample_values: "parse_size [50, 107] = Some 2048" "parse_bool [79, 70, 70] = Some False"
  by (simp_all add: parse_size_def cut_at_def safe_strtoull_def strtoull_def strto_scan_def isspace_def isdigit_def
      decimal_value_def digit_value_def ends_well_def parse_bool_def same_word_def word_true_def word_on_def word_false_def
      word_off_def tolower_byte_def Let_def)

theorem parse_config_render_witness:
  "parse_config 1 (\<lambda>_. None) (\<lambda>_. None) (render sample_kvs) sample_items
     = Some (1, [(sample_items ! 0)\<lparr>ci_value := VSize 2048, ci_found := True\<rparr>,
                 (sample_items ! 1)\<lparr>ci_value := VBool False, ci_found := True\<rparr>])"
proof -
  have "kvs_ok sample_kvs"
    by (simp add: kvs_ok_def sample_kvs_def plain_def isspace_def)
  moreover have "assign (\<lambda>_. None) (read_config_file 0 (\<lambda>_. None) (\<lambda>_. None)) sample_kvs sample_items 0
     = Some (1, [(sample_items ! 0)\<lparr>ci_value := VSize 2048, ci_found := True\<rparr>,
                 (sample_items ! 1)\<lparr>ci_value := VBool False, ci_found := True\<rparr>])"
    by (simp add: sample_kvs_def sample_items_def apply_item_def sample_values Let_def)
  ultimately show ?thesis
    using parse_config_render [of sample_kvs 0 "\<lambda>_. None" "\<lambda>_. None" sample_items] by simp
qed

end
