(* ===== verification/Hash.thy ===== *)
theory Hash
  imports Prelude
begin

unbundle bit_operations_syntax

text \<open>
  The hash function of the server, \<^verbatim>\<open>memcached/daemon/hash.c\<close>, in its little-endian version. The key
  is a range of the memory \<open>m\<close>; depending on the alignment of its address it is read in words of 32 bits,
  in words of 16 bits, or in bytes. The word reads of the last block go beyond the end of the key
  and are masked.
\<close>

section \<open>Mixing\<close>

definition rot :: "u32 \<Rightarrow> nat \<Rightarrow> u32" where
  "rot x k = push_bit k x XOR drop_bit (32 - k) x"

type_synonym abc = "u32 \<times> u32 \<times> u32"

definition mix :: "abc \<Rightarrow> abc" where
  "mix = (\<lambda>(a, b, c).
     let a = a - c; a = a XOR rot c 4; c = c + b;
         b = b - a; b = b XOR rot a 6; a = a + c;
         c = c - b; c = c XOR rot b 8; b = b + a;
         a = a - c; a = a XOR rot c 16; c = c + b;
         b = b - a; b = b XOR rot a 19; a = a + c;
         c = c - b; c = c XOR rot b 4; b = b + a
     in (a, b, c))"

definition final :: "abc \<Rightarrow> abc" where
  "final = (\<lambda>(a, b, c).
     let c = c XOR b; c = c - rot b 14;
         a = a XOR c; a = a - rot c 11;
         b = b XOR a; b = b - rot a 25;
         c = c XOR b; c = c - rot b 16;
         a = a XOR c; a = a - rot c 4;
         b = b XOR a; b = b - rot a 14;
         c = c XOR b; c = c - rot b 24
     in (a, b, c))"

section \<open>Reading the key\<close>

type_synonym memory = "nat \<Rightarrow> byte"

text \<open>A word at an address, little end first.\<close>

definition load8 :: "memory \<Rightarrow> nat \<Rightarrow> u32" where
  "load8 m p = ucast (m p)"

definition load16 :: "memory \<Rightarrow> nat \<Rightarrow> u32" where
  "load16 m p = ucast (m p) OR push_bit 8 (ucast (m (p + 1)))"

definition load32 :: "memory \<Rightarrow> nat \<Rightarrow> u32" where
  "load32 m p = ucast (m p) OR push_bit 8 (ucast (m (p + 1))) OR push_bit 16 (ucast (m (p + 2)))
     OR push_bit 24 (ucast (m (p + 3)))"

text \<open>One full block of twelve bytes, in the three ways.\<close>

definition block32 :: "memory \<Rightarrow> nat \<Rightarrow> abc \<Rightarrow> abc" where
  "block32 m k = (\<lambda>(a, b, c). (a + load32 m k, b + load32 m (k + 4), c + load32 m (k + 8)))"

definition block16 :: "memory \<Rightarrow> nat \<Rightarrow> abc \<Rightarrow> abc" where
  "block16 m k = (\<lambda>(a, b, c).
     (a + (load16 m k + push_bit 16 (load16 m (k + 2))),
      b + (load16 m (k + 4) + push_bit 16 (load16 m (k + 6))),
      c + (load16 m (k + 8) + push_bit 16 (load16 m (k + 10)))))"

definition block8 :: "memory \<Rightarrow> nat \<Rightarrow> abc \<Rightarrow> abc" where
  "block8 m k = (\<lambda>(a, b, c).
     let a = a + load8 m k; a = a + push_bit 8 (load8 m (k + 1));
         a = a + push_bit 16 (load8 m (k + 2)); a = a + push_bit 24 (load8 m (k + 3));
         b = b + load8 m (k + 4); b = b + push_bit 8 (load8 m (k + 5));
         b = b + push_bit 16 (load8 m (k + 6)); b = b + push_bit 24 (load8 m (k + 7));
         c = c + load8 m (k + 8); c = c + push_bit 8 (load8 m (k + 9));
         c = c + push_bit 16 (load8 m (k + 10)); c = c + push_bit 24 (load8 m (k + 11))
     in (a, b, c))"

text \<open>The last block, of 1 to 12 bytes.\<close>

definition tail32 :: "memory \<Rightarrow> nat \<Rightarrow> nat \<Rightarrow> abc \<Rightarrow> abc" where
  "tail32 m k n = (\<lambda>(a, b, c).
     if n = 12 then (a + load32 m k, b + load32 m (k + 4), c + load32 m (k + 8))
     else if n = 11 then (a + load32 m k, b + load32 m (k + 4), c + (load32 m (k + 8) AND 0xffffff))
     else if n = 10 then (a + load32 m k, b + load32 m (k + 4), c + (load32 m (k + 8) AND 0xffff))
     else if n = 9 then (a + load32 m k, b + load32 m (k + 4), c + (load32 m (k + 8) AND 0xff))
     else if n = 8 then (a + load32 m k, b + load32 m (k + 4), c)
     else if n = 7 then (a + load32 m k, b + (load32 m (k + 4) AND 0xffffff), c)
     else if n = 6 then (a + load32 m k, b + (load32 m (k + 4) AND 0xffff), c)
     else if n = 5 then (a + load32 m k, b + (load32 m (k + 4) AND 0xff), c)
     else if n = 4 then (a + load32 m k, b, c)
     else if n = 3 then (a + (load32 m k AND 0xffffff), b, c)
     else if n = 2 then (a + (load32 m k AND 0xffff), b, c)
     else if n = 1 then (a + (load32 m k AND 0xff), b, c)
     else (a, b, c))"

definition tail16 :: "memory \<Rightarrow> nat \<Rightarrow> nat \<Rightarrow> abc \<Rightarrow> abc" where
  "tail16 m k n = (\<lambda>(a, b, c).
     let w = (\<lambda>p. load16 m p + push_bit 16 (load16 m (p + 2))) in
     if n = 12 then (a + w k, b + w (k + 4), c + w (k + 8))
     else if n = 11 then (a + w k, b + w (k + 4), c + push_bit 16 (load8 m (k + 10)) + load16 m (k + 8))
     else if n = 10 then (a + w k, b + w (k + 4), c + load16 m (k + 8))
     else if n = 9 then (a + w k, b + w (k + 4), c + load8 m (k + 8))
     else if n = 8 then (a + w k, b + w (k + 4), c)
     else if n = 7 then (a + w k, b + push_bit 16 (load8 m (k + 6)) + load16 m (k + 4), c)
     else if n = 6 then (a + w k, b + load16 m (k + 4), c)
     else if n = 5 then (a + w k, b + load8 m (k + 4), c)
     else if n = 4 then (a + w k, b, c)
     else if n = 3 then (a + push_bit 16 (load8 m (k + 2)) + load16 m k, b, c)
     else if n = 2 then (a + load16 m k, b, c)
     else if n = 1 then (a + load8 m k, b, c)
     else (a, b, c))"

text \<open>The cases of the byte-wise version fall through: every case adds one byte.\<close>

definition tail8 :: "memory \<Rightarrow> nat \<Rightarrow> nat \<Rightarrow> abc \<Rightarrow> abc" where
  "tail8 m k n = (\<lambda>(a, b, c).
     let c = (if 12 \<le> n then c + push_bit 24 (load8 m (k + 11)) else c);
         c = (if 11 \<le> n then c + push_bit 16 (load8 m (k + 10)) else c);
         c = (if 10 \<le> n then c + push_bit 8 (load8 m (k + 9)) else c);
         c = (if 9 \<le> n then c + load8 m (k + 8) else c);
         b = (if 8 \<le> n then b + push_bit 24 (load8 m (k + 7)) else b);
         b = (if 7 \<le> n then b + push_bit 16 (load8 m (k + 6)) else b);
         b = (if 6 \<le> n then b + push_bit 8 (load8 m (k + 5)) else b);
         b = (if 5 \<le> n then b + load8 m (k + 4) else b);
         a = (if 4 \<le> n then a + push_bit 24 (load8 m (k + 3)) else a);
         a = (if 3 \<le> n then a + push_bit 16 (load8 m (k + 2)) else a);
         a = (if 2 \<le> n then a + push_bit 8 (load8 m (k + 1)) else a);
         a = (if 1 \<le> n then a + load8 m k else a)
     in (a, b, c))"

section \<open>The function\<close>

fun hash_loop :: "(nat \<Rightarrow> abc \<Rightarrow> abc) \<Rightarrow> (nat \<Rightarrow> nat \<Rightarrow> abc \<Rightarrow> abc) \<Rightarrow> nat \<Rightarrow> nat \<Rightarrow> abc \<Rightarrow> u32" where
  "hash_loop blk lst k len s =
     (if 12 < len then hash_loop blk lst (k + 12) (len - 12) (mix (blk k s))
      else if len = 0 then snd (snd s)
      else snd (snd (final (lst k len s))))"

declare hash_loop.simps [simp del]

definition hash :: "memory \<Rightarrow> nat \<Rightarrow> nat \<Rightarrow> u32 \<Rightarrow> u32" where
  "hash m k len initval =
     (let x = 0xdeadbeef + of_nat len + initval; s = (x, x, x) in
      if k mod 4 = 0 then hash_loop (block32 m) (tail32 m) k len s
      else if k mod 2 = 0 then hash_loop (block16 m) (tail16 m) k len s
      else hash_loop (block8 m) (tail8 m) k len s)"

section \<open>The three readings agree\<close>

text \<open>The reference: the key as a list of bytes, in blocks of twelve, each byte at its place in its word.\<close>

definition le_word :: "byte list \<Rightarrow> u32" where
  "le_word bs = foldr (\<lambda>b w. ucast b + push_bit 8 w) bs 0"

definition add_block :: "byte list \<Rightarrow> abc \<Rightarrow> abc" where
  "add_block bs = (\<lambda>(a, b, c). (a + le_word (take 4 bs), b + le_word (take 4 (drop 4 bs)), c + le_word (take 4 (drop 8 bs))))"

fun jenkins_blocks :: "byte list \<Rightarrow> abc \<Rightarrow> u32" where
  "jenkins_blocks bs s =
     (if 12 < length bs then jenkins_blocks (drop 12 bs) (mix (add_block bs s))
      else if bs = [] then snd (snd s)
      else snd (snd (final (add_block bs s))))"

declare jenkins_blocks.simps [simp del]

definition jenkins :: "byte list \<Rightarrow> u32 \<Rightarrow> u32" where
  "jenkins bs initval = (let x = 0xdeadbeef + of_nat (length bs) + initval in jenkins_blocks bs (x, x, x))"

definition bytes_at :: "memory \<Rightarrow> nat \<Rightarrow> nat \<Rightarrow> byte list" where
  "bytes_at m k len = map m [k..<k + len]"

lemma bytes_at_simps [simp]:
  "bytes_at m k 0 = []" "bytes_at m k (Suc n) = m k # bytes_at m (Suc k) n" "length (bytes_at m k n) = n"
proof -
  show "bytes_at m k (Suc n) = m k # bytes_at m (Suc k) n"
    unfolding bytes_at_def by (subst upt_conv_Cons) simp_all
qed (simp_all add: bytes_at_def)

lemma drop_bytes_at: "drop j (bytes_at m k n) = bytes_at m (k + j) (n - j)"
  by (cases "j \<le> n") (simp_all add: bytes_at_def drop_map)

lemma take_bytes_at: "j \<le> n \<Longrightarrow> take j (bytes_at m k n) = bytes_at m k j"
  by (simp add: bytes_at_def take_map take_upt)

abbreviation u :: "byte \<Rightarrow> u32" where
  "u \<equiv> ucast"

lemma bit_u: "bit (u b) n \<Longrightarrow> n < 8"
  using bit_imp_le_length [of b n] by (simp add: bit_simps)

lemma le_word_simps:
  "le_word [] = 0" "le_word [a] = u a" "le_word [a, b] = u a + push_bit 8 (u b)"
  "le_word [a, b, c] = u a + push_bit 8 (u b) + push_bit 16 (u c)"
  "le_word [a, b, c, d] = u a + push_bit 8 (u b) + push_bit 16 (u c) + push_bit 24 (u d)"
  by (simp_all add: le_word_def push_bit_add push_bit_push_bit add.assoc)

lemma or_add: "(\<And>n. bit (a :: u32) n \<Longrightarrow> bit b n \<Longrightarrow> False) \<Longrightarrow> a OR b = a + b"
  by (rule disjunctive_add [symmetric]) blast

lemma or_bytes:
  "u a OR push_bit 8 (u b) = u a + push_bit 8 (u b)"
  "(u a OR push_bit 8 (u b)) OR push_bit 16 (u c) = (u a OR push_bit 8 (u b)) + push_bit 16 (u c)"
  "((u a OR push_bit 8 (u b)) OR push_bit 16 (u c)) OR push_bit 24 (u d)
     = ((u a OR push_bit 8 (u b)) OR push_bit 16 (u c)) + push_bit 24 (u d)"
  by (rule or_add; auto simp: bit_or_iff bit_push_bit_iff dest!: bit_u)+

lemma le_word_or:
  "le_word [a, b] = u a OR push_bit 8 (u b)"
  "le_word [a, b, c] = u a OR push_bit 8 (u b) OR push_bit 16 (u c)"
  "le_word [a, b, c, d] = u a OR push_bit 8 (u b) OR push_bit 16 (u c) OR push_bit 24 (u d)"
  by (simp_all only: le_word_simps or_bytes [symmetric] or.assoc [symmetric])

lemma loads:
  "load8 m p = le_word [m p]" "load16 m p = le_word [m p, m (p + 1)]"
  "load32 m p = le_word [m p, m (p + 1), m (p + 2), m (p + 3)]"
  by (simp_all only: load8_def load16_def load32_def le_word_or le_word_simps(2))

lemma le_word_masks:
  "le_word [a, b, c, d] AND 0xff = le_word [a]" "le_word [a, b, c, d] AND 0xffff = le_word [a, b]"
  "le_word [a, b, c, d] AND 0xffffff = le_word [a, b, c]"
proof -
  have m: "bit (0xff :: u32) n \<longleftrightarrow> n < 8" "bit (0xffff :: u32) n \<longleftrightarrow> n < 16" "bit (0xffffff :: u32) n \<longleftrightarrow> n < 24" for n
    using bit_mask_iff [of 8 n, where 'a = u32] bit_mask_iff [of 16 n, where 'a = u32] bit_mask_iff [of 24 n, where 'a = u32]
    by (auto simp: mask_eq_exp_minus_1)
  show "le_word [a, b, c, d] AND 0xff = le_word [a]" "le_word [a, b, c, d] AND 0xffff = le_word [a, b]"
    "le_word [a, b, c, d] AND 0xffffff = le_word [a, b, c]"
    unfolding le_word_or le_word_simps(2)
    by (rule bit_word_eqI; simp only: bit_and_iff m bit_or_iff bit_push_bit_iff; auto dest: bit_u)+
qed

lemma nat_cases_12:
  fixes n :: nat
  assumes "0 < n" "n \<le> 12"
  obtains "n = 1" | "n = 2" | "n = 3" | "n = 4" | "n = 5" | "n = 6" | "n = 7" | "n = 8" | "n = 9" | "n = 10" | "n = 11" | "n = 12"
proof -
  have "n \<in> {1, 2, 3, 4, 5, 6, 7, 8, 9, 10, 11, 12}" using assms by simp presburger
  then show thesis using that by blast
qed

lemma add_block_bytes:
  "add_block (bytes_at m k n) (a, b, c) =
     (a + le_word (bytes_at m k (min n 4)), b + le_word (bytes_at m (k + 4) (min (n - 4) 4)),
      c + le_word (bytes_at m (k + 8) (min (n - 8) 4)))"
  by (simp add: add_block_def drop_bytes_at take_bytes_at min_def)

lemma bytes_at_small [simp]:
  "bytes_at m k 1 = [m k]" "bytes_at m k 2 = [m k, m (k + 1)]" "bytes_at m k 3 = [m k, m (k + 1), m (k + 2)]"
  "bytes_at m k 4 = [m k, m (k + 1), m (k + 2), m (k + 3)]"
  by (simp_all add: numeral_eq_Suc)

lemma block_full:
  assumes "12 \<le> n"
  shows "block32 m k s = add_block (bytes_at m k n) s" "block16 m k s = add_block (bytes_at m k n) s"
    "block8 m k s = add_block (bytes_at m k n) s"
proof -
  obtain a b c where s: "s = (a, b, c)" by (cases s)
  have n: "min n 4 = 4" "min (n - 4) 4 = 4" "min (n - 8) 4 = 4" using assms by simp_all
  show "block32 m k s = add_block (bytes_at m k n) s"
    unfolding s add_block_bytes by (simp add: n block32_def loads del: add_2_eq_Suc add_2_eq_Suc' One_nat_def)
  show "block16 m k s = add_block (bytes_at m k n) s"
    unfolding s add_block_bytes by (simp add: n block16_def loads push_bit_add push_bit_push_bit le_word_simps add.assoc del: add_2_eq_Suc add_2_eq_Suc' One_nat_def)
  show "block8 m k s = add_block (bytes_at m k n) s"
    unfolding s add_block_bytes by (simp add: n block8_def loads le_word_simps add.assoc Let_def del: add_2_eq_Suc add_2_eq_Suc' One_nat_def)
qed

lemma tail_block:
  assumes "0 < n" "n \<le> 12"
  shows "tail32 m k n s = add_block (bytes_at m k n) s" "tail16 m k n s = add_block (bytes_at m k n) s"
    "tail8 m k n s = add_block (bytes_at m k n) s"
proof -
  obtain a b c where s: "s = (a, b, c)" by (cases s)
  show "tail32 m k n s = add_block (bytes_at m k n) s"
    unfolding s add_block_bytes by (rule nat_cases_12 [OF assms]; simp add: tail32_def le_word_masks loads(3) le_word_simps(1) del: add_2_eq_Suc add_2_eq_Suc' One_nat_def)
  show "tail16 m k n s = add_block (bytes_at m k n) s"
    unfolding s add_block_bytes by (rule nat_cases_12 [OF assms]; simp add: tail16_def loads push_bit_add push_bit_push_bit le_word_simps algebra_simps del: add_2_eq_Suc add_2_eq_Suc' One_nat_def)
  show "tail8 m k n s = add_block (bytes_at m k n) s"
    unfolding s add_block_bytes by (rule nat_cases_12 [OF assms]; simp add: tail8_def Let_def loads le_word_simps algebra_simps del: add_2_eq_Suc add_2_eq_Suc' One_nat_def)
qed

lemma hash_loop_jenkins:
  assumes "\<And>k n s. 12 \<le> n \<Longrightarrow> blk k s = add_block (bytes_at m k n) s"
    and "\<And>k n s. 0 < n \<Longrightarrow> n \<le> 12 \<Longrightarrow> lst k n s = add_block (bytes_at m k n) s"
  shows "hash_loop blk lst k len s = jenkins_blocks (bytes_at m k len) s"
proof (induction len arbitrary: k s rule: less_induct)
  case (less len)
  show ?case
  proof (cases "12 < len")
    case True
    then show ?thesis
      using less.IH [of "len - 12" "k + 12" "mix (blk k s)"] assms(1) [of len k s]
      by (simp add: hash_loop.simps [of _ _ _ len] jenkins_blocks.simps [of "bytes_at m k len"] drop_bytes_at)
  next
    case False
    then show ?thesis
      using assms(2) [of len k s]
      by (auto simp: hash_loop.simps [of _ _ _ len] jenkins_blocks.simps [of "bytes_at m k len"] simp flip: length_0_conv)
  qed
qed

text \<open>
  C33. The hash of a key depends only on the bytes of the key and the initial value: whatever the
  address of the key modulo four, so whichever of the three readings (words of 32 bits with masked
  reads past the end, words of 16 bits, single bytes) is taken, the result is that of the
  reference, which cuts the list of bytes into blocks of twelve and adds every byte at its place.
\<close>

theorem hash_is_jenkins: "hash m k len initval = jenkins (bytes_at m k len) initval"
proof -
  have "hash_loop (block32 m) (tail32 m) k len s = jenkins_blocks (bytes_at m k len) s"
    "hash_loop (block16 m) (tail16 m) k len s = jenkins_blocks (bytes_at m k len) s"
    "hash_loop (block8 m) (tail8 m) k len s = jenkins_blocks (bytes_at m k len) s" for s
    by (rule hash_loop_jenkins; simp add: block_full tail_block)+
  then show ?thesis
    by (simp add: hash_def jenkins_def Let_def)
qed

end
