(* ===== verification/Prefix_Stats.thy ===== *)
theory Prefix_Stats
  imports Util
begin

unbundle bit_operations_syntax

text \<open>
  The statistics by key prefix, \<^verbatim>\<open>memcached/daemon/stats.c\<close>: a hash table of 256 chains, newest entry
  first. The hash function and the delimiter are those of the server; every recording function runs
  under the statistics lock.
\<close>

section \<open>The data\<close>






section \<open>Finding the entry of a key\<close>



fun find_pos :: "('a \<Rightarrow> bool) \<Rightarrow> 'a list \<Rightarrow> nat \<Rightarrow> nat option" where
  "find_pos P [] i = None"
| "find_pos P (x # xs) i = (if P x then Some i else find_pos P xs (i + 1))"







section \<open>Printing\<close>








section \<open>The dump fits its buffer\<close>




lemma find_pos_None: "find_pos P xs i = None \<longleftrightarrow> (\<forall>x \<in> set xs. \<not> P x)"
  by (induction P xs i rule: find_pos.induct) auto


















end
