(* ===== verification/Bucket_Engine.thy ===== *)
theory Bucket_Engine
  imports Topkeys Config_Parser
begin

unbundle bit_operations_syntax

text \<open>
  The bucket engine, bucket_engine/bucket_engine.c: an engine that holds many buckets, each with
  an underlying engine of its own, and passes the calls of a connection on to the engine of its
  bucket. The state is the C structure with its table of buckets (the generic hash table), the
  data of the connections, the allocated handles by address and the point that each shutdown
  thread has reached. A function is one or more critical sections; an assertion that fails or an
  access to a freed handle is the result None. What the system answers (new addresses, loaded
  engines, failing allocations) is an argument.
\<close>

section \<open>The data\<close>

datatype bucket_state_t = STATE_NULL | STATE_RUNNING | STATE_STOP_REQUESTED | STATE_STOPPING | STATE_STOPPED

record proxied_engine_handle =
  pe_name :: "byte list"
  pe_engine :: ptr
  pe_tap_iterator :: bool
  tap_iterator_disabled :: bool
  wants_disconnects :: bool
  force_shutdown :: bool
  pe_refcount :: int
  pe_clients :: int
  pe_cookie :: ptr
  pe_state :: bucket_state_t

record engine_specific =
  es_peh :: ptr
  es_specific :: ptr
  es_reserved :: int
  es_notified :: bool

text \<open>Where a thread that shuts down a bucket is, between two critical sections.\<close>

datatype shutdown_pc = PC_START | PC_DESTROY | PC_CLEAR | PC_UNLINK | PC_STOPPED | PC_WAIT | PC_FREE

text \<open>What the underlying engines and the server see: an engine is destroyed, a client is notified, an
  engine is told that a connection is gone.\<close>

datatype be_event = EngineDestroyed ptr bool | IoComplete ptr | Disconnected ptr ptr

record bucket_engine =
  be_initialized :: bool
  has_default :: bool
  auto_create :: bool
  default_engine_path :: "byte list option"
  admin_user :: "byte list option"
  default_bucket_name :: "byte list option"
  default_bucket_config :: "byte list option"
  be_pehs :: "ptr \<rightharpoonup> proxied_engine_handle"
  be_engines :: "(key, ptr) genhash"
  be_cookies :: "ptr \<rightharpoonup> engine_specific"
  be_threads :: "ptr \<rightharpoonup> shutdown_pc"
  in_progress :: bool
  bucket_counter :: int
  thread_ok :: bool
  be_events :: "be_event list"

text \<open>The default bucket is a field of the structure, at an address of its own.\<close>

definition DEFAULT_ENGINE :: ptr where "DEFAULT_ENGINE = 1"

definition default_pe :: "bucket_engine \<Rightarrow> ptr" where
  "default_pe b = (case be_pehs b DEFAULT_ENGINE of None \<Rightarrow> NULL | Some h \<Rightarrow> pe_engine h)"

definition peh_upd :: "ptr \<Rightarrow> (proxied_engine_handle \<Rightarrow> proxied_engine_handle) \<Rightarrow> bucket_engine \<Rightarrow> bucket_engine" where
  "peh_upd p f b = b\<lparr>be_pehs := (be_pehs b)(p := map_option f (be_pehs b p))\<rparr>"

definition set_es :: "ptr \<Rightarrow> engine_specific option \<Rightarrow> bucket_engine \<Rightarrow> bucket_engine" where
  "set_es c es b = b\<lparr>be_cookies := (be_cookies b)(c := es)\<rparr>"

definition event :: "be_event \<Rightarrow> bucket_engine \<Rightarrow> bucket_engine" where
  "event ev b = b\<lparr>be_events := ev # be_events b\<rparr>"

section \<open>References\<close>

definition maybe_start_engine_shutdown :: "ptr \<Rightarrow> bucket_engine \<Rightarrow> bucket_engine option" where
  "maybe_start_engine_shutdown p b =
     do {
       h \<leftarrow> be_pehs b p;
       if pe_clients h = 0 \<and> pe_state h = STATE_STOP_REQUESTED then
         do {
           let b = peh_upd p (\<lambda>h. h\<lparr>pe_state := STATE_STOPPING\<rparr>) b;
           guard (thread_ok b);
           Some (b\<lparr>be_threads := (be_threads b)(p \<mapsto> PC_START)\<rparr>)
         }
       else Some b
     }"

definition release_handle_locked :: "ptr \<Rightarrow> bucket_engine \<Rightarrow> bucket_engine option" where
  "release_handle_locked p b =
     do {
       h \<leftarrow> be_pehs b p;
       guard (pe_refcount h > 0);
       maybe_start_engine_shutdown p (peh_upd p (\<lambda>h. h\<lparr>pe_refcount := pe_refcount h - 1\<rparr>) b)
     }"

definition release_handle :: "ptr \<Rightarrow> bucket_engine \<Rightarrow> bucket_engine option" where
  "release_handle p b = (if p = NULL then Some b else release_handle_locked p b)"

definition find_bucket_inner :: "key \<Rightarrow> bucket_engine \<Rightarrow> ptr option" where
  "find_bucket_inner name b =
     do {
       r \<leftarrow> genhash_find (be_engines b) name (of_nat (length name));
       Some (case r of None \<Rightarrow> NULL | Some p \<Rightarrow> p)
     }"

definition retain_handle :: "ptr \<Rightarrow> bucket_engine \<Rightarrow> (ptr \<times> bucket_engine) option" where
  "retain_handle p b =
     (if p = NULL then Some (NULL, b)
      else do {
        h \<leftarrow> be_pehs b p;
        if pe_state h = STATE_RUNNING then
          do {
            guard (pe_refcount h + 1 > 0);
            Some (p, peh_upd p (\<lambda>h. h\<lparr>pe_refcount := pe_refcount h + 1\<rparr>) b)
          }
        else Some (NULL, b)
      })"

definition find_bucket :: "key \<Rightarrow> bucket_engine \<Rightarrow> (ptr \<times> bucket_engine) option" where
  "find_bucket name b = do { p \<leftarrow> find_bucket_inner name b; retain_handle p b }"

section \<open>The table of the buckets\<close>

definition hash_strdup :: "key \<Rightarrow> u64 \<Rightarrow> key" where
  "hash_strdup k nkey = take (unat nkey) k"

text \<open>The value is not copied; the change of its reference count is made by the caller of the table.\<close>

definition be_hash_ops :: "(key, ptr) hash_ops" where
  "be_hash_ops = \<lparr>hashfunc = (\<lambda>k n. genhash_string_hash (take (unat n) k)), hasheq = my_hash_eq,
     dupKey = Some hash_strdup, dupValue = Some (\<lambda>p n. p), freeKey = True, freeValue = True\<rparr>"

definition refcount_dup :: "ptr \<Rightarrow> bucket_engine \<Rightarrow> bucket_engine option" where
  "refcount_dup p b =
     do {
       h \<leftarrow> be_pehs b p;
       Some (peh_upd p (\<lambda>h. h\<lparr>pe_refcount := pe_refcount h + 1\<rparr>) b)
     }"

definition engine_hash_free :: "ptr \<Rightarrow> bucket_engine \<Rightarrow> bucket_engine option" where
  "engine_hash_free p b = do { h \<leftarrow> be_pehs b p; Some (peh_upd p (\<lambda>h. h\<lparr>pe_state := STATE_NULL\<rparr>) b) }"

fun free_values :: "ptr list \<Rightarrow> bucket_engine \<Rightarrow> bucket_engine option" where
  "free_values [] b = Some b"
| "free_values (p # ps) b = do { b \<leftarrow> engine_hash_free p b; free_values ps b }"

definition engines_update :: "bool \<Rightarrow> key \<Rightarrow> ptr \<Rightarrow> bucket_engine \<Rightarrow> bucket_engine option" where
  "engines_update table_ok name p b =
     do {
       (u, t) \<leftarrow> genhash_update table_ok (be_engines b) name (of_nat (length name)) p 0;
       b \<leftarrow> refcount_dup p (b\<lparr>be_engines := t\<lparr>gh_freed_values := []\<rparr>\<rparr>);
       free_values (gh_freed_values t) b
     }"

definition engines_delete_all :: "key \<Rightarrow> bucket_engine \<Rightarrow> (int \<times> bucket_engine) option" where
  "engines_delete_all name b =
     do {
       (n, t) \<leftarrow> genhash_delete_all (be_engines b) name (of_nat (length name)) 0;
       b \<leftarrow> free_values (rev (gh_freed_values t)) (b\<lparr>be_engines := t\<lparr>gh_freed_values := []\<rparr>\<rparr>);
       Some (n, b)
     }"

section \<open>Creating a bucket\<close>

definition isalpha :: "byte \<Rightarrow> bool" where
  "isalpha c = ((65 \<le> c \<and> c \<le> 90) \<or> (97 \<le> c \<and> c \<le> 122))"

definition has_valid_bucket_name :: "byte list \<Rightarrow> bool" where
  "has_valid_bucket_name n = (n \<noteq> [] \<and>
     (\<forall>c \<in> set n. isalpha c \<or> isdigit c \<or> c = 46 \<or> c = 37 \<or> c = 95 \<or> c = 45))"

text \<open>
  The answers of the system to the creation of a bucket: the address of the new handle, the
  allocations and initialisations that succeed, the engine that the library gives, whether its
  initialisation succeeds and whether it asks for notifications then.
\<close>

record load_env =
  le_addr :: ptr
  le_name_ok :: bool
  le_mutex_ok :: bool
  le_cond_ok :: bool
  le_table_ok :: bool
  le_engine :: ptr
  le_init_ok :: bool
  le_wants :: bool

definition text_default_engine :: "byte list" where
  "text_default_engine = [100, 101, 102, 97, 117, 108, 116, 95, 101, 110, 103, 105, 110, 101]"

definition strstr :: "byte list \<Rightarrow> byte list \<Rightarrow> bool" where
  "strstr s w = list_ex (\<lambda>i. take (length w) (drop i s) = w) [0..<Suc (length s)]"

definition zeroed :: proxied_engine_handle where
  "zeroed = \<lparr>pe_name = [], pe_engine = NULL, pe_tap_iterator = False, tap_iterator_disabled = False,
     wants_disconnects = False, force_shutdown = False, pe_refcount = 0, pe_clients = 0, pe_cookie = NULL,
     pe_state = STATE_NULL\<rparr>"

definition init_engine_handle ::
    "load_env \<Rightarrow> byte list \<Rightarrow> byte list option \<Rightarrow> proxied_engine_handle \<Rightarrow> ENGINE_ERROR_CODE \<times> proxied_engine_handle" where
  "init_engine_handle env name modul h =
     (let h = h\<lparr>pe_refcount := 1\<rparr> in
      if \<not> le_name_ok env then (ENGINE_ENOMEM, h)
      else
        (let h = h\<lparr>pe_name := name\<rparr>;
             h = (case modul of
                    Some m \<Rightarrow> if strstr m text_default_engine then h\<lparr>tap_iterator_disabled := True\<rparr> else h
                  | None \<Rightarrow> h)
         in if \<not> le_mutex_ok env \<or> \<not> le_cond_ok env then (ENGINE_FAILED, h)
            else (ENGINE_SUCCESS, h\<lparr>pe_state := STATE_RUNNING\<rparr>)))"

definition free_engine_handle :: "ptr \<Rightarrow> bucket_engine \<Rightarrow> bucket_engine option" where
  "free_engine_handle p b = do { h \<leftarrow> be_pehs b p; Some (b\<lparr>be_pehs := (be_pehs b)(p := None)\<rparr>) }"

text \<open>The engine registers its callback for disconnects while it is initialised.\<close>

definition find_bucket_by_engine ::
    "bucket_engine \<Rightarrow> ptr \<Rightarrow> key \<Rightarrow> u64 \<Rightarrow> ptr \<Rightarrow> u64 \<Rightarrow> ptr option \<Rightarrow> ptr option" where
  "find_bucket_by_engine b needle key nkey val nval found =
     do {
       found \<leftarrow> found;
       h \<leftarrow> be_pehs b val;
       Some (if needle = pe_engine h then val else found)
     }"

definition bucket_register_callback :: "ptr \<Rightarrow> bucket_engine \<Rightarrow> bucket_engine option" where
  "bucket_register_callback eh b =
     do {
       r \<leftarrow> genhash_iter (be_engines b) (find_bucket_by_engine b eh) (Some NULL);
       p \<leftarrow> r;
       Some (if p \<noteq> NULL then peh_upd p (\<lambda>h. h\<lparr>wants_disconnects := True\<rparr>) b
             else if has_default b \<and> eh = default_pe b then
               peh_upd DEFAULT_ENGINE (\<lambda>h. h\<lparr>wants_disconnects := True\<rparr>) b
             else b)
     }"

text \<open>\<open>e_out\<close> says whether the caller takes the handle; it is the second result then.\<close>

definition create_bucket ::
    "load_env \<Rightarrow> bool \<Rightarrow> byte list \<Rightarrow> byte list option \<Rightarrow> bucket_engine
     \<Rightarrow> (ENGINE_ERROR_CODE \<times> ptr \<times> bucket_engine) option" where
  "create_bucket env e_out bucket_name path b =
     (if \<not> has_valid_bucket_name bucket_name then Some (ENGINE_EINVAL, NULL, b)
      else if le_addr env = NULL then Some (ENGINE_ENOMEM, NULL, b)
      else
        (let p = le_addr env; (rv, h) = init_engine_handle env bucket_name path zeroed in
         if rv \<noteq> ENGINE_SUCCESS then Some (rv, NULL, b)
         else
           (let h = h\<lparr>pe_engine := le_engine env\<rparr>; b = b\<lparr>be_pehs := (be_pehs b)(p \<mapsto> h)\<rparr> in
            if pe_engine h = NULL then
              do { b \<leftarrow> free_engine_handle p b; Some (ENGINE_FAILED, NULL, b) }
            else do {
              tmppeh \<leftarrow> find_bucket_inner bucket_name b;
              if tmppeh = NULL then
                do {
                  b \<leftarrow> engines_update (le_table_ok env) bucket_name p b;
                  b \<leftarrow> (if le_wants env then bucket_register_callback (le_engine env) b else Some b);
                  if le_init_ok env then
                    (if e_out then Some (ENGINE_SUCCESS, p, b)
                     else do { b \<leftarrow> release_handle p b; Some (ENGINE_SUCCESS, NULL, b) })
                  else do {
                    (n, b) \<leftarrow> engines_delete_all bucket_name (event (EngineDestroyed (le_engine env) False) b);
                    b \<leftarrow> free_engine_handle p b;
                    Some (ENGINE_FAILED, NULL, b)
                  }
                }
              else do {
                b \<leftarrow> free_engine_handle p (event (EngineDestroyed (le_engine env) True) b);
                Some (ENGINE_KEY_EEXISTS, NULL, b)
              }
            })))"

section \<open>Calls into an engine\<close>

definition get_engine_handle :: "ptr \<Rightarrow> bucket_engine \<Rightarrow> (ptr \<times> bucket_engine) option" where
  "get_engine_handle cookie b =
     do {
       es \<leftarrow> be_cookies b cookie;
       let p = (if es_peh es \<noteq> NULL then es_peh es else if default_pe b \<noteq> NULL then DEFAULT_ENGINE else NULL);
       if p = NULL then Some (NULL, b)
       else do {
         h \<leftarrow> be_pehs b p;
         if pe_state h \<noteq> STATE_RUNNING then
           do {
             let b = (if es_reserved es = 0 then set_es cookie None b else b);
             b \<leftarrow> release_handle p b;
             Some (NULL, b)
           }
         else Some (p, peh_upd p (\<lambda>h. h\<lparr>pe_clients := pe_clients h + 1\<rparr>) b)
       }
     }"

definition try_get_engine_handle :: "ptr \<Rightarrow> bucket_engine \<Rightarrow> (ptr \<times> bucket_engine) option" where
  "try_get_engine_handle cookie b =
     (case be_cookies b cookie of
        None \<Rightarrow> Some (NULL, b)
      | Some es \<Rightarrow>
          if es_peh es = NULL then Some (NULL, b)
          else do {
            h \<leftarrow> be_pehs b (es_peh es);
            Some (if pe_state h = STATE_RUNNING
                  then (es_peh es, peh_upd (es_peh es) (\<lambda>h. h\<lparr>pe_clients := pe_clients h + 1\<rparr>) b)
                  else (NULL, b))
          })"

definition release_engine_handle :: "ptr \<Rightarrow> bucket_engine \<Rightarrow> bucket_engine option" where
  "release_engine_handle p b =
     do {
       h \<leftarrow> be_pehs b p;
       guard (pe_clients h > 0);
       maybe_start_engine_shutdown p (peh_upd p (\<lambda>h. h\<lparr>pe_clients := pe_clients h - 1\<rparr>) b)
     }"

text \<open>The function of the underlying engine, with its arguments: it gets the engine and may call back.\<close>

type_synonym 'r engine_call = "ptr \<Rightarrow> bucket_engine \<Rightarrow> ('r \<times> bucket_engine) option"

definition proxy :: "'r engine_call \<Rightarrow> 'r \<Rightarrow> ptr \<Rightarrow> bucket_engine \<Rightarrow> ('r \<times> bucket_engine) option" where
  "proxy call gone cookie b =
     do {
       (p, b) \<leftarrow> get_engine_handle cookie b;
       if p \<noteq> NULL then
         do {
           h \<leftarrow> be_pehs b p;
           (ret, b) \<leftarrow> call (pe_engine h) b;
           b \<leftarrow> release_engine_handle p b;
           Some (ret, b)
         }
       else Some (gone, b)
     }"

definition try_proxy :: "'r engine_call \<Rightarrow> 'r \<Rightarrow> ptr \<Rightarrow> bucket_engine \<Rightarrow> ('r \<times> bucket_engine) option" where
  "try_proxy call gone cookie b =
     do {
       (p, b) \<leftarrow> try_get_engine_handle cookie b;
       if p \<noteq> NULL then
         do {
           h \<leftarrow> be_pehs b p;
           (ret, b) \<leftarrow> call (pe_engine h) b;
           b \<leftarrow> release_engine_handle p b;
           Some (ret, b)
         }
       else Some (gone, b)
     }"

text \<open>The functions of the engine interface that only pass the call on.\<close>

definition bucket_item_allocate :: "ENGINE_ERROR_CODE engine_call \<Rightarrow> ptr \<Rightarrow> bucket_engine \<Rightarrow> (ENGINE_ERROR_CODE \<times> bucket_engine) option" where
  "bucket_item_allocate allocate cookie b = proxy allocate ENGINE_DISCONNECT cookie b"

definition bucket_item_delete :: "ENGINE_ERROR_CODE engine_call \<Rightarrow> ptr \<Rightarrow> bucket_engine \<Rightarrow> (ENGINE_ERROR_CODE \<times> bucket_engine) option" where
  "bucket_item_delete remove cookie b = proxy remove ENGINE_DISCONNECT cookie b"

definition bucket_item_release :: "unit engine_call \<Rightarrow> ptr \<Rightarrow> bucket_engine \<Rightarrow> (unit \<times> bucket_engine) option" where
  "bucket_item_release release cookie b = try_proxy release () cookie b"

definition bucket_get :: "ENGINE_ERROR_CODE engine_call \<Rightarrow> ptr \<Rightarrow> bucket_engine \<Rightarrow> (ENGINE_ERROR_CODE \<times> bucket_engine) option" where
  "bucket_get get cookie b = proxy get ENGINE_DISCONNECT cookie b"

definition bucket_store :: "ENGINE_ERROR_CODE engine_call \<Rightarrow> ptr \<Rightarrow> bucket_engine \<Rightarrow> (ENGINE_ERROR_CODE \<times> bucket_engine) option" where
  "bucket_store store cookie b = proxy store ENGINE_DISCONNECT cookie b"

definition bucket_arithmetic :: "ENGINE_ERROR_CODE engine_call \<Rightarrow> ptr \<Rightarrow> bucket_engine \<Rightarrow> (ENGINE_ERROR_CODE \<times> bucket_engine) option" where
  "bucket_arithmetic arith cookie b = proxy arith ENGINE_DISCONNECT cookie b"

definition bucket_flush :: "ENGINE_ERROR_CODE engine_call \<Rightarrow> ptr \<Rightarrow> bucket_engine \<Rightarrow> (ENGINE_ERROR_CODE \<times> bucket_engine) option" where
  "bucket_flush flush cookie b = proxy flush ENGINE_DISCONNECT cookie b"

definition bucket_reset_stats :: "unit engine_call \<Rightarrow> ptr \<Rightarrow> bucket_engine \<Rightarrow> (unit \<times> bucket_engine) option" where
  "bucket_reset_stats reset cookie b = try_proxy reset () cookie b"

definition bucket_get_item_info :: "bool engine_call \<Rightarrow> ptr \<Rightarrow> bucket_engine \<Rightarrow> (bool \<times> bucket_engine) option" where
  "bucket_get_item_info info cookie b = try_proxy info False cookie b"

definition bucket_item_set_cas :: "unit engine_call \<Rightarrow> ptr \<Rightarrow> bucket_engine \<Rightarrow> (unit \<times> bucket_engine) option" where
  "bucket_item_set_cas setcas cookie b = try_proxy setcas () cookie b"

definition bucket_tap_notify :: "ENGINE_ERROR_CODE engine_call \<Rightarrow> ptr \<Rightarrow> bucket_engine \<Rightarrow> (ENGINE_ERROR_CODE \<times> bucket_engine) option" where
  "bucket_tap_notify notify cookie b = proxy notify ENGINE_DISCONNECT cookie b"

text \<open>\<open>errinfo\<close> is missing in some engines.\<close>

definition bucket_errinfo :: "(ptr \<Rightarrow> nat engine_call option) \<Rightarrow> ptr \<Rightarrow> bucket_engine \<Rightarrow> (nat \<times> bucket_engine) option" where
  "bucket_errinfo errinfo cookie b =
     try_proxy (\<lambda>e b. case errinfo e of None \<Rightarrow> Some (0, b) | Some f \<Rightarrow> f e b) 0 cookie b"

text \<open>The pointer to the statistics is not followed: the result says whether there is one.\<close>

definition bucket_get_stats_struct :: "ptr \<Rightarrow> bucket_engine \<Rightarrow> (bool \<times> bucket_engine) option" where
  "bucket_get_stats_struct cookie b = try_proxy (\<lambda>e b. Some (True, b)) False cookie b"

text \<open>
  A handle without an iterator leaves the shim without \<^verbatim>\<open>release_engine_handle\<close>: the client is counted
  as being inside the engine from then on.
\<close>

definition bucket_tap_iterator_shim :: "'ev engine_call \<Rightarrow> 'ev \<Rightarrow> ptr \<Rightarrow> bucket_engine \<Rightarrow> ('ev \<times> bucket_engine) option" where
  "bucket_tap_iterator_shim iterator tap_disconnect cookie b =
     do {
       (p, b) \<leftarrow> get_engine_handle cookie b;
       if p = NULL then Some (tap_disconnect, b)
       else do {
         h \<leftarrow> be_pehs b p;
         if pe_tap_iterator h then
           do {
             (ret, b) \<leftarrow> iterator (pe_engine h) b;
             b \<leftarrow> release_engine_handle p b;
             Some (ret, b)
           }
         else Some (tap_disconnect, b)
       }
     }"

definition bucket_get_tap_iterator :: "bool engine_call \<Rightarrow> ptr \<Rightarrow> bucket_engine \<Rightarrow> (bool \<times> bucket_engine) option" where
  "bucket_get_tap_iterator get_iterator cookie b =
     do {
       (p, b) \<leftarrow> get_engine_handle cookie b;
       if p = NULL then Some (False, b)
       else do {
         h \<leftarrow> be_pehs b p;
         (ret, b) \<leftarrow> (if tap_iterator_disabled h then Some (False, b)
                     else do {
                       (it, b) \<leftarrow> get_iterator (pe_engine h) b;
                       Some (it, peh_upd p (\<lambda>h. h\<lparr>pe_tap_iterator := it\<rparr>) b)
                     });
         b \<leftarrow> release_engine_handle p b;
         Some (ret, b)
       }
     }"

section \<open>Connections\<close>

text \<open>\<open>ok\<close> is the answer of \<^verbatim>\<open>calloc\<close>.\<close>

definition create_engine_specific :: "bool \<Rightarrow> ptr \<Rightarrow> bucket_engine \<Rightarrow> bucket_engine option" where
  "create_engine_specific ok cookie b =
     do {
       guard (be_cookies b cookie = None);
       guard ok;
       Some (set_es cookie (Some \<lparr>es_peh = NULL, es_specific = NULL, es_reserved = 0, es_notified = False\<rparr>) b)
     }"

definition set_engine_handle :: "ptr \<Rightarrow> ptr \<Rightarrow> bucket_engine \<Rightarrow> (ptr \<times> bucket_engine) option" where
  "set_engine_handle cookie p b =
     do {
       es \<leftarrow> be_cookies b cookie;
       let old = es_peh es;
       (q, b) \<leftarrow> retain_handle p b;
       let b = set_es cookie (Some (es\<lparr>es_peh := q\<rparr>)) b;
       b \<leftarrow> release_handle old b;
       Some (q, b)
     }"

definition bucket_store_engine_specific :: "ptr \<Rightarrow> ptr \<Rightarrow> bucket_engine \<Rightarrow> bucket_engine option" where
  "bucket_store_engine_specific cookie d b =
     do { es \<leftarrow> be_cookies b cookie; Some (set_es cookie (Some (es\<lparr>es_specific := d\<rparr>)) b) }"

definition bucket_get_engine_specific :: "ptr \<Rightarrow> bucket_engine \<Rightarrow> ptr option" where
  "bucket_get_engine_specific cookie b = map_option es_specific (be_cookies b cookie)"

definition handle_disconnect :: "ptr \<Rightarrow> bucket_engine \<Rightarrow> bucket_engine option" where
  "handle_disconnect cookie b =
     (case be_cookies b cookie of
        None \<Rightarrow> Some b
      | Some es \<Rightarrow>
          let p = es_peh es in
          if p = NULL then Some (set_es cookie None b)
          else do {
            h \<leftarrow> be_pehs b p;
            let b = (if wants_disconnects h \<and> pe_state h = STATE_RUNNING
                     then event (Disconnected (pe_engine h) cookie) b else b);
            if es_reserved es = 0 then
              do { b \<leftarrow> release_handle_locked p b; Some (set_es cookie None b) }
            else Some (set_es cookie (Some (es\<lparr>es_notified := True\<rparr>)) b)
          })"

definition handle_connect :: "load_env \<Rightarrow> bool \<Rightarrow> ptr \<Rightarrow> bucket_engine \<Rightarrow> bucket_engine option" where
  "handle_connect env ok cookie b =
     do {
       (p, b) \<leftarrow> (case default_bucket_name b of
          Some name \<Rightarrow>
            do {
              (p, b) \<leftarrow> find_bucket name b;
              if p = NULL \<and> auto_create b then
                do { (rv, p, b) \<leftarrow> create_bucket env True name (default_engine_path b) b; Some (p, b) }
              else Some (p, b)
            }
        | None \<Rightarrow>
            if default_pe b \<noteq> NULL then
              do {
                (t, b) \<leftarrow> retain_handle DEFAULT_ENGINE b;
                guard (t = DEFAULT_ENGINE);
                Some (DEFAULT_ENGINE, b)
              }
            else Some (NULL, b));
       b \<leftarrow> create_engine_specific ok cookie b;
       (q, b) \<leftarrow> set_engine_handle cookie p b;
       release_handle p b
     }"

definition handle_auth :: "load_env \<Rightarrow> byte list \<Rightarrow> ptr \<Rightarrow> bucket_engine \<Rightarrow> bucket_engine option" where
  "handle_auth env username cookie b =
     do {
       (p, b) \<leftarrow> find_bucket username b;
       (p, b) \<leftarrow> (if p = NULL \<and> auto_create b then
                    do { (rv, p, b) \<leftarrow> create_bucket env True username (default_engine_path b) b; Some (p, b) }
                  else Some (p, b));
       (q, b) \<leftarrow> set_engine_handle cookie p b;
       release_handle p b
     }"

section \<open>Shutting down a bucket\<close>

text \<open>
  The thread of one bucket, from one critical section to the next. The wait for the last reference
  is repeated until there is none or the whole process is shut down.
\<close>

definition set_pc :: "ptr \<Rightarrow> shutdown_pc option \<Rightarrow> bucket_engine \<Rightarrow> bucket_engine" where
  "set_pc p pc b = b\<lparr>be_threads := (be_threads b)(p := pc)\<rparr>"

definition engine_shutdown_thread :: "ptr \<Rightarrow> bucket_engine \<Rightarrow> bucket_engine option" where
  "engine_shutdown_thread p b =
     do {
       pc \<leftarrow> be_threads b p;
       case pc of
         PC_START \<Rightarrow>
           if in_progress b then Some (set_pc p None b)
           else Some (set_pc p (Some PC_DESTROY) (b\<lparr>bucket_counter := bucket_counter b + 1\<rparr>))
       | PC_DESTROY \<Rightarrow>
           do {
             h \<leftarrow> be_pehs b p;
             guard (pe_state h = STATE_STOPPING);
             guard (pe_clients h = 0);
             Some (set_pc p (Some PC_CLEAR) (event (EngineDestroyed (pe_engine h) (force_shutdown h)) b))
           }
       | PC_CLEAR \<Rightarrow>
           do {
             h \<leftarrow> be_pehs b p;
             Some (set_pc p (Some PC_UNLINK) (peh_upd p (\<lambda>h. h\<lparr>pe_engine := NULL\<rparr>) b))
           }
       | PC_UNLINK \<Rightarrow>
           do {
             h \<leftarrow> be_pehs b p;
             (upd, b) \<leftarrow> engines_delete_all (pe_name h) b;
             guard (upd = 1);
             q \<leftarrow> find_bucket_inner (pe_name h) b;
             guard (q = NULL);
             Some (set_pc p (Some PC_STOPPED) b)
           }
       | PC_STOPPED \<Rightarrow>
           do {
             h \<leftarrow> be_pehs b p;
             let b = peh_upd p (\<lambda>h. h\<lparr>pe_state := STATE_STOPPED\<rparr>) b;
             let b = (if pe_cookie h \<noteq> NULL then event (IoComplete (pe_cookie h)) b else b);
             Some (set_pc p (Some PC_WAIT) b)
           }
       | PC_WAIT \<Rightarrow>
           do {
             h \<leftarrow> be_pehs b p;
             Some (if pe_refcount h > 0 \<and> \<not> in_progress b then b else set_pc p (Some PC_FREE) b)
           }
       | PC_FREE \<Rightarrow>
           do {
             b \<leftarrow> free_engine_handle p b;
             Some (set_pc p None (b\<lparr>bucket_counter := bucket_counter b - 1\<rparr>))
           }
     }"

section \<open>Administration\<close>

text \<open>The buckets that run, each with a reference, the last one of the table first.\<close>

definition add_engine ::
    "key \<Rightarrow> u64 \<Rightarrow> ptr \<Rightarrow> u64 \<Rightarrow> ((key \<times> ptr) list \<times> bucket_engine) option \<Rightarrow> ((key \<times> ptr) list \<times> bucket_engine) option" where
  "add_engine key nkey val nval s =
     do {
       (blist, b) \<leftarrow> s;
       (p, b) \<leftarrow> retain_handle val b;
       Some (if p = NULL then (blist, b) else ((take (unat nkey) key, val) # blist, b))
     }"

definition list_buckets :: "bucket_engine \<Rightarrow> ((key \<times> ptr) list \<times> bucket_engine) option" where
  "list_buckets b = do { r \<leftarrow> genhash_iter (be_engines b) add_engine (Some ([], b)); r }"

fun bucket_list_free :: "(key \<times> ptr) list \<Rightarrow> bucket_engine \<Rightarrow> bucket_engine option" where
  "bucket_list_free [] b = Some b"
| "bucket_list_free ((n, p) # ps) b = do { b \<leftarrow> release_handle p b; bucket_list_free ps b }"

text \<open>The handles whose statistics are given to the callback, in order.\<close>

definition bucket_aggregate_stats :: "bucket_engine \<Rightarrow> (ENGINE_ERROR_CODE \<times> ptr list \<times> bucket_engine) option" where
  "bucket_aggregate_stats b =
     do {
       (blist, b) \<leftarrow> list_buckets b;
       b \<leftarrow> bucket_list_free blist b;
       Some (ENGINE_SUCCESS, map snd blist, b)
     }"

fun bucket_state_name :: "bucket_state_t \<Rightarrow> string" where
  "bucket_state_name STATE_NULL = ''NULL''"
| "bucket_state_name STATE_RUNNING = ''running''"
| "bucket_state_name STATE_STOP_REQUESTED = ''stop requested''"
| "bucket_state_name STATE_STOPPING = ''stopping''"
| "bucket_state_name STATE_STOPPED = ''stopped''"

definition stat_ht_builder ::
    "bucket_engine \<Rightarrow> key \<Rightarrow> u64 \<Rightarrow> ptr \<Rightarrow> u64 \<Rightarrow> (key \<times> string) list option \<Rightarrow> (key \<times> string) list option" where
  "stat_ht_builder b key nkey val nval s =
     do {
       out \<leftarrow> s;
       h \<leftarrow> be_pehs b val;
       Some (out @ [(take (unat nkey) key, bucket_state_name (pe_state h))])
     }"

text \<open>\<open>noauth\<close> is the environment variable of the tests; \<open>user\<close> is the authenticated user of the connection.\<close>

definition is_authorized :: "bool \<Rightarrow> byte list option \<Rightarrow> bucket_engine \<Rightarrow> bool" where
  "is_authorized noauth user b =
     (noauth \<or> (case (admin_user b, user) of (Some a, Some u) \<Rightarrow> u = a | _ \<Rightarrow> False))"

definition get_bucket_stats :: "bool \<Rightarrow> byte list option \<Rightarrow> bucket_engine \<Rightarrow> (ENGINE_ERROR_CODE \<times> (key \<times> string) list) option" where
  "get_bucket_stats noauth user b =
     (if \<not> is_authorized noauth user b then Some (ENGINE_FAILED, [])
      else do {
        r \<leftarrow> genhash_iter (be_engines b) (stat_ht_builder b) (Some []);
        out \<leftarrow> r;
        Some (ENGINE_SUCCESS, out)
      })"

definition is_admin_command :: "u8 \<Rightarrow> bool" where
  "is_admin_command opcode = (opcode \<in> {0x85, 0x25, 0x86, 0x26, 0x87, 0x27, 0x89, 0x29})"

datatype bin_status = RESPONSE_SUCCESS | RESPONSE_KEY_ENOENT | RESPONSE_KEY_EEXISTS | RESPONSE_EINVAL | RESPONSE_NOT_STORED

text \<open>The result of a command: the return value, the response that was sent, if any, and its body.\<close>

type_synonym be_reply = "ENGINE_ERROR_CODE \<times> (bin_status \<times> byte list) option"

definition handle_create_bucket :: "load_env \<Rightarrow> byte list \<Rightarrow> byte list \<Rightarrow> bucket_engine \<Rightarrow> (be_reply \<times> bucket_engine) option" where
  "handle_create_bucket env key body b =
     (if length body \<ge> 65536 then Some ((ENGINE_DISCONNECT, None), b)
      else if c_string body = [] then Some ((ENGINE_SUCCESS, Some (RESPONSE_EINVAL, [])), b)
      else do {
        (ret, p, b) \<leftarrow> create_bucket env False (c_string key) (Some (c_string body)) b;
        Some ((ENGINE_SUCCESS, Some ((if ret = ENGINE_SUCCESS then RESPONSE_SUCCESS
                                      else if ret = ENGINE_KEY_EEXISTS then RESPONSE_KEY_EEXISTS
                                      else RESPONSE_NOT_STORED), [])), b)
      })"

text \<open>
  \<open>force\<close> is the result of parsing the body of the request: nothing when it is not valid. \<open>breq\<close> is
  the address of the request, which marks the connection until the bucket is gone.
\<close>

definition handle_delete_bucket ::
    "bool option \<Rightarrow> ptr \<Rightarrow> ptr \<Rightarrow> byte list \<Rightarrow> byte list \<Rightarrow> bucket_engine \<Rightarrow> (be_reply \<times> bucket_engine) option" where
  "handle_delete_bucket force breq cookie key body b =
     do {
       userdata \<leftarrow> bucket_get_engine_specific cookie b;
       if userdata = NULL then
         (if length body \<ge> 65536 then Some ((ENGINE_DISCONNECT, None), b)
          else case (if c_string body = [] then Some False else force) of
            None \<Rightarrow> Some ((ENGINE_SUCCESS, Some (RESPONSE_EINVAL, [])), b)
          | Some force \<Rightarrow>
              do {
                (p, b) \<leftarrow> find_bucket (c_string key) b;
                (found, b) \<leftarrow>
                  (if p = NULL then Some (False, b)
                   else do {
                     h \<leftarrow> be_pehs b p;
                     (found, b) \<leftarrow>
                       (if pe_state h = STATE_RUNNING then
                          do {
                            b \<leftarrow> release_handle_locked p (peh_upd p (\<lambda>h. h\<lparr>pe_cookie := cookie,
                                   pe_state := STATE_STOP_REQUESTED, force_shutdown := force\<rparr>) b);
                            Some (True, b)
                          }
                        else Some (False, b));
                     es \<leftarrow> be_cookies b cookie;
                     let b = (if es_peh es = p then set_es cookie (Some (es\<lparr>es_peh := NULL\<rparr>)) b else b);
                     b \<leftarrow> release_handle_locked p b;
                     Some (found, b)
                   });
                if found then
                  do { b \<leftarrow> bucket_store_engine_specific cookie breq b; Some ((ENGINE_EWOULDBLOCK, None), b) }
                else Some ((ENGINE_SUCCESS, Some (RESPONSE_KEY_ENOENT, [])), b)
              })
       else do {
         b \<leftarrow> bucket_store_engine_specific cookie NULL b;
         Some ((ENGINE_SUCCESS, Some (RESPONSE_SUCCESS, [])), b)
       }
     }"

fun join_names :: "(key \<times> ptr) list \<Rightarrow> byte list" where
  "join_names [] = []"
| "join_names [(n, p)] = n"
| "join_names ((n, p) # ps) = n @ 32 # join_names ps"

definition handle_list_buckets :: "bucket_engine \<Rightarrow> (be_reply \<times> bucket_engine) option" where
  "handle_list_buckets b =
     do {
       (blist, b) \<leftarrow> list_buckets b;
       b \<leftarrow> bucket_list_free blist b;
       Some ((ENGINE_SUCCESS, Some (RESPONSE_SUCCESS, join_names blist)), b)
     }"

definition handle_select_bucket :: "ptr \<Rightarrow> byte list \<Rightarrow> bucket_engine \<Rightarrow> (be_reply \<times> bucket_engine) option" where
  "handle_select_bucket cookie key b =
     do {
       (p, b) \<leftarrow> find_bucket (c_string key) b;
       (q, b) \<leftarrow> set_engine_handle cookie p b;
       b \<leftarrow> release_handle p b;
       Some ((ENGINE_SUCCESS, Some (if p \<noteq> NULL then RESPONSE_SUCCESS else RESPONSE_KEY_ENOENT, [])), b)
     }"

text \<open>The unsupported command has no response of its own.\<close>

definition bucket_unknown_command ::
    "bool \<Rightarrow> byte list option \<Rightarrow> load_env \<Rightarrow> bool option \<Rightarrow> be_reply engine_call \<Rightarrow> ptr \<Rightarrow> ptr \<Rightarrow> u8 \<Rightarrow> byte list \<Rightarrow> byte list
     \<Rightarrow> bucket_engine \<Rightarrow> (be_reply \<times> bucket_engine) option" where
  "bucket_unknown_command noauth user env force call breq cookie opcode key body b =
     (if is_admin_command opcode then
        (if is_authorized noauth user b then
           (if opcode \<in> {0x85, 0x25} then handle_create_bucket env key body b
            else if opcode \<in> {0x86, 0x26} then handle_delete_bucket force breq cookie key body b
            else if opcode \<in> {0x87, 0x27} then handle_list_buckets b
            else handle_select_bucket cookie key b)
         else Some ((ENGINE_ENOTSUP, None), b))
      else proxy call (ENGINE_DISCONNECT, None) cookie b)"

section \<open>Reserving a connection\<close>

text \<open>\<open>upstream\<close> is the answer of the server.\<close>

definition bucket_engine_reserve_cookie ::
    "ENGINE_ERROR_CODE \<Rightarrow> ptr \<Rightarrow> bucket_engine \<Rightarrow> (ENGINE_ERROR_CODE \<times> bucket_engine) option" where
  "bucket_engine_reserve_cookie upstream cookie b =
     (case be_cookies b cookie of
        None \<Rightarrow> Some (ENGINE_FAILED, b)
      | Some es \<Rightarrow>
          let p = (if es_peh es \<noteq> NULL then es_peh es else if default_pe b \<noteq> NULL then DEFAULT_ENGINE else NULL) in
          if p = NULL then Some (ENGINE_FAILED, b)
          else do {
            h \<leftarrow> be_pehs b p;
            Some (if pe_state h = STATE_RUNNING then
                    (upstream, set_es cookie (Some (es\<lparr>es_reserved := es_reserved es + 1\<rparr>))
                       (peh_upd p (\<lambda>h. h\<lparr>pe_refcount := pe_refcount h + 1\<rparr>) b))
                  else (ENGINE_FAILED, b))
          })"

definition bucket_engine_release_cookie :: "ptr \<Rightarrow> bucket_engine \<Rightarrow> (ENGINE_ERROR_CODE \<times> bucket_engine) option" where
  "bucket_engine_release_cookie cookie b =
     do {
       es \<leftarrow> be_cookies b cookie;
       guard (es_reserved es > 0);
       let p = es_peh es;
       guard (p \<noteq> NULL);
       h \<leftarrow> be_pehs b p;
       let es = es\<lparr>es_reserved := es_reserved es - 1\<rparr>;
       let (n, b) = (if es_notified es \<and> es_reserved es = 0 then (pe_refcount h - 1, set_es cookie None b)
                     else (pe_refcount h, set_es cookie (Some es) b));
       guard (n > 0);
       let b = peh_upd p (\<lambda>h. h\<lparr>pe_refcount := n - 1\<rparr>) b;
       b \<leftarrow> (if n - 1 = 0 then maybe_start_engine_shutdown p b else Some b);
       Some (ENGINE_SUCCESS, b)
     }"

section \<open>Statistics\<close>

definition bucket_get_stats ::
    "bool \<Rightarrow> byte list option \<Rightarrow> (ENGINE_ERROR_CODE \<times> (byte list \<times> byte list) list) engine_call \<Rightarrow> ptr \<Rightarrow> byte list \<Rightarrow> bucket_engine
     \<Rightarrow> ((ENGINE_ERROR_CODE \<times> (byte list \<times> byte list) list) \<times> bucket_engine) option" where
  "bucket_get_stats noauth user get_stats cookie stat_key b =
     (if stat_key = map of_char ''bucket'' then
        do {
          (rc, out) \<leftarrow> get_bucket_stats noauth user b;
          Some ((rc, map (\<lambda>(n, s). (n, map of_char s)) out), b)
        }
      else do {
       (p, b) \<leftarrow> get_engine_handle cookie b;
       if p = NULL then Some ((ENGINE_DISCONNECT, []), b)
       else do {
         h \<leftarrow> be_pehs b p;
         ((rc, out), b) \<leftarrow> get_stats (pe_engine h) b;
         h \<leftarrow> be_pehs b p;
         let out = (if stat_key = [] then out @
             [(map of_char ''bucket_conns'', print_decimal (nat (pe_refcount h - 1))),
              (map of_char ''bucket_active_conns'', print_decimal (nat (pe_clients h)))] else out);
         b \<leftarrow> release_engine_handle p b;
         Some ((rc, out), b)
       }
     })"

section \<open>Starting and stopping\<close>

definition opt_item :: "string \<Rightarrow> config_datatype \<Rightarrow> config_value \<Rightarrow> config_item" where
  "opt_item k d v = \<lparr>ci_key = map of_char k, ci_datatype = d, ci_value = v, ci_found = False\<rparr>"

fun the_string :: "config_item \<Rightarrow> byte list option" where
  "the_string it = (case ci_value it of VString s \<Rightarrow> s | _ \<Rightarrow> None)"

fun the_bool :: "config_item \<Rightarrow> bool" where
  "the_bool it = (case ci_value it of VBool x \<Rightarrow> x | _ \<Rightarrow> False)"

text \<open>\<open>parse\<close> is \<^verbatim>\<open>parse_config\<close> of the server.\<close>

definition initialize_configuration ::
    "(byte list \<Rightarrow> config_item list \<Rightarrow> (int \<times> config_item list) option) \<Rightarrow> byte list option \<Rightarrow> bucket_engine
     \<Rightarrow> (ENGINE_ERROR_CODE \<times> bucket_engine) option" where
  "initialize_configuration parse cfg_str b =
     (let b = b\<lparr>auto_create := True\<rparr> in
      case cfg_str of
        None \<Rightarrow> Some (ENGINE_SUCCESS, b)
      | Some cfg \<Rightarrow>
          do {
            (r, items) \<leftarrow> parse cfg
              [opt_item ''engine'' DT_STRING (VString (default_engine_path b)), opt_item ''admin'' DT_STRING (VString (admin_user b)),
               opt_item ''default'' DT_BOOL (VBool (has_default b)),
               opt_item ''default_bucket_name'' DT_STRING (VString (default_bucket_name b)),
               opt_item ''default_bucket_config'' DT_STRING (VString (default_bucket_config b)),
               opt_item ''auto_create'' DT_BOOL (VBool (auto_create b)), opt_item ''config_file'' DT_CONFIGFILE VNone];
            guard (length items = 7);
            let b = b\<lparr>has_default := the_bool (items ! 2), auto_create := the_bool (items ! 5),
                      default_engine_path := the_string (items ! 0), admin_user := the_string (items ! 1),
                      default_bucket_name := the_string (items ! 3), default_bucket_config := the_string (items ! 4)\<rparr>;
            if r = 0 then
              (let b = (if \<not> ci_found (items ! 0) then b\<lparr>default_engine_path := None\<rparr> else b);
                   b = (if \<not> ci_found (items ! 1) then b\<lparr>admin_user := None\<rparr> else b);
                   b = (if \<not> ci_found (items ! 3) then b\<lparr>default_bucket_name := None\<rparr> else b);
                   b = (if \<not> ci_found (items ! 4) then b\<lparr>default_bucket_config := Some []\<rparr> else b)
               in Some (ENGINE_SUCCESS, b))
            else Some (ENGINE_FAILED, b)
          })"

definition init_default_bucket :: "load_env \<Rightarrow> bucket_engine \<Rightarrow> (ENGINE_ERROR_CODE \<times> bucket_engine) option" where
  "init_default_bucket env b =
     (let (ret, h) = init_engine_handle env [] (default_engine_path b) zeroed;
          b = b\<lparr>be_pehs := (be_pehs b)(DEFAULT_ENGINE \<mapsto> h)\<rparr>
      in if ret \<noteq> ENGINE_SUCCESS then Some (ret, b)
         else
           (let b = peh_upd DEFAULT_ENGINE (\<lambda>h. h\<lparr>pe_engine := le_engine env\<rparr>) b in
            if le_engine env = NULL then Some (ENGINE_FAILED, b)
            else do {
              b \<leftarrow> (if le_wants env then bucket_register_callback (le_engine env) b else Some b);
              Some (if le_init_ok env then (ENGINE_SUCCESS, b)
                    else (ENGINE_FAILED, event (EngineDestroyed (le_engine env) False) b))
            }))"

text \<open>
  \<open>mutex_ok\<close> says whether the mutexes could be made. What is freed again after a failure is not
  used afterwards.
\<close>

definition bucket_initialize ::
    "(byte list \<Rightarrow> config_item list \<Rightarrow> (int \<times> config_item list) option) \<Rightarrow> load_env \<Rightarrow> bool \<Rightarrow> byte list option \<Rightarrow> bucket_engine
     \<Rightarrow> (ENGINE_ERROR_CODE \<times> bucket_engine) option" where
  "bucket_initialize parse env mutex_ok config_str b =
     do {
       guard (\<not> be_initialized b);
       if \<not> mutex_ok then Some (ENGINE_FAILED, b)
       else do {
         (ret, b) \<leftarrow> initialize_configuration parse config_str b;
         if ret \<noteq> ENGINE_SUCCESS then Some (ret, b)
         else do {
           t \<leftarrow> genhash_init (le_table_ok env) 1 be_hash_ops;
           case t of
             None \<Rightarrow> Some (ENGINE_ENOMEM, b)
           | Some t \<Rightarrow>
               do {
                 let b = b\<lparr>be_engines := t\<rparr>;
                 (ret, b) \<leftarrow> (if has_default b then init_default_bucket env b else Some (ENGINE_SUCCESS, b));
                 if ret \<noteq> ENGINE_SUCCESS then Some (ret, b)
                 else Some (ENGINE_SUCCESS, b\<lparr>be_initialized := True\<rparr>)
               }
         }
       }
     }"

definition bucket_shutdown_engine ::
    "key \<Rightarrow> u64 \<Rightarrow> ptr \<Rightarrow> u64 \<Rightarrow> bucket_engine option \<Rightarrow> bucket_engine option" where
  "bucket_shutdown_engine key nkey val nval s =
     do {
       b \<leftarrow> s;
       h \<leftarrow> be_pehs b val;
       Some (if pe_engine h \<noteq> NULL then event (EngineDestroyed (pe_engine h) False) b else b)
     }"

text \<open>The two parts of \<^verbatim>\<open>bucket_destroy\<close>: before and after the wait for the threads that shut down buckets.\<close>

definition bucket_destroy_begin :: "bucket_engine \<Rightarrow> bucket_engine" where
  "bucket_destroy_begin b = (if \<not> be_initialized b then b else b\<lparr>in_progress := True\<rparr>)"

definition bucket_destroy_end :: "bucket_engine \<Rightarrow> bucket_engine option" where
  "bucket_destroy_end b =
     (if \<not> be_initialized b then Some b
      else do {
        guard (bucket_counter b = 0);
        r \<leftarrow> genhash_iter (be_engines b) bucket_shutdown_engine (Some b);
        b \<leftarrow> r;
        (ks, vs) \<leftarrow> genhash_free (Some (be_engines b));
        b \<leftarrow> free_values (rev vs) b;
        Some (b\<lparr>default_engine_path := None, admin_user := None, default_bucket_name := None,
               default_bucket_config := None, be_initialized := False\<rparr>)
      })"

end
