(* ===== verification/Bucket_Inv.thy ===== *)
theory Bucket_Inv
  imports Bucket_Engine
begin

unbundle bit_operations_syntax

text \<open>
  The invariant of the bucket engine: the table of buckets is a map from the names to the handles
  that are not yet stopped, every connection refers to an allocated handle, the reference count of
  a handle covers the reference of the table, those of the connections and those an operation
  holds, and the state of a handle goes with the point of its shutdown thread. Each lemma shows
  that an operation returns and keeps the invariant.
\<close>

section \<open>The table as a map from names to handles\<close>

definition names :: "(key, ptr) genhash \<Rightarrow> (key \<rightharpoonup> ptr) \<Rightarrow> bool" where
  "names h m \<longleftrightarrow> gh_ok h \<and> gh_ops h = be_hash_ops \<and> gh_freed_values h = []
     \<and> (\<forall>e \<in> set (entries h). fits_length (ge_key e) \<and> ge_nkey e = of_nat (length (ge_key e)))
     \<and> (\<forall>k. fits_length k \<longrightarrow> values_of h k (of_nat (length k)) = (case m k of None \<Rightarrow> [] | Some p \<Rightarrow> [p]))"

lemma good_be_hash_ops: "good_ops be_hash_ops"
proof -
  have "equivp (key_eq be_hash_ops)"
    by (rule equivpI) (auto simp: be_hash_ops_def my_hash_eq_def reflp_def symp_def transp_def)
  then show ?thesis by (auto simp: good_ops_def be_hash_ops_def my_hash_eq_def hash_strdup_def min_def)
qed

text \<open>The log of the freed values is no part of the table.\<close>

lemma freed_irrelevant [simp]:
  "gh_ok (h\<lparr>gh_freed_values := x\<rparr>) = gh_ok h" "values_of (h\<lparr>gh_freed_values := x\<rparr>) = values_of h"
  "gh_ok (h\<lparr>gh_freed_keys := y\<rparr>) = gh_ok h" "values_of (h\<lparr>gh_freed_keys := y\<rparr>) = values_of h"
  by (simp_all add: gh_ok_def bucket_of_def values_of_def matches_def [abs_def] fun_eq_iff)

lemma store_entries:
  assumes "genhash_store ok h k n v vn = Some h'" "gh_ops h = be_hash_ops"
  shows "set (entries h') \<subseteq> insert \<lparr>ge_key = take (unat n) k, ge_nkey = n, ge_value = v, ge_nvalue = vn\<rparr> (set (entries h))"
    "gh_freed_values h' = gh_freed_values h"
  using assms
  by (auto simp: genhash_store_def Let_def bind_eq_Some_conv arr_get_eq_Some be_hash_ops_def dup_key_def dup_value_def hash_strdup_def
      guard_bind_eq_Some dest!: set_update_subset_insert [THEN subsetD] split: if_splits)

lemma update_new:
  assumes "genhash_update ok h k n v vn = Some (NEW, h')"
  shows "genhash_store ok h k n v vn = Some h'"
  using assms by (auto simp: genhash_update_def Let_def bind_eq_Some_conv split: option.splits)

lemma delete_entries:
  assumes "genhash_delete h k n = Some (d, h')"
  shows "set (entries h') \<subseteq> set (entries h)" "gh_ops h' = gh_ops h"
proof -
  let ?n = "bucket_of h k n"
  obtain r b' where r: "remove_first (\<lambda>p. hasheq (gh_ops h) (ge_key p) (ge_nkey p) k n) (gh_buckets h ! ?n) = (r, b')" "?n < length (gh_buckets h)"
    and h': "(d, h') = (case r of None \<Rightarrow> (0, h) | Some p \<Rightarrow> (1, free_item p (h\<lparr>gh_buckets := (gh_buckets h)[?n := b']\<rparr>)))"
    using assms by (auto simp: genhash_delete_def Let_def bind_eq_Some_conv arr_get_eq_Some split: prod.splits)
  have "set b' \<subseteq> set (gh_buckets h ! ?n)"
    using remove_first_filter [OF r(1)] by (auto split: option.splits dest!: arg_cong [where f = set_mset])
  then have "set (concat ((gh_buckets h)[?n := b'])) \<subseteq> set (concat (gh_buckets h))"
    using set_update_subset_insert [of "gh_buckets h" ?n b'] nth_mem [OF r(2)] by auto
  then show "set (entries h') \<subseteq> set (entries h)" "gh_ops h' = gh_ops h"
    using h' by (auto simp: free_item_def free_value_def free_key_def split: option.splits)
qed

lemma delete_freed:
  assumes "genhash_delete h k n = Some (1, h')" "gh_ok h" "freeValue (gh_ops h)"
  shows "gh_freed_values h' = hd (values_of h k n) # gh_freed_values h"
proof -
  let ?n = "bucket_of h k n"
  let ?P = "\<lambda>p. hasheq (gh_ops h) (ge_key p) (ge_nkey p) k n"
  obtain p b' where r: "remove_first ?P (gh_buckets h ! ?n) = (Some p, b')"
    and h': "h' = free_item p (h\<lparr>gh_buckets := (gh_buckets h)[?n := b']\<rparr>)"
    using assms(1) by (auto simp: genhash_delete_def Let_def bind_eq_Some_conv arr_get_eq_Some split: prod.splits option.splits)
  have "?P = matches h k n"
    using good_opsD(2) [OF gh_okD(1) [OF assms(2)]] by (auto simp: matches_def fun_eq_iff)
  then have "hd (values_of h k n) = ge_value p"
    using remove_first_filter [OF r] by (simp add: values_of_def)
  then show ?thesis
    using h' assms(3) by (simp add: free_item_def free_value_def free_key_def)
qed


lemma delete_all_entries:
  assumes "genhash_delete_all h k n rv = Some (d, h')"
  shows "set (entries h') \<subseteq> set (entries h) \<and> gh_ops h' = gh_ops h"
proof -
  let ?P = "\<lambda>h k n rv r. set (entries (snd r)) \<subseteq> set (entries h) \<and> gh_ops (snd r) = gh_ops h"
  have "?P h k n rv (d, h')"
  proof (rule genhash_delete_all.raw_induct [where P = ?P, OF _ assms])
    fix f :: "('a, 'b) genhash \<Rightarrow> 'a \<Rightarrow> u64 \<Rightarrow> int \<Rightarrow> (int \<times> ('a, 'b) genhash) option" and h k n rv r
    assume IH: "\<And>h k n rv r. f h k n rv = Some r \<Longrightarrow> ?P h k n rv r"
      and "Option.bind (genhash_delete h k n) (\<lambda>(d, h). if d = 1 then f h k n (rv + 1) else Some (rv, h)) = Some r"
    then obtain d1 h1 where d: "genhash_delete h k n = Some (d1, h1)"
      "(if d1 = 1 then f h1 k n (rv + 1) else Some (rv, h1)) = Some r"
      by (auto simp: bind_eq_Some_conv)
    note e = delete_entries [OF d(1)]
    show "?P h k n rv r"
    proof (cases "d1 = 1")
      case True
      then have "f h1 k n (rv + 1) = Some r" using d(2) by simp
      from IH [OF this] e show ?thesis by (metis subset_trans)
    next
      case False
      then have "snd r = h1" using d(2) by auto
      then show ?thesis using e by simp
    qed
  qed
  then show ?thesis by simp
qed

lemma names_find:
  assumes "names h m" "fits_length k"
  shows "genhash_find h k (of_nat (length k)) = Some (m k)"
  using assms by (auto simp: names_def genhash_find_values split: option.splits)

lemma names_update:
  assumes "names h m" "fits_length k" "m k = None"
  shows "\<exists>h'. genhash_update True h k (of_nat (length k)) p 0 = Some (NEW, h') \<and> names h' (m(k \<mapsto> p))"
proof -
  have ops: "gh_ops h = be_hash_ops" and ok: "gh_ok h" using assms(1) by (simp_all add: names_def)
  obtain u h' where h': "genhash_update True h k (of_nat (length k)) p 0 = Some (u, h')" "gh_ok h'" "gh_ops h' = be_hash_ops"
    "u = NEW \<longleftrightarrow> values_of h k (of_nat (length k)) = []"
    "\<forall>k' n'. values_of h' k' n' = (if my_hash_eq k (of_nat (length k)) k' n'
        then p # tl (values_of h k' n') else values_of h k' n')"
    using genhash_update_values [OF ok, of k "of_nat (length k)" p 0] ops by (auto simp: be_hash_ops_def dup_value_def)
  have u: "u = NEW" using h'(4) assms by (simp add: names_def)
  note s = store_entries [OF update_new [OF h'(1) [unfolded u]] ops]
  have "unat (of_nat (length k) :: u64) = length k" using assms(2) by (simp add: unat_of_nat take_bit_nat_eq_self)
  then have "\<forall>e \<in> set (entries h'). fits_length (ge_key e) \<and> ge_nkey e = of_nat (length (ge_key e))"
    using s(1) assms(1,2) by (auto simp: names_def)
  moreover have "\<forall>k'. fits_length k' \<longrightarrow> values_of h' k' (of_nat (length k')) = (case (m(k \<mapsto> p)) k' of None \<Rightarrow> [] | Some p \<Rightarrow> [p])"
    using h'(5) my_hash_eq_keys [OF assms(2)] assms(1) assms(3) by (auto simp: names_def split: option.splits)
  ultimately have "names h' (m(k \<mapsto> p))" using h'(2,3) s(2) assms(1) by (simp add: names_def)
  then show ?thesis using h'(1) u by blast
qed

lemma names_delete_all:
  assumes "names h m" "fits_length k"
  shows "\<exists>h'. genhash_delete_all h k (of_nat (length k)) 0 = Some (if m k = None then 0 else 1, h')
    \<and> names (h'\<lparr>gh_freed_values := []\<rparr>) (m(k := None)) \<and> gh_freed_values h' = (case m k of None \<Rightarrow> [] | Some p \<Rightarrow> [p])"
proof -
  let ?n = "of_nat (length k) :: u64"
  have ops: "gh_ops h = be_hash_ops" and ok: "gh_ok h" using assms(1) by (simp_all add: names_def)
  have vs: "values_of h k ?n = (case m k of None \<Rightarrow> [] | Some p \<Rightarrow> [p])" using assms by (simp add: names_def)
  obtain h' where h': "genhash_delete_all h k ?n 0 = Some (0 + int (length (values_of h k ?n)), h')" "gh_ok h'" "gh_ops h' = be_hash_ops"
    "\<forall>k' n'. values_of h' k' n' = (if my_hash_eq k ?n k' n' then [] else values_of h k' n')"
    using genhash_delete_all_values [OF ok, of k ?n 0] ops by (auto simp: be_hash_ops_def)
  have "names (h'\<lparr>gh_freed_values := []\<rparr>) (m(k := None))"
    using h'(2-4) delete_all_entries [OF h'(1)] assms my_hash_eq_keys [OF assms(2)] by (auto simp: names_def split: option.splits)
  moreover have "gh_freed_values h' = (case m k of None \<Rightarrow> [] | Some p \<Rightarrow> [p])"
  proof (cases "m k")
    case None
    then have "genhash_delete h k ?n = Some (0, h)" using genhash_delete_values [OF ok, of k ?n] vs by auto
    then show ?thesis using h'(1) None assms(1) vs by (subst (asm) genhash_delete_all.simps) (simp add: names_def)
  next
    case (Some p)
    then obtain h1 where h1: "genhash_delete h k ?n = Some (1, h1)" "gh_ok h1" "values_of h1 k ?n = []"
      using genhash_delete_values [OF ok, of k ?n] vs ops my_hash_eq_keys [OF assms(2,2)] by (auto simp: be_hash_ops_def)
    have "gh_freed_values h1 = [p]"
      using delete_freed [OF h1(1) ok] vs Some ops assms(1) by (simp add: be_hash_ops_def names_def)
    moreover have "genhash_delete h1 k ?n = Some (0, h1)" using genhash_delete_values [OF h1(2), of k ?n] h1(3) by auto
    ultimately show ?thesis
      using h'(1) h1(1) Some by (subst (asm) genhash_delete_all.simps, subst (asm) genhash_delete_all.simps) simp
  qed
  ultimately show ?thesis using h'(1) vs by (auto split: option.splits)
qed

section \<open>The invariant\<close>

text \<open>The reference of the table: it is dropped when the bucket is asked to stop.\<close>

definition main_ref :: "proxied_engine_handle \<Rightarrow> int" where
  "main_ref h = (if pe_state h = STATE_RUNNING then 1 else 0)"

text \<open>The references of a connection: one of its own, and one for each time it is reserved.\<close>

definition conn_refs :: "engine_specific option \<Rightarrow> ptr \<Rightarrow> int" where
  "conn_refs x p = (case x of None \<Rightarrow> 0 | Some es \<Rightarrow> if es_peh es = p then 1 + es_reserved es else 0)"

definition refs :: "bucket_engine \<Rightarrow> ptr \<Rightarrow> int" where
  "refs b p = (\<Sum>c \<in> dom (be_cookies b). conn_refs (be_cookies b c) p)"

definition in_table :: "bucket_state_t \<Rightarrow> bool" where
  "in_table s \<longleftrightarrow> s \<in> {STATE_RUNNING, STATE_STOP_REQUESTED, STATE_STOPPING}"

text \<open>Which state goes with which point of the shutdown thread.\<close>

fun pc_ok :: "bucket_state_t \<Rightarrow> shutdown_pc option \<Rightarrow> bool" where
  "pc_ok STATE_RUNNING pc = (pc = None)"
| "pc_ok STATE_STOP_REQUESTED pc = (pc = None)"
| "pc_ok STATE_STOPPING pc = (pc \<in> {Some PC_START, Some PC_DESTROY, Some PC_CLEAR, Some PC_UNLINK})"
| "pc_ok STATE_NULL pc = (pc = Some PC_STOPPED)"
| "pc_ok STATE_STOPPED pc = (pc \<in> {Some PC_WAIT, Some PC_FREE})"

text \<open>
  \<open>ins p\<close> is the number of clients inside the engine of \<open>p\<close>; \<open>hold p\<close> are the references that the
  operation at work has taken for itself, none between operations.
\<close>

definition handle_ok :: "(ptr \<Rightarrow> nat) \<Rightarrow> (ptr \<Rightarrow> int) \<Rightarrow> bucket_engine \<Rightarrow> ptr \<Rightarrow> proxied_engine_handle \<Rightarrow> bool" where
  "handle_ok ins hold b p h \<longleftrightarrow>
     p \<noteq> NULL \<and> fits_length (pe_name h) \<and> pe_clients h = int (ins p)
     \<and> 0 \<le> hold p \<and> main_ref h + refs b p + hold p \<le> pe_refcount h
     \<and> (0 < ins p \<longrightarrow> pe_state h = STATE_RUNNING \<or> pe_state h = STATE_STOP_REQUESTED)
     \<and> (pe_state h = STATE_STOP_REQUESTED \<longrightarrow> 0 < ins p)
     \<and> (if p = DEFAULT_ENGINE
        then be_threads b p = None \<and> (pe_state h = STATE_RUNNING \<and> pe_engine h \<noteq> NULL \<or> pe_state h = STATE_NULL \<and> pe_engine h = NULL)
        else pc_ok (pe_state h) (be_threads b p)
          \<and> (be_threads b p \<in> {None, Some PC_START, Some PC_DESTROY} \<longrightarrow> pe_engine h \<noteq> NULL))
     \<and> (be_threads b p = Some PC_FREE \<longrightarrow> pe_refcount h \<le> 0)"

definition indexed_by :: "bucket_engine \<Rightarrow> (key \<rightharpoonup> ptr) \<Rightarrow> bool" where
  "indexed_by b m \<longleftrightarrow> (\<forall>k p. m k = Some p \<longleftrightarrow>
     p \<noteq> DEFAULT_ENGINE \<and> (\<exists>h. be_pehs b p = Some h \<and> pe_name h = k \<and> in_table (pe_state h)))"

definition cookie_ok :: "bucket_engine \<Rightarrow> engine_specific \<Rightarrow> bool" where
  "cookie_ok b es \<longleftrightarrow> 0 \<le> es_reserved es \<and> (es_peh es \<noteq> NULL \<longrightarrow> be_pehs b (es_peh es) \<noteq> None)"

definition be_inv :: "(ptr \<Rightarrow> nat) \<Rightarrow> (ptr \<Rightarrow> int) \<Rightarrow> bucket_engine \<Rightarrow> bool" where
  "be_inv ins hold b \<longleftrightarrow>
     finite (dom (be_cookies b)) \<and> thread_ok b \<and> \<not> in_progress b
     \<and> (\<exists>m. names (be_engines b) m \<and> indexed_by b m)
     \<and> be_pehs b DEFAULT_ENGINE \<noteq> None
     \<and> (\<forall>c es. be_cookies b c = Some es \<longrightarrow> cookie_ok b es)
     \<and> (\<forall>p h. be_pehs b p = Some h \<longrightarrow> handle_ok ins hold b p h)
     \<and> (\<forall>p. be_pehs b p = None \<longrightarrow> ins p = 0 \<and> hold p = 0 \<and> be_threads b p = None)"

lemma be_invD:
  assumes "be_inv ins hold b"
  shows "finite (dom (be_cookies b))" "thread_ok b" "\<not> in_progress b" "be_pehs b DEFAULT_ENGINE \<noteq> None"
    "be_cookies b c = Some es \<Longrightarrow> cookie_ok b es" "be_pehs b p = Some h \<Longrightarrow> handle_ok ins hold b p h"
    "be_pehs b p = None \<Longrightarrow> ins p = 0 \<and> hold p = 0 \<and> be_threads b p = None"
  using assms by (auto simp: be_inv_def)

lemma handle_okD:
  assumes "handle_ok ins hold b p h"
  shows "p \<noteq> NULL" "fits_length (pe_name h)" "pe_clients h = int (ins p)" "0 \<le> hold p"
    "main_ref h + refs b p + hold p \<le> pe_refcount h"
    "0 < ins p \<Longrightarrow> pe_state h = STATE_RUNNING \<or> pe_state h = STATE_STOP_REQUESTED"
    "pe_state h = STATE_STOP_REQUESTED \<Longrightarrow> 0 < ins p"
    "p = DEFAULT_ENGINE \<Longrightarrow> be_threads b p = None \<and> (pe_state h = STATE_RUNNING \<and> pe_engine h \<noteq> NULL \<or> pe_state h = STATE_NULL \<and> pe_engine h = NULL)"
    "p \<noteq> DEFAULT_ENGINE \<Longrightarrow> pc_ok (pe_state h) (be_threads b p)"
    "p \<noteq> DEFAULT_ENGINE \<Longrightarrow> be_threads b p \<in> {None, Some PC_START, Some PC_DESTROY} \<Longrightarrow> pe_engine h \<noteq> NULL"
    "be_threads b p = Some PC_FREE \<Longrightarrow> pe_refcount h \<le> 0"
  using assms by (auto simp: handle_ok_def split: if_splits)

lemma refs_nonneg:
  assumes "be_inv ins hold b"
  shows "0 \<le> refs b p"
  unfolding refs_def
proof (rule sum_nonneg)
  fix c assume "c \<in> dom (be_cookies b)"
  then obtain es where "be_cookies b c = Some es" by blast
  with be_invD(5) [OF assms this] show "0 \<le> conn_refs (be_cookies b c) p"
    by (simp add: conn_refs_def cookie_ok_def)
qed

lemma refs_cong: "be_cookies b' = be_cookies b \<Longrightarrow> refs b' p = refs b p"
  by (simp add: refs_def)

lemma refs_ge:
  assumes "be_inv ins hold b" "be_cookies b c = Some es" "es_peh es = p"
  shows "1 + es_reserved es \<le> refs b p"
proof -
  have "conn_refs (be_cookies b c) p \<le> (\<Sum>c \<in> dom (be_cookies b). conn_refs (be_cookies b c) p)"
  proof (rule member_le_sum)
    show "c \<in> dom (be_cookies b)" "finite (dom (be_cookies b))" using assms be_invD(1) by auto
    fix x assume "x \<in> dom (be_cookies b) - {c}"
    then obtain es' where "be_cookies b x = Some es'" by blast
    with be_invD(5) [OF assms(1) this] show "0 \<le> conn_refs (be_cookies b x) p"
      by (simp add: conn_refs_def cookie_ok_def)
  qed
  then show ?thesis using assms by (simp add: refs_def conn_refs_def)
qed

lemma refs_set_es:
  assumes "finite (dom (be_cookies b))"
  shows "refs (set_es c x b) p = refs b p - conn_refs (be_cookies b c) p + conn_refs x p"
proof -
  let ?f = "be_cookies b" and ?g = "(be_cookies b)(c := x)"
  let ?D = "insert c (dom ?f)"
  have ext: "(\<Sum>k \<in> dom g. conn_refs (g k) p) = (\<Sum>k \<in> ?D. conn_refs (g k) p)" if "dom g \<subseteq> ?D" for g
    by (rule sum.mono_neutral_left) (use assms that in \<open>auto simp: conn_refs_def split: option.splits\<close>)
  have "(\<Sum>k \<in> ?D. conn_refs (?g k) p) = conn_refs x p + (\<Sum>k \<in> ?D - {c}. conn_refs (?g k) p)"
    using assms by (subst sum.remove [of ?D c]) auto
  moreover have "(\<Sum>k \<in> ?D. conn_refs (?f k) p) = conn_refs (?f c) p + (\<Sum>k \<in> ?D - {c}. conn_refs (?f k) p)"
    using assms by (subst sum.remove [of ?D c]) auto
  moreover have "(\<Sum>k \<in> ?D - {c}. conn_refs (?g k) p) = (\<Sum>k \<in> ?D - {c}. conn_refs (?f k) p)"
    by (rule sum.cong) auto
  moreover have "dom ?g \<subseteq> ?D" by (auto split: if_splits)
  moreover have "(\<Sum>k \<in> dom ?f. conn_refs (?f k) p) = (\<Sum>k \<in> ?D. conn_refs (?f k) p)" by (rule ext) auto
  moreover have "refs (set_es c x b) p = (\<Sum>k \<in> dom ?g. conn_refs (?g k) p)" "refs b p = (\<Sum>k \<in> dom ?f. conn_refs (?f k) p)"
    by (simp_all add: refs_def set_es_def)
  ultimately show ?thesis
    using ext [of ?g] by linarith
qed

section \<open>Changing one handle or one connection\<close>

lemma handle_ok_cong:
  assumes "handle_ok ins hold b q h" "be_cookies b' = be_cookies b" "ins' q = ins q" "hold' q = hold q" "be_threads b' q = be_threads b q"
  shows "handle_ok ins' hold' b' q h"
  using assms(1) unfolding handle_ok_def assms(3-5) refs_cong [OF assms(2)] .

lemma be_inv_handle:
  assumes inv: "be_inv ins hold b" and h: "be_pehs b p = Some h"
    and b': "be_pehs b' = (be_pehs b)(p \<mapsto> h')" "be_cookies b' = be_cookies b" "be_engines b' = be_engines b"
      "thread_ok b' = thread_ok b" "in_progress b' = in_progress b"
    and same: "pe_name h' = pe_name h" "in_table (pe_state h') = in_table (pe_state h)"
    and other: "\<And>q. q \<noteq> p \<Longrightarrow> ins' q = ins q \<and> hold' q = hold q \<and> be_threads b' q = be_threads b q"
    and ok: "handle_ok ins' hold' b' p h'"
  shows "be_inv ins' hold' b'"
proof -
  obtain m where m: "names (be_engines b) m" "indexed_by b m" using inv by (auto simp: be_inv_def)
  have "indexed_by b' m"
    unfolding indexed_by_def
  proof (intro allI)
    fix k q
    show "m k = Some q \<longleftrightarrow> q \<noteq> DEFAULT_ENGINE \<and> (\<exists>h. be_pehs b' q = Some h \<and> pe_name h = k \<and> in_table (pe_state h))"
      using m(2) h same by (cases "q = p") (auto simp: indexed_by_def b'(1))
  qed
  moreover have "\<forall>q k. be_pehs b' q = Some k \<longrightarrow> handle_ok ins' hold' b' q k"
  proof (intro allI impI)
    fix q k assume q: "be_pehs b' q = Some k"
    show "handle_ok ins' hold' b' q k"
    proof (cases "q = p")
      case True
      then show ?thesis using q ok by (simp add: b'(1))
    next
      case False
      then have "handle_ok ins hold b q k" using q be_invD(6) [OF inv] by (simp add: b'(1))
      then show ?thesis using other [OF False] b'(2) by (auto intro: handle_ok_cong)
    qed
  qed
  moreover have "\<forall>c es. be_cookies b' c = Some es \<longrightarrow> cookie_ok b' es"
    using be_invD(5) [OF inv] by (auto simp: cookie_ok_def b')
  moreover have "\<forall>q. be_pehs b' q = None \<longrightarrow> ins' q = 0 \<and> hold' q = 0 \<and> be_threads b' q = None"
  proof (intro allI impI)
    fix q assume "be_pehs b' q = None"
    then have "q \<noteq> p" "be_pehs b q = None" by (auto simp: b'(1) split: if_splits)
    then show "ins' q = 0 \<and> hold' q = 0 \<and> be_threads b' q = None" using other be_invD(7) [OF inv] by simp
  qed
  ultimately show ?thesis
    unfolding be_inv_def using be_invD(1-4) [OF inv] m(1) by (simp add: b'; blast)
qed

lemma be_inv_set_es:
  assumes inv: "be_inv ins hold b" and x: "\<And>es. x = Some es \<Longrightarrow> cookie_ok b es"
    and hold': "\<And>p. hold' p = hold p + (if be_pehs b p = None then 0 else conn_refs (be_cookies b c) p - conn_refs x p)"
    and pos: "\<And>p. be_pehs b p \<noteq> None \<Longrightarrow> 0 \<le> hold' p"
  shows "be_inv ins hold' (set_es c x b)"
proof -
  let ?b = "set_es c x b"
  have same: "be_pehs ?b = be_pehs b" "be_engines ?b = be_engines b" "be_threads ?b = be_threads b" by (simp_all add: set_es_def)
  have "handle_ok ins hold' ?b p h" if "be_pehs b p = Some h" for p h
    using be_invD(6) [OF inv that] pos [of p] hold' [of p] that
    by (auto simp: handle_ok_def refs_set_es [OF be_invD(1) [OF inv]] same)
  moreover have "finite (dom (be_cookies ?b))"
    using be_invD(1) [OF inv] by (simp add: set_es_def)
  moreover have "cookie_ok ?b es" if "be_cookies ?b k = Some es" for k es
    using that x be_invD(5) [OF inv, of k] by (auto simp: set_es_def cookie_ok_def split: if_splits)
  moreover have "\<forall>p. be_pehs b p = None \<longrightarrow> ins p = 0 \<and> hold' p = 0 \<and> be_threads b p = None"
    using be_invD(7) [OF inv] hold' by simp
  moreover obtain m where "names (be_engines b) m" "indexed_by ?b m"
    using inv by (auto simp: be_inv_def indexed_by_def same)
  ultimately show ?thesis
    unfolding be_inv_def same using be_invD(2-4) [OF inv] by (auto simp: set_es_def)
qed

section \<open>References\<close>

lemma peh_upd_simps [simp]:
  "be_cookies (peh_upd p f b) = be_cookies b" "be_engines (peh_upd p f b) = be_engines b"
  "be_threads (peh_upd p f b) = be_threads b" "thread_ok (peh_upd p f b) = thread_ok b"
  "in_progress (peh_upd p f b) = in_progress b"
  "be_pehs b p = Some h \<Longrightarrow> be_pehs (peh_upd p f b) = (be_pehs b)(p \<mapsto> f h)"
  "be_pehs b q = None \<Longrightarrow> be_pehs (peh_upd p f b) q = None"
  by (auto simp: peh_upd_def)

lemma set_es_simps [simp]:
  "be_cookies (set_es c x b) = (be_cookies b)(c := x)" "be_engines (set_es c x b) = be_engines b"
  "be_threads (set_es c x b) = be_threads b" "thread_ok (set_es c x b) = thread_ok b"
  "in_progress (set_es c x b) = in_progress b" "be_pehs (set_es c x b) = be_pehs b"
  by (simp_all add: set_es_def)

lemma refs_peh_upd [simp]: "refs (peh_upd p f b) q = refs b q"
  by (rule refs_cong) simp

text \<open>A change of the counters of a handle alone.\<close>

lemma be_inv_counts:
  assumes inv: "be_inv ins hold b" and h: "be_pehs b p = Some h"
    and f: "pe_name (f h) = pe_name h" "pe_state (f h) = pe_state h" "pe_engine (f h) = pe_engine h"
    and counts: "pe_clients (f h) = int i" "0 \<le> n" "main_ref h + refs b p + n \<le> pe_refcount (f h)"
    and i: "0 < i \<Longrightarrow> pe_state h = STATE_RUNNING \<or> pe_state h = STATE_STOP_REQUESTED"
      "pe_state h = STATE_STOP_REQUESTED \<Longrightarrow> 0 < i"
    and fr: "be_threads b p = Some PC_FREE \<Longrightarrow> pe_refcount (f h) \<le> 0"
  shows "be_inv (ins(p := i)) (hold(p := n)) (peh_upd p f b)"
proof (rule be_inv_handle [OF inv h])
  note k = handle_okD [OF be_invD(6) [OF inv h]]
  have "main_ref (f h) = main_ref h" by (simp add: main_ref_def f)
  then show "handle_ok (ins(p := i)) (hold(p := n)) (peh_upd p f b) p (f h)"
    unfolding handle_ok_def using k counts i fr f by (simp; blast)
qed (use h f in auto)

lemma held_handle:
  assumes "be_inv ins hold b" "1 \<le> hold p"
  obtains h where "be_pehs b p = Some h" "p \<noteq> NULL" "1 \<le> pe_refcount h"
proof -
  obtain h where h: "be_pehs b p = Some h" using be_invD(7) [OF assms(1), of p] assms(2) by fastforce
  note k = handle_okD [OF be_invD(6) [OF assms(1) h]]
  have "0 \<le> main_ref h" by (simp add: main_ref_def)
  then show ?thesis using that [OF h] k(1,5) refs_nonneg [OF assms(1), of p] assms(2) by linarith
qed

text \<open>Giving back a reference never starts a shutdown: a stopping bucket without clients has already been started.\<close>

lemma no_start:
  assumes "be_inv ins hold b" "be_pehs b p = Some h"
  shows "\<not> (pe_clients h = 0 \<and> pe_state h = STATE_STOP_REQUESTED)"
  using handle_okD(3,7) [OF be_invD(6) [OF assms]] by auto

lemma release_locked_inv:
  assumes inv: "be_inv ins hold b" and hold: "1 \<le> hold p"
  shows "release_handle_locked p b = Some (peh_upd p (\<lambda>h. h\<lparr>pe_refcount := pe_refcount h - 1\<rparr>) b)"
    "be_inv ins (hold(p := hold p - 1)) (peh_upd p (\<lambda>h. h\<lparr>pe_refcount := pe_refcount h - 1\<rparr>) b)"
proof -
  obtain h where h: "be_pehs b p = Some h" "p \<noteq> NULL" "1 \<le> pe_refcount h" using held_handle [OF assms] .
  note k = handle_okD [OF be_invD(6) [OF inv h(1)]]
  show "release_handle_locked p b = Some (peh_upd p (\<lambda>h. h\<lparr>pe_refcount := pe_refcount h - 1\<rparr>) b)"
    using h no_start [OF inv h(1)] by (simp add: release_handle_locked_def maybe_start_engine_shutdown_def; blast)
  have "be_inv (ins(p := ins p)) (hold(p := hold p - 1)) (peh_upd p (\<lambda>h. h\<lparr>pe_refcount := pe_refcount h - 1\<rparr>) b)"
    by (rule be_inv_counts [OF inv h(1)]) (use k hold in auto)
  then show "be_inv ins (hold(p := hold p - 1)) (peh_upd p (\<lambda>h. h\<lparr>pe_refcount := pe_refcount h - 1\<rparr>) b)" by simp
qed

lemma release_handle_inv:
  assumes inv: "be_inv ins hold b" and hold: "p \<noteq> NULL \<Longrightarrow> 1 \<le> hold p"
  shows "\<exists>b'. release_handle p b = Some b' \<and> be_inv ins (if p = NULL then hold else hold(p := hold p - 1)) b'
    \<and> be_cookies b' = be_cookies b"
  using release_locked_inv [OF inv hold] inv by (simp add: release_handle_def)

lemma retain_handle_inv:
  assumes inv: "be_inv ins hold b" and p: "p = NULL \<or> be_pehs b p \<noteq> None"
  shows "\<exists>q b'. retain_handle p b = Some (q, b') \<and> (q = NULL \<or> q = p) \<and> be_cookies b' = be_cookies b
    \<and> be_inv ins (if q = NULL then hold else hold(q := hold q + 1)) b'
    \<and> (q \<noteq> NULL \<longrightarrow> be_pehs b' q \<noteq> None \<and> (\<exists>h. be_pehs b q = Some h \<and> pe_state h = STATE_RUNNING))
    \<and> (p \<noteq> NULL \<and> pe_state (the (be_pehs b p)) = STATE_RUNNING \<longrightarrow> q = p)"
proof (cases "p \<noteq> NULL \<and> (\<exists>h. be_pehs b p = Some h \<and> pe_state h = STATE_RUNNING)")
  case True
  then obtain h where h: "be_pehs b p = Some h" "pe_state h = STATE_RUNNING" "p \<noteq> NULL" by blast
  note k = handle_okD [OF be_invD(6) [OF inv h(1)]]
  have r: "0 \<le> pe_refcount h" using k(4,5) refs_nonneg [OF inv, of p] by (simp add: main_ref_def h(2))
  let ?b = "peh_upd p (\<lambda>h. h\<lparr>pe_refcount := pe_refcount h + 1\<rparr>) b"
  have "be_threads b p = None" using k(8,9) h(2) by (cases "p = DEFAULT_ENGINE") auto
  then have "be_inv (ins(p := ins p)) (hold(p := hold p + 1)) ?b"
    by (intro be_inv_counts [OF inv h(1)]) (use k in auto)
  then show ?thesis using h r by (simp add: retain_handle_def)
next
  case False
  then show ?thesis using p inv by (auto simp: retain_handle_def)
qed

lemma find_bucket_inner_inv:
  assumes inv: "be_inv ins hold b" and k: "fits_length k"
  shows "\<exists>p. find_bucket_inner k b = Some p \<and> (p \<noteq> NULL \<longrightarrow> p \<noteq> DEFAULT_ENGINE
    \<and> (\<exists>h. be_pehs b p = Some h \<and> pe_name h = k \<and> in_table (pe_state h)))
    \<and> (p = NULL \<longrightarrow> (\<forall>q h. be_pehs b q = Some h \<and> q \<noteq> DEFAULT_ENGINE \<and> pe_name h = k \<longrightarrow> \<not> in_table (pe_state h)))"
proof -
  obtain m where m: "names (be_engines b) m" "indexed_by b m" using inv by (auto simp: be_inv_def)
  show ?thesis
  proof (cases "m k")
    case None
    have "\<forall>q h. be_pehs b q = Some h \<and> q \<noteq> DEFAULT_ENGINE \<and> pe_name h = k \<longrightarrow> \<not> in_table (pe_state h)"
      using m(2) None unfolding indexed_by_def by (metis option.distinct(1))
    then show ?thesis using names_find [OF m(1) k] None by (auto simp: find_bucket_inner_def)
  next
    case (Some p)
    then obtain h where h: "p \<noteq> DEFAULT_ENGINE" "be_pehs b p = Some h" "pe_name h = k" "in_table (pe_state h)"
      using m(2) by (auto simp: indexed_by_def)
    have "p \<noteq> NULL" using handle_okD(1) [OF be_invD(6) [OF inv h(2)]] .
    then show ?thesis using names_find [OF m(1) k] Some h by (auto simp: find_bucket_inner_def)
  qed
qed

lemma find_bucket_inv:
  assumes inv: "be_inv ins hold b" and k: "fits_length k"
  shows "\<exists>q b'. find_bucket k b = Some (q, b') \<and> be_cookies b' = be_cookies b
    \<and> be_inv ins (if q = NULL then hold else hold(q := hold q + 1)) b'
    \<and> (q \<noteq> NULL \<longrightarrow> q \<noteq> DEFAULT_ENGINE \<and> be_pehs b' q \<noteq> None \<and> (\<exists>h. be_pehs b q = Some h \<and> pe_state h = STATE_RUNNING))"
proof -
  obtain p where p: "find_bucket_inner k b = Some p" "p \<noteq> NULL \<longrightarrow> p \<noteq> DEFAULT_ENGINE \<and> be_pehs b p \<noteq> None"
    using find_bucket_inner_inv [OF assms] by auto
  then have "p = NULL \<or> be_pehs b p \<noteq> None" by blast
  from retain_handle_inv [OF inv this] p show ?thesis by (fastforce simp: find_bucket_def)
qed

section \<open>Connections and calls\<close>

lemma conn_refs_simps [simp]:
  "conn_refs None p = 0" "conn_refs (Some es) p = (if es_peh es = p then 1 + es_reserved es else 0)"
  by (simp_all add: conn_refs_def)

text \<open>What a connection refers to becomes a reference of the operation when the connection is dropped.\<close>

lemma drop_cookie_inv:
  assumes inv: "be_inv ins hold b" and es: "be_cookies b c = Some es" and p: "es_peh es \<noteq> NULL"
  shows "be_inv ins (hold(es_peh es := hold (es_peh es) + 1 + es_reserved es)) (set_es c None b)"
proof (rule be_inv_set_es [OF inv])
  have ok: "cookie_ok b es" by (rule be_invD(5) [OF inv es])
  fix q
  show "(hold(es_peh es := hold (es_peh es) + 1 + es_reserved es)) q
      = hold q + (if be_pehs b q = None then 0 else conn_refs (be_cookies b c) q - conn_refs None q)"
    using ok p es by (auto simp: cookie_ok_def)
  show "be_pehs b q \<noteq> None \<Longrightarrow> 0 \<le> (hold(es_peh es := hold (es_peh es) + 1 + es_reserved es)) q"
    using be_invD(6) [OF inv, of q] handle_okD(4) ok by (fastforce simp: cookie_ok_def)
qed simp

lemma drop_free_cookie_inv:
  assumes inv: "be_inv ins hold b" and es: "be_cookies b c = Some es" and p: "es_peh es = NULL"
  shows "be_inv ins hold (set_es c None b)"
proof (rule be_inv_set_es [OF inv])
  fix q
  have "be_pehs b q \<noteq> None \<Longrightarrow> q \<noteq> NULL" using be_invD(6) [OF inv, of q] handle_okD(1) by blast
  then show "hold q = hold q + (if be_pehs b q = None then 0 else conn_refs (be_cookies b c) q - conn_refs None q)"
    using p es by auto
  show "be_pehs b q \<noteq> None \<Longrightarrow> 0 \<le> hold q"
    using be_invD(6) [OF inv, of q] handle_okD(4) by blast
qed simp

text \<open>A connection that is not reserved moves to another handle, whose reference the operation gives it.\<close>

lemma move_cookie_inv:
  assumes inv: "be_inv ins hold b" and es: "be_cookies b c = Some es" "es_reserved es = 0"
    and q: "q \<noteq> NULL \<Longrightarrow> 1 \<le> hold q"
  shows "be_inv ins (\<lambda>x. hold x + (if x \<noteq> NULL \<and> x = es_peh es then 1 else 0) - (if x \<noteq> NULL \<and> x = q then 1 else 0))
    (set_es c (Some (es\<lparr>es_peh := q\<rparr>)) b)"
proof (rule be_inv_set_es [OF inv])
  have ok: "cookie_ok b es" by (rule be_invD(5) [OF inv es(1)])
  have alloc: "q \<noteq> NULL \<Longrightarrow> be_pehs b q \<noteq> None" using held_handle [OF inv q] by blast
  then show "cookie_ok b es'" if "Some (es\<lparr>es_peh := q\<rparr>) = Some es'" for es'
    using that ok es(2) by (auto simp: cookie_ok_def)
  fix x
  have x: "be_pehs b x \<noteq> None \<Longrightarrow> x \<noteq> NULL" using be_invD(6) [OF inv, of x] handle_okD(1) by blast
  then show "hold x + (if x \<noteq> NULL \<and> x = es_peh es then 1 else 0) - (if x \<noteq> NULL \<and> x = q then 1 else 0)
      = hold x + (if be_pehs b x = None then 0 else conn_refs (be_cookies b c) x - conn_refs (Some (es\<lparr>es_peh := q\<rparr>)) x)"
    using ok es alloc by (auto simp: cookie_ok_def)
  assume "be_pehs b x \<noteq> None"
  then have "0 \<le> hold x" using be_invD(6) [OF inv, of x] handle_okD(4) by blast
  then show "0 \<le> hold x + (if x \<noteq> NULL \<and> x = es_peh es then 1 else 0) - (if x \<noteq> NULL \<and> x = q then 1 else 0)"
    using q by auto
qed

lemma set_engine_handle_inv:
  assumes inv: "be_inv ins hold b" and es: "be_cookies b c = Some es" "es_reserved es = 0"
    and p: "p = NULL \<or> be_pehs b p \<noteq> None"
  shows "\<exists>q b'. set_engine_handle c p b = Some (q, b') \<and> be_inv ins hold b' \<and> (q = NULL \<or> q = p)
    \<and> be_cookies b' = (be_cookies b)(c \<mapsto> es\<lparr>es_peh := q\<rparr>)"
proof -
  obtain q b1 where r: "retain_handle p b = Some (q, b1)" "q = NULL \<or> q = p" "be_cookies b1 = be_cookies b"
    "be_inv ins (if q = NULL then hold else hold(q := hold q + 1)) b1"
    using retain_handle_inv [OF inv p] by blast
  let ?h1 = "if q = NULL then hold else hold(q := hold q + 1)"
  let ?b2 = "set_es c (Some (es\<lparr>es_peh := q\<rparr>)) b1"
  have nn: "q \<noteq> NULL \<Longrightarrow> 0 \<le> hold q"
    using be_invD(7) [OF inv, of q] be_invD(6) [OF inv, of q] handle_okD(4) by (cases "be_pehs b q") fastforce+
  have "be_inv ins (\<lambda>x. ?h1 x + (if x \<noteq> NULL \<and> x = es_peh es then 1 else 0) - (if x \<noteq> NULL \<and> x = q then 1 else 0)) ?b2"
    by (rule move_cookie_inv [OF r(4)]) (use r(3) es nn in auto)
  moreover have "(\<lambda>x. ?h1 x + (if x \<noteq> NULL \<and> x = es_peh es then 1 else 0) - (if x \<noteq> NULL \<and> x = q then 1 else 0))
      = (if es_peh es = NULL then hold else hold(es_peh es := hold (es_peh es) + 1))" by (auto simp: fun_eq_iff)
  ultimately have inv2: "be_inv ins (if es_peh es = NULL then hold else hold(es_peh es := hold (es_peh es) + 1)) ?b2" by simp
  have nn2: "es_peh es \<noteq> NULL \<Longrightarrow> 0 \<le> hold (es_peh es)"
    using be_invD(5) [OF inv es(1)] be_invD(6) [OF inv, of "es_peh es"] handle_okD(4) by (fastforce simp: cookie_ok_def)
  obtain b3 where b3: "release_handle (es_peh es) ?b2 = Some b3" "be_cookies b3 = be_cookies ?b2"
    "be_inv ins (if es_peh es = NULL then hold else hold) b3"
    using release_handle_inv [OF inv2, of "es_peh es"] nn2 by (auto split: if_splits)
  then show ?thesis using r es by (auto simp: set_engine_handle_def)
qed

lemma hold_nonneg: "be_inv ins hold b \<Longrightarrow> 0 \<le> hold p"
  using be_invD(6,7) [of ins hold b p] handle_okD(4) by (cases "be_pehs b p") fastforce+

lemma running_no_thread: "handle_ok ins hold b p h \<Longrightarrow> pe_state h = STATE_RUNNING \<or> pe_state h = STATE_STOP_REQUESTED
    \<Longrightarrow> be_threads b p = None"
  using handle_okD(8,9) [of ins hold b p h] by (cases "p = DEFAULT_ENGINE") auto

lemma enter_inv:
  assumes inv: "be_inv ins hold b" and h: "be_pehs b p = Some h" "pe_state h = STATE_RUNNING"
  shows "be_inv (ins(p := ins p + 1)) hold (peh_upd p (\<lambda>h. h\<lparr>pe_clients := pe_clients h + 1\<rparr>) b)"
proof -
  note k = handle_okD [OF be_invD(6) [OF inv h(1)]]
  have "be_threads b p = None" using running_no_thread [OF be_invD(6) [OF inv h(1)]] h(2) by simp
  then have "be_inv (ins(p := ins p + 1)) (hold(p := hold p)) (peh_upd p (\<lambda>h. h\<lparr>pe_clients := pe_clients h + 1\<rparr>) b)"
    by (intro be_inv_counts [OF inv h(1)]) (use k h in auto)
  then show ?thesis by simp
qed

text \<open>The handle that a connection uses: its own, or the default one.\<close>

definition used_handle :: "bucket_engine \<Rightarrow> engine_specific \<Rightarrow> ptr" where
  "used_handle b es = (if es_peh es \<noteq> NULL then es_peh es else if default_pe b \<noteq> NULL then DEFAULT_ENGINE else NULL)"

lemma used_handle_cases:
  assumes inv: "be_inv ins hold b" and es: "be_cookies b c = Some es" and u: "used_handle b es \<noteq> NULL"
  obtains h where "be_pehs b (used_handle b es) = Some h"
    "es_peh es = NULL \<Longrightarrow> used_handle b es = DEFAULT_ENGINE \<and> pe_state h = STATE_RUNNING"
    "es_peh es \<noteq> NULL \<Longrightarrow> used_handle b es = es_peh es"
proof (cases "es_peh es = NULL")
  case True
  then have d: "default_pe b \<noteq> NULL" "used_handle b es = DEFAULT_ENGINE" using u by (auto simp: used_handle_def split: if_splits)
  obtain h where h: "be_pehs b DEFAULT_ENGINE = Some h" using be_invD(4) [OF inv] by auto
  have "pe_state h = STATE_RUNNING"
    using handle_okD(8) [OF be_invD(6) [OF inv h]] d(1) h by (auto simp: default_pe_def)
  then show ?thesis using that h d(2) True by simp
next
  case False
  then show ?thesis using that be_invD(5) [OF inv es] by (auto simp: used_handle_def cookie_ok_def)
qed

text \<open>A reserved connection must not call into a bucket that is being deleted.\<close>

definition may_call :: "bucket_engine \<Rightarrow> ptr \<Rightarrow> bool" where
  "may_call b c \<longleftrightarrow> (\<exists>es. be_cookies b c = Some es \<and> (es_reserved es = 0 \<or> es_peh es = NULL
     \<or> (\<exists>h. be_pehs b (es_peh es) = Some h \<and> pe_state h = STATE_RUNNING)))"

lemma get_engine_handle_inv:
  assumes inv: "be_inv ins hold b" and c: "may_call b c"
  shows "\<exists>p b'. get_engine_handle c b = Some (p, b') \<and> be_inv (if p = NULL then ins else ins(p := ins p + 1)) hold b'
    \<and> (p \<noteq> NULL \<longrightarrow> (\<exists>h. be_pehs b p = Some h \<and> pe_state h = STATE_RUNNING))"
proof -
  obtain es where es: "be_cookies b c = Some es" "es_reserved es = 0 \<or> es_peh es = NULL
     \<or> (\<exists>h. be_pehs b (es_peh es) = Some h \<and> pe_state h = STATE_RUNNING)" using c by (auto simp: may_call_def)
  let ?p = "used_handle b es"
  have g: "get_engine_handle c b = (if ?p = NULL then Some (NULL, b)
       else do { h \<leftarrow> be_pehs b ?p;
         if pe_state h \<noteq> STATE_RUNNING then
           do { let b = (if es_reserved es = 0 then set_es c None b else b);
                b \<leftarrow> release_handle ?p b; Some (NULL, b) }
         else Some (?p, peh_upd ?p (\<lambda>h. h\<lparr>pe_clients := pe_clients h + 1\<rparr>) b) })"
    unfolding get_engine_handle_def es(1) used_handle_def [symmetric] by (simp only: Let_def bind.simps)
  show ?thesis
  proof (cases "?p = NULL")
    case True
    then show ?thesis using inv by (simp add: g)
  next
    case False
    obtain h where h: "be_pehs b ?p = Some h" "es_peh es = NULL \<Longrightarrow> ?p = DEFAULT_ENGINE \<and> pe_state h = STATE_RUNNING"
      "es_peh es \<noteq> NULL \<Longrightarrow> ?p = es_peh es" using used_handle_cases [OF inv es(1) False] by blast
    show ?thesis
    proof (cases "pe_state h = STATE_RUNNING")
      case True
      then show ?thesis using enter_inv [OF inv h(1) True] h(1) False by (simp add: g)
    next
      case stop: False
      then have p1: "es_peh es \<noteq> NULL" using h(2) by blast
      then have p2: "?p = es_peh es" using h(3) by blast
      then have "es_reserved es = 0" using es(2) p1 h(1) stop by auto
      note p = p1 p2 this
      have "be_inv ins (hold(?p := hold ?p + 1)) (set_es c None b)"
        using drop_cookie_inv [OF inv es(1) p(1)] p(2,3) by simp
      from release_handle_inv [OF this, of ?p] False hold_nonneg [OF inv, of ?p]
      obtain b' where "release_handle ?p (set_es c None b) = Some b'" "be_inv ins hold b'" by auto
      then show ?thesis using False h(1) stop p(3) by (simp add: g)
    qed
  qed
qed

lemma try_get_engine_handle_inv:
  assumes inv: "be_inv ins hold b"
  shows "\<exists>p b'. try_get_engine_handle c b = Some (p, b') \<and> be_inv (if p = NULL then ins else ins(p := ins p + 1)) hold b'
    \<and> (p \<noteq> NULL \<longrightarrow> (\<exists>h. be_pehs b p = Some h \<and> pe_state h = STATE_RUNNING))"
proof (cases "\<exists>es h. be_cookies b c = Some es \<and> es_peh es \<noteq> NULL \<and> be_pehs b (es_peh es) = Some h \<and> pe_state h = STATE_RUNNING")
  case True
  then obtain es h where h: "be_cookies b c = Some es" "es_peh es \<noteq> NULL" "be_pehs b (es_peh es) = Some h" "pe_state h = STATE_RUNNING"
    by blast
  then have "try_get_engine_handle c b = Some (es_peh es, peh_upd (es_peh es) (\<lambda>h. h\<lparr>pe_clients := pe_clients h + 1\<rparr>) b)"
    by (simp add: try_get_engine_handle_def)
  with enter_inv [OF inv h(3,4)] h show ?thesis by simp
next
  case False
  then show ?thesis
    using inv be_invD(5) [OF inv, of c] by (auto simp: try_get_engine_handle_def cookie_ok_def split: option.splits)
qed

text \<open>The shutdown starts when the last client has left a bucket that was asked to stop.\<close>

lemma start_inv:
  assumes inv: "be_inv ins hold b" and h: "be_pehs b p = Some h" "pe_state h = STATE_RUNNING \<or> pe_state h = STATE_STOP_REQUESTED"
    and p: "p \<noteq> DEFAULT_ENGINE"
    and h': "pe_name h' = pe_name h" "pe_engine h' = pe_engine h" "pe_state h' = STATE_STOPPING" "pe_clients h' = 0"
      "pe_refcount h \<le> pe_refcount h' + main_ref h"
    and b': "be_pehs b' = (be_pehs b)(p \<mapsto> h')" "be_threads b' = (be_threads b)(p \<mapsto> PC_START)" "be_cookies b' = be_cookies b"
      "be_engines b' = be_engines b" "thread_ok b' = thread_ok b" "in_progress b' = in_progress b"
  shows "be_inv (ins(p := 0)) hold b'"
proof (rule be_inv_handle [OF inv h(1)])
  note k = handle_okD [OF be_invD(6) [OF inv h(1)]]
  have t: "be_threads b p = None" using running_no_thread [OF be_invD(6) [OF inv h(1)] h(2)] .
  have r: "refs b' p = refs b p" using b'(3) by (rule refs_cong)
  show "handle_ok (ins(p := 0)) hold b' p h'"
    using k(1,2,4,5) k(10) [OF p] t h' p by (simp add: handle_ok_def b' r main_ref_def)
  show "in_table (pe_state h') = in_table (pe_state h)" using h(2) h'(3) by (auto simp: in_table_def)
qed (use b' h' in auto)

lemma release_engine_handle_inv:
  assumes inv: "be_inv ins hold b" and p: "0 < ins p"
  shows "\<exists>b'. release_engine_handle p b = Some b' \<and> be_inv (ins(p := ins p - 1)) hold b'"
proof -
  obtain h where h: "be_pehs b p = Some h" using be_invD(7) [OF inv, of p] p by fastforce
  note k = handle_okD [OF be_invD(6) [OF inv h]]
  have st: "pe_state h = STATE_RUNNING \<or> pe_state h = STATE_STOP_REQUESTED" using k(6) p by simp
  have t: "be_threads b p = None" using running_no_thread [OF be_invD(6) [OF inv h] st] .
  let ?f = "\<lambda>h. h\<lparr>pe_clients := pe_clients h - 1\<rparr>"
  show ?thesis
  proof (cases "pe_state h = STATE_STOP_REQUESTED \<and> ins p = 1")
    case True
    then have d: "p \<noteq> DEFAULT_ENGINE" using k(8) by auto
    let ?b = "(peh_upd p (\<lambda>h. h\<lparr>pe_state := STATE_STOPPING\<rparr>) (peh_upd p ?f b))"
    have "release_engine_handle p b = Some (?b\<lparr>be_threads := (be_threads ?b)(p \<mapsto> PC_START)\<rparr>)"
      using h True k(3) be_invD(2) [OF inv] by (simp add: release_engine_handle_def maybe_start_engine_shutdown_def)
    moreover have "be_inv (ins(p := 0)) hold (?b\<lparr>be_threads := (be_threads ?b)(p \<mapsto> PC_START)\<rparr>)"
      by (rule start_inv [OF inv h st d, where h' = "h\<lparr>pe_state := STATE_STOPPING, pe_clients := 0\<rparr>"])
        (use h k(3) True in \<open>auto simp: main_ref_def\<close>)
    ultimately show ?thesis using True by simp
  next
    case False
    have "be_inv (ins(p := ins p - 1)) (hold(p := hold p)) (peh_upd p ?f b)"
      by (rule be_inv_counts [OF inv h]) (use k p st t False in auto)
    moreover have "release_engine_handle p b = Some (peh_upd p ?f b)"
      using h p k(3) False by (auto simp: release_engine_handle_def maybe_start_engine_shutdown_def)
    ultimately show ?thesis by simp
  qed
qed

end
