(* ===== verification/Bucket_Ops.thy ===== *)
theory Bucket_Ops
  imports Bucket_Inv
begin

unbundle bit_operations_syntax

text \<open>
  The operations of the bucket engine that serve the server: connections that come, go, log in and
  are reserved, the administration commands, and the shutdown thread. Each returns and keeps the
  invariant.
\<close>

lemma be_inv_cong:
  assumes "be_inv ins hold b" "be_cookies b' = be_cookies b" "be_engines b' = be_engines b" "be_threads b' = be_threads b"
    "thread_ok b' = thread_ok b" "in_progress b' = in_progress b" "be_pehs b' = be_pehs b"
  shows "be_inv ins hold b'"
proof -
  have "handle_ok ins hold b' p h = handle_ok ins hold b p h" for p h
    unfolding handle_ok_def refs_cong [OF assms(2)] assms(4) by simp
  then show ?thesis
    using assms(1) unfolding be_inv_def indexed_by_def cookie_ok_def assms(2-7) by simp
qed

lemma event_simps [simp]:
  "be_cookies (event e b) = be_cookies b" "be_engines (event e b) = be_engines b" "be_threads (event e b) = be_threads b"
  "thread_ok (event e b) = thread_ok b" "in_progress (event e b) = in_progress b" "be_pehs (event e b) = be_pehs b"
  by (simp_all add: event_def)

lemma event_inv: "be_inv ins hold b \<Longrightarrow> be_inv ins hold (event e b)"
  by (rule be_inv_cong) simp_all

lemma be_inv_weaken:
  assumes inv: "be_inv ins hold b" and le: "\<And>p. 0 \<le> hold' p \<and> hold' p \<le> hold p"
  shows "be_inv ins hold' b"
proof -
  have "handle_ok ins hold' b p h" if "be_pehs b p = Some h" for p h
  proof -
    have "main_ref h + refs b p + hold' p \<le> pe_refcount h"
      using handle_okD(5) [OF be_invD(6) [OF inv that]] le [of p] by linarith
    then show ?thesis using be_invD(6) [OF inv that] le [of p] unfolding handle_ok_def by blast
  qed
  moreover have "hold' p = 0" if "be_pehs b p = None" for p
    using be_invD(7) [OF inv that] le [of p] by simp
  ultimately show ?thesis using inv by (auto simp: be_inv_def)
qed

lemma release_locked_run:
  assumes "be_inv ins hold b" "be_pehs b p = Some h" "0 < pe_refcount h"
  shows "release_handle_locked p b = Some (peh_upd p (\<lambda>h. h\<lparr>pe_refcount := pe_refcount h - 1\<rparr>) b)"
  using assms no_start [OF assms(1,2)] by (simp add: release_handle_locked_def maybe_start_engine_shutdown_def; blast)

lemma cookie_refcount:
  assumes inv: "be_inv ins hold b" and es: "be_cookies b c = Some es" "es_peh es \<noteq> NULL"
  obtains h where "be_pehs b (es_peh es) = Some h" "1 + es_reserved es \<le> pe_refcount h" "0 \<le> es_reserved es"
proof -
  have ok: "cookie_ok b es" by (rule be_invD(5) [OF inv es(1)])
  then obtain h where h: "be_pehs b (es_peh es) = Some h" using es(2) by (auto simp: cookie_ok_def)
  note k = handle_okD [OF be_invD(6) [OF inv h]]
  have "0 \<le> main_ref h" by (simp add: main_ref_def)
  then have "1 + es_reserved es \<le> pe_refcount h" using k(4,5) refs_ge [OF inv es(1) refl] by linarith
  then show ?thesis using that h ok by (simp add: cookie_ok_def)
qed

lemma set_es_peh_upd: "set_es c x (peh_upd p f b) = peh_upd p f (set_es c x b)"
  by (simp add: set_es_def peh_upd_def)

text \<open>Changing what does not count as a reference.\<close>

lemma same_refs_inv:
  assumes inv: "be_inv ins hold b" and es: "be_cookies b c = Some es"
    and es': "es_peh es' = es_peh es" "0 \<le> es_reserved es'" "es_peh es = NULL \<or> es_reserved es' = es_reserved es"
  shows "be_inv ins hold (set_es c (Some es') b)"
proof (rule be_inv_set_es [OF inv])
  have ok: "cookie_ok b es" by (rule be_invD(5) [OF inv es])
  then show "cookie_ok b e" if "Some es' = Some e" for e using that es' by (auto simp: cookie_ok_def)
  fix p
  have "be_pehs b p \<noteq> None \<Longrightarrow> p \<noteq> NULL" using be_invD(6) [OF inv, of p] handle_okD(1) by blast
  then show "hold p = hold p + (if be_pehs b p = None then 0 else conn_refs (be_cookies b c) p - conn_refs (Some es') p)"
    using es es' by auto
  show "0 \<le> hold p" by (rule hold_nonneg [OF inv])
qed

lemma handle_disconnect_inv:
  assumes inv: "be_inv ins (\<lambda>_. 0) b"
  shows "\<exists>b'. handle_disconnect c b = Some b' \<and> be_inv ins (\<lambda>_. 0) b'"
proof (cases "be_cookies b c")
  case None
  then show ?thesis using inv by (simp add: handle_disconnect_def)
next
  case (Some es)
  show ?thesis
  proof (cases "es_peh es = NULL")
    case True
    then show ?thesis using drop_free_cookie_inv [OF inv Some True] Some by (simp add: handle_disconnect_def)
  next
    case False
    obtain h where h: "be_pehs b (es_peh es) = Some h" "1 + es_reserved es \<le> pe_refcount h" "0 \<le> es_reserved es"
      using cookie_refcount [OF inv Some False] .
    define b1 where "b1 = (if wants_disconnects h \<and> pe_state h = STATE_RUNNING
                     then event (Disconnected (pe_engine h) c) b else b)"
    have inv1: "be_inv ins (\<lambda>_. 0) b1" using event_inv [OF inv] inv by (simp add: b1_def)
    have b1: "be_cookies b1 c = Some es" "be_pehs b1 (es_peh es) = Some h" using Some h by (simp_all add: b1_def)
    let ?f = "\<lambda>h. h\<lparr>pe_refcount := pe_refcount h - 1\<rparr>"
    show ?thesis
    proof (cases "es_reserved es = 0")
      case True
      have d: "be_inv ins ((\<lambda>_. 0)(es_peh es := 1)) (set_es c None b1)"
        using drop_cookie_inv [OF inv1 b1(1) False] True by simp
      have "be_inv ins (\<lambda>_. 0) (peh_upd (es_peh es) ?f (set_es c None b1))"
        using release_locked_inv(2) [OF d, of "es_peh es"] by (simp add: fun_upd_idem)
      moreover have "release_handle_locked (es_peh es) b1 = Some (peh_upd (es_peh es) ?f b1)"
        using release_locked_run [OF inv1 b1(2)] h by simp
      ultimately show ?thesis
        using Some False True h(1) by (simp add: handle_disconnect_def Let_def flip: b1_def) (simp add: set_es_peh_upd)
    next
      case res: False
      then have "be_inv ins (\<lambda>_. 0) (set_es c (Some (es\<lparr>es_notified := True\<rparr>)) b1)"
        by (intro same_refs_inv [OF inv1 b1(1)]) (use h in auto)
      then show ?thesis using Some False res h(1) by (simp add: handle_disconnect_def Let_def flip: b1_def)
    qed
  qed
qed

lemma reserve_inv:
  assumes inv: "be_inv ins (\<lambda>_. 0) b"
  shows "\<exists>rc b'. bucket_engine_reserve_cookie up c b = Some (rc, b') \<and> be_inv ins (\<lambda>_. 0) b'"
proof (cases "be_cookies b c")
  case None
  then show ?thesis using inv by (simp add: bucket_engine_reserve_cookie_def)
next
  case (Some es)
  let ?p = "used_handle b es"
  have g: "bucket_engine_reserve_cookie up c b = (if ?p = NULL then Some (ENGINE_FAILED, b)
          else do {
            h \<leftarrow> be_pehs b ?p;
            Some (if pe_state h = STATE_RUNNING then
                    (up, set_es c (Some (es\<lparr>es_reserved := es_reserved es + 1\<rparr>))
                       (peh_upd ?p (\<lambda>h. h\<lparr>pe_refcount := pe_refcount h + 1\<rparr>) b))
                  else (ENGINE_FAILED, b))
          })"
    unfolding bucket_engine_reserve_cookie_def Some used_handle_def [symmetric] by (simp only: Let_def option.simps)
  show ?thesis
  proof (cases "?p = NULL")
    case True
    then show ?thesis using inv by (simp add: g)
  next
    case False
    obtain h where h: "be_pehs b ?p = Some h" "es_peh es = NULL \<Longrightarrow> ?p = DEFAULT_ENGINE \<and> pe_state h = STATE_RUNNING"
      "es_peh es \<noteq> NULL \<Longrightarrow> ?p = es_peh es" using used_handle_cases [OF inv Some False] by blast
    note k = handle_okD [OF be_invD(6) [OF inv h(1)]]
    have res: "0 \<le> es_reserved es" using be_invD(5) [OF inv Some] by (simp add: cookie_ok_def)
    show ?thesis
    proof (cases "pe_state h = STATE_RUNNING")
      case True
      have t: "be_threads b ?p = None" using running_no_thread [OF be_invD(6) [OF inv h(1)]] True by simp
      let ?f = "\<lambda>h. h\<lparr>pe_refcount := pe_refcount h + 1\<rparr>"
      let ?es = "es\<lparr>es_reserved := es_reserved es + 1\<rparr>"
      let ?n = "if es_peh es = NULL then 0 else 1"
      have "be_inv (ins(?p := ins ?p)) ((\<lambda>_. 0)(?p := ?n)) (peh_upd ?p ?f b)"
        by (rule be_inv_counts [OF inv h(1)]) (use k t in auto)
      then have i1: "be_inv ins ((\<lambda>_. 0)(?p := ?n)) (peh_upd ?p ?f b)" by simp
      have "be_inv ins (\<lambda>_. 0) (set_es c (Some ?es) (peh_upd ?p ?f b))"
      proof (cases "es_peh es = NULL")
        case True
        then have "((\<lambda>_. 0)(?p := ?n)) = (\<lambda>_. 0 :: int)" by auto
        then show ?thesis using i1 True res Some by (intro same_refs_inv [where es = es]) auto
      next
        case False
        then have p: "?p = es_peh es" using h(3) by blast
        show ?thesis
        proof (rule be_inv_set_es [OF i1])
          show "cookie_ok (peh_upd ?p ?f b) e" if "Some ?es = Some e" for e
            using that res h(1) p by (auto simp: cookie_ok_def)
          show "0 = ((\<lambda>_. 0)(?p := ?n)) q + (if be_pehs (peh_upd ?p ?f b) q = None then 0
              else conn_refs (be_cookies (peh_upd ?p ?f b) c) q - conn_refs (Some ?es) q)" for q
            using Some p False h(1) by auto
        qed simp
      qed
      then show ?thesis using False h(1) True by (simp add: g)
    next
      case stop: False
      then show ?thesis using False h(1) inv by (simp add: g)
    qed
  qed
qed

lemma release_cookie_inv:
  assumes inv: "be_inv ins (\<lambda>_. 0) b" and es: "be_cookies b c = Some es" "0 < es_reserved es" "es_peh es \<noteq> NULL"
  shows "\<exists>b'. bucket_engine_release_cookie c b = Some (ENGINE_SUCCESS, b') \<and> be_inv ins (\<lambda>_. 0) b'"
proof -
  let ?p = "es_peh es"
  obtain h where h: "be_pehs b ?p = Some h" "1 + es_reserved es \<le> pe_refcount h" using cookie_refcount [OF inv es(1,3)] .
  note k = handle_okD [OF be_invD(6) [OF inv h(1)]]
  let ?es = "es\<lparr>es_reserved := es_reserved es - 1\<rparr>"
  let ?last = "es_notified es \<and> es_reserved es = 1"
  define x where "x = (if ?last then None else Some ?es)"
  define d :: int where "d = (if ?last then 2 else 1)"
  have d: "d = conn_refs (Some es) ?p - conn_refs x ?p" "\<And>q. q \<noteq> ?p \<Longrightarrow> conn_refs (Some es) q = conn_refs x q"
    using es by (auto simp: d_def x_def)
  have i1: "be_inv ins ((\<lambda>_. 0)(?p := d)) (set_es c x b)"
  proof (rule be_inv_set_es [OF inv])
    show "cookie_ok b e" if "x = Some e" for e
      using that es h(1) by (auto simp: x_def cookie_ok_def split: if_splits)
    show "((\<lambda>_. 0)(?p := d)) q = 0 + (if be_pehs b q = None then 0 else conn_refs (be_cookies b c) q - conn_refs x q)" for q
      using es(1) h(1) d by (cases "q = ?p") auto
    show "0 \<le> ((\<lambda>_. 0)(?p := d)) q" for q by (simp add: d_def)
  qed
  let ?f = "\<lambda>h. h\<lparr>pe_refcount := pe_refcount h - d\<rparr>"
  have h1: "be_pehs (set_es c x b) ?p = Some h" using h by simp
  note k1 = handle_okD [OF be_invD(6) [OF i1 h1]]
  have "be_inv (ins(?p := ins ?p)) (((\<lambda>_. 0)(?p := d))(?p := 0)) (peh_upd ?p ?f (set_es c x b))"
    by (rule be_inv_counts [OF i1 h1]) (use k1 d_def in auto)
  moreover have "((\<lambda>_. 0)(?p := d))(?p := 0) = (\<lambda>_. 0 :: int)" by auto
  ultimately have i2: "be_inv ins (\<lambda>_. 0) (peh_upd ?p ?f (set_es c x b))" by simp
  have h2: "be_pehs (peh_upd ?p ?f (set_es c x b)) ?p = Some (?f h)" using h by simp
  define n where "n = pe_refcount h - (d - 1)"
  have n: "0 < n" "n - 1 = pe_refcount h - d" using h(2) es(2) by (auto simp: n_def d_def)
  have upd: "peh_upd ?p (\<lambda>h. h\<lparr>pe_refcount := n - 1\<rparr>) (set_es c x b) = peh_upd ?p ?f (set_es c x b)"
    using h by (simp add: peh_upd_def n(2))
  have ms: "maybe_start_engine_shutdown ?p (peh_upd ?p ?f (set_es c x b)) = Some (peh_upd ?p ?f (set_es c x b))"
    using no_start [OF i2 h2] h2 unfolding maybe_start_engine_shutdown_def by auto
  have "(if es_notified ?es \<and> es_reserved ?es = 0 then (pe_refcount h - 1, set_es c None b)
                     else (pe_refcount h, set_es c (Some ?es) b)) = (n, set_es c x b)"
    by (auto simp: n_def d_def x_def)
  then have "bucket_engine_release_cookie c b = Some (ENGINE_SUCCESS, peh_upd ?p ?f (set_es c x b))"
    unfolding bucket_engine_release_cookie_def using es h(1) n(1) upd ms by (cases "n = 1") (simp_all add: Let_def)
  then show ?thesis using i2 by blast
qed

text \<open>Asking a running bucket to stop drops the reference of the table; without clients the shutdown starts at once.\<close>

lemma request_stop_inv:
  assumes inv: "be_inv ins hold b" and h: "be_pehs b p = Some h" "pe_state h = STATE_RUNNING" and p: "p \<noteq> DEFAULT_ENGINE"
  shows "\<exists>b'. release_handle_locked p (peh_upd p (\<lambda>h. h\<lparr>pe_cookie := c, pe_state := STATE_STOP_REQUESTED,
      force_shutdown := f\<rparr>) b) = Some b' \<and> be_inv ins hold b' \<and> be_cookies b' = be_cookies b \<and> be_pehs b' p \<noteq> None
      \<and> (\<exists>h'. be_pehs b' p = Some h' \<and> pe_state h' = (if ins p = 0 then STATE_STOPPING else STATE_STOP_REQUESTED)
          \<and> pe_name h' = pe_name h \<and> force_shutdown h' = f \<and> pe_cookie h' = c)
      \<and> be_threads b' p = (if ins p = 0 then Some PC_START else None)"
proof -
  note k = handle_okD [OF be_invD(6) [OF inv h(1)]]
  have r: "1 \<le> pe_refcount h" using k(4,5) refs_nonneg [OF inv, of p] by (simp add: main_ref_def h(2))
  have t: "be_threads b p = None" using running_no_thread [OF be_invD(6) [OF inv h(1)]] h(2) by simp
  let ?b0 = "peh_upd p (\<lambda>h. h\<lparr>pe_cookie := c, pe_state := STATE_STOP_REQUESTED, force_shutdown := f\<rparr>) b"
  let ?b1 = "peh_upd p (\<lambda>h. h\<lparr>pe_refcount := pe_refcount h - 1\<rparr>) ?b0"
  let ?h1 = "h\<lparr>pe_cookie := c, pe_state := STATE_STOP_REQUESTED, force_shutdown := f, pe_refcount := pe_refcount h - 1\<rparr>"
  have b1: "be_pehs ?b1 = (be_pehs b)(p \<mapsto> ?h1)" using h by simp
  show ?thesis
  proof (cases "ins p = 0")
    case True
    let ?b2 = "peh_upd p (\<lambda>h. h\<lparr>pe_state := STATE_STOPPING\<rparr>) ?b1"
    let ?b3 = "?b2\<lparr>be_threads := (be_threads ?b2)(p \<mapsto> PC_START)\<rparr>"
    have "release_handle_locked p ?b0 = Some ?b3"
      using h r k(3) True be_invD(2) [OF inv] by (simp add: release_handle_locked_def maybe_start_engine_shutdown_def)
    moreover have "be_inv (ins(p := 0)) hold ?b3"
      by (rule start_inv [OF inv h(1) _ p, where h' = "?h1\<lparr>pe_state := STATE_STOPPING\<rparr>"])
        (use h k(3) True in \<open>auto simp: main_ref_def\<close>)
    ultimately show ?thesis using True h by (simp add: fun_upd_idem)
  next
    case False
    have "release_handle_locked p ?b0 = Some ?b1"
      using h r k(3) False by (simp add: release_handle_locked_def maybe_start_engine_shutdown_def)
    moreover have "be_inv ins hold ?b1"
    proof (rule be_inv_handle [OF inv h(1) b1])
      show "handle_ok ins hold ?b1 p ?h1"
        using k(1,2,3,4,5) k(9,10) [OF p] t h(2) False p by (simp add: handle_ok_def main_ref_def)
    qed (use h in \<open>auto simp: in_table_def\<close>)
    ultimately show ?thesis using False h t by simp
  qed
qed

lemma leave_bucket_inv:
  assumes inv: "be_inv ins hold b" and es: "be_cookies b c = Some es" and p: "p \<noteq> NULL"
  shows "be_inv ins hold (if es_peh es = p then set_es c (Some (es\<lparr>es_peh := NULL\<rparr>)) b else b)"
proof (cases "es_peh es = p")
  case True
  have ok: "cookie_ok b es" by (rule be_invD(5) [OF inv es])
  let ?hold = "hold(p := hold p + 1 + es_reserved es)"
  have "be_inv ins ?hold (set_es c (Some (es\<lparr>es_peh := NULL\<rparr>)) b)"
  proof (rule be_inv_set_es [OF inv])
    show "cookie_ok b e" if "Some (es\<lparr>es_peh := NULL\<rparr>) = Some e" for e using that ok by (auto simp: cookie_ok_def)
    fix q
    have "be_pehs b q \<noteq> None \<Longrightarrow> q \<noteq> NULL" using be_invD(6) [OF inv, of q] handle_okD(1) by blast
    then show "?hold q = hold q + (if be_pehs b q = None then 0 else conn_refs (be_cookies b c) q - conn_refs (Some (es\<lparr>es_peh := NULL\<rparr>)) q)"
      using es True p ok by (cases "be_pehs b q") (auto simp: cookie_ok_def)
    show "0 \<le> ?hold q" using hold_nonneg [OF inv] ok by (simp add: cookie_ok_def)
  qed
  then have "be_inv ins hold (set_es c (Some (es\<lparr>es_peh := NULL\<rparr>)) b)"
    by (rule be_inv_weaken) (use hold_nonneg [OF inv] ok in \<open>auto simp: cookie_ok_def\<close>)
  then show ?thesis using True by simp
qed (use inv in simp)

lemma store_specific_inv:
  assumes inv: "be_inv ins hold b" and es: "be_cookies b c = Some es"
  shows "\<exists>b'. bucket_store_engine_specific c d b = Some b' \<and> be_inv ins hold b'"
proof -
  have "be_inv ins hold (set_es c (Some (es\<lparr>es_specific := d\<rparr>)) b)"
    using be_invD(5) [OF inv es] by (intro same_refs_inv [OF inv es]) (auto simp: cookie_ok_def)
  then show ?thesis using es by (simp add: bucket_store_engine_specific_def)
qed

text \<open>One reference of the operation at work.\<close>

definition one :: "ptr \<Rightarrow> ptr \<Rightarrow> int" where
  "one p = (\<lambda>q. if q = p \<and> p \<noteq> NULL then 1 else 0)"

lemma one_simps [simp]:
  "one NULL = (\<lambda>_. 0)" "(if p = NULL then \<lambda>_. 0 else (\<lambda>_. 0)(p := 0 + 1)) = one p"
  "(if p = NULL then one p else (one p)(p := one p p - 1)) = (\<lambda>_. 0)" "p \<noteq> NULL \<Longrightarrow> one p p = 1"
  by (auto simp: one_def fun_eq_iff)

lemma find_bucket_one:
  assumes inv: "be_inv ins (\<lambda>_. 0) b" and k: "fits_length k"
  obtains q b' where "find_bucket k b = Some (q, b')" "be_cookies b' = be_cookies b" "be_inv ins (one q) b'"
    "q \<noteq> NULL \<Longrightarrow> q \<noteq> DEFAULT_ENGINE \<and> be_pehs b' q \<noteq> None \<and> (\<exists>h. be_pehs b q = Some h \<and> pe_state h = STATE_RUNNING)"
  using find_bucket_inv [OF assms] that unfolding one_simps by blast

lemma release_one:
  assumes "be_inv ins (one p) b"
  obtains b' where "release_handle p b = Some b'" "be_inv ins (\<lambda>_. 0) b'" "be_cookies b' = be_cookies b"
  using release_handle_inv [OF assms, of p] that unfolding one_simps by auto

lemma handle_select_inv:
  assumes inv: "be_inv ins (\<lambda>_. 0) b" and es: "be_cookies b c = Some es" "es_reserved es = 0" and k: "fits_length (c_string key)"
  shows "\<exists>r b'. handle_select_bucket c key b = Some (r, b') \<and> be_inv ins (\<lambda>_. 0) b'"
proof -
  obtain p b1 where f: "find_bucket (c_string key) b = Some (p, b1)" "be_cookies b1 = be_cookies b"
    "be_inv ins (one p) b1" "p \<noteq> NULL \<Longrightarrow> be_pehs b1 p \<noteq> None"
    using find_bucket_one [OF inv k] by metis
  obtain q b2 where s: "set_engine_handle c p b1 = Some (q, b2)" "be_inv ins (one p) b2"
    using set_engine_handle_inv [OF f(3), of c es p] f es by auto
  obtain b3 where "release_handle p b2 = Some b3" "be_inv ins (\<lambda>_. 0) b3" using release_one [OF s(2)] .
  then show ?thesis using f s by (simp add: handle_select_bucket_def)
qed

lemma store_specific_run:
  "be_cookies b c = Some es \<Longrightarrow> bucket_store_engine_specific c d b = Some (set_es c (Some (es\<lparr>es_specific := d\<rparr>)) b)"
  by (simp add: bucket_store_engine_specific_def)

text \<open>Deleting a bucket, with what it says and what becomes of the bucket.\<close>

lemma handle_delete_inv:
  assumes inv: "be_inv ins (\<lambda>_. 0) b" and es: "be_cookies b c = Some es" and k: "fits_length (c_string key)"
  shows "\<exists>r b'. handle_delete_bucket force breq c key body b = Some (r, b') \<and> be_inv ins (\<lambda>_. 0) b'
    \<and> (\<forall>fo p h. es_specific es = NULL \<and> length body < 65536 \<and> (if c_string body = [] then Some False else force) = Some fo
        \<and> find_bucket_inner (c_string key) b = Some p \<and> p \<noteq> NULL \<and> be_pehs b p = Some h \<and> pe_state h = STATE_RUNNING \<longrightarrow>
          r = (ENGINE_EWOULDBLOCK, None)
          \<and> (\<exists>h'. be_pehs b' p = Some h' \<and> pe_state h' = (if ins p = 0 then STATE_STOPPING else STATE_STOP_REQUESTED)
              \<and> pe_name h' = pe_name h \<and> force_shutdown h' = fo \<and> pe_cookie h' = c)
          \<and> be_threads b' p = (if ins p = 0 then Some PC_START else None))"
proof -
  obtain p b1 where f: "find_bucket (c_string key) b = Some (p, b1)" "be_cookies b1 = be_cookies b" "be_inv ins (one p) b1"
    "p \<noteq> NULL \<Longrightarrow> p \<noteq> DEFAULT_ENGINE \<and> be_pehs b1 p \<noteq> None"
    using find_bucket_one [OF inv k] by metis
  have found: "p = q \<and> (\<exists>h1. be_pehs b1 q = Some h1 \<and> pe_state h1 = STATE_RUNNING \<and> pe_name h1 = pe_name h)"
    if "find_bucket_inner (c_string key) b = Some q" "q \<noteq> NULL" "be_pehs b q = Some h" "pe_state h = STATE_RUNNING" for q h
    using f(1) that by (auto simp: find_bucket_def retain_handle_def guard_bind_eq_Some)
  show ?thesis
  proof (cases "es_specific es \<noteq> NULL \<or> length body \<ge> 65536 \<or> (if c_string body = [] then Some False else force) = None \<or> p = NULL")
    case True
    have "\<exists>r b'. handle_delete_bucket force breq c key body b = Some (r, b') \<and> be_inv ins (\<lambda>_. 0) b'"
      using f inv es store_specific_inv [OF inv es, of NULL] True
      by (cases "es_specific es = NULL"; cases "length body \<ge> 65536")
        (auto simp: handle_delete_bucket_def bucket_get_engine_specific_def split: option.splits if_splits)
    then show ?thesis using True found by (metis linorder_not_less option.distinct(1))
  next
    case False
    then obtain fo where fo: "(if c_string body = [] then Some False else force) = Some fo" and p: "p \<noteq> NULL"
      and g: "es_specific es = NULL" "length body < 65536" by auto
    obtain h where h: "be_pehs b1 p = Some h" using f(4) p by auto
    have es1: "be_cookies b1 c = Some es" using es f(2) by simp
    define mid where "mid = (if pe_state h = STATE_RUNNING then
                          do { b \<leftarrow> release_handle_locked p (peh_upd p (\<lambda>h. h\<lparr>pe_cookie := c,
                                   pe_state := STATE_STOP_REQUESTED, force_shutdown := fo\<rparr>) b1);
                            Some (True, b) }
                        else Some (False, b1))"
    let ?stopped = "\<lambda>b. (\<exists>h'. be_pehs b p = Some h' \<and> pe_state h' = (if ins p = 0 then STATE_STOPPING else STATE_STOP_REQUESTED)
              \<and> pe_name h' = pe_name h \<and> force_shutdown h' = fo \<and> pe_cookie h' = c)
          \<and> be_threads b p = (if ins p = 0 then Some PC_START else None)"
    obtain found b2 where m: "mid = Some (found, b2)" "be_inv ins (one p) b2" "be_cookies b2 c = Some es"
      "pe_state h = STATE_RUNNING \<Longrightarrow> found \<and> ?stopped b2"
    proof (cases "pe_state h = STATE_RUNNING")
      case True
      then show ?thesis using that request_stop_inv [OF f(3) h True, where c = c and f = fo] f(4) p es1 by (auto simp: mid_def)
    qed (use that f(3) es1 in \<open>auto simp: mid_def\<close>)
    define b3 where "b3 = (if es_peh es = p then set_es c (Some (es\<lparr>es_peh := NULL\<rparr>)) b2 else b2)"
    have i3: "be_inv ins (one p) b3" unfolding b3_def by (rule leave_bucket_inv [OF m(2,3) p])
    obtain es3 where es3: "be_cookies b3 c = Some es3" using m(3) by (cases "es_peh es = p") (auto simp: b3_def)
    let ?b4 = "peh_upd p (\<lambda>h. h\<lparr>pe_refcount := pe_refcount h - 1\<rparr>) b3"
    have i4: "be_inv ins (\<lambda>_. 0) ?b4" and r: "release_handle_locked p b3 = Some ?b4"
      using release_locked_inv [OF i3, of p] p by (auto simp: one_def fun_upd_def cong: if_cong)
    let ?b5 = "set_es c (Some (es3\<lparr>es_specific := breq\<rparr>)) ?b4"
    have es4: "be_cookies ?b4 c = Some es3" using es3 by simp
    have i5: "be_inv ins (\<lambda>_. 0) ?b5" using store_specific_inv [OF i4 es4, of breq] store_specific_run [OF es4, of breq] by simp
    have run: "handle_delete_bucket force breq c key body b = (if found then Some ((ENGINE_EWOULDBLOCK, None), ?b5)
          else Some ((ENGINE_SUCCESS, Some (RESPONSE_KEY_ENOENT, [])), ?b4))"
      unfolding handle_delete_bucket_def bucket_get_engine_specific_def fo
      using es g f(1) p h m(1,3) r store_specific_run [OF es4, of breq] by (simp flip: mid_def b3_def)
    have st: "?stopped ?b5" if running: "pe_state h = STATE_RUNNING"
    proof -
      obtain h' where "be_pehs b2 p = Some h'" "pe_state h' = (if ins p = 0 then STATE_STOPPING else STATE_STOP_REQUESTED)"
        "pe_name h' = pe_name h" "force_shutdown h' = fo" "pe_cookie h' = c" "be_threads b2 p = (if ins p = 0 then Some PC_START else None)"
        using m(4) [OF running] by auto
      moreover from this(1) have "be_pehs ?b5 p = Some (h'\<lparr>pe_refcount := pe_refcount h' - 1\<rparr>)" by (simp add: b3_def)
      ultimately show ?thesis by (simp add: b3_def)
    qed
    have found': "p = q \<and> pe_state h = STATE_RUNNING \<and> pe_name h = pe_name hq"
      if "find_bucket_inner (c_string key) b = Some q" "q \<noteq> NULL" "be_pehs b q = Some hq" "pe_state hq = STATE_RUNNING" for q hq
      using found [OF that] h by auto
    show ?thesis
    proof (cases "pe_state h = STATE_RUNNING")
      case True
      have run': "handle_delete_bucket force breq c key body b = Some ((ENGINE_EWOULDBLOCK, None), ?b5)" using run m(4) [OF True] by simp
      show ?thesis
      proof (rule exI, rule exI, intro conjI, rule run', rule i5, intro allI impI, elim conjE)
        fix fo' q hq
        assume q: "(if c_string body = [] then Some False else force) = Some fo'" "find_bucket_inner (c_string key) b = Some q" "q \<noteq> NULL"
          "be_pehs b q = Some hq" "pe_state hq = STATE_RUNNING"
        then have e: "fo' = fo" "q = p" "pe_name hq = pe_name h" using found' [OF q(2-5)] fo by auto
        show "(ENGINE_EWOULDBLOCK, None) = (ENGINE_EWOULDBLOCK, None)
          \<and> (\<exists>h'. be_pehs ?b5 q = Some h' \<and> pe_state h' = (if ins q = 0 then STATE_STOPPING else STATE_STOP_REQUESTED)
              \<and> pe_name h' = pe_name hq \<and> force_shutdown h' = fo' \<and> pe_cookie h' = c)
          \<and> be_threads ?b5 q = (if ins q = 0 then Some PC_START else None)"
          unfolding e using st [OF True] by simp
      qed
    next
      case False
      have "\<exists>r b'. handle_delete_bucket force breq c key body b = Some (r, b') \<and> be_inv ins (\<lambda>_. 0) b'"
        using run i4 i5 by (cases found) auto
      then show ?thesis using found' False by metis
    qed
  qed
qed

section \<open>Creating a bucket\<close>

text \<open>What the operating system promises: new memory is not in use, and the table can grow.\<close>

definition env_ok :: "load_env \<Rightarrow> bucket_engine \<Rightarrow> bool" where
  "env_ok env b \<longleftrightarrow> le_table_ok env
     \<and> (le_addr env \<noteq> NULL \<longrightarrow> le_addr env \<noteq> DEFAULT_ENGINE \<and> be_pehs b (le_addr env) = None)"

lemma free_values_one:
  assumes "be_pehs b p = Some h"
  shows "free_values [p] b = Some (peh_upd p (\<lambda>h. h\<lparr>pe_state := STATE_NULL\<rparr>) b)"
  using assms by (simp add: engine_hash_free_def)

text \<open>A handle leaves the table.\<close>

lemma indexed_unlink:
  assumes m: "indexed_by b m" and h: "be_pehs b p = Some h" "m (pe_name h) = Some p"
    and b': "be_pehs b' = (be_pehs b)(p := x)" "\<And>h'. x = Some h' \<Longrightarrow> \<not> in_table (pe_state h')"
  shows "indexed_by b' (m(pe_name h := None))"
  unfolding indexed_by_def
proof (intro allI)
  fix k q
  have mkq: "m k = Some q \<longleftrightarrow> q \<noteq> DEFAULT_ENGINE \<and> (\<exists>h. be_pehs b q = Some h \<and> pe_name h = k \<and> in_table (pe_state h))"
    using m unfolding indexed_by_def by blast
  show "(m(pe_name h := None)) k = Some q \<longleftrightarrow>
      q \<noteq> DEFAULT_ENGINE \<and> (\<exists>h. be_pehs b' q = Some h \<and> pe_name h = k \<and> in_table (pe_state h))"
  proof (cases "q = p")
    case True
    have "m k = Some p \<Longrightarrow> k = pe_name h" using mkq True h(1) by auto
    then show ?thesis using True b' by auto
  next
    case False
    then have "k = pe_name h \<Longrightarrow> m k \<noteq> Some q" using h(2) by simp
    then show ?thesis using mkq False b'(1) by auto
  qed
qed

lemma unlink_run:
  assumes m: "names (be_engines b) m" "m k = Some p" and k: "fits_length k" and h: "be_pehs b p = Some h"
  obtains t where "engines_delete_all k b = Some (1, peh_upd p (\<lambda>h. h\<lparr>pe_state := STATE_NULL\<rparr>) (b\<lparr>be_engines := t\<rparr>))"
    "names t (m(k := None))"
proof -
  obtain t where t: "genhash_delete_all (be_engines b) k (of_nat (length k)) 0 = Some (1, t)"
    "names (t\<lparr>gh_freed_values := []\<rparr>) (m(k := None))" "gh_freed_values t = [p]"
    using names_delete_all [OF m(1) k] m(2) by auto
  then have "engines_delete_all k b
      = Some (1, peh_upd p (\<lambda>h. h\<lparr>pe_state := STATE_NULL\<rparr>) (b\<lparr>be_engines := t\<lparr>gh_freed_values := []\<rparr>\<rparr>))"
    using h free_values_one [of "b\<lparr>be_engines := t\<lparr>gh_freed_values := []\<rparr>\<rparr>" p h] by (simp add: engines_delete_all_def)
  then show ?thesis using that t(2) by blast
qed

text \<open>A new handle with its entry in the table: one reference of the table, one of its creator.\<close>

lemma new_bucket_inv:
  assumes inv: "be_inv ins (\<lambda>_. 0) b" and p: "p \<noteq> NULL" "p \<noteq> DEFAULT_ENGINE" "be_pehs b p = None"
    and m: "names (be_engines b) m" "indexed_by b m" "m k = None" and k: "fits_length k"
    and h: "pe_name h = k" "pe_state h = STATE_RUNNING" "pe_engine h \<noteq> NULL" "pe_clients h = 0" "pe_refcount h = 2"
    and t: "names t (m(k \<mapsto> p))"
    and b': "be_pehs b' = (be_pehs b)(p \<mapsto> h)" "be_engines b' = t" "be_cookies b' = be_cookies b" "be_threads b' = be_threads b"
      "thread_ok b' = thread_ok b" "in_progress b' = in_progress b"
  shows "be_inv ins (one p) b'"
proof -
  have i: "ins p = 0" "be_threads b p = None" using be_invD(7) [OF inv p(3)] by simp_all
  have "refs b p = 0"
    unfolding refs_def
  proof (rule sum.neutral, rule ballI)
    fix c assume "c \<in> dom (be_cookies b)"
    then obtain es where "be_cookies b c = Some es" by blast
    with be_invD(5) [OF inv this] p show "conn_refs (be_cookies b c) p = 0" by (auto simp: cookie_ok_def)
  qed
  then have r: "refs b' p = 0" using refs_cong [OF b'(3), of p] by simp
  have hp: "handle_ok ins (one p) b' p h"
    using p k h i r by (simp add: handle_ok_def b' main_ref_def)
  have "handle_ok ins (one p) b' q g" if "be_pehs b' q = Some g" for q g
  proof (cases "q = p")
    case False
    then have "handle_ok ins (\<lambda>_. 0) b q g" using that be_invD(6) [OF inv] by (simp add: b')
    then show ?thesis by (rule handle_ok_cong) (use False b' in \<open>auto simp: one_def\<close>)
  qed (use hp that in \<open>simp add: b'\<close>)
  moreover have "indexed_by b' (m(k \<mapsto> p))"
    unfolding indexed_by_def
  proof (intro allI)
    fix k' q
    show "(m(k \<mapsto> p)) k' = Some q \<longleftrightarrow> q \<noteq> DEFAULT_ENGINE \<and> (\<exists>h. be_pehs b' q = Some h \<and> pe_name h = k' \<and> in_table (pe_state h))"
    proof (cases "q = p")
      case True
      have "m k' \<noteq> Some p" using m(2) p(3) by (simp add: indexed_by_def)
      then show ?thesis using True p h by (auto simp: b' in_table_def)
    next
      case False
      have "m k' = Some q \<longleftrightarrow> q \<noteq> DEFAULT_ENGINE \<and> (\<exists>h. be_pehs b' q = Some h \<and> pe_name h = k' \<and> in_table (pe_state h))"
        using m(2) False by (simp add: b' indexed_by_def)
      then show ?thesis using False m(3) by auto
    qed
  qed
  moreover have "cookie_ok b' es" if "be_cookies b' c = Some es" for c es
    using that be_invD(5) [OF inv, of c es] by (auto simp: b' cookie_ok_def)
  ultimately show ?thesis
    unfolding be_inv_def using be_invD(1-4,7) [OF inv] t by (auto simp: b' one_def split: if_splits)
qed

lemma init_engine_handle_fields:
  assumes "init_engine_handle env name path zeroed = (ENGINE_SUCCESS, h)"
  shows "pe_name h = name" "pe_state h = STATE_RUNNING" "pe_clients h = 0" "pe_refcount h = 1"
  using assms by (auto simp: init_engine_handle_def Let_def zeroed_def split: if_splits option.splits)

lemma wants_same: "\<exists>w. h = h\<lparr>wants_disconnects := w\<rparr>" for h :: proxied_engine_handle
  by (rule exI [of _ "wants_disconnects h"]) simp

text \<open>What the entries of the table are.\<close>

lemma table_entry:
  assumes inv: "be_inv ins hold b" and en: "en \<in> set (entries (be_engines b))"
  obtains h where "be_pehs b (ge_value en) = Some h" "pe_name h = ge_key en" "in_table (pe_state h)" "ge_value en \<noteq> DEFAULT_ENGINE"
    "ge_value en \<noteq> NULL" "take (unat (ge_nkey en)) (ge_key en) = ge_key en"
proof -
  obtain m where m: "names (be_engines b) m" "indexed_by b m" using inv by (auto simp: be_inv_def)
  have ok: "gh_ok (be_engines b)" using m(1) by (simp add: names_def)
  let ?k = "ge_key en"
  have k: "fits_length ?k" "ge_nkey en = of_nat (length ?k)" using m(1) en by (auto simp: names_def)
  obtain bk where "bk \<in> set (gh_buckets (be_engines b))" "en \<in> set bk" using en by auto
  then obtain n where n: "n < length (gh_buckets (be_engines b))" "en \<in> set (gh_buckets (be_engines b) ! n)"
    by (metis in_set_conv_nth)
  then have "bucket_of (be_engines b) ?k (ge_nkey en) = n" using gh_okD(4) [OF ok] by blast
  moreover have "matches (be_engines b) ?k (ge_nkey en) en"
    using good_opsD(1) [OF gh_okD(1) [OF ok]] by (simp add: matches_def)
  ultimately have "ge_value en \<in> set (values_of (be_engines b) ?k (of_nat (length ?k)))"
    using n k(2) by (auto simp: values_of_def)
  then have "m ?k = Some (ge_value en)" using m(1) k(1) by (auto simp: names_def split: option.splits)
  then obtain h where h: "be_pehs b (ge_value en) = Some h" "pe_name h = ?k" "in_table (pe_state h)" "ge_value en \<noteq> DEFAULT_ENGINE"
    using m(2) by (auto simp: indexed_by_def)
  moreover have "unat (ge_nkey en) = length ?k" using k by (simp add: unat_of_nat take_bit_nat_eq_self)
  ultimately show ?thesis using that handle_okD(1) [OF be_invD(6) [OF inv h(1)]] by simp
qed

text \<open>The registration of a callback changes no count.\<close>

lemma register_callback_inv:
  assumes inv: "be_inv ins hold b"
  shows "\<exists>b'. bucket_register_callback e b = Some b' \<and> be_inv ins hold b' \<and> be_cookies b' = be_cookies b
    \<and> be_engines b' = be_engines b \<and> (\<forall>p. be_pehs b' p = None \<longleftrightarrow> be_pehs b p = None)
    \<and> (\<forall>p h. be_pehs b p = Some h \<longrightarrow> (\<exists>w. be_pehs b' p = Some (h\<lparr>wants_disconnects := w\<rparr>)))"
proof -
  obtain m where m: "names (be_engines b) m" "indexed_by b m" using inv by (auto simp: be_inv_def)
  have ok: "gh_ok (be_engines b)" using m(1) by (simp add: names_def)
  have alloc: "\<exists>h. be_pehs b (ge_value en) = Some h" if "en \<in> set (entries (be_engines b))" for en
    using table_entry [OF inv that] by metis
  have "\<exists>q. fold (visit (find_bucket_by_engine b e)) es (Some p) = Some q \<and> (q = p \<or> (\<exists>h. be_pehs b q = Some h))"
    if "\<forall>en \<in> set es. \<exists>h. be_pehs b (ge_value en) = Some h" for es p
    using that
  proof (induction es arbitrary: p)
    case (Cons en es)
    then obtain h where "be_pehs b (ge_value en) = Some h" by auto
    then have v: "visit (find_bucket_by_engine b e) en (Some p) = Some (if e = pe_engine h then ge_value en else p)"
      by (simp add: visit_def find_bucket_by_engine_def)
    show ?case
      using Cons.IH [of "if e = pe_engine h then ge_value en else p"] Cons.prems \<open>be_pehs b (ge_value en) = Some h\<close>
      by (auto simp: v split: if_splits)
  qed simp
  from this [of "entries (be_engines b)" NULL] alloc
  obtain q where q: "genhash_iter (be_engines b) (find_bucket_by_engine b e) (Some NULL) = Some (Some q)"
    "q = NULL \<or> (\<exists>h. be_pehs b q = Some h)" by (auto simp: genhash_iter_fold [OF ok])
  define r where "r = (if q \<noteq> NULL then Some q else if has_default b \<and> e = default_pe b then Some DEFAULT_ENGINE else None)"
  have run: "bucket_register_callback e b = Some (case r of None \<Rightarrow> b | Some p \<Rightarrow> peh_upd p (\<lambda>h. h\<lparr>wants_disconnects := True\<rparr>) b)"
    using q(1) by (simp add: bucket_register_callback_def r_def)
  show ?thesis
  proof (cases r)
    case None
    then show ?thesis using run inv wants_same by auto
  next
    case (Some p)
    then obtain h where h: "be_pehs b p = Some h"
      using q(2) be_invD(4) [OF inv] by (auto simp: r_def split: if_splits)
    let ?b = "peh_upd p (\<lambda>h. h\<lparr>wants_disconnects := True\<rparr>) b"
    note k = handle_okD [OF be_invD(6) [OF inv h]]
    have "be_inv (ins(p := ins p)) (hold(p := hold p)) ?b"
      by (rule be_inv_counts [OF inv h]) (use k in \<open>auto simp: main_ref_def\<close>)
    then show ?thesis using run Some h wants_same by auto
  qed
qed


lemma free_handle_inv:
  assumes inv: "be_inv ins hold b" and p: "p \<noteq> DEFAULT_ENGINE" "ins p = 0"
    and unused: "\<And>c es. be_cookies b c = Some es \<Longrightarrow> es_peh es \<noteq> p"
    and b': "be_pehs b' = (be_pehs b)(p := None)" "be_threads b' = (be_threads b)(p := None)" "be_cookies b' = be_cookies b"
      "thread_ok b' = thread_ok b" "in_progress b' = in_progress b"
    and m: "\<exists>m. names (be_engines b') m \<and> indexed_by b' m"
  shows "be_inv ins (hold(p := 0)) b'"
proof -
  have "handle_ok ins (hold(p := 0)) b' q h" if "be_pehs b' q = Some h" for q h
  proof -
    have q: "q \<noteq> p" "be_pehs b q = Some h" using that by (auto simp: b' split: if_splits)
    show ?thesis by (rule handle_ok_cong [OF be_invD(6) [OF inv q(2)]]) (use q b' in auto)
  qed
  moreover have "cookie_ok b' es" if "be_cookies b' c = Some es" for c es
    using that be_invD(5) [OF inv, of c es] unused [of c es] by (auto simp: b' cookie_ok_def)
  ultimately show ?thesis
    unfolding be_inv_def using be_invD(1-4,7) [OF inv] p m by (auto simp: b')
qed

text \<open>The name is accepted, and the handle and the engine can be made.\<close>

definition loads :: "load_env \<Rightarrow> byte list \<Rightarrow> bool" where
  "loads env k \<longleftrightarrow> has_valid_bucket_name k \<and> le_addr env \<noteq> NULL \<and> le_name_ok env \<and> le_mutex_ok env \<and> le_cond_ok env
     \<and> le_engine env \<noteq> NULL"

lemma init_engine_handle_ok:
  "fst (init_engine_handle env k path zeroed) = ENGINE_SUCCESS \<longleftrightarrow> le_name_ok env \<and> le_mutex_ok env \<and> le_cond_ok env"
  "fst (init_engine_handle env k path zeroed) \<noteq> ENGINE_KEY_EEXISTS"
  by (auto simp: init_engine_handle_def Let_def split: option.splits)

lemma create_refused:
  assumes env: "env_ok env b" and no: "\<not> loads env k"
  shows "\<exists>rv. create_bucket env e_out k path b = Some (rv, NULL, b) \<and> rv \<noteq> ENGINE_SUCCESS \<and> rv \<noteq> ENGINE_KEY_EEXISTS"
proof -
  let ?p = "le_addr env"
  obtain rv h where i: "init_engine_handle env k path zeroed = (rv, h)" by fastforce
  have rv: "rv = ENGINE_SUCCESS \<longleftrightarrow> le_name_ok env \<and> le_mutex_ok env \<and> le_cond_ok env" "rv \<noteq> ENGINE_KEY_EEXISTS"
    using init_engine_handle_ok [of env k path] i by simp_all
  have "?p \<noteq> NULL \<Longrightarrow> (be_pehs b)(?p := None) = be_pehs b" using env by (auto simp: env_ok_def)
  then have "?p \<noteq> NULL \<Longrightarrow> free_engine_handle ?p (b\<lparr>be_pehs := (be_pehs b)(?p \<mapsto> h)\<rparr>) = Some b" for h
    by (simp add: free_engine_handle_def)
  then show ?thesis using no i rv by (auto simp: create_bucket_def Let_def loads_def)
qed

text \<open>What happens after the handle and the engine have been made.\<close>

lemma create_loaded:
  assumes inv: "be_inv ins (\<lambda>_. 0) b" and env: "env_ok env b" and k: "fits_length k" and l: "loads env k"
    and m: "names (be_engines b) m" "indexed_by b m"
  shows "m k = Some q \<Longrightarrow> create_bucket env e_out k path b
      = Some (ENGINE_KEY_EEXISTS, NULL, event (EngineDestroyed (le_engine env) True) b)"
    "m k = None \<Longrightarrow> \<exists>b'. create_bucket env e_out k path b = (if le_init_ok env then
        (if e_out then Some (ENGINE_SUCCESS, le_addr env, b')
         else do { b \<leftarrow> release_handle (le_addr env) b'; Some (ENGINE_SUCCESS, NULL, b) })
      else do {
        (n, b) \<leftarrow> engines_delete_all k (event (EngineDestroyed (le_engine env) False) b');
        b \<leftarrow> free_engine_handle (le_addr env) b;
        Some (ENGINE_FAILED, NULL, b) })
      \<and> be_inv ins (one (le_addr env)) b' \<and> be_cookies b' = be_cookies b
      \<and> (\<forall>x. x \<noteq> le_addr env \<longrightarrow> (be_pehs b' x = None) = (be_pehs b x = None))
      \<and> (\<exists>h. be_pehs b' (le_addr env) = Some h \<and> pe_name h = k \<and> pe_state h = STATE_RUNNING)"
proof -
  let ?p = "le_addr env"
  obtain h0 where i: "init_engine_handle env k path zeroed = (ENGINE_SUCCESS, h0)"
    using init_engine_handle_ok [of env k path] l by (metis loads_def prod.collapse)
  have v: "has_valid_bucket_name k" "?p \<noteq> NULL" "le_engine env \<noteq> NULL" using l by (simp_all add: loads_def)
  note f = init_engine_handle_fields [OF i]
  have p: "?p \<noteq> DEFAULT_ENGINE" "be_pehs b ?p = None" "le_table_ok env" using env v(2) by (auto simp: env_ok_def)
  define h where "h = h0\<lparr>pe_engine := le_engine env\<rparr>"
  define b1 where "b1 = b\<lparr>be_pehs := (be_pehs b)(?p \<mapsto> h)\<rparr>"
  have find: "find_bucket_inner k b1 = Some (case m k of None \<Rightarrow> NULL | Some q \<Rightarrow> q)"
    using names_find [OF m(1) k] by (simp add: find_bucket_inner_def b1_def)
  { assume Some: "m k = Some q"
    have "q \<noteq> NULL" using m(2) Some be_invD(6) [OF inv, of q] handle_okD(1) by (auto simp: indexed_by_def)
    moreover have "free_engine_handle ?p (event (EngineDestroyed (le_engine env) True) b1)
        = Some (event (EngineDestroyed (le_engine env) True) b)"
      using p(2) by (simp add: free_engine_handle_def b1_def event_def fun_upd_idem)
    ultimately show "create_bucket env e_out k path b = Some (ENGINE_KEY_EEXISTS, NULL, event (EngineDestroyed (le_engine env) True) b)"
      using v find Some by (simp add: create_bucket_def i flip: b1_def h_def) }
  assume None: "m k = None"
  obtain t where t: "genhash_update True (be_engines b) k (of_nat (length k)) ?p 0 = Some (NEW, t)" "names t (m(k \<mapsto> ?p))"
    using names_update [OF m(1) k None] by blast
  let ?h2 = "h\<lparr>pe_refcount := pe_refcount h + 1\<rparr>"
  define b2 where "b2 = b\<lparr>be_pehs := (be_pehs b)(?p \<mapsto> ?h2), be_engines := t\<rparr>"
  have "gh_freed_values t = []" using t(2) by (simp add: names_def)
  then have u: "engines_update True k ?p b1 = Some b2"
    using t(1) by (simp add: engines_update_def refcount_dup_def b1_def b2_def peh_upd_def)
  have i2: "be_inv ins (one ?p) b2"
    by (rule new_bucket_inv [OF inv v(2) p(1,2) m None k, where h = ?h2 and t = t])
      (use f v t in \<open>auto simp: b2_def h_def\<close>)
  obtain b3 where b3: "(if le_wants env then bucket_register_callback (le_engine env) b2 else Some b2) = Some b3"
    "be_inv ins (one ?p) b3" "be_cookies b3 = be_cookies b2" "\<forall>x. be_pehs b3 x = None \<longleftrightarrow> be_pehs b2 x = None"
    "\<exists>w. be_pehs b3 ?p = Some (?h2\<lparr>wants_disconnects := w\<rparr>)"
  proof (cases "le_wants env")
    case True
    have "be_pehs b2 ?p = Some ?h2" by (simp add: b2_def)
    then show ?thesis using that register_callback_inv [OF i2, of "le_engine env"] True by auto
  next
    case False
    with that [of b2] i2 wants_same show ?thesis by (simp add: b2_def)
  qed
  show "\<exists>b'. create_bucket env e_out k path b = (if le_init_ok env then
        (if e_out then Some (ENGINE_SUCCESS, le_addr env, b')
         else do { b \<leftarrow> release_handle (le_addr env) b'; Some (ENGINE_SUCCESS, NULL, b) })
      else do {
        (n, b) \<leftarrow> engines_delete_all k (event (EngineDestroyed (le_engine env) False) b');
        b \<leftarrow> free_engine_handle (le_addr env) b;
        Some (ENGINE_FAILED, NULL, b) })
      \<and> be_inv ins (one (le_addr env)) b' \<and> be_cookies b' = be_cookies b
      \<and> (\<forall>x. x \<noteq> le_addr env \<longrightarrow> (be_pehs b' x = None) = (be_pehs b x = None))
      \<and> (\<exists>h. be_pehs b' (le_addr env) = Some h \<and> pe_name h = k \<and> pe_state h = STATE_RUNNING)"
  proof (intro exI [of _ b3] conjI)
    show "create_bucket env e_out k path b = (if le_init_ok env then
        (if e_out then Some (ENGINE_SUCCESS, le_addr env, b3)
         else do { b \<leftarrow> release_handle (le_addr env) b3; Some (ENGINE_SUCCESS, NULL, b) })
      else do {
        (n, b) \<leftarrow> engines_delete_all k (event (EngineDestroyed (le_engine env) False) b3);
        b \<leftarrow> free_engine_handle (le_addr env) b;
        Some (ENGINE_FAILED, NULL, b) })"
      using v find None p(3) u b3(1) by (simp add: create_bucket_def i flip: b1_def h_def)
  qed (use b3 f in \<open>auto simp: b2_def h_def\<close>)
qed

text \<open>A new bucket whose engine fails to start is removed again.\<close>

lemma undo_new_bucket:
  assumes inv: "be_inv ins (one p) b" and p: "p \<noteq> DEFAULT_ENGINE" "be_pehs b p = Some h" "pe_state h = STATE_RUNNING" "ins p = 0"
    and unused: "\<And>c es. be_cookies b c = Some es \<Longrightarrow> es_peh es \<noteq> p"
  shows "\<exists>b1 b2. engines_delete_all (pe_name h) b = Some (1, b1) \<and> free_engine_handle p b1 = Some b2
    \<and> be_inv ins (\<lambda>_. 0) b2 \<and> be_cookies b2 = be_cookies b \<and> be_pehs b2 = (be_pehs b)(p := None)"
proof -
  have k: "fits_length (pe_name h)" using handle_okD(2) [OF be_invD(6) [OF inv p(2)]] .
  obtain m where m: "names (be_engines b) m" "indexed_by b m" using inv by (auto simp: be_inv_def)
  have mk: "m (pe_name h) = Some p" using m(2) p by (auto simp: indexed_by_def in_table_def)
  let ?b1 = "\<lambda>t. peh_upd p (\<lambda>h. h\<lparr>pe_state := STATE_NULL\<rparr>) (b\<lparr>be_engines := t\<rparr>)"
  let ?b2 = "\<lambda>t. (?b1 t)\<lparr>be_pehs := (be_pehs (?b1 t))(p := None)\<rparr>"
  obtain t where t: "engines_delete_all (pe_name h) b = Some (1, ?b1 t)" "names t (m(pe_name h := None))"
    using unlink_run [OF m(1) mk k p(2)] .
  have pehs: "be_pehs (?b2 t) = (be_pehs b)(p := None)" using p(2) by (simp add: fun_eq_iff)
  have "indexed_by (?b2 t) (m(pe_name h := None))" by (rule indexed_unlink [OF m(2) p(2) mk pehs]) simp
  then have idx: "\<exists>m. names (be_engines (?b2 t)) m \<and> indexed_by (?b2 t) m" using t(2) by auto
  have "be_threads b p = None" using running_no_thread [OF be_invD(6) [OF inv p(2)]] p(3) by simp
  then have "be_inv ins ((one p)(p := 0)) (?b2 t)"
    by (intro free_handle_inv [OF inv p(1,4) unused pehs _ _ _ _ idx]) (simp_all add: fun_upd_idem)
  moreover have "(one p)(p := 0) = (\<lambda>_. 0)" by (auto simp: one_def)
  moreover have "free_engine_handle p (?b1 t) = Some (?b2 t)" using p(2) by (simp add: free_engine_handle_def)
  ultimately show ?thesis using t(1) pehs by (auto simp del: peh_upd_simps(6))
qed

text \<open>The result of the creation of a bucket, on every path.\<close>

definition name_taken :: "bucket_engine \<Rightarrow> key \<Rightarrow> bool" where
  "name_taken b k \<longleftrightarrow> (\<exists>q h. q \<noteq> DEFAULT_ENGINE \<and> be_pehs b q = Some h \<and> pe_name h = k \<and> in_table (pe_state h))"

lemma create_bucket_inv:
  assumes inv: "be_inv ins (\<lambda>_. 0) b" and env: "env_ok env b" and k: "fits_length k"
  shows "\<exists>rv p b'. create_bucket env e_out k path b = Some (rv, p, b') \<and> be_inv ins (one p) b' \<and> be_cookies b' = be_cookies b
    \<and> (rv = ENGINE_KEY_EEXISTS \<longleftrightarrow> loads env k \<and> name_taken b k)
    \<and> (rv = ENGINE_SUCCESS \<longleftrightarrow> loads env k \<and> \<not> name_taken b k \<and> le_init_ok env)
    \<and> p = (if rv = ENGINE_SUCCESS \<and> e_out then le_addr env else NULL)
    \<and> (\<forall>q. q \<noteq> le_addr env \<or> rv \<noteq> ENGINE_SUCCESS \<longrightarrow> (be_pehs b' q = None) = (be_pehs b q = None))
    \<and> (rv = ENGINE_SUCCESS \<longrightarrow> (\<exists>h. be_pehs b' (le_addr env) = Some h \<and> pe_name h = k \<and> pe_state h = STATE_RUNNING))"
proof -
  let ?p = "le_addr env"
  obtain m where m: "names (be_engines b) m" "indexed_by b m" using inv by (auto simp: be_inv_def)
  have taken: "name_taken b k \<longleftrightarrow> m k \<noteq> None" using m(2) by (fastforce simp: name_taken_def indexed_by_def)
  show ?thesis
  proof (cases "loads env k")
    case False
    then show ?thesis using create_refused [OF env False, of e_out path] inv by auto
  next
    case l: True
    note c = create_loaded [OF inv env k l m, where e_out = e_out and path = path]
    have p: "?p \<noteq> NULL" "?p \<noteq> DEFAULT_ENGINE" "be_pehs b ?p = None" using env l by (auto simp: env_ok_def loads_def)
    show ?thesis
    proof (cases "m k")
      case (Some q)
      then show ?thesis using c(1) [OF Some] l taken event_inv [OF inv] by simp
    next
      case None
      from c(2) [OF None] obtain b3 h where run: "create_bucket env e_out k path b = (if le_init_ok env then
          (if e_out then Some (ENGINE_SUCCESS, ?p, b3)
           else do { b \<leftarrow> release_handle ?p b3; Some (ENGINE_SUCCESS, NULL, b) })
        else do {
          (n, b) \<leftarrow> engines_delete_all k (event (EngineDestroyed (le_engine env) False) b3);
          b \<leftarrow> free_engine_handle ?p b;
          Some (ENGINE_FAILED, NULL, b) })"
        and b3: "be_inv ins (one ?p) b3" "be_cookies b3 = be_cookies b"
          "\<forall>x. x \<noteq> ?p \<longrightarrow> (be_pehs b3 x = None) = (be_pehs b x = None)"
        and h: "be_pehs b3 ?p = Some h" "pe_name h = k" "pe_state h = STATE_RUNNING" by blast
      show ?thesis
      proof (cases "le_init_ok env")
        case init: True
        show ?thesis
        proof (cases e_out)
          case True
          then show ?thesis using run init b3 h p l taken None by auto
        next
          case False
          obtain b4 where b4: "release_handle ?p b3 = Some b4" "be_inv ins (\<lambda>_. 0) b4" "be_cookies b4 = be_cookies b3"
            using release_one [OF b3(1)] .
          moreover have "b4 = peh_upd ?p (\<lambda>h. h\<lparr>pe_refcount := pe_refcount h - 1\<rparr>) b3"
            using b4(1) release_locked_inv(1) [OF b3(1), of ?p] p(1) by (simp add: release_handle_def)
          ultimately show ?thesis using run init False b3 h p l taken None by auto
        qed
      next
        case False
        let ?e = "event (EngineDestroyed (le_engine env) False) b3"
        have he: "be_pehs ?e ?p = Some h" using h(1) by simp
        have i: "ins ?p = 0" using be_invD(7) [OF inv p(3)] by simp
        have unused: "es_peh es \<noteq> ?p" if "be_cookies ?e c = Some es" for c es
          using that be_invD(5) [OF inv, of c es] p(1,3) b3(2) by (auto simp: cookie_ok_def)
        obtain b4 b5 where "engines_delete_all (pe_name h) ?e = Some (1, b4)" "free_engine_handle ?p b4 = Some b5"
          "be_inv ins (\<lambda>_. 0) b5" "be_cookies b5 = be_cookies ?e" "be_pehs b5 = (be_pehs ?e)(?p := None)"
          using undo_new_bucket [OF event_inv [OF b3(1)] p(2) he h(3) i] unused by metis
        then show ?thesis using run False b3 h(2) p l taken None by auto
      qed
    qed
  qed
qed

section \<open>New and authenticated connections\<close>

lemma fresh_cookie_inv:
  assumes inv: "be_inv ins hold b" and c: "be_cookies b c = None"
  shows "be_inv ins hold (set_es c (Some \<lparr>es_peh = NULL, es_specific = NULL, es_reserved = 0, es_notified = False\<rparr>) b)"
proof (rule be_inv_set_es [OF inv])
  show "cookie_ok b e" if "Some \<lparr>es_peh = NULL, es_specific = NULL, es_reserved = 0, es_notified = False\<rparr> = Some e" for e
    using that by (auto simp: cookie_ok_def)
  fix p
  have "be_pehs b p \<noteq> None \<Longrightarrow> p \<noteq> NULL" using be_invD(6) [OF inv, of p] handle_okD(1) by blast
  then show "hold p = hold p + (if be_pehs b p = None then 0 else conn_refs (be_cookies b c) p
      - conn_refs (Some \<lparr>es_peh = NULL, es_specific = NULL, es_reserved = 0, es_notified = False\<rparr>) p)"
    using c by (cases "be_pehs b p") auto
  show "0 \<le> hold p" by (rule hold_nonneg [OF inv])
qed

text \<open>Find the bucket, or create it when it is missing and that is wanted; either way with one reference.\<close>

definition find_or_create :: "load_env \<Rightarrow> byte list \<Rightarrow> bucket_engine \<Rightarrow> (ptr \<times> bucket_engine) option" where
  "find_or_create env name b =
     do {
       (p, b) \<leftarrow> find_bucket name b;
       if p = NULL \<and> auto_create b then
         do { (rv, p, b) \<leftarrow> create_bucket env True name (default_engine_path b) b; Some (p, b) }
       else Some (p, b)
     }"

lemma find_bucket_frame:
  assumes "be_inv ins hold b" "fits_length k" "find_bucket k b = Some (NULL, b')"
  shows "b' = b"
proof -
  obtain p where p: "find_bucket_inner k b = Some p" "p \<noteq> NULL \<longrightarrow> be_pehs b p \<noteq> None"
    using find_bucket_inner_inv [OF assms(1,2)] by auto
  then show "b' = b" using assms(3) by (auto simp: find_bucket_def retain_handle_def bind_eq_Some_conv guard_bind_eq_Some split: if_splits)
qed

lemma find_or_create_inv:
  assumes inv: "be_inv ins (\<lambda>_. 0) b" and env: "env_ok env b" and k: "fits_length k"
  obtains p b' where "find_or_create env k b = Some (p, b')" "be_inv ins (one p) b'" "be_cookies b' = be_cookies b"
    "p \<noteq> NULL \<Longrightarrow> be_pehs b' p \<noteq> None"
proof -
  obtain q b1 where f: "find_bucket k b = Some (q, b1)" "be_cookies b1 = be_cookies b" "be_inv ins (one q) b1"
    "q \<noteq> NULL \<Longrightarrow> be_pehs b1 q \<noteq> None" using find_bucket_one [OF inv k] by metis
  show ?thesis
  proof (cases "q = NULL \<and> auto_create b1")
    case True
    then have b1: "b1 = b" using find_bucket_frame [OF inv k] f(1) by blast
    obtain rv p b2 where "create_bucket env True k (default_engine_path b) b = Some (rv, p, b2)" "be_inv ins (one p) b2"
      "be_cookies b2 = be_cookies b" "p \<noteq> NULL \<Longrightarrow> be_pehs b2 p \<noteq> None"
      using create_bucket_inv [OF inv env k, of True "default_engine_path b"] by (auto split: if_splits)
    then show ?thesis using that f(1) True b1 by (simp add: find_or_create_def)
  next
    case False
    have "find_or_create env k b = Some (q, b1)" unfolding find_or_create_def f(1) using False by auto
    then show ?thesis using that f by blast
  qed
qed

lemma attach_inv:
  assumes inv: "be_inv ins (one p) b" and es: "be_cookies b c = Some es" "es_reserved es = 0" and p: "p \<noteq> NULL \<Longrightarrow> be_pehs b p \<noteq> None"
  shows "\<exists>b'. (do { (q, b) \<leftarrow> set_engine_handle c p b; release_handle p b }) = Some b' \<and> be_inv ins (\<lambda>_. 0) b'"
proof -
  have "p = NULL \<or> be_pehs b p \<noteq> None" using p by blast
  from set_engine_handle_inv [OF inv es this] obtain q b1 where s: "set_engine_handle c p b = Some (q, b1)" "be_inv ins (one p) b1" by blast
  obtain b2 where "release_handle p b1 = Some b2" "be_inv ins (\<lambda>_. 0) b2" using release_one [OF s(2)] .
  then show ?thesis using s by simp
qed

lemma handle_connect_inv:
  assumes inv: "be_inv ins (\<lambda>_. 0) b" and env: "env_ok env b" and c: "be_cookies b c = None"
    and k: "\<And>k. default_bucket_name b = Some k \<Longrightarrow> fits_length k"
  shows "\<exists>b'. handle_connect env True c b = Some b' \<and> be_inv ins (\<lambda>_. 0) b'"
proof -
  define start where "start = (case default_bucket_name b of
          Some name \<Rightarrow> find_or_create env name b
        | None \<Rightarrow>
            if default_pe b \<noteq> NULL then
              do { (t, b) \<leftarrow> retain_handle DEFAULT_ENGINE b; guard (t = DEFAULT_ENGINE); Some (DEFAULT_ENGINE, b) }
            else Some (NULL, b))"
  obtain p b1 where s: "start = Some (p, b1)" "be_inv ins (one p) b1" "be_cookies b1 = be_cookies b" "p \<noteq> NULL \<Longrightarrow> be_pehs b1 p \<noteq> None"
  proof (cases "default_bucket_name b")
    case (Some name)
    then show ?thesis using that find_or_create_inv [OF inv env k [OF Some]] by (auto simp: start_def)
  next
    case None
    obtain h where h: "be_pehs b DEFAULT_ENGINE = Some h" using be_invD(4) [OF inv] by auto
    have nz: "DEFAULT_ENGINE \<noteq> NULL" by (simp add: DEFAULT_ENGINE_def)
    show ?thesis
    proof (cases "default_pe b = NULL")
      case True
      then show ?thesis using that [of NULL b] None inv by (simp add: start_def)
    next
      case False
      then have "pe_state h = STATE_RUNNING" using handle_okD(8) [OF be_invD(6) [OF inv h]] h by (auto simp: default_pe_def)
      then obtain b1 where "retain_handle DEFAULT_ENGINE b = Some (DEFAULT_ENGINE, b1)" "be_cookies b1 = be_cookies b"
        "be_inv ins (one DEFAULT_ENGINE) b1" "be_pehs b1 DEFAULT_ENGINE \<noteq> None"
        using retain_handle_inv [OF inv, of DEFAULT_ENGINE] h nz unfolding one_simps by fastforce
      then show ?thesis using that [of DEFAULT_ENGINE b1] None False by (simp add: start_def)
    qed
  qed
  let ?es = "\<lparr>es_peh = NULL, es_specific = NULL, es_reserved = 0, es_notified = False\<rparr>"
  let ?b2 = "set_es c (Some ?es) b1"
  have "be_inv ins (one p) ?b2" using fresh_cookie_inv [OF s(2)] c s(3) by simp
  from attach_inv [OF this, of c ?es] s(4)
  obtain b3 where "(do { (q, b) \<leftarrow> set_engine_handle c p ?b2; release_handle p b }) = Some b3" "be_inv ins (\<lambda>_. 0) b3" by auto
  moreover have "handle_connect env True c b = do {
       (p, b) \<leftarrow> start; b \<leftarrow> create_engine_specific True c b; (q, b) \<leftarrow> set_engine_handle c p b; release_handle p b }"
    unfolding handle_connect_def start_def find_or_create_def ..
  ultimately show ?thesis using s(1,3) c by (simp add: create_engine_specific_def)
qed

lemma handle_auth_inv:
  assumes inv: "be_inv ins (\<lambda>_. 0) b" and env: "env_ok env b" and es: "be_cookies b c = Some es" "es_reserved es = 0"
    and k: "fits_length user"
  shows "\<exists>b'. handle_auth env user c b = Some b' \<and> be_inv ins (\<lambda>_. 0) b'"
proof -
  obtain p b1 where f: "find_or_create env user b = Some (p, b1)" "be_inv ins (one p) b1" "be_cookies b1 = be_cookies b"
    "p \<noteq> NULL \<Longrightarrow> be_pehs b1 p \<noteq> None" using find_or_create_inv [OF inv env k] by metis
  have "handle_auth env user c b = do { (p, b) \<leftarrow> find_or_create env user b; (q, b) \<leftarrow> set_engine_handle c p b; release_handle p b }"
    unfolding handle_auth_def find_or_create_def by (simp add: case_prod_beta' Option.bind_assoc)
  then show ?thesis using attach_inv [OF f(2), of c es] f es by simp
qed

section \<open>The shutdown thread\<close>

lemma set_pc_simps [simp]:
  "be_cookies (set_pc p pc b) = be_cookies b" "be_engines (set_pc p pc b) = be_engines b"
  "be_threads (set_pc p pc b) = (be_threads b)(p := pc)" "thread_ok (set_pc p pc b) = thread_ok b"
  "in_progress (set_pc p pc b) = in_progress b" "be_pehs (set_pc p pc b) = be_pehs b"
  by (simp_all add: set_pc_def)

lemma thread_handle:
  assumes inv: "be_inv ins hold b" and t: "be_threads b p = Some pc"
  obtains h where "be_pehs b p = Some h" "p \<noteq> DEFAULT_ENGINE" "pc_ok (pe_state h) (Some pc)" "ins p = 0" "main_ref h = 0"
proof -
  obtain h where h: "be_pehs b p = Some h" using be_invD(7) [OF inv, of p] t by fastforce
  note k = handle_okD [OF be_invD(6) [OF inv h]]
  have p: "p \<noteq> DEFAULT_ENGINE" using k(8) t by auto
  then have pc: "pc_ok (pe_state h) (Some pc)" using k(9) t by auto
  then have "pe_state h \<noteq> STATE_RUNNING" "pe_state h \<noteq> STATE_STOP_REQUESTED" by auto
  then have "ins p = 0" "main_ref h = 0" using k(6) by (auto simp: main_ref_def)
  then show ?thesis using that h p pc by blast
qed

text \<open>The thread goes from one point to the next without touching the table or a count.\<close>

lemma advance_inv:
  assumes inv: "be_inv ins hold b" and t: "be_threads b p = Some pc" and h: "be_pehs b p = Some h"
    and b': "be_pehs b' = (be_pehs b)(p \<mapsto> h')" "be_threads b' = (be_threads b)(p \<mapsto> pc')" "be_cookies b' = be_cookies b"
      "be_engines b' = be_engines b" "thread_ok b' = thread_ok b" "in_progress b' = in_progress b"
    and h': "pe_name h' = pe_name h" "pe_clients h' = pe_clients h" "pe_refcount h' = pe_refcount h"
      "in_table (pe_state h') = in_table (pe_state h)" "pc_ok (pe_state h') (Some pc')"
      "pc' = PC_DESTROY \<Longrightarrow> pe_engine h' \<noteq> NULL" "pc' \<noteq> PC_START" "pc' = PC_FREE \<Longrightarrow> pe_refcount h \<le> 0"
  shows "be_inv ins hold b'"
proof (rule be_inv_handle [OF inv h b'(1,3,4,5,6)])
  obtain p: "p \<noteq> DEFAULT_ENGINE" "ins p = 0" "main_ref h = 0"
    using thread_handle [OF inv t] h by (metis option.inject)
  note k = handle_okD [OF be_invD(6) [OF inv h]]
  have st: "pe_state h' \<noteq> STATE_RUNNING" "pe_state h' \<noteq> STATE_STOP_REQUESTED" using h'(5) by auto
  have "refs b' p = refs b p" by (rule refs_cong [OF b'(3)])
  then show "handle_ok ins hold b' p h'"
    unfolding handle_ok_def using k(1-5) p st h' by (auto simp: b'(2) main_ref_def)
qed (use h' b' in auto)

lemma unlink_inv:
  assumes inv: "be_inv ins hold b" and t: "be_threads b p = Some PC_UNLINK"
  shows "\<exists>b'. engine_shutdown_thread p b = Some b' \<and> be_inv ins hold b' \<and> be_threads b' p = Some PC_STOPPED
    \<and> be_cookies b' = be_cookies b"
proof -
  obtain h where h: "be_pehs b p = Some h" "p \<noteq> DEFAULT_ENGINE" "pc_ok (pe_state h) (Some PC_UNLINK)" "ins p = 0" "main_ref h = 0"
    using thread_handle [OF inv t] .
  note k = handle_okD [OF be_invD(6) [OF inv h(1)]]
  have st: "pe_state h = STATE_STOPPING" using h(3) by (cases "pe_state h") auto
  obtain m where m: "names (be_engines b) m" "indexed_by b m" using inv by (auto simp: be_inv_def)
  have mk: "m (pe_name h) = Some p" using m(2) h(1,2) st by (auto simp: indexed_by_def in_table_def)
  obtain e where e: "engines_delete_all (pe_name h) b = Some (1, peh_upd p (\<lambda>h. h\<lparr>pe_state := STATE_NULL\<rparr>) (b\<lparr>be_engines := e\<rparr>))"
    "names e (m(pe_name h := None))" using unlink_run [OF m(1) mk k(2) h(1)] .
  let ?b1 = "peh_upd p (\<lambda>h. h\<lparr>pe_state := STATE_NULL\<rparr>) (b\<lparr>be_engines := e\<rparr>)"
  let ?b2 = "set_pc p (Some PC_STOPPED) ?b1"
  let ?h = "h\<lparr>pe_state := STATE_NULL\<rparr>"
  have pehs: "be_pehs ?b2 = (be_pehs b)(p \<mapsto> ?h)" using h(1) by simp
  have "find_bucket_inner (pe_name h) ?b1 = Some NULL"
    using names_find [OF e(2) k(2)] by (simp add: find_bucket_inner_def)
  then have run: "engine_shutdown_thread p b = Some ?b2"
    using t h(1) e(1) by (simp add: engine_shutdown_thread_def)
  have idx: "indexed_by ?b2 (m(pe_name h := None))"
    by (rule indexed_unlink [OF m(2) h(1) mk pehs]) (auto simp: in_table_def)
  have r: "refs ?b2 q = refs b q" for q by (rule refs_cong) simp
  have "handle_ok ins hold ?b2 q g" if "be_pehs ?b2 q = Some g" for q g
  proof (cases "q = p")
    case True
    then show ?thesis using that k h(2,4,5) st unfolding pehs by (auto simp: handle_ok_def r main_ref_def)
  next
    case False
    then have "handle_ok ins hold b q g" using that be_invD(6) [OF inv] unfolding pehs by simp
    then show ?thesis by (rule handle_ok_cong) (use False in auto)
  qed
  moreover have "cookie_ok ?b2 es" if "be_cookies ?b2 c = Some es" for c es
    using that be_invD(5) [OF inv, of c es] h(1) by (auto simp: cookie_ok_def set_pc_def)
  ultimately have "be_inv ins hold ?b2"
    unfolding be_inv_def using be_invD(1-4,7) [OF inv] e(2) idx unfolding pehs
    by (auto simp: split: if_splits)
  then show ?thesis using run by simp
qed

lemma free_inv:
  assumes inv: "be_inv ins (\<lambda>_. 0) b" and t: "be_threads b p = Some PC_FREE"
  shows "\<exists>b'. engine_shutdown_thread p b = Some b' \<and> be_inv ins (\<lambda>_. 0) b' \<and> be_threads b' p = None
    \<and> be_pehs b' = (be_pehs b)(p := None) \<and> be_cookies b' = be_cookies b"
proof -
  obtain h where h: "be_pehs b p = Some h" "p \<noteq> DEFAULT_ENGINE" "pc_ok (pe_state h) (Some PC_FREE)" "ins p = 0" "main_ref h = 0"
    using thread_handle [OF inv t] .
  note k = handle_okD [OF be_invD(6) [OF inv h(1)]]
  have st: "pe_state h = STATE_STOPPED" using h(3) by (cases "pe_state h") auto
  have r: "refs b p = 0" using k(5,11) t h(5) refs_nonneg [OF inv, of p] by auto
  have unused: "es_peh es \<noteq> p" if "be_cookies b c = Some es" for c es
    using refs_ge [OF inv that] r be_invD(5) [OF inv that] by (auto simp: cookie_ok_def)
  let ?b = "set_pc p None (b\<lparr>be_pehs := (be_pehs b)(p := None), bucket_counter := bucket_counter b - 1\<rparr>)"
  have run: "engine_shutdown_thread p b = Some ?b"
    using t h(1) by (simp add: engine_shutdown_thread_def free_engine_handle_def)
  obtain m where m: "names (be_engines b) m" "indexed_by b m" using inv by (auto simp: be_inv_def)
  have "indexed_by ?b m"
    unfolding indexed_by_def
  proof (intro allI)
    fix n q
    have "m n = Some q \<longleftrightarrow> q \<noteq> DEFAULT_ENGINE \<and> (\<exists>h. be_pehs b q = Some h \<and> pe_name h = n \<and> in_table (pe_state h))"
      using m(2) unfolding indexed_by_def by blast
    then show "m n = Some q \<longleftrightarrow> q \<noteq> DEFAULT_ENGINE \<and> (\<exists>h. be_pehs ?b q = Some h \<and> pe_name h = n \<and> in_table (pe_state h))"
      using h(1) st by (cases "q = p") (auto simp: in_table_def)
  qed
  then have "be_inv ins ((\<lambda>_. 0)(p := 0)) ?b"
    using m(1) by (intro free_handle_inv [OF inv h(2,4) unused]) auto
  moreover have "(\<lambda>_. 0)(p := 0) = (\<lambda>_. 0 :: int)" by auto
  ultimately show ?thesis using run by auto
qed

text \<open>The point after each point, where the thread does not wait.\<close>

fun next_pc :: "shutdown_pc \<Rightarrow> shutdown_pc option" where
  "next_pc PC_START = Some PC_DESTROY"
| "next_pc PC_DESTROY = Some PC_CLEAR"
| "next_pc PC_CLEAR = Some PC_UNLINK"
| "next_pc PC_UNLINK = Some PC_STOPPED"
| "next_pc PC_STOPPED = Some PC_WAIT"
| "next_pc PC_WAIT = Some PC_FREE"
| "next_pc PC_FREE = None"

lemma shutdown_step_inv:
  assumes inv: "be_inv ins (\<lambda>_. 0) b" and t: "be_threads b p = Some pc"
  shows "\<exists>b'. engine_shutdown_thread p b = Some b' \<and> be_inv ins (\<lambda>_. 0) b' \<and> be_cookies b' = be_cookies b
    \<and> (if pc = PC_WAIT \<and> 0 < pe_refcount (the (be_pehs b p)) then b' = b else be_threads b' p = next_pc pc)"
proof -
  obtain h where h: "be_pehs b p = Some h" "p \<noteq> DEFAULT_ENGINE" "pc_ok (pe_state h) (Some pc)" "ins p = 0" "main_ref h = 0"
    using thread_handle [OF inv t] .
  note k = handle_okD [OF be_invD(6) [OF inv h(1)]]
  have idle: "\<not> in_progress b" by (rule be_invD(3) [OF inv])
  show ?thesis
  proof (cases pc)
    case PC_START
    then have run: "engine_shutdown_thread p b = Some (set_pc p (Some PC_DESTROY) (b\<lparr>bucket_counter := bucket_counter b + 1\<rparr>))"
      using t idle by (simp add: engine_shutdown_thread_def)
    have st: "pe_state h = STATE_STOPPING" using h(3) PC_START by (cases "pe_state h") auto
    have "be_inv ins (\<lambda>_. 0) (set_pc p (Some PC_DESTROY) (b\<lparr>bucket_counter := bucket_counter b + 1\<rparr>))"
      by (rule advance_inv [OF inv t h(1), where h' = h and pc' = PC_DESTROY])
        (use h k(10) t st PC_START in \<open>auto simp: fun_upd_idem\<close>)
    then show ?thesis using run PC_START by simp
  next
    case PC_DESTROY
    have st: "pe_state h = STATE_STOPPING" using h(3) PC_DESTROY by (cases "pe_state h") auto
    let ?b = "set_pc p (Some PC_CLEAR) (event (EngineDestroyed (pe_engine h) (force_shutdown h)) b)"
    have run: "engine_shutdown_thread p b = Some ?b"
      using t PC_DESTROY h(1,4) k(3) st by (simp add: engine_shutdown_thread_def)
    have "be_inv ins (\<lambda>_. 0) ?b"
      by (rule advance_inv [OF inv t h(1), where h' = h and pc' = PC_CLEAR])
        (use h st in \<open>auto simp: fun_upd_idem\<close>)
    then show ?thesis using run PC_DESTROY by simp
  next
    case PC_CLEAR
    have st: "pe_state h = STATE_STOPPING" using h(3) PC_CLEAR by (cases "pe_state h") auto
    let ?b = "set_pc p (Some PC_UNLINK) (peh_upd p (\<lambda>h. h\<lparr>pe_engine := NULL\<rparr>) b)"
    have run: "engine_shutdown_thread p b = Some ?b"
      using t PC_CLEAR h(1) by (simp add: engine_shutdown_thread_def)
    have "be_inv ins (\<lambda>_. 0) ?b"
      by (rule advance_inv [OF inv t h(1), where h' = "h\<lparr>pe_engine := NULL\<rparr>" and pc' = PC_UNLINK])
        (use h st in auto)
    then show ?thesis using run PC_CLEAR by simp
  next
    case PC_UNLINK
    then show ?thesis using unlink_inv [OF inv] t by auto
  next
    case PC_STOPPED
    have st: "pe_state h = STATE_NULL" using h(3) PC_STOPPED by (cases "pe_state h") auto
    define b1 where "b1 = peh_upd p (\<lambda>h. h\<lparr>pe_state := STATE_STOPPED\<rparr>) b"
    define b2 where "b2 = set_pc p (Some PC_WAIT) (if pe_cookie h \<noteq> NULL then event (IoComplete (pe_cookie h)) b1 else b1)"
    have run: "engine_shutdown_thread p b = Some b2"
      using t PC_STOPPED h(1) by (simp add: engine_shutdown_thread_def b2_def b1_def)
    have "be_inv ins (\<lambda>_. 0) b2"
      by (rule advance_inv [OF inv t h(1), where h' = "h\<lparr>pe_state := STATE_STOPPED\<rparr>" and pc' = PC_WAIT])
        (use h st in \<open>auto simp: b2_def b1_def in_table_def\<close>)
    then show ?thesis using run PC_STOPPED by (simp add: b2_def b1_def)
  next
    case PC_WAIT
    have st: "pe_state h = STATE_STOPPED" using h(3) PC_WAIT by (cases "pe_state h") auto
    show ?thesis
    proof (cases "0 < pe_refcount h")
      case True
      then have "engine_shutdown_thread p b = Some b" using t PC_WAIT h(1) idle by (simp add: engine_shutdown_thread_def)
      then show ?thesis using inv PC_WAIT h(1) True by simp
    next
      case False
      let ?b = "set_pc p (Some PC_FREE) b"
      have run: "engine_shutdown_thread p b = Some ?b" using t PC_WAIT h(1) False by (simp add: engine_shutdown_thread_def)
      have "be_inv ins (\<lambda>_. 0) ?b"
        by (rule advance_inv [OF inv t h(1), where h' = h and pc' = PC_FREE])
          (use h st False in \<open>auto simp: fun_upd_idem\<close>)
      then show ?thesis using run PC_WAIT h(1) False by simp
    qed
  next
    case PC_FREE
    then show ?thesis using free_inv [OF inv] t by auto
  qed
qed

section \<open>Listing the buckets\<close>

text \<open>The references of a list of buckets.\<close>

definition listed :: "(key \<times> ptr) list \<Rightarrow> ptr \<Rightarrow> int" where
  "listed bl p = int (count_list (map snd bl) p)"

lemma listed_simps [simp]: "listed [] = (\<lambda>_. 0)" "listed ((n, p) # bl) = (listed bl)(p := listed bl p + 1)"
  by (auto simp: listed_def fun_eq_iff)

definition runs :: "bucket_engine \<Rightarrow> ptr \<Rightarrow> bool" where
  "runs b p \<longleftrightarrow> (\<exists>h. be_pehs b p = Some h \<and> pe_state h = STATE_RUNNING)"

lemma retain_runs:
  assumes "retain_handle p b = Some (q, b')" "p \<noteq> NULL"
  shows "q = (if runs b p then p else NULL)" "runs b' = runs b" "be_pehs b' x = None \<longleftrightarrow> be_pehs b x = None"
  using assms by (auto simp: retain_handle_def runs_def bind_eq_Some_conv guard_bind_eq_Some fun_eq_iff peh_upd_def split: if_splits)

lemma list_fold:
  assumes "be_inv ins (listed bl) b"
    and "\<forall>en \<in> set es. ge_value en \<noteq> NULL \<and> be_pehs b (ge_value en) \<noteq> None \<and> take (unat (ge_nkey en)) (ge_key en) = ge_key en"
  shows "\<exists>b'. fold (visit add_engine) es (Some (bl, b))
      = Some (rev (map (\<lambda>en. (ge_key en, ge_value en)) (filter (\<lambda>en. runs b (ge_value en)) es)) @ bl, b')
    \<and> be_inv ins (listed (rev (map (\<lambda>en. (ge_key en, ge_value en)) (filter (\<lambda>en. runs b (ge_value en)) es)) @ bl)) b'
    \<and> be_cookies b' = be_cookies b"
  using assms
proof (induction es arbitrary: bl b)
  case (Cons en es)
  let ?p = "ge_value en"
  have p: "?p \<noteq> NULL" "be_pehs b ?p \<noteq> None" "take (unat (ge_nkey en)) (ge_key en) = ge_key en" using Cons.prems(2) by auto
  obtain q b1 where r: "retain_handle ?p b = Some (q, b1)" "be_cookies b1 = be_cookies b"
    "be_inv ins (if q = NULL then listed bl else (listed bl)(q := listed bl q + 1)) b1"
    using retain_handle_inv [OF Cons.prems(1), of ?p] p(2) by blast
  note rr = retain_runs [OF r(1) p(1)]
  define bl1 where "bl1 = (if runs b ?p then (ge_key en, ?p) # bl else bl)"
  have v: "visit add_engine en (Some (bl, b)) = Some (bl1, b1)"
    using r(1) rr(1) p by (simp add: visit_def add_engine_def bl1_def)
  have i1: "be_inv ins (listed bl1) b1" using r(3) rr(1) p(1) by (simp add: bl1_def split: if_splits)
  have "\<forall>en \<in> set es. ge_value en \<noteq> NULL \<and> be_pehs b1 (ge_value en) \<noteq> None \<and> take (unat (ge_nkey en)) (ge_key en) = ge_key en"
    using Cons.prems(2) rr(3) by simp
  from Cons.IH [OF i1 this] show ?case
    by (cases "runs b ?p") (simp_all add: v rr(2) r(2), simp_all add: bl1_def)
qed simp

lemma list_free_inv:
  assumes "be_inv ins (listed bl) b" "\<forall>x \<in> set bl. snd x \<noteq> NULL"
  shows "\<exists>b'. bucket_list_free bl b = Some b' \<and> be_inv ins (\<lambda>_. 0) b' \<and> be_cookies b' = be_cookies b"
  using assms
proof (induction bl arbitrary: b)
  case (Cons x bl)
  obtain n p where x: "x = (n, p)" by fastforce
  have p: "p \<noteq> NULL" using Cons.prems(2) x by simp
  have i: "be_inv ins ((listed bl)(p := listed bl p + 1)) b" using Cons.prems(1) unfolding x listed_simps .
  have "0 \<le> listed bl p" by (simp add: listed_def)
  then obtain b1 where r: "release_handle p b = Some b1" "be_cookies b1 = be_cookies b" "be_inv ins (listed bl) b1"
    using release_handle_inv [OF i, of p] p by auto
  from Cons.IH [OF r(3)] Cons.prems(2) x r(1,2) show ?case by auto
qed simp

lemma runs_in_table:
  assumes inv: "be_inv ins hold b" and p: "p \<noteq> DEFAULT_ENGINE" "be_pehs b p = Some h" "pe_state h = STATE_RUNNING"
  obtains en where "en \<in> set (entries (be_engines b))" "ge_key en = pe_name h" "ge_value en = p"
proof -
  let ?k = "pe_name h" and ?n = "of_nat (length (pe_name h)) :: u64"
  have k: "fits_length ?k" using handle_okD(2) [OF be_invD(6) [OF inv p(2)]] .
  obtain m where m: "names (be_engines b) m" "indexed_by b m" using inv by (auto simp: be_inv_def)
  have ok: "gh_ok (be_engines b)" "gh_ops (be_engines b) = be_hash_ops" using m(1) by (simp_all add: names_def)
  have "m ?k = Some p" using m(2) p by (auto simp: indexed_by_def in_table_def)
  then have "p \<in> set (values_of (be_engines b) ?k ?n)" using m(1) k by (simp add: names_def)
  then obtain en where en: "en \<in> set (gh_buckets (be_engines b) ! bucket_of (be_engines b) ?k ?n)" "matches (be_engines b) ?k ?n en"
    "ge_value en = p" by (auto simp: values_of_def)
  have "en \<in> set (entries (be_engines b))" using en(1) gh_okD(3) [OF ok(1), of ?k ?n] by (auto intro: nth_mem)
  moreover have "fits_length (ge_key en)" "ge_nkey en = of_nat (length (ge_key en))" using calculation m(1) by (auto simp: names_def)
  then have "ge_key en = ?k" using en(2) my_hash_eq_keys [OF k, of "ge_key en"] ok(2) by (simp add: matches_def be_hash_ops_def)
  ultimately show ?thesis using that en(3) by blast
qed

lemma list_buckets_inv:
  assumes inv: "be_inv ins (\<lambda>_. 0) b"
  obtains bl b' where "list_buckets b = Some (bl, b')" "be_inv ins (listed bl) b'" "be_cookies b' = be_cookies b"
    "set bl = {(n, p). p \<noteq> DEFAULT_ENGINE \<and> (\<exists>h. be_pehs b p = Some h \<and> pe_name h = n \<and> pe_state h = STATE_RUNNING)}"
    "\<forall>x \<in> set bl. snd x \<noteq> NULL"
proof -
  let ?es = "entries (be_engines b)"
  let ?bl = "rev (map (\<lambda>en. (ge_key en, ge_value en)) (filter (\<lambda>en. runs b (ge_value en)) ?es))"
  obtain m where "names (be_engines b) m" using inv by (auto simp: be_inv_def)
  then have ok: "gh_ok (be_engines b)" by (simp add: names_def)
  have es: "\<forall>en \<in> set ?es. ge_value en \<noteq> NULL \<and> be_pehs b (ge_value en) \<noteq> None \<and> take (unat (ge_nkey en)) (ge_key en) = ge_key en"
    by (rule ballI, erule table_entry [OF inv]) simp
  have inv0: "be_inv ins (listed []) b" using inv by simp
  obtain b' where b': "fold (visit add_engine) ?es (Some ([], b)) = Some (?bl, b')" "be_inv ins (listed ?bl) b'" "be_cookies b' = be_cookies b"
    using list_fold [OF inv0 es] unfolding append_Nil2 by blast
  have run: "list_buckets b = Some (?bl, b')" using b'(1) by (simp add: list_buckets_def genhash_iter_fold [OF ok])
  have "(n, p) \<in> set ?bl \<longleftrightarrow> p \<noteq> DEFAULT_ENGINE \<and> (\<exists>h. be_pehs b p = Some h \<and> pe_name h = n \<and> pe_state h = STATE_RUNNING)" for n p
  proof
    assume "(n, p) \<in> set ?bl"
    then obtain en where en: "en \<in> set ?es" "ge_key en = n" "ge_value en = p" "runs b p" by auto
    obtain h where "be_pehs b p = Some h" "pe_name h = n" "p \<noteq> DEFAULT_ENGINE" using table_entry [OF inv en(1)] en(2,3) by metis
    then show "p \<noteq> DEFAULT_ENGINE \<and> (\<exists>h. be_pehs b p = Some h \<and> pe_name h = n \<and> pe_state h = STATE_RUNNING)"
      using en(4) by (simp add: runs_def)
  next
    assume "p \<noteq> DEFAULT_ENGINE \<and> (\<exists>h. be_pehs b p = Some h \<and> pe_name h = n \<and> pe_state h = STATE_RUNNING)"
    then obtain h where h: "p \<noteq> DEFAULT_ENGINE" "be_pehs b p = Some h" "pe_state h = STATE_RUNNING" "pe_name h = n" by blast
    obtain en where "en \<in> set ?es" "ge_key en = pe_name h" "ge_value en = p" using runs_in_table [OF inv h(1-3)] .
    then show "(n, p) \<in> set ?bl" using h by (force simp: runs_def)
  qed
  then have "set ?bl = {(n, p). p \<noteq> DEFAULT_ENGINE \<and> (\<exists>h. be_pehs b p = Some h \<and> pe_name h = n \<and> pe_state h = STATE_RUNNING)}"
    by (intro set_eqI) (simp only: mem_Collect_eq split: prod.split, blast)
  moreover have "\<forall>x \<in> set ?bl. snd x \<noteq> NULL" using es by auto
  ultimately show ?thesis using that [OF run b'(2,3)] by blast
qed

lemma handle_list_inv:
  assumes inv: "be_inv ins (\<lambda>_. 0) b"
  shows "\<exists>bl b'. handle_list_buckets b = Some ((ENGINE_SUCCESS, Some (RESPONSE_SUCCESS, join_names bl)), b') \<and> be_inv ins (\<lambda>_. 0) b'
    \<and> be_cookies b' = be_cookies b
    \<and> set bl = {(n, p). p \<noteq> DEFAULT_ENGINE \<and> (\<exists>h. be_pehs b p = Some h \<and> pe_name h = n \<and> pe_state h = STATE_RUNNING)}"
proof -
  obtain bl b1 where l: "list_buckets b = Some (bl, b1)" "be_inv ins (listed bl) b1" "be_cookies b1 = be_cookies b"
    "set bl = {(n, p). p \<noteq> DEFAULT_ENGINE \<and> (\<exists>h. be_pehs b p = Some h \<and> pe_name h = n \<and> pe_state h = STATE_RUNNING)}"
    "\<forall>x \<in> set bl. snd x \<noteq> NULL" using list_buckets_inv [OF inv] .
  obtain b2 where "bucket_list_free bl b1 = Some b2" "be_inv ins (\<lambda>_. 0) b2" "be_cookies b2 = be_cookies b1"
    using list_free_inv [OF l(2,5)] by blast
  then show ?thesis using l by (auto simp: handle_list_buckets_def)
qed

lemma handle_create_inv:
  assumes inv: "be_inv ins (\<lambda>_. 0) b" and env: "env_ok env b" and k: "fits_length (c_string key)"
  shows "\<exists>r b'. handle_create_bucket env key body b = Some (r, b') \<and> be_inv ins (\<lambda>_. 0) b'"
proof -
  obtain rv p b' where "create_bucket env False (c_string key) (Some (c_string body)) b = Some (rv, p, b')" "be_inv ins (one p) b'" "p = NULL"
    using create_bucket_inv [OF inv env k, of False "Some (c_string body)"] by auto
  then show ?thesis using inv by (auto simp: handle_create_bucket_def)
qed

end
