(* ===== verification/Bucket_Machine.thy ===== *)
theory Bucket_Machine
  imports Bucket_Ops
begin

unbundle bit_operations_syntax

text \<open>
  The bucket engine as a machine: its start, the steps that the server and the shutdown threads
  take in any order, the states that are reached, and the run of a shutdown thread to its end.
\<close>

section \<open>The start\<close>

text \<open>The structure of the module before it is initialised: the default bucket is a zeroed field of it.\<close>

definition fresh_engine :: bucket_engine where
  "fresh_engine = \<lparr>be_initialized = False, has_default = False, auto_create = False, default_engine_path = None, admin_user = None,
     default_bucket_name = None, default_bucket_config = None, be_pehs = [DEFAULT_ENGINE \<mapsto> zeroed],
     be_engines = \<lparr>gh_size = 0, gh_ops = be_hash_ops, gh_buckets = [], gh_freed_keys = [], gh_freed_values = []\<rparr>,
     be_cookies = Map.empty, be_threads = Map.empty, in_progress = False, bucket_counter = 0, thread_ok = True, be_events = []\<rparr>"

lemma empty_names:
  assumes "genhash_init ok est be_hash_ops = Some (Some t)"
  shows "names t Map.empty"
proof -
  have "genhash_init True est be_hash_ops = Some (Some t)" using assms by (cases ok) (auto simp: genhash_init_def bind_eq_Some_conv split: if_splits)
  note t = genhash_init_ok [OF good_be_hash_ops this]
  have "gh_freed_values t = []" using assms by (auto simp: genhash_init_def bind_eq_Some_conv split: if_splits)
  then show ?thesis using t by (auto simp: names_def)
qed

lemma single_handle_inv:
  assumes b: "be_pehs b = [DEFAULT_ENGINE \<mapsto> h]" "be_cookies b = Map.empty" "be_threads b = Map.empty" "thread_ok b" "\<not> in_progress b"
    "names (be_engines b) Map.empty"
    and h: "pe_name h = []" "pe_clients h = 0" "main_ref h \<le> pe_refcount h"
      "pe_state h = STATE_RUNNING \<and> pe_engine h \<noteq> NULL \<or> pe_state h = STATE_NULL \<and> pe_engine h = NULL"
  shows "be_inv (\<lambda>_. 0) (\<lambda>_. 0) b"
proof -
  have "refs b p = 0" for p by (simp add: refs_def b)
  moreover have "indexed_by b Map.empty" by (auto simp: indexed_by_def b)
  ultimately show ?thesis
    using b h by (auto simp: be_inv_def handle_ok_def DEFAULT_ENGINE_def main_ref_def)
qed

lemma configuration_frame:
  assumes "initialize_configuration parse cfg b = Some (rv, b')"
  shows "be_pehs b' = be_pehs b" "be_cookies b' = be_cookies b" "be_threads b' = be_threads b" "thread_ok b' = thread_ok b"
    "in_progress b' = in_progress b"
  using assms by (auto simp: initialize_configuration_def Let_def bind_eq_Some_conv guard_bind_eq_Some split: option.splits if_splits)

lemma default_bucket_inv:
  assumes b: "be_pehs b = [DEFAULT_ENGINE \<mapsto> zeroed]" "be_cookies b = Map.empty" "be_threads b = Map.empty" "thread_ok b" "\<not> in_progress b"
    "names (be_engines b) Map.empty"
    and run: "init_default_bucket env b = Some (ENGINE_SUCCESS, b')"
  shows "be_inv (\<lambda>_. 0) (\<lambda>_. 0) b'"
proof -
  obtain h where i: "init_engine_handle env [] (default_engine_path b) zeroed = (ENGINE_SUCCESS, h)"
    and e: "le_engine env \<noteq> NULL" and init: "le_init_ok env"
    using run by (auto simp: init_default_bucket_def Let_def bind_eq_Some_conv split: prod.splits if_splits)
  note f = init_engine_handle_fields [OF i]
  let ?b = "peh_upd DEFAULT_ENGINE (\<lambda>h. h\<lparr>pe_engine := le_engine env\<rparr>) (b\<lparr>be_pehs := (be_pehs b)(DEFAULT_ENGINE \<mapsto> h)\<rparr>)"
  have "be_inv (\<lambda>_. 0) (\<lambda>_. 0) ?b"
    by (rule single_handle_inv [where h = "h\<lparr>pe_engine := le_engine env\<rparr>"]) (use b f e in \<open>auto simp: main_ref_def\<close>)
  from register_callback_inv [OF this, of "le_engine env"] this run i e init show ?thesis
    by (auto simp: init_default_bucket_def Let_def split: if_splits)
qed

lemma initialize_inv:
  assumes "bucket_initialize parse env ok cfg fresh_engine = Some (ENGINE_SUCCESS, b)"
  shows "be_inv (\<lambda>_. 0) (\<lambda>_. 0) b"
proof -
  let ?X = "initialize_configuration parse cfg fresh_engine" and ?T = "genhash_init (le_table_ok env) 1 be_hash_ops"
  obtain b1 where c: "?X = Some (ENGINE_SUCCESS, b1)"
    using assms by (cases ?X) (auto simp: bucket_initialize_def guard_bind_eq_Some split: if_splits)
  let ?D = "\<lambda>t. if has_default b1 then init_default_bucket env (b1\<lparr>be_engines := t\<rparr>) else Some (ENGINE_SUCCESS, b1\<lparr>be_engines := t\<rparr>)"
  have run: "(do { t \<leftarrow> ?T; case t of None \<Rightarrow> Some (ENGINE_ENOMEM, b1)
      | Some t \<Rightarrow> do { (ret, b) \<leftarrow> ?D t; if ret \<noteq> ENGINE_SUCCESS then Some (ret, b) else Some (ENGINE_SUCCESS, b\<lparr>be_initialized := True\<rparr>) } })
      = Some (ENGINE_SUCCESS, b)"
    using assms c by (simp add: bucket_initialize_def guard_bind_eq_Some Let_def split: if_splits)
  obtain t where t: "?T = Some (Some t)"
    using run by (cases ?T) (auto split: option.splits)
  obtain b2 where d: "?D t = Some (ENGINE_SUCCESS, b2)" and b: "b = b2\<lparr>be_initialized := True\<rparr>"
    using run t by (cases "?D t") (auto split: if_splits)
  note f = configuration_frame [OF c]
  let ?b = "b1\<lparr>be_engines := t\<rparr>"
  have s: "be_pehs ?b = [DEFAULT_ENGINE \<mapsto> zeroed]" "be_cookies ?b = Map.empty" "be_threads ?b = Map.empty" "thread_ok ?b" "\<not> in_progress ?b"
    "names (be_engines ?b) Map.empty" using f empty_names [OF t] by (simp_all add: fresh_engine_def)
  have "be_inv (\<lambda>_. 0) (\<lambda>_. 0) b2"
  proof (cases "has_default b1")
    case True
    then show ?thesis using default_bucket_inv [OF s] d by simp
  next
    case False
    have "be_inv (\<lambda>_. 0) (\<lambda>_. 0) ?b" by (rule single_handle_inv [OF s]) (simp_all add: zeroed_def main_ref_def)
    then show ?thesis using d False by simp
  qed
  then show ?thesis by (rule be_inv_cong) (simp_all add: b)
qed

section \<open>The machine\<close>

text \<open>
  What the server and its threads do with the module, one critical section at a time. A call into an
  engine is two steps, its entry and its exit, so that calls overlap with everything else; \<open>calls\<close>
  are the handles of the calls that are inside an engine.
\<close>

datatype be_op =
    Connect load_env ptr
  | Disconnect ptr
  | Auth load_env "byte list" ptr
  | Enter ptr
  | TryEnter ptr
  | Leave ptr
  | Reserve ENGINE_ERROR_CODE ptr
  | Release ptr
  | Admin bool "byte list option" load_env "bool option" ptr ptr u8 "byte list" "byte list"
  | Aggregate
  | Shutdown ptr

fun be_run :: "be_op \<Rightarrow> ptr list \<times> bucket_engine \<Rightarrow> (ptr list \<times> bucket_engine) option" where
  "be_run (Connect env c) (calls, b) = do { b \<leftarrow> handle_connect env True c b; Some (calls, b) }"
| "be_run (Disconnect c) (calls, b) = do { b \<leftarrow> handle_disconnect c b; Some (calls, b) }"
| "be_run (Auth env user c) (calls, b) = do { b \<leftarrow> handle_auth env user c b; Some (calls, b) }"
| "be_run (Enter c) (calls, b) =
     do { (p, b) \<leftarrow> get_engine_handle c b; Some (if p = NULL then calls else p # calls, b) }"
| "be_run (TryEnter c) (calls, b) =
     do { (p, b) \<leftarrow> try_get_engine_handle c b; Some (if p = NULL then calls else p # calls, b) }"
| "be_run (Leave p) (calls, b) = do { b \<leftarrow> release_engine_handle p b; Some (remove1 p calls, b) }"
| "be_run (Reserve upstream c) (calls, b) =
     do { (rv, b) \<leftarrow> bucket_engine_reserve_cookie upstream c b; Some (calls, b) }"
| "be_run (Release c) (calls, b) = do { (rv, b) \<leftarrow> bucket_engine_release_cookie c b; Some (calls, b) }"
| "be_run (Admin noauth user env force breq c opcode key body) (calls, b) =
     do { (r, b) \<leftarrow> bucket_unknown_command noauth user env force (\<lambda>e b. None) breq c opcode key body b; Some (calls, b) }"
| "be_run Aggregate (calls, b) = do { (rv, ps, b) \<leftarrow> bucket_aggregate_stats b; Some (calls, b) }"
| "be_run (Shutdown p) (calls, b) = do { b \<leftarrow> engine_shutdown_thread p b; Some (calls, b) }"

text \<open>
  When the server does it: a new connection has no data yet, an address that is handed out is not in
  use, names fit the length of the table's keys, a call ends that was begun, a reservation is given
  back that was taken, only a connection that is not reserved changes its bucket or calls into a
  bucket that is being deleted.
\<close>

definition unreserved :: "bucket_engine \<Rightarrow> ptr \<Rightarrow> bool" where
  "unreserved b c \<longleftrightarrow> (case be_cookies b c of None \<Rightarrow> False | Some es \<Rightarrow> es_reserved es = 0)"

fun allowed :: "be_op \<Rightarrow> ptr list \<times> bucket_engine \<Rightarrow> bool" where
  "allowed (Connect env c) (calls, b) \<longleftrightarrow> be_cookies b c = None \<and> env_ok env b
     \<and> (case default_bucket_name b of None \<Rightarrow> True | Some k \<Rightarrow> fits_length k)"
| "allowed (Disconnect c) (calls, b) \<longleftrightarrow> True"
| "allowed (Auth env user c) (calls, b) \<longleftrightarrow> unreserved b c \<and> env_ok env b \<and> fits_length user"
| "allowed (Enter c) (calls, b) \<longleftrightarrow> may_call b c"
| "allowed (TryEnter c) (calls, b) \<longleftrightarrow> True"
| "allowed (Leave p) (calls, b) \<longleftrightarrow> p \<in> set calls"
| "allowed (Reserve upstream c) (calls, b) \<longleftrightarrow> True"
| "allowed (Release c) (calls, b) \<longleftrightarrow> (case be_cookies b c of None \<Rightarrow> False | Some es \<Rightarrow> 0 < es_reserved es \<and> es_peh es \<noteq> NULL)"
| "allowed (Admin noauth user env force breq c opcode key body) (calls, b) \<longleftrightarrow> is_admin_command opcode \<and> be_cookies b c \<noteq> None
     \<and> (opcode \<in> {0x89, 0x29} \<longrightarrow> unreserved b c) \<and> env_ok env b \<and> fits_length key"
| "allowed Aggregate (calls, b) \<longleftrightarrow> True"
| "allowed (Shutdown p) (calls, b) \<longleftrightarrow> be_threads b p \<noteq> None"

inductive be_reach :: "bucket_engine \<Rightarrow> ptr list \<times> bucket_engine \<Rightarrow> bool" for b0 where
  be_start: "be_reach b0 ([], b0)"
| be_step: "be_reach b0 s \<Longrightarrow> allowed op s \<Longrightarrow> be_run op s = Some s' \<Longrightarrow> be_reach b0 s'"

inductive_cases be_reachE: "be_reach b0 s"

text \<open>The clients inside each engine.\<close>

definition inside :: "ptr list \<Rightarrow> ptr \<Rightarrow> nat" where
  "inside calls p = count_list calls p"

lemma inside_simps [simp]: "inside [] = (\<lambda>_. 0)" "inside (p # calls) = (inside calls)(p := inside calls p + 1)"
  by (auto simp: inside_def fun_eq_iff)

lemma inside_remove1: "p \<in> set calls \<Longrightarrow> inside (remove1 p calls) = (inside calls)(p := inside calls p - 1)"
  by (auto simp: inside_def fun_eq_iff count_list_remove1)

lemma inside_pos: "0 < inside calls p \<longleftrightarrow> p \<in> set calls"
  by (simp add: inside_def count_list_0_iff flip: neq0_conv)

definition world_inv :: "ptr list \<times> bucket_engine \<Rightarrow> bool" where
  "world_inv s = be_inv (inside (fst s)) (\<lambda>_. 0) (snd s)"

section \<open>Every step returns and keeps the invariant\<close>

lemma fits_c_string: "fits_length k \<Longrightarrow> fits_length (c_string k)"
  using length_takeWhile_le [of "\<lambda>c. c \<noteq> 0" k] by (simp add: c_string_def)

lemma unreserved_cases: "unreserved b c \<Longrightarrow> \<exists>es. be_cookies b c = Some es \<and> es_reserved es = 0"
  by (auto simp: unreserved_def split: option.splits)

lemma aggregate_inv:
  assumes inv: "be_inv ins (\<lambda>_. 0) b"
  shows "\<exists>ps b'. bucket_aggregate_stats b = Some (ENGINE_SUCCESS, ps, b') \<and> be_inv ins (\<lambda>_. 0) b'"
proof -
  obtain bl b1 where l: "list_buckets b = Some (bl, b1)" "be_inv ins (listed bl) b1" "\<forall>x \<in> set bl. snd x \<noteq> NULL"
    using list_buckets_inv [OF inv] by metis
  then show ?thesis using list_free_inv [OF l(2,3)] by (auto simp: bucket_aggregate_stats_def)
qed

lemma admin_inv:
  assumes inv: "be_inv ins (\<lambda>_. 0) b" and admin: "is_admin_command opcode" and c: "be_cookies b c \<noteq> None"
    and sel: "opcode \<in> {0x89, 0x29} \<Longrightarrow> unreserved b c" and env: "env_ok env b" and k: "fits_length key"
  shows "\<exists>r b'. bucket_unknown_command noauth user env force call breq c opcode key body b = Some (r, b') \<and> be_inv ins (\<lambda>_. 0) b'"
proof (cases "is_authorized noauth user b")
  case auth: True
  note ck = fits_c_string [OF k]
  obtain es where es: "be_cookies b c = Some es" using c by blast
  from admin consider "opcode \<in> {0x85, 0x25}" | "opcode \<in> {0x86, 0x26}" "opcode \<notin> {0x85, 0x25}"
    | "opcode \<in> {0x87, 0x27}" "opcode \<notin> {0x85, 0x25}" "opcode \<notin> {0x86, 0x26}"
    | "opcode \<in> {0x89, 0x29}" "opcode \<notin> {0x85, 0x25}" "opcode \<notin> {0x86, 0x26}" "opcode \<notin> {0x87, 0x27}"
    unfolding is_admin_command_def by blast
  then show ?thesis
  proof cases
    case 1
    then show ?thesis
      using handle_create_inv [OF inv env ck, of body] auth admin unfolding bucket_unknown_command_def by simp
  next
    case 2
    then show ?thesis
      using handle_delete_inv [OF inv es ck, of force breq body] auth admin unfolding bucket_unknown_command_def by (simp; blast)
  next
    case 3
    then show ?thesis
      using handle_list_inv [OF inv] auth admin unfolding bucket_unknown_command_def by (simp; blast)
  next
    case 4
    then obtain es where "be_cookies b c = Some es" "es_reserved es = 0" using unreserved_cases [OF sel] by blast
    from handle_select_inv [OF inv this ck] 4(2-) auth admin show ?thesis unfolding bucket_unknown_command_def by simp
  qed
qed (use inv admin in \<open>simp add: bucket_unknown_command_def\<close>)

lemma run_inv:
  assumes inv: "be_inv (inside calls) (\<lambda>_. 0) b" and op: "allowed op (calls, b)"
  shows "\<exists>calls' b'. be_run op (calls, b) = Some (calls', b') \<and> be_inv (inside calls') (\<lambda>_. 0) b'"
proof (cases op)
  case (Connect env c)
  then have "\<And>k. default_bucket_name b = Some k \<Longrightarrow> fits_length k" using op by (auto split: option.splits)
  from handle_connect_inv [OF inv _ _ this, of env c] show ?thesis using op Connect by auto
next
  case (Disconnect c)
  then show ?thesis using handle_disconnect_inv [OF inv, of c] by auto
next
  case (Auth env user c)
  then obtain es where "be_cookies b c = Some es" "es_reserved es = 0" using op unreserved_cases [of b c] by auto
  from handle_auth_inv [OF inv _ this, of env user] show ?thesis using op Auth by auto
next
  case (Enter c)
  then have "may_call b c" using op by simp
  then obtain p b' where "get_engine_handle c b = Some (p, b')"
    "be_inv (if p = NULL then inside calls else (inside calls)(p := inside calls p + 1)) (\<lambda>_. 0) b'"
    using get_engine_handle_inv [OF inv] by blast
  then show ?thesis using Enter by auto
next
  case (TryEnter c)
  obtain p b' where "try_get_engine_handle c b = Some (p, b')"
    "be_inv (if p = NULL then inside calls else (inside calls)(p := inside calls p + 1)) (\<lambda>_. 0) b'"
    using try_get_engine_handle_inv [OF inv] by blast
  then show ?thesis using TryEnter by auto
next
  case (Leave p)
  then have p: "p \<in> set calls" using op by simp
  then obtain b' where "release_engine_handle p b = Some b'" "be_inv ((inside calls)(p := inside calls p - 1)) (\<lambda>_. 0) b'"
    using release_engine_handle_inv [OF inv, of p] by (auto simp: inside_pos)
  then show ?thesis using Leave p by (simp add: inside_remove1)
next
  case (Reserve up c)
  then show ?thesis using reserve_inv [OF inv, of up c] by auto
next
  case (Release c)
  then obtain es where "be_cookies b c = Some es" "0 < es_reserved es" "es_peh es \<noteq> NULL" using op by (auto split: option.splits)
  from release_cookie_inv [OF inv this] show ?thesis using Release by auto
next
  case (Admin noauth user env force breq c opcode key body)
  then obtain r b' where "bucket_unknown_command noauth user env force (\<lambda>e b. None) breq c opcode key body b = Some (r, b')"
    "be_inv (inside calls) (\<lambda>_. 0) b'" using admin_inv [OF inv, of opcode c env key] op by (simp; blast)
  then show ?thesis using Admin by simp
next
  case Aggregate
  then show ?thesis using aggregate_inv [OF inv] by auto
next
  case (Shutdown p)
  then obtain pc where "be_threads b p = Some pc" using op by auto
  from shutdown_step_inv [OF inv this] show ?thesis using Shutdown by auto
qed

lemma reach_inv:
  assumes init: "bucket_initialize parse env ok cfg fresh_engine = Some (ENGINE_SUCCESS, b0)" and r: "be_reach b0 s"
  shows "be_inv (inside (fst s)) (\<lambda>_. 0) (snd s)"
  using r
proof (induction rule: be_reach.induct)
  case be_start
  then show ?case using initialize_inv [OF init] by simp
next
  case (be_step s op s')
  then show ?case using run_inv [of "fst s" "snd s" op] by auto
qed

section \<open>A shutdown runs to its end\<close>

fun run_thread :: "nat \<Rightarrow> ptr \<Rightarrow> bucket_engine \<Rightarrow> bucket_engine option" where
  "run_thread 0 p b = Some b"
| "run_thread (Suc n) p b =
     (if be_threads b p = None then Some b else do { b \<leftarrow> engine_shutdown_thread p b; run_thread n p b })"

fun pc_rank :: "shutdown_pc \<Rightarrow> nat" where
  "pc_rank PC_START = 7"
| "pc_rank PC_DESTROY = 6"
| "pc_rank PC_CLEAR = 5"
| "pc_rank PC_UNLINK = 4"
| "pc_rank PC_STOPPED = 3"
| "pc_rank PC_WAIT = 2"
| "pc_rank PC_FREE = 1"

lemma next_rank: "case next_pc pc of None \<Rightarrow> pc_rank pc = 1 | Some pc' \<Rightarrow> Suc (pc_rank pc') = pc_rank pc"
  by (cases pc) auto

lemma free_values_refcount:
  "free_values ps b = Some b' \<Longrightarrow> map_option pe_refcount (be_pehs b' p) = map_option pe_refcount (be_pehs b p)"
proof (induction ps arbitrary: b)
  case (Cons q ps)
  then obtain h where "be_pehs b q = Some h" "free_values ps (peh_upd q (\<lambda>h. h\<lparr>pe_state := STATE_NULL\<rparr>) b) = Some b'"
    by (auto simp: engine_hash_free_def bind_eq_Some_conv)
  then show ?case using Cons.IH by (cases "q = p") auto
qed simp

lemma delete_all_refcount:
  "engines_delete_all k b = Some (n, b') \<Longrightarrow> map_option pe_refcount (be_pehs b' p) = map_option pe_refcount (be_pehs b p)"
  by (auto simp: engines_delete_all_def bind_eq_Some_conv dest!: free_values_refcount [where p = p])

lemma thread_refcount:
  assumes "engine_shutdown_thread p b = Some b'" "be_threads b p = Some pc" "pc \<noteq> PC_FREE"
  shows "map_option pe_refcount (be_pehs b' p) = map_option pe_refcount (be_pehs b p)"
  using assms delete_all_refcount [of _ b _ _ p]
  by (cases pc) (auto simp: engine_shutdown_thread_def Let_def bind_eq_Some_conv guard_bind_eq_Some split: if_splits)

lemma run_thread_inv:
  assumes "be_inv ins (\<lambda>_. 0) b" "be_threads b p = Some pc" "be_pehs b p = Some h"
  shows "\<exists>b'. run_thread n p b = Some b' \<and> be_inv ins (\<lambda>_. 0) b'
    \<and> (if pe_refcount h = 0
       then if pc_rank pc \<le> n then be_pehs b' p = None
            else \<exists>pc'. be_threads b' p = Some pc' \<and> pc_rank pc' = pc_rank pc - n
       else \<exists>pc'. be_threads b' p = Some pc' \<and> pc_rank pc' = max 2 (pc_rank pc - n))"
  using assms
proof (induction n arbitrary: b pc h)
  case 0
  have "1 \<le> pc_rank pc" by (cases pc) auto
  moreover have "2 \<le> pc_rank pc" if "pe_refcount h \<noteq> 0"
  proof -
    note k = handle_okD [OF be_invD(6) [OF 0(1,3)]]
    have "0 \<le> pe_refcount h" using k(4,5) refs_nonneg [OF 0(1), of p] by (simp add: main_ref_def split: if_splits)
    then have "pc \<noteq> PC_FREE" using k(11) 0(2) that by auto
    then show ?thesis by (cases pc) auto
  qed
  ultimately show ?case using 0 by (auto simp: max_def)
next
  case (Suc n)
  obtain b1 where s: "engine_shutdown_thread p b = Some b1" "be_inv ins (\<lambda>_. 0) b1"
    "if pc = PC_WAIT \<and> 0 < pe_refcount h then b1 = b else be_threads b1 p = next_pc pc"
    using shutdown_step_inv [OF Suc.prems(1,2)] Suc.prems(3) by auto
  have run: "run_thread (Suc n) p b = run_thread n p b1" using s(1) Suc.prems(2) by simp
  note k = handle_okD [OF be_invD(6) [OF Suc.prems(1,3)]]
  have nn: "0 \<le> pe_refcount h" using k(4,5) refs_nonneg [OF Suc.prems(1), of p] by (simp add: main_ref_def split: if_splits)
  show ?case
  proof (cases "pc = PC_FREE")
    case True
    then have r: "pe_refcount h = 0" using k(11) Suc.prems(2) nn by simp
    have "be_pehs b1 p = None" using free_inv [OF Suc.prems(1), of p] Suc.prems(2) s(1) True by auto
    moreover have "be_threads b1 p = None" using s(3) True by simp
    then have "run_thread n p b1 = Some b1" by (cases n) auto
    ultimately show ?thesis using run s(2) r True by auto
  next
    case False
    then obtain h1 where h1: "be_pehs b1 p = Some h1" "pe_refcount h1 = pe_refcount h"
      using thread_refcount [OF s(1) Suc.prems(2)] Suc.prems(3) by auto
    show ?thesis
    proof (cases "pc = PC_WAIT \<and> 0 < pe_refcount h")
      case True
      then show ?thesis using Suc.IH [OF s(2) _ h1(1), of pc] Suc.prems(2) s(3) h1(2) run by auto
    next
      case step: False
      then obtain pc1 where pc1: "next_pc pc = Some pc1" "be_threads b1 p = Some pc1" using s(3) False by (cases pc) auto
      then have r: "pc_rank pc = Suc (pc_rank pc1)" using next_rank [of pc] by simp
      show ?thesis using Suc.IH [OF s(2) pc1(2) h1(1)] unfolding run r h1(2) by (simp only: Suc_le_mono diff_Suc_Suc)
    qed
  qed
qed

end
