(* ===== verification/Bucket_Props.thy ===== *)
theory Bucket_Props
  imports Bucket_Machine
begin

unbundle bit_operations_syntax

text \<open>
  What the bucket engine guarantees in every state that is reached from its start, under every
  order of the steps of the server and of the shutdown threads, with a concrete run in which each
  statement is applied.
\<close>

section \<open>A concrete run\<close>

definition be_sample_env :: "ptr \<Rightarrow> load_env" where
  "be_sample_env a = \<lparr>le_addr = a, le_name_ok = True, le_mutex_ok = True, le_cond_ok = True, le_table_ok = True, le_engine = 100,
     le_init_ok = True, le_wants = False\<rparr>"

text \<open>A configuration that asks for the default bucket.\<close>

definition be_sample_parse :: "byte list \<Rightarrow> config_item list \<Rightarrow> (int \<times> config_item list) option" where
  "be_sample_parse cfg its = Some (0, its[2 := (its ! 2)\<lparr>ci_value := VBool True, ci_found := True\<rparr>])"

lemma be_sample_started:
  obtains b0 h where "bucket_initialize be_sample_parse (be_sample_env 5) True (Some []) fresh_engine = Some (ENGINE_SUCCESS, b0)"
    "be_pehs b0 = [DEFAULT_ENGINE \<mapsto> h]" "pe_state h = STATE_RUNNING" "pe_engine h = 100" "pe_clients h = 0" "pe_refcount h = 1"
    "be_cookies b0 = Map.empty" "default_bucket_name b0 = None" "be_threads b0 = Map.empty" "names (be_engines b0) Map.empty"
proof -
  obtain t where t: "genhash_init True 1 be_hash_ops = Some (Some t)"
    by (simp add: genhash_init_def be_hash_ops_def estimate_table_size_def prime_size_table_def arr_get_def table_magnitude_def)
  obtain h where i: "init_engine_handle (be_sample_env 5) [] None zeroed = (ENGINE_SUCCESS, h)"
    "pe_state h = STATE_RUNNING" "pe_clients h = 0" "pe_refcount h = 1"
    using init_engine_handle_fields [of "be_sample_env 5" "[]" None]
    by (simp add: init_engine_handle_def be_sample_env_def zeroed_def)
  show ?thesis
  proof (rule that [of _ "h\<lparr>pe_engine := 100\<rparr>"])
    show "bucket_initialize be_sample_parse (be_sample_env 5) True (Some []) fresh_engine = Some (ENGINE_SUCCESS,
      (fresh_engine\<lparr>auto_create := True, has_default := True, default_bucket_config := Some [], be_engines := t,
         be_pehs := [DEFAULT_ENGINE \<mapsto> h\<lparr>pe_engine := 100\<rparr>], be_initialized := True\<rparr>))"
      using t i(1)
      by (simp add: bucket_initialize_def initialize_configuration_def be_sample_parse_def opt_item_def fresh_engine_def
          init_default_bucket_def be_sample_env_def peh_upd_def Let_def)
  qed (use i empty_names [OF t] in \<open>simp_all add: fresh_engine_def\<close>)
qed


definition be_sample_cookie :: engine_specific where
  "be_sample_cookie = \<lparr>es_peh = DEFAULT_ENGINE, es_specific = NULL, es_reserved = 0, es_notified = False\<rparr>"

text \<open>A connection in the default bucket, which is inside its engine.\<close>

lemma be_sample_connected:
  obtains b0 b h where "bucket_initialize be_sample_parse (be_sample_env 5) True (Some []) fresh_engine = Some (ENGINE_SUCCESS, b0)"
    "be_reach b0 ([DEFAULT_ENGINE], b)" "be_pehs b = [DEFAULT_ENGINE \<mapsto> h]" "pe_state h = STATE_RUNNING"
    "be_cookies b = [7 \<mapsto> be_sample_cookie]" "be_threads b = Map.empty"
proof -
  obtain b0 h where i: "bucket_initialize be_sample_parse (be_sample_env 5) True (Some []) fresh_engine = Some (ENGINE_SUCCESS, b0)"
    and b: "be_pehs b0 = [DEFAULT_ENGINE \<mapsto> h]" "be_cookies b0 = Map.empty" "default_bucket_name b0 = None" "be_threads b0 = Map.empty"
    and h: "pe_state h = STATE_RUNNING" "pe_engine h = 100" "pe_clients h = 0" "pe_refcount h = 1"
    by (rule be_sample_started)
  let ?h1 = "h\<lparr>pe_refcount := 2\<rparr>"
  let ?b1 = "b0\<lparr>be_pehs := [DEFAULT_ENGINE \<mapsto> ?h1], be_cookies := [7 \<mapsto> be_sample_cookie]\<rparr>"
  have "handle_connect (be_sample_env 5) True 7 b0 = Some ?b1"
    using b h by (simp add: handle_connect_def default_pe_def retain_handle_def create_engine_specific_def set_engine_handle_def
        release_handle_def release_handle_locked_def maybe_start_engine_shutdown_def peh_upd_def set_es_def be_sample_cookie_def DEFAULT_ENGINE_def)
  then have 1: "be_reach b0 ([], ?b1)"
    using be_step [OF be_start [of b0], of "Connect (be_sample_env 5) 7" "([], ?b1)"] b
    by (simp add: env_ok_def be_sample_env_def DEFAULT_ENGINE_def)
  let ?b2 = "?b1\<lparr>be_pehs := [DEFAULT_ENGINE \<mapsto> ?h1\<lparr>pe_clients := 1\<rparr>]\<rparr>"
  have "get_engine_handle 7 ?b1 = Some (DEFAULT_ENGINE, ?b2)"
    using h by (simp add: get_engine_handle_def be_sample_cookie_def peh_upd_def Let_def) (simp add: DEFAULT_ENGINE_def)
  then have "be_reach b0 ([DEFAULT_ENGINE], ?b2)"
    using be_step [OF 1, of "Enter 7" "([DEFAULT_ENGINE], ?b2)"]
    by (simp add: may_call_def be_sample_cookie_def) (simp add: DEFAULT_ENGINE_def)
  then show ?thesis using that [OF i, of ?b2 "?h1\<lparr>pe_clients := 1\<rparr>"] h b by simp
qed

text \<open>Then a bucket named \<open>a\<close> is created.\<close>

lemma be_sample_created:
  obtains b0 b h where "bucket_initialize be_sample_parse (be_sample_env 5) True (Some []) fresh_engine = Some (ENGINE_SUCCESS, b0)"
    "be_reach b0 ([DEFAULT_ENGINE], b)" "be_pehs b 5 = Some h" "pe_state h = STATE_RUNNING" "pe_name h = [97]"
    "be_cookies b 7 = Some be_sample_cookie" "be_pehs b 6 = None" "dom (be_pehs b) = {DEFAULT_ENGINE, 5}"
proof -
  obtain b0 b1 h1 where i: "bucket_initialize be_sample_parse (be_sample_env 5) True (Some []) fresh_engine = Some (ENGINE_SUCCESS, b0)"
    and r: "be_reach b0 ([DEFAULT_ENGINE], b1)" and b1: "be_pehs b1 = [DEFAULT_ENGINE \<mapsto> h1]" "be_cookies b1 = [7 \<mapsto> be_sample_cookie]"
    by (rule be_sample_connected)
  have inv: "be_inv (inside [DEFAULT_ENGINE]) (\<lambda>_. 0) b1" using reach_inv [OF i r] by simp
  have env: "env_ok (be_sample_env 5) b1" using b1(1) by (simp add: env_ok_def be_sample_env_def DEFAULT_ENGINE_def)
  have l: "loads (be_sample_env 5) [97]" by (simp add: loads_def be_sample_env_def has_valid_bucket_name_def isalpha_def)
  have free: "\<not> name_taken b1 [97]" using b1(1) by (auto simp: name_taken_def)
  obtain rv p b2 where c: "create_bucket (be_sample_env 5) False [97] (Some [98]) b1 = Some (rv, p, b2)"
    and c': "be_cookies b2 = be_cookies b1" "rv = ENGINE_SUCCESS" "\<forall>q. q \<noteq> 5 \<longrightarrow> (be_pehs b2 q = None) = (be_pehs b1 q = None)"
      "\<exists>h. be_pehs b2 5 = Some h \<and> pe_name h = [97] \<and> pe_state h = STATE_RUNNING"
    using create_bucket_inv [OF inv env, of "[97]" False "Some [98]"] l free by (auto simp: be_sample_env_def)
  have "be_reach b0 ([DEFAULT_ENGINE], b2)"
    using be_step [OF r, of "Admin True None (be_sample_env 5) None 9 7 0x85 [97] [98]" "([DEFAULT_ENGINE], b2)"] c env b1
    by (simp add: bucket_unknown_command_def is_admin_command_def is_authorized_def handle_create_bucket_def c_string_def)
  moreover have "dom (be_pehs b2) = {DEFAULT_ENGINE, 5}"
  proof (intro set_eqI)
    show "q \<in> dom (be_pehs b2) \<longleftrightarrow> q \<in> {DEFAULT_ENGINE, 5}" for q
      using c'(3) [rule_format, of q] c'(4) b1(1) by (cases "q = 5"; cases "q = DEFAULT_ENGINE") auto
  qed
  ultimately show ?thesis using that [OF i, of b2] c' b1 by (auto simp: DEFAULT_ENGINE_def)
qed

lemma find_inner_eq:
  assumes inv: "be_inv ins hold b" and p: "p \<noteq> DEFAULT_ENGINE" "be_pehs b p = Some h" "in_table (pe_state h)"
  shows "find_bucket_inner (pe_name h) b = Some p"
proof -
  obtain m where m: "names (be_engines b) m" "indexed_by b m" using inv by (auto simp: be_inv_def)
  have "m (pe_name h) = Some p" using m(2) p by (auto simp: indexed_by_def)
  then show ?thesis
    using names_find [OF m(1) handle_okD(2) [OF be_invD(6) [OF inv p(2)]]] by (simp add: find_bucket_inner_def)
qed


lemma be_sample_deleted:
  obtains b0 b h where "bucket_initialize be_sample_parse (be_sample_env 5) True (Some []) fresh_engine = Some (ENGINE_SUCCESS, b0)"
    "be_reach b0 ([DEFAULT_ENGINE], b)" "be_pehs b 5 = Some h" "be_threads b 5 = Some PC_START"
proof -
  obtain b0 b1 h1 where i: "bucket_initialize be_sample_parse (be_sample_env 5) True (Some []) fresh_engine = Some (ENGINE_SUCCESS, b0)"
    and r: "be_reach b0 ([DEFAULT_ENGINE], b1)" and h1: "be_pehs b1 5 = Some h1" "pe_state h1 = STATE_RUNNING" "pe_name h1 = [97]"
    and c: "be_cookies b1 7 = Some be_sample_cookie" and six: "be_pehs b1 6 = None"
    by (rule be_sample_created)
  have inv: "be_inv (inside [DEFAULT_ENGINE]) (\<lambda>_. 0) b1" using reach_inv [OF i r] by simp
  have "find_bucket_inner [97] b1 = Some 5"
    using find_inner_eq [OF inv _ h1(1)] h1 by (simp add: in_table_def DEFAULT_ENGINE_def)
  then obtain rp b2 where d: "handle_delete_bucket None 9 7 [97] [] b1 = Some (rp, b2)"
    "be_threads b2 5 = Some PC_START" "\<exists>h. be_pehs b2 5 = Some h"
    using handle_delete_inv [OF inv c, of "[97]" None 9 "[]"] h1 c
    by (auto simp: c_string_def be_sample_cookie_def DEFAULT_ENGINE_def)
  have "be_reach b0 ([DEFAULT_ENGINE], b2)"
    using be_step [OF r, of "Admin True None (be_sample_env 6) None 9 7 0x86 [97] []" "([DEFAULT_ENGINE], b2)"] d(1) c six
    by (simp add: bucket_unknown_command_def is_admin_command_def is_authorized_def env_ok_def be_sample_env_def DEFAULT_ENGINE_def)
  then show ?thesis using that [OF i] d by blast
qed

section \<open>Properties of the bucket engine\<close>





text \<open>
  C21. A shutdown thread that runs alone takes the bucket out of the table in at most four critical
  sections, so that its name can be used again; in at most seven it has freed the handle when no
  reference is left, and otherwise it waits for the last reference with the handle still
  allocated.
\<close>

theorem bucket_shutdown_completes:
  assumes init: "bucket_initialize parse env ok cfg fresh_engine = Some (ENGINE_SUCCESS, b0)"
    and reach: "be_reach b0 (calls, b)" and t: "be_threads b p = Some pc" and h: "be_pehs b p = Some h"
  shows "(\<exists>b1. run_thread 4 p b = Some b1 \<and> (\<forall>g. be_pehs b1 p = Some g \<longrightarrow> \<not> in_table (pe_state g)))
    \<and> (\<exists>b2. run_thread 7 p b = Some b2
        \<and> (if pe_refcount h = 0 then be_pehs b2 p = None else be_threads b2 p = Some PC_WAIT \<and> be_pehs b2 p \<noteq> None))"
proof -
  have inv: "be_inv (inside calls) (\<lambda>_. 0) b" using reach_inv [OF init reach] by simp
  have rank: "pc_rank pc \<le> 7" "1 \<le> pc_rank pc" by (cases pc; simp)+
  have late: "\<not> in_table (pe_state g)" if "be_inv (inside calls) (\<lambda>_. 0) b'" "be_threads b' p = Some pc'" "pc_rank pc' \<le> 3"
      "be_pehs b' p = Some g" for b' pc' g
  proof -
    have "pc_ok (pe_state g) (Some pc')" using thread_handle [OF that(1,2)] that(4) by (metis option.inject)
    then show ?thesis using that(3) by (cases "pe_state g"; cases pc') (auto simp: in_table_def)
  qed
  obtain b1 where b1: "run_thread 4 p b = Some b1" "be_inv (inside calls) (\<lambda>_. 0) b1"
    "be_pehs b1 p = None \<or> (\<exists>pc'. be_threads b1 p = Some pc' \<and> pc_rank pc' \<le> 3)"
    using run_thread_inv [OF inv t h, of 4] rank by (fastforce simp: max_def split: if_splits)
  obtain b2 where b2: "run_thread 7 p b = Some b2" "be_inv (inside calls) (\<lambda>_. 0) b2"
    "if pe_refcount h = 0 then be_pehs b2 p = None else \<exists>pc'. be_threads b2 p = Some pc' \<and> pc_rank pc' = 2"
    using run_thread_inv [OF inv t h, of 7] rank by (auto split: if_splits)
  have "pc_rank pc' = 2 \<longleftrightarrow> pc' = PC_WAIT" for pc' by (cases pc') auto
  moreover have "be_pehs b2 p \<noteq> None" if "be_threads b2 p = Some PC_WAIT" using be_invD(7) [OF b2(2), of p] that by auto
  ultimately have "if pe_refcount h = 0 then be_pehs b2 p = None else be_threads b2 p = Some PC_WAIT \<and> be_pehs b2 p \<noteq> None"
    using b2(3) by (auto split: if_splits)
  moreover have "\<forall>g. be_pehs b1 p = Some g \<longrightarrow> \<not> in_table (pe_state g)" using b1(3) late [OF b1(2)] by (metis option.distinct(1))
  ultimately show ?thesis using b1(1) b2(1) by blast
qed

theorem bucket_shutdown_completes_witness:
  "\<exists>b0 b b1. be_reach b0 ([DEFAULT_ENGINE], b) \<and> be_threads b 5 = Some PC_START \<and> run_thread 4 5 b = Some b1
    \<and> (\<forall>g. be_pehs b1 5 = Some g \<longrightarrow> \<not> in_table (pe_state g))"
proof -
  obtain b0 b h where i: "bucket_initialize be_sample_parse (be_sample_env 5) True (Some []) fresh_engine = Some (ENGINE_SUCCESS, b0)"
    and r: "be_reach b0 ([DEFAULT_ENGINE], b)" and h: "be_pehs b 5 = Some h" and t: "be_threads b 5 = Some PC_START"
    by (rule be_sample_deleted)
  from bucket_shutdown_completes [OF i r t h] r t show ?thesis by blast
qed

text \<open>
  C22. Creating a bucket answers that the key exists exactly when a bucket of that name is in the
  table, running or still shutting down, and succeeds exactly when the name is valid and free and
  the engine loads and starts; then the new running bucket is found under its name, and on every
  failure no handle is left behind.
\<close>

theorem create_bucket_correct:
  assumes init: "bucket_initialize parse env0 ok cfg fresh_engine = Some (ENGINE_SUCCESS, b0)"
    and reach: "be_reach b0 (calls, b)" and env: "env_ok env b" and k: "fits_length k"
  shows "\<exists>rv p b'. create_bucket env e_out k path b = Some (rv, p, b')
    \<and> (rv = ENGINE_KEY_EEXISTS \<longleftrightarrow> loads env k \<and> name_taken b k)
    \<and> (rv = ENGINE_SUCCESS \<longleftrightarrow> loads env k \<and> \<not> name_taken b k \<and> le_init_ok env)
    \<and> p = (if rv = ENGINE_SUCCESS \<and> e_out then le_addr env else NULL)
    \<and> (if rv = ENGINE_SUCCESS
       then find_bucket_inner k b' = Some (le_addr env)
         \<and> (\<exists>h. be_pehs b' (le_addr env) = Some h \<and> pe_name h = k \<and> pe_state h = STATE_RUNNING)
       else dom (be_pehs b') = dom (be_pehs b))"
proof -
  have inv: "be_inv (inside calls) (\<lambda>_. 0) b" using reach_inv [OF init reach] by simp
  obtain rv p b' where c: "create_bucket env e_out k path b = Some (rv, p, b')" "be_inv (inside calls) (one p) b'"
    "rv = ENGINE_KEY_EEXISTS \<longleftrightarrow> loads env k \<and> name_taken b k"
    "rv = ENGINE_SUCCESS \<longleftrightarrow> loads env k \<and> \<not> name_taken b k \<and> le_init_ok env"
    "p = (if rv = ENGINE_SUCCESS \<and> e_out then le_addr env else NULL)"
    "\<forall>q. q \<noteq> le_addr env \<or> rv \<noteq> ENGINE_SUCCESS \<longrightarrow> (be_pehs b' q = None) = (be_pehs b q = None)"
    "rv = ENGINE_SUCCESS \<longrightarrow> (\<exists>h. be_pehs b' (le_addr env) = Some h \<and> pe_name h = k \<and> pe_state h = STATE_RUNNING)"
    using create_bucket_inv [OF inv env k, of e_out path] by blast
  have "find_bucket_inner k b' = Some (le_addr env)" if rv: "rv = ENGINE_SUCCESS"
  proof -
    have "le_addr env \<noteq> DEFAULT_ENGINE" using c(4) rv env by (auto simp: loads_def env_ok_def)
    then show ?thesis using find_inner_eq [OF c(2)] c(7) rv by (force simp: in_table_def)
  qed
  moreover have "dom (be_pehs b') = dom (be_pehs b)" if "rv \<noteq> ENGINE_SUCCESS" using c(6) that by (auto simp: dom_def)
  ultimately have "if rv = ENGINE_SUCCESS
       then find_bucket_inner k b' = Some (le_addr env)
         \<and> (\<exists>h. be_pehs b' (le_addr env) = Some h \<and> pe_name h = k \<and> pe_state h = STATE_RUNNING)
       else dom (be_pehs b') = dom (be_pehs b)" using c(7) by simp
  then show ?thesis using c(1,3-5) by blast
qed

theorem create_bucket_correct_witness:
  "\<exists>b0 b b'. be_reach b0 ([DEFAULT_ENGINE], b) \<and> name_taken b [97]
    \<and> create_bucket (be_sample_env 6) False [97] None b = Some (ENGINE_KEY_EEXISTS, NULL, b')
    \<and> (\<exists>b''. create_bucket (be_sample_env 6) True [98] None b = Some (ENGINE_SUCCESS, 6, b''))"
proof -
  obtain b0 b h where i: "bucket_initialize be_sample_parse (be_sample_env 5) True (Some []) fresh_engine = Some (ENGINE_SUCCESS, b0)"
    and r: "be_reach b0 ([DEFAULT_ENGINE], b)" and h: "be_pehs b 5 = Some h" "pe_state h = STATE_RUNNING" "pe_name h = [97]"
    and six: "be_pehs b 6 = None" and all: "dom (be_pehs b) = {DEFAULT_ENGINE, 5}"
    by (rule be_sample_created)
  have env: "env_ok (be_sample_env 6) b" using six by (simp add: env_ok_def be_sample_env_def DEFAULT_ENGINE_def)
  have l: "loads (be_sample_env 6) [97]" "loads (be_sample_env 6) [98]"
    by (simp_all add: loads_def be_sample_env_def has_valid_bucket_name_def isalpha_def)
  have "5 \<noteq> DEFAULT_ENGINE" by (simp add: DEFAULT_ENGINE_def)
  then have taken: "name_taken b [97]" unfolding name_taken_def using h by (auto simp: in_table_def intro!: exI [of _ "5 :: ptr"])
  have free: "\<not> name_taken b [98]" unfolding name_taken_def
  proof (intro notI, elim exE conjE)
    fix q g assume "q \<noteq> DEFAULT_ENGINE" "be_pehs b q = Some g" "pe_name g = [98]"
    moreover from this have "q = 5" using all by auto
    ultimately show False using h by simp
  qed
  from create_bucket_correct [OF i r env, of "[97]" False None] create_bucket_correct [OF i r env, of "[98]" True None] l taken free r
  show ?thesis by (auto simp: be_sample_env_def)
qed

text \<open>
  C23. Deleting a running bucket makes the client wait, records who waits and whether the shutdown
  is forced, and from then on the bucket is not found by anyone; its shutdown thread starts at
  once when no call is inside the engine, and otherwise the bucket waits for the last of them.
\<close>

theorem delete_bucket_stops:
  assumes init: "bucket_initialize parse env ok cfg fresh_engine = Some (ENGINE_SUCCESS, b0)"
    and reach: "be_reach b0 (calls, b)"
    and es: "be_cookies b c = Some es" "es_specific es = NULL"
    and req: "fits_length (c_string key)" "length body < 65536" "(if c_string body = [] then Some False else force) = Some fo"
    and h: "be_pehs b p = Some h" "p \<noteq> DEFAULT_ENGINE" "pe_name h = c_string key" "pe_state h = STATE_RUNNING"
  shows "\<exists>b' h'. handle_delete_bucket force breq c key body b = Some ((ENGINE_EWOULDBLOCK, None), b')
    \<and> find_bucket (c_string key) b' = Some (NULL, b')
    \<and> be_pehs b' p = Some h' \<and> force_shutdown h' = fo \<and> pe_cookie h' = c
    \<and> pe_state h' = (if p \<in> set calls then STATE_STOP_REQUESTED else STATE_STOPPING)
    \<and> be_threads b' p = (if p \<in> set calls then None else Some PC_START)"
proof -
  have inv: "be_inv (inside calls) (\<lambda>_. 0) b" using reach_inv [OF init reach] by simp
  have p: "p \<noteq> NULL" using handle_okD(1) [OF be_invD(6) [OF inv h(1)]] .
  have "find_bucket_inner (c_string key) b = Some p"
    using find_inner_eq [OF inv h(2,1)] h(3,4) by (simp add: in_table_def)
  then obtain b' h' where d: "handle_delete_bucket force breq c key body b = Some ((ENGINE_EWOULDBLOCK, None), b')"
    "be_inv (inside calls) (\<lambda>_. 0) b'" "be_pehs b' p = Some h'"
    "pe_state h' = (if inside calls p = 0 then STATE_STOPPING else STATE_STOP_REQUESTED)"
    "pe_name h' = pe_name h" "force_shutdown h' = fo" "pe_cookie h' = c"
    "be_threads b' p = (if inside calls p = 0 then Some PC_START else None)"
    using handle_delete_inv [OF inv es(1) req(1), of force breq body] es(2) req h p by blast
  have "find_bucket_inner (c_string key) b' = Some p"
    using find_inner_eq [OF d(2) h(2) d(3)] d(4,5) h(3) by (simp add: in_table_def split: if_splits)
  then have "find_bucket (c_string key) b' = Some (NULL, b')"
    using d(3,4) p by (simp add: find_bucket_def retain_handle_def)
  moreover have "inside calls p = 0 \<longleftrightarrow> p \<notin> set calls" using inside_pos [of calls p] by auto
  ultimately show ?thesis using d by auto
qed

theorem delete_bucket_stops_witness:
  "\<exists>b0 b b' h'. be_reach b0 ([DEFAULT_ENGINE], b)
    \<and> handle_delete_bucket None 9 7 [97] [] b = Some ((ENGINE_EWOULDBLOCK, None), b')
    \<and> find_bucket [97] b' = Some (NULL, b') \<and> be_pehs b' 5 = Some h' \<and> pe_state h' = STATE_STOPPING"
proof -
  obtain b0 b h where i: "bucket_initialize be_sample_parse (be_sample_env 5) True (Some []) fresh_engine = Some (ENGINE_SUCCESS, b0)"
    and r: "be_reach b0 ([DEFAULT_ENGINE], b)" and h: "be_pehs b 5 = Some h" "pe_state h = STATE_RUNNING" "pe_name h = [97]"
    and c: "be_cookies b 7 = Some be_sample_cookie"
    by (rule be_sample_created)
  from delete_bucket_stops [OF i r c, of "[97]" "[]" None False 5 h 9] h r show ?thesis
    by (auto simp: be_sample_cookie_def c_string_def DEFAULT_ENGINE_def)
qed

text \<open>
  The list command answers with the names of exactly the running buckets, the default bucket
  excepted, and keeps the connections as they were.
\<close>

theorem list_buckets_correct:
  assumes init: "bucket_initialize parse env ok cfg fresh_engine = Some (ENGINE_SUCCESS, b0)"
    and reach: "be_reach b0 (calls, b)"
  shows "\<exists>bl b'. handle_list_buckets b = Some ((ENGINE_SUCCESS, Some (RESPONSE_SUCCESS, join_names bl)), b')
    \<and> be_cookies b' = be_cookies b
    \<and> (\<forall>n p. (n, p) \<in> set bl \<longleftrightarrow> p \<noteq> DEFAULT_ENGINE \<and> (\<exists>h. be_pehs b p = Some h \<and> pe_name h = n \<and> pe_state h = STATE_RUNNING))"
proof -
  have "be_inv (inside calls) (\<lambda>_. 0) b" using reach_inv [OF init reach] by simp
  then obtain bl b' where l: "handle_list_buckets b = Some ((ENGINE_SUCCESS, Some (RESPONSE_SUCCESS, join_names bl)), b')"
    "be_cookies b' = be_cookies b"
    and bl: "set bl = {(n, p). p \<noteq> DEFAULT_ENGINE \<and> (\<exists>h. be_pehs b p = Some h \<and> pe_name h = n \<and> pe_state h = STATE_RUNNING)}"
    using handle_list_inv by blast
  show ?thesis by (rule exI [of _ bl], rule exI [of _ b'], intro conjI l) (simp add: bl)
qed

theorem list_buckets_correct_witness:
  "\<exists>b0 b bl b'. be_reach b0 ([DEFAULT_ENGINE], b) \<and> ([97], 5) \<in> set bl
    \<and> handle_list_buckets b = Some ((ENGINE_SUCCESS, Some (RESPONSE_SUCCESS, join_names bl)), b')"
proof -
  obtain b0 b h where i: "bucket_initialize be_sample_parse (be_sample_env 5) True (Some []) fresh_engine = Some (ENGINE_SUCCESS, b0)"
    and r: "be_reach b0 ([DEFAULT_ENGINE], b)" and h: "be_pehs b 5 = Some h" "pe_state h = STATE_RUNNING" "pe_name h = [97]"
    by (rule be_sample_created)
  have "5 \<noteq> DEFAULT_ENGINE" by (simp add: DEFAULT_ENGINE_def)
  then show ?thesis using list_buckets_correct [OF i r] r h by blast
qed

end
