(* ===== verification/Conn.thy ===== *)
theory Conn
  imports Engine_State
begin

unbundle bit_operations_syntax

text \<open>
  A connection of the daemon (src/memcached/daemon/memcached.h, memcached.c): its state, its
  buffers from the constructor to the close, and the output side. A reply is a list of messages,
  each an interval of the array of entries; the functions add data to the last message, open a new
  one where the sizes say so, write the headers of UDP, and take from the front what the socket
  accepted. None is an access out of bounds or a loop that does not end. The answers of realloc,
  of sendmsg and of libevent are inputs.
\<close>

section \<open>A connection\<close>

text \<open>The state functions, as values.\<close>

datatype state_func =
    CONN_NEW_CMD | CONN_WAITING | CONN_READ | CONN_PARSE_CMD | CONN_NREAD | CONN_SWALLOW
  | CONN_WRITE | CONN_MWRITE | CONN_CLOSING | CONN_PENDING_CLOSE | CONN_IMMEDIATE_CLOSE

text \<open>A message: the entries of the array \<open>iov\<close> that it has, as the index of the first and their number.\<close>

datatype protocol = ascii_prot | binary_prot | negotiating_prot

record msghdr =
  msg_iov :: nat
  msg_iovlen :: nat

text \<open>
  An entry of \<open>iov\<close> is the list of the bytes it points to. \<open>answers\<close> are the answers of
  \<^verbatim>\<open>realloc\<close> to come; when the list is empty every further call succeeds. \<open>ritem\<close> is how far into
  the value of \<open>c_item\<close> the input has got. A suffix buffer in use is its text.
\<close>

record conn =
  c_state :: state_func
  nevents :: int
  udp :: bool
  protocol :: protocol
  rbuf :: "byte list"
  rcurr :: nat
  rbytes :: nat
  wbuf :: "byte list"
  wsize :: nat
  write_and_go :: state_func
  write_and_free :: bool
  ritem :: nat
  rlbytes :: nat
  c_item :: ptr
  store_op :: ENGINE_STORE_OPERATION
  sbytes :: int
  iov :: "byte list list"
  iovused :: nat
  msglist :: "msghdr list"
  msgused :: nat
  msgcurr :: nat
  msgbytes :: int
  ilist :: "ptr list"
  isize :: nat
  suffixlist :: "byte list list"
  suffixsize :: nat
  noreply :: bool
  request_id :: int
  hdrsize :: nat
  c_refcount :: u8
  aiostat :: ENGINE_ERROR_CODE
  ewouldblock :: bool
  answers :: "bool list"

definition alloc :: "conn \<Rightarrow> bool \<times> conn" where
  "alloc c = (case answers c of [] \<Rightarrow> (True, c) | ok # oks \<Rightarrow> (ok, c\<lparr>answers := oks\<rparr>))"

definition conn_set_state :: "state_func \<Rightarrow> conn \<Rightarrow> conn" where
  "conn_set_state s c = (if s \<noteq> c_state c then c\<lparr>c_state := s\<rparr> else c)"

section \<open>The life of a connection\<close>

definition DATA_BUFFER_SIZE :: nat where "DATA_BUFFER_SIZE = 2048"
definition ITEM_LIST_INITIAL :: nat where "ITEM_LIST_INITIAL = 200"
definition SUFFIX_LIST_INITIAL :: nat where "SUFFIX_LIST_INITIAL = 20"
definition IOV_LIST_INITIAL :: nat where "IOV_LIST_INITIAL = 400"
definition MSG_LIST_INITIAL :: nat where "MSG_LIST_INITIAL = 10"
definition READ_BUFFER_HIGHWAT :: nat where "READ_BUFFER_HIGHWAT = 8192"
definition ITEM_LIST_HIGHWAT :: nat where "ITEM_LIST_HIGHWAT = 400"
definition IOV_LIST_HIGHWAT :: nat where "IOV_LIST_HIGHWAT = 600"
definition MSG_LIST_HIGHWAT :: nat where "MSG_LIST_HIGHWAT = 100"

text \<open>One buffer: where \<open>needed\<close>, an allocation, and when it succeeds the change of the connection.\<close>

definition alloc_when :: "bool \<Rightarrow> (conn \<Rightarrow> conn) \<Rightarrow> conn \<Rightarrow> bool \<times> conn" where
  "alloc_when needed f c = (if needed then (let (ok, c) = alloc c in (ok, if ok then f c else c)) else (True, c))"

definition conn_reset_buffersize :: "conn \<Rightarrow> bool \<times> conn" where
  "conn_reset_buffersize c =
     (let (a1, c) = alloc_when (length (rbuf c) \<noteq> DATA_BUFFER_SIZE) (rbuf_update (\<lambda>_. replicate DATA_BUFFER_SIZE 0)) c;
          (a2, c) = alloc_when (wsize c \<noteq> DATA_BUFFER_SIZE) (wsize_update (\<lambda>_. DATA_BUFFER_SIZE)) c;
          (a3, c) = alloc_when (isize c \<noteq> ITEM_LIST_INITIAL) (isize_update (\<lambda>_. ITEM_LIST_INITIAL)) c;
          (a4, c) = alloc_when (suffixsize c \<noteq> SUFFIX_LIST_INITIAL) (suffixsize_update (\<lambda>_. SUFFIX_LIST_INITIAL)) c;
          (a5, c) = alloc_when (length (iov c) \<noteq> IOV_LIST_INITIAL) (iov_update (\<lambda>_. replicate IOV_LIST_INITIAL [])) c;
          (a6, c) = alloc_when (length (msglist c) \<noteq> MSG_LIST_INITIAL)
            (msglist_update (\<lambda>_. replicate MSG_LIST_INITIAL \<lparr>msg_iov = 0, msg_iovlen = 0\<rparr>)) c
      in (a1 \<and> a2 \<and> a3 \<and> a4 \<and> a5 \<and> a6, c))"

text \<open>What \<^verbatim>\<open>memset\<close> leaves; a state function that is null is not modelled, nor ever called.\<close>

definition zero_conn :: "bool list \<Rightarrow> conn" where
  "zero_conn oks = \<lparr>c_state = CONN_CLOSING, nevents = 0, udp = False, protocol = ascii_prot, rbuf = [], rcurr = 0, rbytes = 0,
     wbuf = [], wsize = 0, write_and_go = CONN_CLOSING, write_and_free = False, ritem = 0, rlbytes = 0, c_item = NULL,
     store_op = OPERATION_ADD, sbytes = 0, iov = [], iovused = 0, msglist = [], msgused = 0, msgcurr = 0, msgbytes = 0,
     ilist = [], isize = 0, suffixlist = [], suffixsize = 0, noreply = False, request_id = 0, hdrsize = 0, c_refcount = 0,
     aiostat = ENGINE_SUCCESS, ewouldblock = False, answers = oks\<rparr>"

text \<open>\<open>None\<close> in the first result is the answer 1: the object is not constructed.\<close>

definition conn_constructor :: "bool list \<Rightarrow> conn option" where
  "conn_constructor oks = (let (ok, c) = conn_reset_buffersize (zero_conn oks) in if ok then Some c else None)"

text \<open>\<open>c\<close> is the object of the cache and \<open>event_ok\<close> the answer of libevent; the first result is null or not.\<close>

definition conn_new :: "state_func \<Rightarrow> nat \<Rightarrow> bool \<Rightarrow> protocol \<Rightarrow> bool \<Rightarrow> conn \<Rightarrow> bool \<times> conn" where
  "conn_new init read_buffer_size u prot event_ok c =
     (let (ok, c) = alloc_when (length (rbuf c) < read_buffer_size) (rbuf_update (\<lambda>_. replicate read_buffer_size 0)) c in
      if \<not> ok then (False, c)
      else
        (let c = c\<lparr>udp := u, protocol := prot, c_state := init, rlbytes := 0, rbytes := 0, wbuf := [], rcurr := 0, ritem := 0,
               ilist := [], suffixlist := [], iovused := 0, msgcurr := 0, msgused := 0, write_and_go := init,
               write_and_free := False, c_item := NULL, noreply := False\<rparr>
         in if \<not> event_ok then (False, c)
            else (True, c\<lparr>aiostat := ENGINE_SUCCESS, ewouldblock := False, c_refcount := 1\<rparr>)))"

definition conn_shrink :: "conn \<Rightarrow> conn" where
  "conn_shrink c =
     (if udp c then c
      else
        (let c = (if length (rbuf c) > READ_BUFFER_HIGHWAT \<and> rbytes c < DATA_BUFFER_SIZE then
               (let c = c\<lparr>rbuf := take (rbytes c) (drop (rcurr c) (rbuf c)) @ drop (rbytes c) (rbuf c)\<rparr>;
                    (ok, c) = alloc c
                in (if ok then c\<lparr>rbuf := take DATA_BUFFER_SIZE (rbuf c)\<rparr> else c)\<lparr>rcurr := 0\<rparr>)
             else c);
             c = snd (alloc_when (isize c > ITEM_LIST_HIGHWAT) (isize_update (\<lambda>_. ITEM_LIST_INITIAL)) c);
             c = snd (alloc_when (length (msglist c) > MSG_LIST_HIGHWAT) (msglist_update (take MSG_LIST_INITIAL)) c)
         in snd (alloc_when (length (iov c) > IOV_LIST_HIGHWAT) (iov_update (take IOV_LIST_INITIAL)) c)))"

section \<open>Output\<close>

definition IOV_MAX :: nat where "IOV_MAX = 1024"
definition UDP_MAX_PAYLOAD_SIZE :: int where "UDP_MAX_PAYLOAD_SIZE = 1400"
definition UDP_HEADER_SIZE :: nat where "UDP_HEADER_SIZE = 8"

text \<open>What \<^verbatim>\<open>realloc\<close> appends to an array is not initialised.\<close>

definition ensure_iov_space :: "conn \<Rightarrow> (int \<times> conn) option" where
  "ensure_iov_space c =
     (if iovused c \<ge> length (iov c) then
        (let (ok, c) = alloc c in
         if \<not> ok then Some (-1, c)
         else
           (let c = c\<lparr>iov := iov c @ replicate (length (iov c)) []\<rparr>;
                starts = map (\<lambda>i. sum_list (map msg_iovlen (take i (msglist c)))) [0..<msgused c]
            in do {
                 guard (msgused c \<le> length (msglist c));
                 Some (0, c\<lparr>msglist := map2 (\<lambda>m s. m\<lparr>msg_iov := s\<rparr>) (take (msgused c) (msglist c)) starts @ drop (msgused c) (msglist c)\<rparr>)
               }))
      else Some (0, c))"

text \<open>One more entry of the last message.\<close>

definition put_entry :: "conn \<Rightarrow> byte list \<Rightarrow> conn option" where
  "put_entry c e =
     do {
       m \<leftarrow> arr_get (msglist c) (msgused c - 1);
       v \<leftarrow> arr_set (iov c) (msg_iov m + msg_iovlen m) e;
       ml \<leftarrow> arr_set (msglist c) (msgused c - 1) (m\<lparr>msg_iovlen := msg_iovlen m + 1\<rparr>);
       Some (c\<lparr>iov := v, msglist := ml, msgbytes := msgbytes c + int (length e), iovused := iovused c + 1\<rparr>)
     }"

text \<open>The function adds a header where it is needed; \<open>hdr\<close> is \<^verbatim>\<open>add_msghdr\<close>, which calls it back for UDP.\<close>

partial_function (option) add_iov_with ::
    "(conn \<Rightarrow> (int \<times> conn) option) \<Rightarrow> conn \<Rightarrow> byte list \<Rightarrow> (int \<times> conn) option" where
  "add_iov_with hdr c buf =
     do {
       guard (0 < msgused c);
       m \<leftarrow> arr_get (msglist c) (msgused c - 1);
       let limit_to_mtu = (udp c \<or> msgused c = 1);
       (r, c) \<leftarrow> (if msg_iovlen m = IOV_MAX \<or> (limit_to_mtu \<and> msgbytes c \<ge> UDP_MAX_PAYLOAD_SIZE) then hdr c else Some (0, c));
       (r, c) \<leftarrow> ensure_iov_space c;
       if r \<noteq> 0 then Some (-1, c)
       else do {
         let len = int (length buf);
         let leftover = (if limit_to_mtu \<and> len + msgbytes c > UDP_MAX_PAYLOAD_SIZE then len + msgbytes c - UDP_MAX_PAYLOAD_SIZE else 0);
         let len = len - leftover;
         guard (0 \<le> len);
         c \<leftarrow> put_entry c (take (nat len) buf);
         if leftover > 0 then add_iov_with hdr c (drop (nat len) buf) else Some (0, c)
       }
     }"

text \<open>The header of a UDP message is filled in later; room for it always is in a new message.\<close>

definition add_msghdr :: "conn \<Rightarrow> (int \<times> conn) option" where
  "add_msghdr c =
     (let (ok, c) = (if length (msglist c) = msgused c then
          (let (ok, c) = alloc c in
           (ok, if ok then c\<lparr>msglist := msglist c @ replicate (length (msglist c)) \<lparr>msg_iov = 0, msg_iovlen = 0\<rparr>\<rparr> else c))
        else (True, c)) in
      if \<not> ok then Some (-1, c)
      else do {
        ml \<leftarrow> arr_set (msglist c) (msgused c) \<lparr>msg_iov = iovused c, msg_iovlen = 0\<rparr>;
        let c = c\<lparr>msglist := ml, msgbytes := 0, msgused := msgused c + 1\<rparr>;
        if udp c then add_iov_with (\<lambda>c. None) c (replicate UDP_HEADER_SIZE 0) else Some (0, c)
      })"

definition add_iov :: "conn \<Rightarrow> byte list \<Rightarrow> (int \<times> conn) option" where
  "add_iov c buf = add_iov_with add_msghdr c buf"

text \<open>The entries of a message that are still to be sent.\<close>

definition msg_entries :: "conn \<Rightarrow> msghdr \<Rightarrow> byte list list" where
  "msg_entries c m = take (msg_iovlen m) (drop (msg_iov m) (iov c))"

definition byte_of :: "int \<Rightarrow> byte" where
  "byte_of i = word_of_int i"

definition build_udp_headers :: "conn \<Rightarrow> (int \<times> conn) option" where
  "build_udp_headers c =
     (let (ok, c) = (if msgused c > hdrsize c then
          (let (ok, c) = alloc c in (ok, if ok then c\<lparr>hdrsize := msgused c * 2\<rparr> else c)) else (True, c)) in
      if \<not> ok then Some (-1, c)
      else do {
        guard (msgused c \<le> length (msglist c));
        v \<leftarrow> foldl (\<lambda>v i. do {
               v \<leftarrow> v;
               arr_set v (msg_iov (msglist c ! i))
                 [byte_of (request_id c div 256), byte_of (request_id c mod 256), byte_of (int i div 256), byte_of (int i mod 256),
                  byte_of (int (msgused c) div 256), byte_of (int (msgused c) mod 256), 0, 0]
             }) (Some (iov c)) [0..<msgused c];
        Some (0, c\<lparr>iov := v\<rparr>)
      })"

text \<open>The answers of \<^verbatim>\<open>sendmsg\<close>: the number of bytes it took, or that it would block, or an error.\<close>

datatype send_result = Sent nat | SendAgain | SendError

datatype transmit_result = TRANSMIT_COMPLETE | TRANSMIT_INCOMPLETE | TRANSMIT_SOFT_ERROR | TRANSMIT_HARD_ERROR

text \<open>Removing what was sent from the front of a message: the index and the number of its entries, and \<open>iov\<close>.\<close>

fun advance_iov :: "nat \<Rightarrow> nat \<Rightarrow> nat \<Rightarrow> byte list list \<Rightarrow> (nat \<times> nat \<times> byte list list) option" where
  "advance_iov res i 0 v = (if res > 0 then None else Some (i, 0, v))"
| "advance_iov res i (Suc n) v =
     do {
       e \<leftarrow> arr_get v i;
       if res \<ge> length e then advance_iov (res - length e) (i + 1) n v
       else Some (i, Suc n, if res > 0 then v[i := drop res e] else v)
     }"

text \<open>A message of which nothing is left is done.\<close>

definition next_msg :: "conn \<Rightarrow> conn option" where
  "next_msg c =
     (if msgcurr c < msgused c then
        do { m \<leftarrow> arr_get (msglist c) (msgcurr c); Some (if msg_iovlen m = 0 then c\<lparr>msgcurr := msgcurr c + 1\<rparr> else c) }
      else Some c)"

text \<open>
  \<open>net\<close> is the answer of the socket and \<open>event_ok\<close> that of libevent. A blocking answer to \<^verbatim>\<open>sendmsg\<close>
  leaves everything as it is. The third result is what was sent.
\<close>

definition transmit :: "send_result \<Rightarrow> bool \<Rightarrow> conn \<Rightarrow> (transmit_result \<times> byte list \<times> conn) option" where
  "transmit net event_ok c =
     do {
       c \<leftarrow> next_msg c;
       if msgcurr c < msgused c then
         do {
           m \<leftarrow> arr_get (msglist c) (msgcurr c);
           case net of
             Sent n \<Rightarrow>
               if n > 0 then
                 do {
                   (i, k, v) \<leftarrow> advance_iov n (msg_iov m) (msg_iovlen m) (iov c);
                   let out = take n (concat (msg_entries c m));
                   Some (TRANSMIT_INCOMPLETE, out,
                     c\<lparr>iov := v, msglist := (msglist c)[msgcurr c := \<lparr>msg_iov = i, msg_iovlen = k\<rparr>]\<rparr>)
                 }
               else Some (TRANSMIT_HARD_ERROR, [], conn_set_state (if udp c then CONN_READ else CONN_CLOSING) c)
           | SendAgain \<Rightarrow>
               Some (if event_ok then (TRANSMIT_SOFT_ERROR, [], c) else (TRANSMIT_HARD_ERROR, [], conn_set_state CONN_CLOSING c))
           | SendError \<Rightarrow> Some (TRANSMIT_HARD_ERROR, [], conn_set_state (if udp c then CONN_READ else CONN_CLOSING) c)
         }
       else Some (TRANSMIT_COMPLETE, [], c)
     }"

section \<open>The states that write\<close>

abbreviation ascii :: "string \<Rightarrow> byte list" where "ascii s \<equiv> map of_char s"

definition CRLF :: "byte list" where "CRLF = [13, 10]"

definition out_string :: "byte list \<Rightarrow> conn \<Rightarrow> conn option" where
  "out_string line c =
     (if noreply c then
        Some (conn_set_state (if sbytes c > 0 then CONN_SWALLOW else CONN_NEW_CMD) (c\<lparr>noreply := False\<rparr>))
      else do {
        (r, c) \<leftarrow> add_msghdr (c\<lparr>msgcurr := 0, msgused := 0, iovused := 0\<rparr>);
        let line = (if length line + 2 > wsize c then ascii ''SERVER_ERROR output line too long'' else line);
        guard (length line + 2 \<le> wsize c);
        let c = conn_set_state CONN_WRITE (c\<lparr>wbuf := line @ CRLF\<rparr>);
        Some (c\<lparr>write_and_go := (if sbytes c > 0 then CONN_SWALLOW else CONN_NEW_CMD)\<rparr>)
      })"

text \<open>A buffer that is freed after it was written.\<close>

definition write_and_free_buf :: "byte list option \<Rightarrow> conn \<Rightarrow> conn option" where
  "write_and_free_buf buf c =
     (case buf of
        Some b \<Rightarrow> Some ((conn_set_state CONN_WRITE (c\<lparr>write_and_free := True, wbuf := b\<rparr>))\<lparr>write_and_go := CONN_NEW_CMD\<rparr>)
      | None \<Rightarrow> out_string (ascii ''SERVER_ERROR out of memory writing stats'') c)"

text \<open>
  \<open>release\<close> is the function of the engine, with the state of the engine behind it. The first result
  says whether the event loop goes on with this connection, the second is what was sent.
\<close>

fun release_items :: "('a \<Rightarrow> 'e \<Rightarrow> 'e option) \<Rightarrow> 'a list \<Rightarrow> 'e \<Rightarrow> 'e option" where
  "release_items release [] e = Some e"
| "release_items release (it # its) e = do { e \<leftarrow> release it e; release_items release its e }"

definition release_reply ::
    "(ptr \<Rightarrow> 'e \<Rightarrow> 'e option) \<Rightarrow> (byte list \<Rightarrow> 'e \<Rightarrow> 'e option) \<Rightarrow> conn \<Rightarrow> 'e \<Rightarrow> 'e option" where
  "release_reply release fs c e = do { e \<leftarrow> release_items release (ilist c) e; release_items fs (suffixlist c) e }"

definition conn_cleanup ::
    "(ptr \<Rightarrow> 'e \<Rightarrow> 'e option) \<Rightarrow> (byte list \<Rightarrow> 'e \<Rightarrow> 'e option) \<Rightarrow> conn \<times> 'e \<Rightarrow> (conn \<times> 'e) option" where
  "conn_cleanup release fs s =
     (let (c, e) = s in do {
       e \<leftarrow> (if c_item c \<noteq> NULL then release (c_item c) e else Some e);
       e \<leftarrow> release_reply release fs c e;
       Some (c\<lparr>c_item := NULL, ilist := [], suffixlist := [], write_and_free := False\<rparr>, e)
     })"

text \<open>Without the list of the thread; the object goes back to the cache in its constructed state.\<close>

definition conn_close ::
    "(ptr \<Rightarrow> 'e \<Rightarrow> 'e option) \<Rightarrow> (byte list \<Rightarrow> 'e \<Rightarrow> 'e option) \<Rightarrow> conn \<times> 'e \<Rightarrow> (conn \<times> 'e) option" where
  "conn_close release fs s = do { (c, e) \<leftarrow> conn_cleanup release fs s; Some (snd (conn_reset_buffersize c), e) }"

definition conn_mwrite ::
    "(ptr \<Rightarrow> 'e \<Rightarrow> 'e option) \<Rightarrow> (byte list \<Rightarrow> 'e \<Rightarrow> 'e option) \<Rightarrow> send_result \<Rightarrow> bool \<Rightarrow> conn \<times> 'e \<Rightarrow> (bool \<times> byte list \<times> conn \<times> 'e) option" where
  "conn_mwrite release fs net event_ok s =
     (let (c, e) = s in do {
       (r, c) \<leftarrow> (if udp c \<and> msgcurr c = 0 then build_udp_headers c else Some (0, c));
       if r \<noteq> 0 then Some (True, [], conn_set_state CONN_CLOSING c, e)
       else do {
         (t, out, c) \<leftarrow> transmit net event_ok c;
         case t of
           TRANSMIT_COMPLETE \<Rightarrow>
             if c_state c = CONN_MWRITE then
               do {
                 e \<leftarrow> release_reply release fs c e;
                 let c = c\<lparr>ilist := [], suffixlist := []\<rparr>;
                 Some (True, out, conn_set_state (if protocol c = binary_prot then write_and_go c else CONN_NEW_CMD) c, e)
               }
             else if c_state c = CONN_WRITE then
               Some (True, out, conn_set_state (write_and_go c) (c\<lparr>write_and_free := False\<rparr>), e)
             else Some (True, out, conn_set_state CONN_CLOSING c, e)
         | TRANSMIT_INCOMPLETE \<Rightarrow> Some (True, out, c, e)
         | TRANSMIT_HARD_ERROR \<Rightarrow> Some (True, out, c, e)
         | TRANSMIT_SOFT_ERROR \<Rightarrow> Some (False, out, c, e)
       }
     })"

definition conn_write ::
    "(ptr \<Rightarrow> 'e \<Rightarrow> 'e option) \<Rightarrow> (byte list \<Rightarrow> 'e \<Rightarrow> 'e option) \<Rightarrow> send_result \<Rightarrow> bool \<Rightarrow> conn \<times> 'e \<Rightarrow> (bool \<times> byte list \<times> conn \<times> 'e) option" where
  "conn_write release fs net event_ok s =
     (let (c, e) = s in do {
       (r, c) \<leftarrow> (if iovused c = 0 \<or> (udp c \<and> iovused c = 1) then add_iov c (wbuf c) else Some (0, c));
       if r \<noteq> 0 then Some (True, [], conn_set_state CONN_CLOSING c, e)
       else conn_mwrite release fs net event_ok (c, e)
     })"

text \<open>The event loop while it writes, with the answers of the socket: it stops in another state, or for want of answers.\<close>

fun drive_write ::
    "(ptr \<Rightarrow> 'e \<Rightarrow> 'e option) \<Rightarrow> (byte list \<Rightarrow> 'e \<Rightarrow> 'e option) \<Rightarrow> (send_result \<times> bool) list \<Rightarrow> conn \<times> 'e \<Rightarrow> (byte list \<times> conn \<times> 'e) option" where
  "drive_write release fs [] s = Some ([], s)"
| "drive_write release fs ((net, ev) # nets) s =
     (if c_state (fst s) = CONN_WRITE \<or> c_state (fst s) = CONN_MWRITE then
        do {
          (cont, out, s) \<leftarrow> (if c_state (fst s) = CONN_WRITE then conn_write release fs net ev s else conn_mwrite release fs net ev s);
          (out', s) \<leftarrow> drive_write release fs nets s;
          Some (out @ out', s)
        }
      else Some ([], s))"

end
