(* ===== verification/Conn_Output.thy ===== *)
theory Conn_Output
  imports Conn
begin

unbundle bit_operations_syntax

text \<open>
  What the arrays of a connection stand for: the messages of a reply as lists of entries
  (out_rep), their sizes (fits), and the bytes for the client (payload). Adding data keeps the
  representation and appends exactly the data. Sending: pending is what is still to be sent; every
  transmit moves a prefix of it to the socket, and the state functions of writing go on until
  nothing is left.
\<close>

section \<open>The messages as lists of entries\<close>

definition out_rep :: "conn \<Rightarrow> byte list list list \<Rightarrow> bool" where
  "out_rep c gs \<longleftrightarrow> msgused c = length gs \<and> length gs \<le> length (msglist c) \<and> msglist c \<noteq> [] \<and> iov c \<noteq> []
     \<and> iovused c = length (concat gs) \<and> iovused c \<le> length (iov c) \<and> take (iovused c) (iov c) = concat gs
     \<and> (\<forall>i < length gs. msglist c ! i = \<lparr>msg_iov = length (concat (take i gs)), msg_iovlen = length (gs ! i)\<rparr>)"

definition bytes_in :: "byte list list \<Rightarrow> int" where
  "bytes_in g = int (length (concat g))"

definition fits :: "conn \<Rightarrow> byte list list list \<Rightarrow> bool" where
  "fits c gs \<longleftrightarrow> (\<forall>g \<in> set gs. length g \<le> IOV_MAX \<and> (udp c \<longrightarrow> g \<noteq> [] \<and> length (hd g) = UDP_HEADER_SIZE))
     \<and> (\<forall>i < length gs. udp c \<or> i = 0 \<longrightarrow> bytes_in (gs ! i) \<le> UDP_MAX_PAYLOAD_SIZE)
     \<and> (gs \<noteq> [] \<longrightarrow> msgbytes c = bytes_in (last gs))"

definition answers_ok :: "conn \<Rightarrow> bool" where "answers_ok c \<longleftrightarrow> False \<notin> set (answers c)"

text \<open>Everything but the output arrays.\<close>

definition no_output :: "conn \<Rightarrow> conn" where
  "no_output c = c\<lparr>iov := [], msglist := [], answers := [], msgused := 0, msgbytes := 0, iovused := 0\<rparr>"

definition same_conn :: "conn \<Rightarrow> conn \<Rightarrow> bool" where
  "same_conn c c' \<longleftrightarrow> no_output c' = no_output c \<and> answers_ok c'"

lemma same_conn_trans: "same_conn c c' \<Longrightarrow> same_conn c' c'' \<Longrightarrow> same_conn c c''"
  by (simp add: same_conn_def)

lemma same_conn_simps:
  assumes "same_conn c c'"
  shows "udp c' = udp c" "c_state c' = c_state c" "msgcurr c' = msgcurr c" "wbuf c' = wbuf c" "answers_ok c'"
proof -
  have e: "no_output c' = no_output c" and "answers_ok c'" using assms by (simp_all add: same_conn_def)
  then show "answers_ok c'" by simp
  show "udp c' = udp c" using arg_cong [OF e, of udp] by (simp add: no_output_def)
  show "c_state c' = c_state c" using arg_cong [OF e, of c_state] by (simp add: no_output_def)
  show "msgcurr c' = msgcurr c" using arg_cong [OF e, of msgcurr] by (simp add: no_output_def)
  show "wbuf c' = wbuf c" using arg_cong [OF e, of wbuf] by (simp add: no_output_def)
qed

lemma alloc_ok:
  assumes "answers_ok c"
  obtains me where "alloc c = (True, c\<lparr>answers := me\<rparr>)" "False \<notin> set me"
proof (cases "answers c")
  case Nil
  then show ?thesis using that [of "[]"] by (simp add: alloc_def)
next
  case (Cons ok oks)
  then show ?thesis using that [of oks] assms by (simp add: alloc_def answers_ok_def)
qed

lemma take_sum_lengths:
  assumes "out_rep c gs" "i \<le> length gs"
  shows "sum_list (map msg_iovlen (take i (msglist c))) = length (concat (take i gs))"
proof -
  have "map msg_iovlen (take i (msglist c)) = map length (take i gs)"
    using assms by (intro nth_equalityI) (auto simp: out_rep_def)
  then show ?thesis by (simp add: length_concat)
qed

lemma ensure_iov_space_rep:
  assumes r: "out_rep c gs" and m: "answers_ok c"
  shows "\<exists>c'. ensure_iov_space c = Some (0, c') \<and> out_rep c' gs \<and> iovused c' < length (iov c') \<and> same_conn c c'
    \<and> msgused c' = msgused c \<and> msgbytes c' = msgbytes c"
proof (cases "iovused c \<ge> length (iov c)")
  case True
  obtain me where a: "alloc c = (True, c\<lparr>answers := me\<rparr>)" "False \<notin> set me" using alloc_ok [OF m] .
  let ?v = "iov c @ replicate (length (iov c)) []"
  let ?starts = "map (\<lambda>i. sum_list (map msg_iovlen (take i (msglist c)))) [0..<msgused c]"
  have ml: "map2 (\<lambda>m s. m\<lparr>msg_iov := s\<rparr>) (take (msgused c) (msglist c)) ?starts @ drop (msgused c) (msglist c) = msglist c"
  proof (rule trans [OF _ append_take_drop_id [of "msgused c"]], rule arg_cong [where f = "\<lambda>x. x @ _"], rule nth_equalityI)
    fix i assume "i < length (map2 (\<lambda>m s. m\<lparr>msg_iov := s\<rparr>) (take (msgused c) (msglist c)) ?starts)"
    then have i: "i < length gs" using r by (simp add: out_rep_def)
    then show "map2 (\<lambda>m s. m\<lparr>msg_iov := s\<rparr>) (take (msgused c) (msglist c)) ?starts ! i = take (msgused c) (msglist c) ! i"
      using r take_sum_lengths [OF r, of i] by (simp add: out_rep_def)
  qed (use r in \<open>simp add: out_rep_def\<close>)
  have "ensure_iov_space c = Some (0, c\<lparr>answers := me, iov := ?v, msglist := msglist c\<rparr>)"
    unfolding ensure_iov_space_def using True a(1) r ml by (simp add: out_rep_def)
  moreover have "out_rep (c\<lparr>answers := me, iov := ?v, msglist := msglist c\<rparr>) gs"
  proof -
    have "take (iovused c) (iov c) = concat gs" "iovused c \<le> length (iov c)" using r by (auto simp: out_rep_def)
    then have "take (iovused c) ?v = concat gs" by simp
    then show ?thesis using r True unfolding out_rep_def by simp
  qed
  moreover have "iovused c < length ?v" using r True by (cases "iov c") (auto simp: out_rep_def)
  moreover have "same_conn c (c\<lparr>answers := me, iov := ?v, msglist := msglist c\<rparr>)"
    using a(2) by (simp add: same_conn_def answers_ok_def no_output_def)
  ultimately show ?thesis by auto
next
  case False
  have "same_conn c c" using m by (simp add: same_conn_def)
  then show ?thesis using False r by (simp add: ensure_iov_space_def)
qed

text \<open>Writing one entry at the end of the last message.\<close>

lemma put_entry_rep:
  assumes r: "out_rep c (gs @ [g])" and space: "iovused c < length (iov c)" and m: "answers_ok c"
  shows "\<exists>c'. put_entry c e = Some c' \<and> out_rep c' (gs @ [g @ [e]]) \<and> same_conn c c' \<and> msgused c' = msgused c
    \<and> msgbytes c' = msgbytes c + int (length e)"
proof -
  let ?n = "length gs" and ?k = "iovused c"
  have n: "msgused c = Suc ?n" "?n < length (msglist c)" using r by (simp_all add: out_rep_def)
  have hd: "msglist c ! ?n = \<lparr>msg_iov = length (concat gs), msg_iovlen = length g\<rparr>" using r by (auto simp: out_rep_def)
  have k: "?k = length (concat gs) + length g" using r by (simp add: out_rep_def)
  let ?c = "c\<lparr>iov := (iov c)[?k := e], msglist := (msglist c)[?n := \<lparr>msg_iov = length (concat gs), msg_iovlen = length g + 1\<rparr>],
      msgbytes := msgbytes c + int (length e), iovused := ?k + 1\<rparr>"
  have "put_entry c e = Some ?c" using n hd k space by (simp add: put_entry_def)
  moreover have "out_rep ?c (gs @ [g @ [e]])"
  proof -
    have "take (?k + 1) ((iov c)[?k := e]) = take ?k (iov c) @ [e]"
      using space by (simp add: take_Suc_conv_app_nth)
    moreover have "take ?k (iov c) = concat (gs @ [g])" using r unfolding out_rep_def by blast
    ultimately have t: "take (?k + 1) ((iov c)[?k := e]) = concat (gs @ [g @ [e]])" by simp
    have "(msglist c)[?n := \<lparr>msg_iov = length (concat gs), msg_iovlen = length g + 1\<rparr>] ! i
        = \<lparr>msg_iov = length (concat (take i (gs @ [g @ [e]]))), msg_iovlen = length ((gs @ [g @ [e]]) ! i)\<rparr>" if "i < Suc ?n" for i
      using r that n by (cases "i = ?n") (auto simp: out_rep_def nth_append)
    then show ?thesis using r space t k n by (auto simp: out_rep_def)
  qed
  moreover have "same_conn c ?c" using m by (simp add: same_conn_def answers_ok_def no_output_def)
  ultimately show ?thesis using n by auto
qed

text \<open>The bytes for the client, in the order in which they were added.\<close>

definition payload :: "bool \<Rightarrow> byte list list list \<Rightarrow> byte list" where
  "payload u gs = concat (map (\<lambda>g. concat (if u then tl g else g)) gs)"

lemma payload_snoc: "payload u (gs @ [g]) = payload u gs @ concat (if u then tl g else g)"
  by (simp add: payload_def)

definition new_msg :: "conn \<Rightarrow> byte list list" where
  "new_msg c = (if udp c then [replicate UDP_HEADER_SIZE 0] else [])"

lemma out_rep_last: "out_rep c (gs @ [g]) \<Longrightarrow> 0 < msgused c \<and> arr_get (msglist c) (msgused c - 1)
    = Some \<lparr>msg_iov = length (concat gs), msg_iovlen = length g\<rparr>"
  by (auto simp: out_rep_def arr_get_def)

text \<open>One round of \<^verbatim>\<open>add_iov\<close>, after the header.\<close>

lemma add_entry_ok:
  assumes r: "out_rep c (gs @ [g])" and f: "fits c (gs @ [g])" and a: "answers_ok c"
    and g: "length g < IOV_MAX" "udp c \<Longrightarrow> g \<noteq> []" "udp c \<or> gs = [] \<Longrightarrow> bytes_in g + int (length e) \<le> UDP_MAX_PAYLOAD_SIZE"
  shows "\<exists>c1 c'. ensure_iov_space c = Some (0, c1) \<and> msgbytes c1 = msgbytes c \<and> put_entry c1 e = Some c'
    \<and> out_rep c' (gs @ [g @ [e]]) \<and> fits c' (gs @ [g @ [e]]) \<and> same_conn c c'"
proof -
  obtain c1 where c1: "ensure_iov_space c = Some (0, c1)" "out_rep c1 (gs @ [g])" "iovused c1 < length (iov c1)" "same_conn c c1"
    "msgbytes c1 = msgbytes c" using ensure_iov_space_rep [OF r a] by blast
  obtain c' where c': "put_entry c1 e = Some c'" "out_rep c' (gs @ [g @ [e]])" "same_conn c1 c'" "msgbytes c' = msgbytes c1 + int (length e)"
    using put_entry_rep [OF c1(2,3)] same_conn_simps(5) [OF c1(4)] by blast
  have s: "same_conn c c'" using same_conn_trans [OF c1(4) c'(3)] .
  have "fits c' (gs @ [g @ [e]])"
    using f g c'(4) c1(5) same_conn_simps(1) [OF s]
    by (auto simp: fits_def bytes_in_def nth_append less_Suc_eq)
  then show ?thesis using c1 c' s by blast
qed

lemma add_msghdr_ok:
  assumes r: "out_rep c gs" and f: "fits c gs" and a: "answers_ok c"
  shows "\<exists>c'. add_msghdr c = Some (0, c') \<and> out_rep c' (gs @ [new_msg c]) \<and> fits c' (gs @ [new_msg c]) \<and> same_conn c c'"
proof -
  define c1 where "c1 = snd (if length (msglist c) = msgused c then
          (let (ok, c) = alloc c in
           (ok, if ok then c\<lparr>msglist := msglist c @ replicate (length (msglist c)) \<lparr>msg_iov = 0, msg_iovlen = 0\<rparr>\<rparr> else c))
        else (True, c))"
  have c1: "(if length (msglist c) = msgused c then
          (let (ok, c) = alloc c in
           (ok, if ok then c\<lparr>msglist := msglist c @ replicate (length (msglist c)) \<lparr>msg_iov = 0, msg_iovlen = 0\<rparr>\<rparr> else c))
        else (True, c)) = (True, c1)" "out_rep c1 gs" "msgused c1 < length (msglist c1)" "same_conn c c1" "msgused c1 = length gs"
    "iovused c1 = length (concat gs)"
  proof -
    obtain me where al: "alloc c = (True, c\<lparr>answers := me\<rparr>)" "False \<notin> set me" using alloc_ok [OF a] .
    show "(if length (msglist c) = msgused c then
          (let (ok, c) = alloc c in
           (ok, if ok then c\<lparr>msglist := msglist c @ replicate (length (msglist c)) \<lparr>msg_iov = 0, msg_iovlen = 0\<rparr>\<rparr> else c))
        else (True, c)) = (True, c1)"
      using al by (simp add: c1_def)
    show "out_rep c1 gs" using r al by (auto simp: c1_def out_rep_def nth_append)
    show "msgused c1 < length (msglist c1)" using r al by (cases "msglist c") (auto simp: c1_def out_rep_def)
    show "same_conn c c1" using a al by (simp add: c1_def same_conn_def answers_ok_def no_output_def)
    show "msgused c1 = length gs" "iovused c1 = length (concat gs)" using r al by (simp_all add: c1_def out_rep_def)
  qed
  define c2 where "c2 = c1\<lparr>msglist := (msglist c1)[msgused c1 := \<lparr>msg_iov = iovused c1, msg_iovlen = 0\<rparr>], msgbytes := 0, msgused := msgused c1 + 1\<rparr>"
  have r2: "out_rep c2 (gs @ [[]])"
    using c1(2,3,5,6) by (auto simp: c2_def out_rep_def nth_append less_Suc_eq)
  have s2: "same_conn c c2"
    using c1(4) by (simp add: c2_def same_conn_def answers_ok_def no_output_def)
  note u = same_conn_simps(1) [OF s2]
  have run: "add_msghdr c = (if udp c2 then add_iov_with (\<lambda>c. None) c2 (replicate UDP_HEADER_SIZE 0) else Some (0, c2))"
    using c1(1,3) by (simp add: add_msghdr_def c2_def)
  show ?thesis
  proof (cases "udp c")
    case False
    then have "fits c2 (gs @ [[]])"
      using f u by (auto simp: fits_def c2_def bytes_in_def nth_append IOV_MAX_def UDP_MAX_PAYLOAD_SIZE_def less_Suc_eq)
    then show ?thesis using run r2 s2 u False by (simp add: new_msg_def)
  next
    case True
    let ?e = "replicate UDP_HEADER_SIZE (0 :: byte)"
    obtain c3 where c3: "ensure_iov_space c2 = Some (0, c3)" "out_rep c3 (gs @ [[]])" "iovused c3 < length (iov c3)" "same_conn c2 c3"
      "msgbytes c3 = msgbytes c2" using ensure_iov_space_rep [OF r2 same_conn_simps(5) [OF s2]] by blast
    obtain c4 where c4: "put_entry c3 ?e = Some c4" "out_rep c4 (gs @ [[?e]])" "same_conn c3 c4" "msgbytes c4 = msgbytes c3 + int (length ?e)"
      using put_entry_rep [OF c3(2,3)] same_conn_simps(5) [OF c3(4)] by fastforce
    have mb: "msgbytes c2 = 0" by (simp add: c2_def)
    have "add_iov_with (\<lambda>c. None) c2 ?e = Some (0, c4)"
      using out_rep_last [OF r2] c3(1,5) c4(1) mb
      by (subst add_iov_with.simps) (simp add: IOV_MAX_def UDP_MAX_PAYLOAD_SIZE_def UDP_HEADER_SIZE_def)
    moreover have s: "same_conn c c4" using same_conn_trans [OF s2 same_conn_trans [OF c3(4) c4(3)]] .
    moreover have "fits c4 (gs @ [[?e]])"
      using f True c4(4) c3(5) mb same_conn_simps(1) [OF s]
      by (auto simp: fits_def bytes_in_def nth_append IOV_MAX_def UDP_MAX_PAYLOAD_SIZE_def UDP_HEADER_SIZE_def less_Suc_eq)
    ultimately show ?thesis using run True u c4(2) by (simp add: new_msg_def)
  qed
qed

lemma add_iov_ok:
  assumes "out_rep c gs" "fits c gs" "answers_ok c" "gs \<noteq> []"
  shows "\<exists>c' gs'. add_iov c buf = Some (0, c') \<and> out_rep c' gs' \<and> fits c' gs' \<and> gs' \<noteq> [] \<and> same_conn c c'
    \<and> payload (udp c) gs' = payload (udp c) gs @ buf"
  using assms
proof (induction "length buf" arbitrary: c gs buf rule: less_induct)
  case less
  obtain gs0 g0 where gs: "gs = gs0 @ [g0]" using less.prems(4) by (cases gs rule: rev_cases) auto
  let ?limit = "udp c \<or> msgused c = 1"
  have lim: "?limit \<longleftrightarrow> udp c \<or> gs0 = []" using less.prems(1) gs by (auto simp: out_rep_def)
  let ?new = "length g0 = IOV_MAX \<or> (?limit \<and> msgbytes c \<ge> UDP_MAX_PAYLOAD_SIZE)"
  note last = out_rep_last [OF less.prems(1) [unfolded gs]]
  have f0: "length g0 \<le> IOV_MAX" "udp c \<Longrightarrow> g0 \<noteq> []" "msgbytes c = bytes_in g0" using less.prems(2) gs by (auto simp: fits_def)
  obtain c1 gs1 g1 where h: "(if ?new then add_msghdr c else Some (0, c)) = Some (0, c1)" "out_rep c1 (gs1 @ [g1])" "fits c1 (gs1 @ [g1])"
    "same_conn c c1" "payload (udp c) (gs1 @ [g1]) = payload (udp c) gs" "length g1 < IOV_MAX" "udp c \<Longrightarrow> g1 \<noteq> []"
    "?limit \<Longrightarrow> msgbytes c1 < UDP_MAX_PAYLOAD_SIZE" "udp c \<or> gs1 = [] \<Longrightarrow> ?limit" "msgbytes c1 = bytes_in g1"
  proof (cases ?new)
    case True
    obtain c1 where c1: "add_msghdr c = Some (0, c1)" "out_rep c1 (gs @ [new_msg c])" "fits c1 (gs @ [new_msg c])" "same_conn c c1"
      using add_msghdr_ok [OF less.prems(1-3)] by blast
    show ?thesis
    proof (rule that [of c1 gs "new_msg c"])
      show "msgbytes c1 = bytes_in (new_msg c)" using c1(3) by (simp add: fits_def)
      then show "msgbytes c1 < UDP_MAX_PAYLOAD_SIZE" by (simp add: new_msg_def bytes_in_def UDP_MAX_PAYLOAD_SIZE_def UDP_HEADER_SIZE_def)
    qed (use True c1 less.prems(4) in \<open>auto simp: payload_snoc new_msg_def IOV_MAX_def\<close>)
  next
    case False
    have "same_conn c c" using less.prems(3) by (simp add: same_conn_def)
    then show ?thesis using that [of c gs0 g0] less.prems f0 gs lim False by auto
  qed
  define n where "n = (if ?limit \<and> int (length buf) + msgbytes c1 > UDP_MAX_PAYLOAD_SIZE
      then int (length buf) + msgbytes c1 - UDP_MAX_PAYLOAD_SIZE else 0)"
  define k where "k = nat (int (length buf) - n)"
  have mb: "0 \<le> msgbytes c1" using h(10) by (simp add: bytes_in_def)
  have n: "0 \<le> n" "n < int (length buf) \<or> n = 0" "?limit \<Longrightarrow> msgbytes c1 + int k \<le> UDP_MAX_PAYLOAD_SIZE" "k \<le> length buf"
    using h(8) mb by (auto simp: n_def k_def)
  have len: "int (length (take k buf)) = int k" using n by simp
  obtain c2 c3 where c3: "ensure_iov_space c1 = Some (0, c2)" "msgbytes c2 = msgbytes c1" "put_entry c2 (take k buf) = Some c3"
    "out_rep c3 (gs1 @ [g1 @ [take k buf]])" "fits c3 (gs1 @ [g1 @ [take k buf]])" "same_conn c1 c3"
    using add_entry_ok [OF h(2,3) same_conn_simps(5) [OF h(4)] h(6), of "take k buf"] h(7,9,10) n(3,4) same_conn_simps(1) [OF h(4)] len
    by (smt (verit, ccfv_threshold))
  have run: "add_iov c buf = (if n > 0 then add_iov c3 (drop k buf) else Some (0, c3))"
  proof (cases "?limit \<and> int (length buf) + msgbytes c1 > UDP_MAX_PAYLOAD_SIZE")
    case True
    then have e: "n = int (length buf) + msgbytes c1 - UDP_MAX_PAYLOAD_SIZE" "k = nat (UDP_MAX_PAYLOAD_SIZE - msgbytes c1)"
      "msgbytes c1 \<le> UDP_MAX_PAYLOAD_SIZE" "0 < n" using h(8) by (auto simp: n_def k_def)
    show ?thesis unfolding add_iov_def
      by (subst add_iov_with.simps) (use last h(1) c3(1-3) True e(1,3,4) in \<open>simp add: e(2) [symmetric]\<close>)
  next
    case False
    then have e: "n = 0" "k = length buf" by (auto simp: n_def k_def)
    show ?thesis unfolding add_iov_def
      by (subst add_iov_with.simps) (use last h(1) c3(1-3) False e in auto)
  qed
  have s: "same_conn c c3" using same_conn_trans [OF h(4) c3(6)] .
  have pl: "payload (udp c) (gs1 @ [g1 @ [take k buf]]) = payload (udp c) gs @ take k buf"
    using h(5,7) by (cases "udp c") (simp_all add: payload_snoc)
  show ?case
  proof (cases "n > 0")
    case False
    then have "k = length buf" using n(1) by (simp add: k_def)
    then show ?thesis using run False c3(4,5) s pl by auto
  next
    case True
    then have "0 < k" using n(2) by (simp add: k_def)
    then have "length (drop k buf) < length buf" using n(4) by simp
    from less.hyps [OF this c3(4,5) same_conn_simps(5) [OF s]] obtain c' gs' where
      "add_iov c3 (drop k buf) = Some (0, c')" "out_rep c' gs'" "fits c' gs'" "gs' \<noteq> []" "same_conn c3 c'"
      "payload (udp c3) gs' = payload (udp c3) (gs1 @ [g1 @ [take k buf]]) @ drop k buf" by auto
    then show ?thesis
      using run True pl same_conn_simps(1) [OF s] same_conn_trans [OF s] by auto
  qed
qed

section \<open>Sending\<close>

definition pending_msg :: "conn \<Rightarrow> nat \<Rightarrow> byte list" where
  "pending_msg c i = concat (msg_entries c (msglist c ! i))"

definition pending :: "conn \<Rightarrow> byte list" where
  "pending c = concat (map (pending_msg c) [msgcurr c..<msgused c])"

definition msg_end :: "conn \<Rightarrow> nat \<Rightarrow> nat" where
  "msg_end c i = msg_iov (msglist c ! i) + msg_iovlen (msglist c ! i)"

definition tx_ok :: "conn \<Rightarrow> bool" where
  "tx_ok c \<longleftrightarrow> msgused c \<le> length (msglist c) \<and> (\<forall>i < msgused c. msg_end c i \<le> length (iov c))
     \<and> (\<forall>i j. i < j \<and> j < msgused c \<longrightarrow> msg_end c i \<le> msg_iov (msglist c ! j))"

lemma advance_iov_spec:
  assumes "res \<le> length (concat (take n (drop i v)))" "i + n \<le> length v"
  shows "\<exists>i' n' v'. advance_iov res i n v = Some (i', n', v') \<and> i' + n' = i + n \<and> i \<le> i' \<and> length v' = length v
    \<and> concat (take n' (drop i' v')) = drop res (concat (take n (drop i v))) \<and> (\<forall>j. j < i \<or> i + n \<le> j \<longrightarrow> v' ! j = v ! j)"
  using assms
proof (induction res i n v rule: advance_iov.induct)
  case (2 res i n v)
  have i: "i < length v" using "2.prems"(2) by simp
  then have d: "drop i v = v ! i # drop (Suc i) v" by (simp add: Cons_nth_drop_Suc)
  show ?case
  proof (cases "res \<ge> length (v ! i)")
    case True
    have "\<exists>i' n' v'. advance_iov (res - length (v ! i)) (i + 1) n v = Some (i', n', v') \<and> i' + n' = i + 1 + n \<and> i + 1 \<le> i'
      \<and> length v' = length v \<and> concat (take n' (drop i' v')) = drop (res - length (v ! i)) (concat (take n (drop (i + 1) v)))
      \<and> (\<forall>j. j < i + 1 \<or> i + 1 + n \<le> j \<longrightarrow> v' ! j = v ! j)"
      by (rule "2.IH"(1)) (use "2.prems" i True d in auto)
    then obtain i' n' v' where r: "advance_iov (res - length (v ! i)) (i + 1) n v = Some (i', n', v')" "i' + n' = i + 1 + n" "i + 1 \<le> i'"
      "length v' = length v" "concat (take n' (drop i' v')) = drop (res - length (v ! i)) (concat (take n (drop (i + 1) v)))"
      "\<forall>j. j < i + 1 \<or> i + 1 + n \<le> j \<longrightarrow> v' ! j = v ! j" by blast
    then show ?thesis using True i d by auto
  next
    case False
    have "drop i (v[i := drop res (v ! i)]) = drop res (v ! i) # drop (Suc i) v"
      using i by (simp add: drop_update_swap d)
    then show ?thesis using False i d by auto
  qed
qed auto

text \<open>The kernel takes at most the message.\<close>

definition send_valid :: "conn \<Rightarrow> send_result \<Rightarrow> bool" where
  "send_valid c r \<longleftrightarrow> (case r of Sent n \<Rightarrow>
     (let i = (if msgcurr c < msgused c \<and> msg_iovlen (msglist c ! msgcurr c) = 0 then msgcurr c + 1 else msgcurr c) in
      i < msgused c \<longrightarrow> n \<le> length (pending_msg c i)) | _ \<Rightarrow> True)"

lemma pending_skip:
  assumes "msgcurr c < msgused c" "msg_iovlen (msglist c ! msgcurr c) = 0"
  shows "pending (c\<lparr>msgcurr := msgcurr c + 1\<rparr>) = pending c"
  using assms by (simp add: pending_def pending_msg_def [abs_def] msg_entries_def upt_conv_Cons)

lemma send_some:
  assumes ok: "tx_ok c" and cur: "msgcurr c < msgused c" and n: "n \<le> length (pending_msg c (msgcurr c))"
    and a: "advance_iov n (msg_iov (msglist c ! msgcurr c)) (msg_iovlen (msglist c ! msgcurr c)) (iov c) = Some (i, k, v)"
  shows "tx_ok (c\<lparr>iov := v, msglist := (msglist c)[msgcurr c := \<lparr>msg_iov = i, msg_iovlen = k\<rparr>]\<rparr>)"
    "pending c = take n (pending_msg c (msgcurr c))
       @ pending (c\<lparr>iov := v, msglist := (msglist c)[msgcurr c := \<lparr>msg_iov = i, msg_iovlen = k\<rparr>]\<rparr>)"
proof -
  let ?m = "msgcurr c" and ?c = "c\<lparr>iov := v, msglist := (msglist c)[msgcurr c := \<lparr>msg_iov = i, msg_iovlen = k\<rparr>]\<rparr>"
  have len: "?m < length (msglist c)" "msg_end c ?m \<le> length (iov c)" using ok cur by (auto simp: tx_ok_def)
  have s: "i + k = msg_end c ?m" "msg_iov (msglist c ! ?m) \<le> i" "length v = length (iov c)"
    "concat (take k (drop i v)) = drop n (pending_msg c ?m)"
    "\<forall>j. j < msg_iov (msglist c ! ?m) \<or> msg_end c ?m \<le> j \<longrightarrow> v ! j = iov c ! j"
    using advance_iov_spec [of n "msg_iovlen (msglist c ! ?m)" "msg_iov (msglist c ! ?m)" "iov c"] n len(2) a
    by (auto simp: pending_msg_def msg_entries_def msg_end_def)
  have e: "msg_end ?c j = msg_end c j" for j
    using s(1) len(1) by (cases "j = ?m") (auto simp: msg_end_def)
  show tx: "tx_ok ?c"
    unfolding tx_ok_def e
  proof (intro conjI allI impI)
    fix j l assume "j < l \<and> l < msgused ?c"
    then show "msg_end c j \<le> msg_iov (msglist ?c ! l)"
      using ok s(2) len(1) by (cases "l = ?m") (fastforce simp: tx_ok_def)+
  qed (use ok s(3) in \<open>auto simp: tx_ok_def\<close>)
  have other: "pending_msg ?c j = pending_msg c j" if j: "?m < j" "j < msgused c" for j
  proof -
    let ?h = "msglist c ! j"
    have b: "msg_end c ?m \<le> msg_iov ?h" "msg_iov ?h + msg_iovlen ?h \<le> length (iov c)"
      using ok j by (auto simp: tx_ok_def msg_end_def)
    have "take (msg_iovlen ?h) (drop (msg_iov ?h) v) = take (msg_iovlen ?h) (drop (msg_iov ?h) (iov c))"
      by (rule nth_equalityI) (use s(3,5) b in auto)
    then show ?thesis using j len(1) by (simp add: pending_msg_def msg_entries_def)
  qed
  have here: "pending_msg ?c ?m = drop n (pending_msg c ?m)" using s(4) len(1) by (simp add: pending_msg_def msg_entries_def)
  have up: "[?m..<msgused c] = ?m # [Suc ?m..<msgused c]" using cur by (simp add: upt_conv_Cons)
  have rest: "map (pending_msg ?c) [Suc ?m..<msgused c] = map (pending_msg c) [Suc ?m..<msgused c]"
    using other by (intro map_cong) auto
  have "pending ?c = drop n (pending_msg c ?m) @ concat (map (pending_msg c) [Suc ?m..<msgused c])"
    using here up by (simp add: pending_def rest)
  then show "pending c = take n (pending_msg c ?m) @ pending ?c" using up by (simp add: pending_def)
qed

lemma transmit_spec:
  assumes ok: "tx_ok c" and v: "send_valid c r"
  shows "\<exists>t out c'. transmit r ev c = Some (t, out, c') \<and> tx_ok c' \<and> pending c = out @ pending c'
    \<and> (t = TRANSMIT_COMPLETE \<longrightarrow> pending c' = [] \<and> out = []) \<and> (t = TRANSMIT_HARD_ERROR \<longrightarrow> out = [])
    \<and> c_state c' = (if t = TRANSMIT_HARD_ERROR then if udp c \<and> r \<noteq> SendAgain then CONN_READ else CONN_CLOSING else c_state c)
    \<and> ((\<exists>n. r = Sent (Suc n)) \<longrightarrow> t \<noteq> TRANSMIT_HARD_ERROR \<and> (t \<noteq> TRANSMIT_COMPLETE \<longrightarrow> out \<noteq> []))
    \<and> udp c' = udp c \<and> iovused c' = iovused c \<and> ilist c' = ilist c \<and> suffixlist c' = suffixlist c \<and> write_and_go c' = write_and_go c \<and> protocol c' = protocol c"
proof -
  define c1 where "c1 = (if msgcurr c < msgused c \<and> msg_iovlen (msglist c ! msgcurr c) = 0 then c\<lparr>msgcurr := msgcurr c + 1\<rparr> else c)"
  have len: "msgused c \<le> length (msglist c)" using ok by (simp add: tx_ok_def)
  have c1: "tx_ok c1" "pending c1 = pending c" "c_state c1 = c_state c" "udp c1 = udp c" "msglist c1 = msglist c" "msgused c1 = msgused c"
    "iovused c1 = iovused c" "ilist c1 = ilist c" "suffixlist c1 = suffixlist c" "write_and_go c1 = write_and_go c" "protocol c1 = protocol c"
    using ok pending_skip [of c] by (simp_all add: c1_def tx_ok_def msg_end_def)
  have v1: "n \<le> length (pending_msg c1 (msgcurr c1))" if "r = Sent n" "msgcurr c1 < msgused c1" for n
    using v that by (auto simp: send_valid_def Let_def c1_def pending_msg_def msg_entries_def split: if_splits)
  have nx: "next_msg c = Some c1" using len by (auto simp: next_msg_def c1_def)
  have st: "tx_ok (conn_set_state s c1)" "pending (conn_set_state s c1) = pending c1" "udp (conn_set_state s c1) = udp c1"
    "c_state (conn_set_state s c1) = s" "iovused (conn_set_state s c1) = iovused c1" "ilist (conn_set_state s c1) = ilist c1" "suffixlist (conn_set_state s c1) = suffixlist c1"
    "write_and_go (conn_set_state s c1) = write_and_go c1" "protocol (conn_set_state s c1) = protocol c1" for s
    using c1(1) by (simp_all add: conn_set_state_def tx_ok_def msg_end_def pending_def pending_msg_def [abs_def] msg_entries_def)
  show ?thesis
  proof (cases "msgcurr c1 < msgused c1")
    case False
    then show ?thesis using c1 by (simp add: pending_def transmit_def nx)
  next
    case cur: True
    show ?thesis
    proof (cases "\<exists>n. r = Sent n \<and> 0 < n")
      case True
      then obtain n where n: "r = Sent n" "0 < n" by blast
      let ?h = "msglist c1 ! msgcurr c1"
      have b: "msg_iov ?h + msg_iovlen ?h \<le> length (iov c1)" using c1(1) cur by (auto simp: tx_ok_def msg_end_def)
      obtain i k w where a: "advance_iov n (msg_iov ?h) (msg_iovlen ?h) (iov c1) = Some (i, k, w)"
        using advance_iov_spec [OF _ b] v1 [OF n(1) cur] by (force simp: pending_msg_def msg_entries_def)
      note s = send_some [OF c1(1) cur v1 [OF n(1) cur] a]
      have "take n (pending_msg c1 (msgcurr c1)) \<noteq> []" using v1 [OF n(1) cur] n(2) by auto
      then show ?thesis using cur n len c1 a s by (simp add: pending_msg_def transmit_def nx)
    next
      case False
      then show ?thesis using cur len c1 st by (cases r) (auto simp: transmit_def nx)
    qed
  qed
qed

text \<open>Every answer of the socket is a possible one.\<close>

fun sends_valid :: "(ptr \<Rightarrow> 'e \<Rightarrow> 'e option) \<Rightarrow> (byte list \<Rightarrow> 'e \<Rightarrow> 'e option) \<Rightarrow> (send_result \<times> bool) list \<Rightarrow> conn \<times> 'e \<Rightarrow> bool" where
  "sends_valid release fs [] s = True"
| "sends_valid release fs ((net, ev) # nets) s =
     (c_state (fst s) = CONN_WRITE \<or> c_state (fst s) = CONN_MWRITE \<longrightarrow>
        (let c = (if c_state (fst s) = CONN_WRITE \<and> iovused (fst s) = 0
                  then case add_iov (fst s) (wbuf (fst s)) of Some (r, c) \<Rightarrow> c | None \<Rightarrow> fst s else fst s)
         in send_valid c net)
        \<and> (case (if c_state (fst s) = CONN_WRITE then conn_write release fs net ev s else conn_mwrite release fs net ev s) of
             None \<Rightarrow> True | Some (cont, out, s') \<Rightarrow> sends_valid release fs nets s'))"

lemma out_rep_pending_msg:
  assumes r: "out_rep c gs" and i: "i < length gs"
  shows "pending_msg c i = concat (gs ! i)"
proof -
  have "concat gs = concat (take i gs) @ gs ! i @ concat (drop (Suc i) gs)" using i by (rule concat_nth_split)
  moreover have "take (length (concat gs)) (iov c) = concat gs" using r by (auto simp: out_rep_def)
  ultimately have "iov c = concat (take i gs) @ gs ! i @ concat (drop (Suc i) gs) @ drop (length (concat gs)) (iov c)"
    by (metis append_take_drop_id append.assoc)
  then have "take (length (gs ! i)) (drop (length (concat (take i gs))) (iov c)) = gs ! i"
    by (metis append_eq_conv_conj)
  then show ?thesis using r i by (simp add: pending_msg_def msg_entries_def out_rep_def)
qed

lemma out_rep_tx_ok:
  assumes r: "out_rep c gs" and m: "msgcurr c = 0"
  shows "tx_ok c" "pending c = concat (concat gs)"
proof -
  have h: "msg_iov (msglist c ! i) = length (concat (take i gs))" "msg_end c i = length (concat (take (Suc i) gs))" if "i < length gs" for i
    using r that by (simp_all add: out_rep_def msg_end_def take_Suc_conv_app_nth)
  have mono: "length (concat (take i gs)) \<le> length (concat (take j gs))" if "i \<le> j" for i j
  proof -
    have "take j gs = take i gs @ take (j - i) (drop i gs)" using that by (metis le_add_diff_inverse take_add)
    then show ?thesis by simp
  qed
  have u: "msgused c = length gs" "length gs \<le> length (msglist c)" "length (concat gs) \<le> length (iov c)"
    using r by (auto simp: out_rep_def)
  show "tx_ok c"
    unfolding tx_ok_def
  proof (intro conjI allI impI)
    fix i assume "i < msgused c"
    then show "msg_end c i \<le> length (iov c)" using h(2) [of i] mono [of "Suc i" "length gs"] u by simp
  next
    fix i j assume "i < j \<and> j < msgused c"
    then show "msg_end c i \<le> msg_iov (msglist c ! j)" using h(2) [of i] h(1) [of j] mono [of "Suc i" j] u by simp
  qed (use u in simp)
  have "map (pending_msg c) [0..<length gs] = map concat gs" using out_rep_pending_msg [OF r] by (intro nth_equalityI) auto
  moreover have "concat (map concat gs) = concat (concat gs)" by (induction gs) auto
  ultimately show "pending c = concat (concat gs)" using u m by (simp add: pending_def)
qed

lemma set_state_simps [simp]:
  "c_state (conn_set_state s c) = s" "udp (conn_set_state s c) = udp c" "iovused (conn_set_state s c) = iovused c"
  "ilist (conn_set_state s c) = ilist c" "suffixlist (conn_set_state s c) = suffixlist c" "write_and_go (conn_set_state s c) = write_and_go c" "answers (conn_set_state s c) = answers c"
  "wbuf (conn_set_state s c) = wbuf c" "msglist (conn_set_state s c) = msglist c" "iov (conn_set_state s c) = iov c"
  "msgused (conn_set_state s c) = msgused c" "msgcurr (conn_set_state s c) = msgcurr c" "msgbytes (conn_set_state s c) = msgbytes c"
  by (simp_all add: conn_set_state_def)

definition writing :: "conn \<Rightarrow> bool" where
  "writing c \<longleftrightarrow> c_state c = CONN_WRITE \<or> c_state c = CONN_MWRITE"

text \<open>What follows when everything is written.\<close>

definition after_write :: "(ptr \<Rightarrow> 'e \<Rightarrow> 'e option) \<Rightarrow> (byte list \<Rightarrow> 'e \<Rightarrow> 'e option) \<Rightarrow> conn \<times> 'e \<Rightarrow> conn \<times> 'e \<Rightarrow> bool" where
  "after_write release fs s s' \<longleftrightarrow>
     (if c_state (fst s) = CONN_MWRITE
      then release_reply release fs (fst s) (snd s) = Some (snd s') \<and> ilist (fst s') = [] \<and> suffixlist (fst s') = []
        \<and> c_state (fst s') = (if protocol (fst s) = binary_prot then write_and_go (fst s) else CONN_NEW_CMD)
      else snd s' = snd s \<and> c_state (fst s') = write_and_go (fst s))"

text \<open>Answers of a socket that takes something each time.\<close>

definition live_socket :: "(send_result \<times> bool) list \<Rightarrow> bool" where
  "live_socket nets \<longleftrightarrow> (\<forall>(r, ev) \<in> set nets. \<exists>n. r = Sent (Suc n))"

definition same_reply :: "conn \<Rightarrow> conn \<Rightarrow> bool" where
  "same_reply c c' \<longleftrightarrow> c_state c' = c_state c \<and> udp c' = udp c \<and> iovused c' = iovused c \<and> ilist c' = ilist c \<and> suffixlist c' = suffixlist c
     \<and> write_and_go c' = write_and_go c \<and> protocol c' = protocol c"

lemma release_reply_cong: "ilist c1 = ilist c \<Longrightarrow> suffixlist c1 = suffixlist c \<Longrightarrow> release_reply release fs c1 = release_reply release fs c"
  by (simp add: release_reply_def fun_eq_iff)

text \<open>One call of the state function, when the messages are ready.\<close>

lemma mwrite_step:
  assumes ok: "tx_ok c" "\<not> udp c" "writing c" and v: "send_valid c net"
    and rel: "c_state c = CONN_MWRITE \<Longrightarrow> release_reply release fs c e \<noteq> None"
  obtains cont out c' e' where "conn_mwrite release fs net ev (c, e) = Some (cont, out, c', e')"
    "(same_reply c c' \<and> tx_ok c' \<and> e' = e \<and> pending c = out @ pending c' \<and> ((\<exists>n. net = Sent (Suc n)) \<longrightarrow> out \<noteq> []))
      \<or> (c_state c' = CONN_CLOSING \<and> ilist c' = ilist c \<and> suffixlist c' = suffixlist c \<and> e' = e \<and> out = [] \<and> (\<nexists>n. net = Sent (Suc n)))
      \<or> (pending c = [] \<and> out = [] \<and> after_write release fs (c, e) (c', e'))"
proof -
  obtain t out c1 where t: "transmit net ev c = Some (t, out, c1)" "tx_ok c1" "pending c = out @ pending c1"
    "t = TRANSMIT_COMPLETE \<longrightarrow> pending c1 = [] \<and> out = []"
    "c_state c1 = (if t = TRANSMIT_HARD_ERROR then if udp c \<and> net \<noteq> SendAgain then CONN_READ else CONN_CLOSING else c_state c)"
    "udp c1 = udp c" "iovused c1 = iovused c" "ilist c1 = ilist c" "suffixlist c1 = suffixlist c" "write_and_go c1 = write_and_go c" "protocol c1 = protocol c"
    "t = TRANSMIT_HARD_ERROR \<longrightarrow> out = []"
    "(\<exists>n. net = Sent (Suc n)) \<longrightarrow> t \<noteq> TRANSMIT_HARD_ERROR \<and> (t \<noteq> TRANSMIT_COMPLETE \<longrightarrow> out \<noteq> [])"
    using transmit_spec [OF ok(1) v, of ev] by blast
  note rr = release_reply_cong [OF t(8,9), of release fs]
  have same: "same_reply c c1" if "t \<noteq> TRANSMIT_HARD_ERROR" using t that by (simp add: same_reply_def)
  show ?thesis
  proof (cases t)
    case TRANSMIT_COMPLETE
    obtain e1 where e1: "c_state c = CONN_MWRITE \<Longrightarrow> release_reply release fs c e = Some e1" using rel by blast
    show ?thesis
    proof (cases "c_state c = CONN_MWRITE")
      case True
      have "conn_mwrite release fs net ev (c, e) = Some (True, out,
          conn_set_state (if protocol c = binary_prot then write_and_go c else CONN_NEW_CMD) (c1\<lparr>ilist := [], suffixlist := []\<rparr>), e1)"
        using t TRANSMIT_COMPLETE True ok(2) e1 [OF True] rr by (simp add: conn_mwrite_def)
      then show ?thesis
        by (rule that) (use t TRANSMIT_COMPLETE True e1 in \<open>auto simp: after_write_def release_reply_def\<close>)
    next
      case False
      then have w: "c_state c = CONN_WRITE" using ok(3) by (simp add: writing_def)
      have "conn_mwrite release fs net ev (c, e) = Some (True, out, conn_set_state (write_and_go c) (c1\<lparr>write_and_free := False\<rparr>), e)"
        using t TRANSMIT_COMPLETE w ok(2) by (simp add: conn_mwrite_def)
      then show ?thesis
        by (rule that) (use t TRANSMIT_COMPLETE False in \<open>auto simp: after_write_def release_reply_def\<close>)
    qed
  next
    case TRANSMIT_INCOMPLETE
    then have "conn_mwrite release fs net ev (c, e) = Some (True, out, c1, e)" using t ok(2) by (simp add: conn_mwrite_def)
    then show ?thesis by (rule that) (use t TRANSMIT_INCOMPLETE same in auto)
  next
    case TRANSMIT_SOFT_ERROR
    then have "conn_mwrite release fs net ev (c, e) = Some (False, out, c1, e)" using t ok(2) by (simp add: conn_mwrite_def)
    then show ?thesis by (rule that) (use t TRANSMIT_SOFT_ERROR same in auto)
  next
    case TRANSMIT_HARD_ERROR
    then have "conn_mwrite release fs net ev (c, e) = Some (True, out, c1, e)" using t ok(2) by (simp add: conn_mwrite_def)
    then show ?thesis by (rule that) (use t TRANSMIT_HARD_ERROR ok(2) in auto)
  qed
qed

text \<open>All calls of the event loop until the reply is written, or as long as there are answers.\<close>

lemma drive_done: "\<not> writing (fst s) \<Longrightarrow> drive_write release fs nets s = Some ([], s)"
  by (cases nets) (auto simp: writing_def)

lemma live_socket_Cons: "live_socket (n # nets) \<longleftrightarrow> (\<exists>k. fst n = Sent (Suc k)) \<and> live_socket nets"
  by (cases n) (auto simp: live_socket_def)

text \<open>
  What the event loop leaves: it goes on writing, it gave the connection up, or it has written everything.
\<close>

definition drive_result ::
    "(ptr \<Rightarrow> 'e \<Rightarrow> 'e option) \<Rightarrow> (byte list \<Rightarrow> 'e \<Rightarrow> 'e option) \<Rightarrow> (send_result \<times> bool) list \<Rightarrow> conn \<times> 'e \<Rightarrow> byte list \<Rightarrow> conn \<times> 'e \<Rightarrow> bool" where
  "drive_result release fs nets s out s' \<longleftrightarrow>
     (same_reply (fst s) (fst s') \<and> snd s' = snd s \<and> (\<exists>rest. pending (fst s) = out @ rest) \<and> (live_socket nets \<longrightarrow> length nets \<le> length out))
     \<or> (c_state (fst s') = CONN_CLOSING \<and> ilist (fst s') = ilist (fst s) \<and> suffixlist (fst s') = suffixlist (fst s) \<and> snd s' = snd s \<and> (\<exists>rest. pending (fst s) = out @ rest) \<and> \<not> live_socket nets)
     \<or> (out = pending (fst s) \<and> after_write release fs s s')"

lemma drive_result_step:
  assumes same: "same_reply c c1" and p: "pending c = out @ pending c1" and l: "(\<exists>k. fst n = Sent (Suc k)) \<longrightarrow> out \<noteq> []"
    and r: "drive_result release fs nets (c1, e) out' s'"
  shows "drive_result release fs (n # nets) (c, e) (out @ out') s'"
proof -
  have q: "c_state c1 = c_state c" "ilist c1 = ilist c" "suffixlist c1 = suffixlist c" "write_and_go c1 = write_and_go c"
    "protocol c1 = protocol c" using same by (simp_all add: same_reply_def)
  have a: "after_write release fs (c1, e) s' = after_write release fs (c, e) s'"
    unfolding after_write_def fst_conv snd_conv q release_reply_cong [OF q(2,3), of release fs] ..
  from r consider "same_reply c1 (fst s')" "snd s' = e" "\<exists>rest. pending c1 = out' @ rest" "live_socket nets \<longrightarrow> length nets \<le> length out'"
    | "c_state (fst s') = CONN_CLOSING" "ilist (fst s') = ilist c \<and> suffixlist (fst s') = suffixlist c" "snd s' = e" "\<exists>rest. pending c1 = out' @ rest" "\<not> live_socket nets"
    | "out' = pending c1" "after_write release fs (c, e) s'"
    unfolding drive_result_def fst_conv snd_conv a q by blast
  then show ?thesis
  proof cases
    case 1
    have "same_reply c (fst s')" using 1(1) same by (simp add: same_reply_def)
    moreover have "live_socket (n # nets) \<longrightarrow> length (n # nets) \<le> length (out @ out')"
      using 1(4) l by (cases out) (auto simp: live_socket_Cons)
    ultimately show ?thesis using 1(2,3) p by (simp add: drive_result_def)
  next
    case 2
    then show ?thesis using p by (simp add: drive_result_def live_socket_Cons)
  next
    case 3
    then show ?thesis using p by (simp add: drive_result_def)
  qed
qed

lemma drive_spec:
  assumes "tx_ok c" "\<not> udp c" "writing c" "iovused c \<noteq> 0" "sends_valid release fs nets (c, e)"
    "c_state c = CONN_MWRITE \<Longrightarrow> release_reply release fs c e \<noteq> None"
    "write_and_go c \<notin> {CONN_WRITE, CONN_MWRITE}"
  shows "\<exists>out s'. drive_write release fs nets (c, e) = Some (out, s') \<and> drive_result release fs nets (c, e) out s'"
  using assms
proof (induction nets arbitrary: c)
  case Nil
  then show ?case by (auto simp: same_reply_def drive_result_def)
next
  case (Cons n nets)
  obtain net ev where n: "n = (net, ev)" by fastforce
  have w: "c_state c = CONN_WRITE \<or> c_state c = CONN_MWRITE" using Cons.prems(3) by (simp add: writing_def)
  have run: "(if c_state c = CONN_WRITE then conn_write release fs net ev (c, e) else conn_mwrite release fs net ev (c, e))
      = conn_mwrite release fs net ev (c, e)"
    using Cons.prems(2,4) by (simp add: conn_write_def)
  have v: "send_valid c net" using Cons.prems(4,5) w n by auto
  obtain cont out c1 e1 where s: "conn_mwrite release fs net ev (c, e) = Some (cont, out, c1, e1)"
    "(same_reply c c1 \<and> tx_ok c1 \<and> e1 = e \<and> pending c = out @ pending c1 \<and> ((\<exists>n. net = Sent (Suc n)) \<longrightarrow> out \<noteq> []))
      \<or> (c_state c1 = CONN_CLOSING \<and> ilist c1 = ilist c \<and> suffixlist c1 = suffixlist c \<and> e1 = e \<and> out = [] \<and> (\<nexists>n. net = Sent (Suc n)))
      \<or> (pending c = [] \<and> out = [] \<and> after_write release fs (c, e) (c1, e1))"
    using mwrite_step [OF Cons.prems(1-3) v Cons.prems(6)] by blast
  have d: "drive_write release fs (n # nets) (c, e)
      = do { (out', s) \<leftarrow> drive_write release fs nets (c1, e1); Some (out @ out', s) }"
    using w run s(1) by (simp add: n)
  show ?case
  proof (cases "same_reply c c1 \<and> tx_ok c1 \<and> e1 = e \<and> pending c = out @ pending c1 \<and> ((\<exists>n. net = Sent (Suc n)) \<longrightarrow> out \<noteq> [])")
    case True
    then have same: "c_state c1 = c_state c" "udp c1 = udp c" "iovused c1 = iovused c" "ilist c1 = ilist c" "suffixlist c1 = suffixlist c"
      "write_and_go c1 = write_and_go c" by (simp_all add: same_reply_def)
    have "sends_valid release fs nets (c1, e)" using Cons.prems(5) w run s(1) True by (simp add: n)
    then have "\<exists>out' s'. drive_write release fs nets (c1, e) = Some (out', s') \<and> drive_result release fs nets (c1, e) out' s'"
      using True Cons.prems same release_reply_cong [OF same(4,5), of release fs] by (intro Cons.IH) (simp_all add: writing_def)
    then obtain out' s' where ih: "drive_write release fs nets (c1, e) = Some (out', s')" "drive_result release fs nets (c1, e) out' s'" by blast
    have "drive_result release fs (n # nets) (c, e) (out @ out') s'" using True ih(2) by (intro drive_result_step) (auto simp: n)
    then show ?thesis using d ih(1) True by simp
  next
    case False
    have "\<not> writing c1"
      using s(2) False Cons.prems(7) by (auto simp: writing_def after_write_def split: if_splits)
    then have "drive_write release fs (n # nets) (c, e) = Some (out, c1, e1)" using d by (simp add: drive_done)
    moreover have "drive_result release fs (n # nets) (c, e) out (c1, e1)"
      using s(2) False by (auto simp: drive_result_def live_socket_Cons n)
    ultimately show ?thesis by blast
  qed
qed

lemma drive_finishes:
  assumes "drive_result release fs nets (c, e) out s'" "live_socket nets" "length (pending c) < length nets"
  shows "out = pending c \<and> after_write release fs (c, e) s'"
  using assms by (auto simp: drive_result_def)

end
