(* ===== verification/Conn_Props.thy ===== *)
theory Conn_Props
  imports Conn_Output
begin

unbundle bit_operations_syntax

text \<open>
  The properties of the output side of a connection: a reply reaches a TCP client byte for byte
  whatever the socket accepts at a time, then its items are released; a UDP reply becomes
  datagrams of at most 1400 bytes with numbered headers whose data is the reply.
\<close>

section \<open>A reply and its way to the client\<close>

text \<open>The start of every reply, and the data of a reply, one call of \<^verbatim>\<open>add_iov\<close> each.\<close>

definition start_reply :: "conn \<Rightarrow> (int \<times> conn) option" where
  "start_reply c = add_msghdr (c\<lparr>msgcurr := 0, msgused := 0, iovused := 0\<rparr>)"

fun add_iovs :: "byte list list \<Rightarrow> conn \<Rightarrow> (int \<times> conn) option" where
  "add_iovs [] c = Some (0, c)"
| "add_iovs (b # bs) c = do { (r, c) \<leftarrow> add_iov c b; if r \<noteq> 0 then Some (r, c) else add_iovs bs c }"

definition conn_ready :: "conn \<Rightarrow> bool" where
  "conn_ready c \<longleftrightarrow> msglist c \<noteq> [] \<and> iov c \<noteq> [] \<and> answers_ok c"

lemma start_reply_ok:
  assumes "conn_ready c"
  shows "\<exists>c'. start_reply c = Some (0, c') \<and> out_rep c' [new_msg c] \<and> fits c' [new_msg c] \<and> same_conn (c\<lparr>msgcurr := 0\<rparr>) c'"
proof -
  let ?c = "c\<lparr>msgcurr := 0, msgused := 0, iovused := 0\<rparr>"
  have "out_rep ?c []" "fits ?c []" "answers_ok ?c" "new_msg ?c = new_msg c"
    using assms by (simp_all add: out_rep_def fits_def conn_ready_def answers_ok_def new_msg_def)
  moreover have "same_conn ?c c' = same_conn (c\<lparr>msgcurr := 0\<rparr>) c'" for c' by (simp add: same_conn_def no_output_def)
  ultimately show ?thesis using add_msghdr_ok [of ?c "[]"] by (auto simp: start_reply_def)
qed

lemma add_iovs_ok:
  assumes "out_rep c gs" "fits c gs" "answers_ok c" "gs \<noteq> []"
  shows "\<exists>c' gs'. add_iovs bufs c = Some (0, c') \<and> out_rep c' gs' \<and> fits c' gs' \<and> gs' \<noteq> [] \<and> same_conn c c'
    \<and> payload (udp c) gs' = payload (udp c) gs @ concat bufs"
  using assms
proof (induction bufs arbitrary: c gs)
  case Nil
  then show ?case by (auto simp: same_conn_def)
next
  case (Cons b bufs)
  obtain c1 gs1 where c1: "add_iov c b = Some (0, c1)" "out_rep c1 gs1" "fits c1 gs1" "gs1 \<noteq> []" "same_conn c c1"
    "payload (udp c) gs1 = payload (udp c) gs @ b" using add_iov_ok [OF Cons.prems] by blast
  note s = same_conn_simps [OF c1(5)]
  obtain c' gs' where "add_iovs bufs c1 = Some (0, c')" "out_rep c' gs'" "fits c' gs'" "gs' \<noteq> []" "same_conn c1 c'"
    "payload (udp c1) gs' = payload (udp c1) gs1 @ concat bufs" using Cons.IH [OF c1(2,3) s(5) c1(4)] by blast
  then show ?case using c1 s(1) same_conn_trans [OF c1(5)] by auto
qed

lemma reply_ok:
  assumes "conn_ready c"
  shows "\<exists>c0 c' gs. start_reply c = Some (0, c0) \<and> add_iovs bufs c0 = Some (0, c') \<and> out_rep c' gs \<and> fits c' gs
    \<and> same_conn (c\<lparr>msgcurr := 0\<rparr>) c' \<and> payload (udp c) gs = concat bufs"
proof -
  obtain c0 where c0: "start_reply c = Some (0, c0)" "out_rep c0 [new_msg c]" "fits c0 [new_msg c]" "same_conn (c\<lparr>msgcurr := 0\<rparr>) c0"
    using start_reply_ok [OF assms] by blast
  have u: "udp c0 = udp c" using same_conn_simps(1) [OF c0(4)] by simp
  have "payload (udp c) [new_msg c] = []" by (simp add: payload_def new_msg_def)
  then show ?thesis
    using add_iovs_ok [OF c0(2,3) same_conn_simps(5) [OF c0(4)], of bufs] c0(1,4) same_conn_trans [OF c0(4)] u by auto
qed

lemma same_connD:
  assumes "same_conn c c'"
  shows "ilist c' = ilist c" "suffixlist c' = suffixlist c" "write_and_go c' = write_and_go c" "protocol c' = protocol c"
    "request_id c' = request_id c" "sbytes c' = sbytes c" "wsize c' = wsize c" "noreply c' = noreply c"
proof -
  have e: "no_output c' = no_output c" using assms by (simp add: same_conn_def)
  show "ilist c' = ilist c" using arg_cong [OF e, of ilist] by (simp add: no_output_def)
  show "suffixlist c' = suffixlist c" using arg_cong [OF e, of suffixlist] by (simp add: no_output_def)
  show "write_and_go c' = write_and_go c" using arg_cong [OF e, of write_and_go] by (simp add: no_output_def)
  show "protocol c' = protocol c" using arg_cong [OF e, of protocol] by (simp add: no_output_def)
  show "request_id c' = request_id c" using arg_cong [OF e, of request_id] by (simp add: no_output_def)
  show "sbytes c' = sbytes c" using arg_cong [OF e, of sbytes] by (simp add: no_output_def)
  show "wsize c' = wsize c" using arg_cong [OF e, of wsize] by (simp add: no_output_def)
  show "noreply c' = noreply c" using arg_cong [OF e, of noreply] by (simp add: no_output_def)
qed

lemma out_rep_set_state:
  "out_rep (conn_set_state s c) gs = out_rep c gs" "out_rep (c\<lparr>ilist := its\<rparr>) gs = out_rep c gs"
  "out_rep (c\<lparr>suffixlist := sfs\<rparr>) gs = out_rep c gs" "out_rep (c\<lparr>wbuf := w\<rparr>) gs = out_rep c gs"
  "out_rep (c\<lparr>write_and_go := s\<rparr>) gs = out_rep c gs"
  by (simp_all add: out_rep_def)

lemma payload_tcp: "payload False gs = concat (concat gs)"
  by (induction gs) (auto simp: payload_def)



definition reply_state :: "state_func \<Rightarrow> ptr list \<Rightarrow> byte list list \<Rightarrow> conn \<Rightarrow> conn" where
  "reply_state s its sfs c = conn_set_state s (c\<lparr>ilist := its, suffixlist := sfs\<rparr>)"

lemma reply_state_simps [simp]:
  "c_state (reply_state s its sfs c) = s" "ilist (reply_state s its sfs c) = its" "suffixlist (reply_state s its sfs c) = sfs"
  "udp (reply_state s its sfs c) = udp c" "iovused (reply_state s its sfs c) = iovused c" "msgcurr (reply_state s its sfs c) = msgcurr c"
  "write_and_go (reply_state s its sfs c) = write_and_go c" "protocol (reply_state s its sfs c) = protocol c"
  by (simp_all add: reply_state_def conn_set_state_def)

lemma tcp_reply:
  assumes "conn_ready c" "\<not> udp c" "concat bufs \<noteq> []"
    and build: "start_reply c = Some (0, c0)" "add_iovs bufs c0 = Some (0, c1)"
  shows "tx_ok (reply_state s its sfs c1) \<and> pending (reply_state s its sfs c1) = concat bufs \<and> \<not> udp c1 \<and> iovused c1 \<noteq> 0
    \<and> write_and_go c1 = write_and_go c \<and> protocol c1 = protocol c"
proof -
  obtain gs where gs: "out_rep c1 gs" "same_conn (c\<lparr>msgcurr := 0\<rparr>) c1" "payload (udp c) gs = concat bufs"
    using reply_ok [OF assms(1), of bufs] build by fastforce
  have q: "udp c1 = udp c" "msgcurr c1 = 0" "write_and_go c1 = write_and_go c" "protocol c1 = protocol c"
    using same_conn_simps [OF gs(2)] same_connD [OF gs(2)] by simp_all
  have r: "out_rep (reply_state s its sfs c1) gs" using gs(1) by (simp add: reply_state_def out_rep_set_state)
  have "concat (concat gs) = concat bufs" using gs(3) assms(2) by (simp add: payload_tcp)
  then have "concat gs \<noteq> []" using assms(3) by (metis concat.simps(1))
  then have "iovused c1 \<noteq> 0" using gs(1) by (simp add: out_rep_def)
  then show ?thesis
    using out_rep_tx_ok [OF r] gs(3) q assms(2) by (simp add: payload_tcp)
qed

text \<open>
  C24. A reply of several parts, such as the items of a get: the bytes that reach the socket are
  always a prefix of the parts in order, however little the socket accepts at a time; while
  something is left the connection keeps the items, and when everything is written each item and
  suffix of the reply has been released once, in order, and the connection is in the state that
  follows. A socket that takes something at every call gets all of it within as many calls as the
  reply has bytes, plus one.
\<close>

theorem reply_sent:
  assumes c: "conn_ready c" "\<not> udp c" "concat bufs \<noteq> []" "write_and_go c \<notin> {CONN_WRITE, CONN_MWRITE}"
    and build: "start_reply c = Some (0, c0)" "add_iovs bufs c0 = Some (0, c1)"
    and rel: "release_items release its e = Some e1" "release_items fs sfs e1 = Some e2"
    and net: "sends_valid release fs nets (reply_state CONN_MWRITE its sfs c1, e)"
    and sent: "sent = (\<lambda>out c' e'. out = concat bufs \<and> e' = e2 \<and> ilist c' = [] \<and> suffixlist c' = []
      \<and> c_state c' = (if protocol c = binary_prot then write_and_go c else CONN_NEW_CMD))"
  shows "\<exists>out c' e'. drive_write release fs nets (reply_state CONN_MWRITE its sfs c1, e) = Some (out, c', e')
    \<and> (\<exists>rest. concat bufs = out @ rest)
    \<and> (c_state c' \<in> {CONN_MWRITE, CONN_CLOSING} \<and> ilist c' = its \<and> suffixlist c' = sfs \<and> e' = e \<or> sent out c' e')
    \<and> (live_socket nets \<and> length (concat bufs) < length nets \<longrightarrow> sent out c' e')"
proof -
  let ?c = "reply_state CONN_MWRITE its sfs c1"
  have t: "tx_ok ?c" "pending ?c = concat bufs" "\<not> udp ?c" "iovused ?c \<noteq> 0" "write_and_go ?c = write_and_go c" "protocol ?c = protocol c"
    using tcp_reply [OF c(1-3) build, of CONN_MWRITE its sfs] by simp_all
  have rel': "release_reply release fs ?c e = Some e2" using rel by (simp add: release_reply_def)
  obtain out c' e' where d: "drive_write release fs nets (?c, e) = Some (out, c', e')" "drive_result release fs nets (?c, e) out (c', e')"
    using drive_spec [OF t(1,3) _ t(4) net] rel' c(4) t(5) by (auto simp: writing_def)
  have all: "sent out c' e'" if "out = pending ?c" "after_write release fs (?c, e) (c', e')"
    using that t rel' by (simp add: after_write_def sent)
  have "live_socket nets \<and> length (concat bufs) < length nets \<longrightarrow> sent out c' e'"
    using drive_finishes [OF d(2)] all t(2) by auto
  moreover have "(\<exists>rest. concat bufs = out @ rest)
      \<and> (c_state c' \<in> {CONN_MWRITE, CONN_CLOSING} \<and> ilist c' = its \<and> suffixlist c' = sfs \<and> e' = e \<or> sent out c' e')"
    using d(2) all t(2) by (auto simp: drive_result_def same_reply_def)
  ultimately show ?thesis using d(1) by blast
qed


definition udp_header :: "int \<Rightarrow> nat \<Rightarrow> nat \<Rightarrow> byte list" where
  "udp_header rid i n = [byte_of (rid div 256), byte_of (rid mod 256), byte_of (int i div 256), byte_of (int i mod 256),
     byte_of (int n div 256), byte_of (int n mod 256), 0, 0]"

definition with_headers :: "int \<Rightarrow> byte list list list \<Rightarrow> nat \<Rightarrow> byte list list list" where
  "with_headers rid gs k = map (\<lambda>i. if i < k then udp_header rid i (length gs) # tl (gs ! i) else gs ! i) [0..<length gs]"

lemma with_headers_simps:
  "with_headers rid gs 0 = gs" "length (with_headers rid gs k) = length gs"
  by (simp_all add: with_headers_def map_nth)

lemma with_headers_nth: "i < length gs \<Longrightarrow> with_headers rid gs k ! i = (if i < k then udp_header rid i (length gs) # tl (gs ! i) else gs ! i)"
  by (simp add: with_headers_def)

lemma with_headers_Suc:
  assumes "k < length gs"
  shows "with_headers rid gs (Suc k) = (with_headers rid gs k)[k := udp_header rid k (length gs) # tl (gs ! k)]"
  using assms by (intro nth_equalityI) (auto simp: with_headers_simps with_headers_nth nth_list_update less_Suc_eq)

lemma with_headers_lengths:
  assumes "\<forall>g \<in> set gs. g \<noteq> []"
  shows "length (concat (take i (with_headers rid gs k))) = length (concat (take i gs))"
proof -
  have "map length (with_headers rid gs k) = map length gs"
    using assms by (intro nth_equalityI) (auto simp: with_headers_simps with_headers_nth)
  then show ?thesis by (simp add: length_concat flip: take_map)
qed

lemma concat_update_hd:
  assumes "k < length gs" "gs ! k \<noteq> []"
  shows "concat (gs[k := h # tl (gs ! k)]) = (concat gs)[length (concat (take k gs)) := h]"
proof -
  have a: "concat (gs[k := h # tl (gs ! k)]) = concat (take k gs) @ (h # tl (gs ! k)) @ concat (drop (Suc k) gs)"
    using assms(1) by (simp add: upd_conv_take_nth_drop)
  obtain x xs where g: "gs ! k = x # xs" using assms(2) by (cases "gs ! k") auto
  have b: "concat gs = concat (take k gs) @ gs ! k @ concat (drop (Suc k) gs)" using assms(1) by (rule concat_nth_split)
  have "(concat (take k gs) @ (x # xs) @ concat (drop (Suc k) gs))[length (concat (take k gs)) := h]
      = concat (take k gs) @ (h # xs) @ concat (drop (Suc k) gs)" by (simp add: list_update_append)
  then show ?thesis using a b g by simp
qed

lemma build_udp_headers_ok:
  assumes r: "out_rep c gs" and f: "fits c gs" and u: "udp c" and a: "answers_ok c"
  shows "\<exists>c2. build_udp_headers c = Some (0, c2) \<and> out_rep c2 (with_headers (request_id c) gs (length gs)) \<and> msgcurr c2 = msgcurr c"
proof -
  let ?n = "length gs" and ?rid = "request_id c"
  define c1 where "c1 = snd (if msgused c > hdrsize c then
          (let (ok, c) = alloc c in (ok, if ok then c\<lparr>hdrsize := msgused c * 2\<rparr> else c)) else (True, c))"
  obtain me where al: "alloc c = (True, c\<lparr>answers := me\<rparr>)" using alloc_ok [OF a] .
  have c1: "(if msgused c > hdrsize c then (let (ok, c) = alloc c in (ok, if ok then c\<lparr>hdrsize := msgused c * 2\<rparr> else c)) else (True, c)) = (True, c1)"
    "iov c1 = iov c" "msglist c1 = msglist c" "msgused c1 = msgused c" "request_id c1 = ?rid" "iovused c1 = iovused c" "msgcurr c1 = msgcurr c"
    using al by (auto simp: c1_def)
  have ne: "\<forall>g \<in> set gs. g \<noteq> []" using f u by (auto simp: fits_def)
  have hd: "msg_iov (msglist c ! i) = length (concat (take i gs))" if "i < ?n" for i using r that by (simp add: out_rep_def)
  have n: "msgused c = ?n" "?n \<le> length (msglist c)" "iovused c = length (concat gs)" "iovused c \<le> length (iov c)"
    "take (iovused c) (iov c) = concat gs" using r unfolding out_rep_def by blast+
  let ?step = "\<lambda>v i. do { v \<leftarrow> v; arr_set v (msg_iov (msglist c ! i)) (udp_header ?rid i ?n) }"
  have loop: "foldl ?step (Some (iov c)) [0..<k] = Some (concat (with_headers ?rid gs k) @ drop (iovused c) (iov c))" if "k \<le> ?n" for k
    using that
  proof (induction k)
    case 0
    then show ?case using n(5) append_take_drop_id [of "iovused c" "iov c"] by (simp add: with_headers_simps)
  next
    case (Suc k)
    let ?w = "with_headers ?rid gs k" and ?d = "drop (iovused c) (iov c)"
    have k: "k < ?n" using Suc.prems by simp
    have w: "?w ! k = gs ! k" "?w ! k \<noteq> []" using k ne by (simp_all add: with_headers_nth)
    have pos: "msg_iov (msglist c ! k) = length (concat (take k ?w))" using hd [OF k] with_headers_lengths [OF ne] by simp
    have "concat ?w = concat (take k ?w) @ ?w ! k @ concat (drop (Suc k) ?w)"
      by (rule concat_nth_split) (use k in \<open>simp add: with_headers_simps\<close>)
    then have lt: "length (concat (take k ?w)) < length (concat ?w)" using w(2) by (metis length_append length_greater_0_conv trans_less_add1 less_add_same_cancel1)
    have "concat (with_headers ?rid gs (Suc k)) = (concat ?w)[length (concat (take k ?w)) := udp_header ?rid k ?n]"
      using concat_update_hd [of k ?w] k w by (simp add: with_headers_Suc with_headers_simps)
    then show ?case using Suc pos lt k by (simp add: arr_set_def list_update_append)
  qed
  let ?gs = "with_headers ?rid gs ?n"
  have len: "length (concat ?gs) = length (concat gs)"
    using with_headers_lengths [OF ne, of ?n ?rid ?n] by (simp add: with_headers_simps)
  let ?c2 = "c1\<lparr>iov := concat ?gs @ drop (iovused c) (iov c)\<rparr>"
  have run: "build_udp_headers c = Some (0, ?c2)"
    using n(1,2) c1 loop [of ?n] by (simp add: build_udp_headers_def udp_header_def)
  have "length (concat ?gs @ drop (iovused c) (iov c)) = length (iov c)" "iov c \<noteq> []" using r len n(3,4) by (auto simp: out_rep_def)
  then have "concat ?gs @ drop (iovused c) (iov c) \<noteq> []" by (metis length_0_conv)
  then have "out_rep ?c2 ?gs"
    using r len n c1 with_headers_lengths [OF ne, of _ ?rid ?n] ne
    by (auto simp: out_rep_def with_headers_simps with_headers_nth)
  then show ?thesis using run c1(7) by auto
qed

text \<open>
  C26. A reply over UDP: the messages that add_msghdr and add_iov make and build_udp_headers
  completes have at most 1400 bytes each, start with the eight bytes of the request id, the number
  of the datagram and the number of datagrams, and what follows the headers is the data of the
  reply, in order.
\<close>

theorem udp_datagrams:
  assumes c: "conn_ready c" "udp c" and build: "start_reply c = Some (0, c0)" "add_iovs bufs c0 = Some (0, c1)"
  shows "\<exists>c2. build_udp_headers c1 = Some (0, c2)
    \<and> (\<forall>i < msgused c2. length (pending_msg c2 i) \<le> 1400 \<and> take 8 (pending_msg c2 i) = udp_header (request_id c) i (msgused c2))
    \<and> concat (map (\<lambda>i. drop 8 (pending_msg c2 i)) [0..<msgused c2]) = concat bufs"
proof -
  obtain gs where gs: "out_rep c1 gs" "fits c1 gs" "same_conn (c\<lparr>msgcurr := 0\<rparr>) c1" "payload (udp c) gs = concat bufs"
    using reply_ok [OF c(1), of bufs] build by fastforce
  have u: "udp c1" "request_id c1 = request_id c" "answers_ok c1"
    using same_conn_simps [OF gs(3)] same_connD [OF gs(3)] c(2) by simp_all
  let ?gs = "with_headers (request_id c) gs (length gs)"
  obtain c2 where c2: "build_udp_headers c1 = Some (0, c2)" "out_rep c2 ?gs" using build_udp_headers_ok [OF gs(1,2) u(1,3)] u(2) by auto
  have n: "msgused c2 = length gs" using c2(2) by (simp add: out_rep_def with_headers_simps)
  have p: "pending_msg c2 i = udp_header (request_id c) i (length gs) @ concat (tl (gs ! i))" if "i < length gs" for i
    using out_rep_pending_msg [OF c2(2), of i] that by (simp add: with_headers_simps with_headers_nth)
  have h: "length (udp_header rid i k) = 8" for rid i k by (simp add: udp_header_def)
  have b: "length (concat (gs ! i)) \<le> 1400 \<and> length (concat (gs ! i)) = 8 + length (concat (tl (gs ! i)))" if "i < length gs" for i
  proof -
    have "gs ! i \<in> set gs" "bytes_in (gs ! i) \<le> UDP_MAX_PAYLOAD_SIZE" using that gs(2) u(1) by (auto simp: fits_def)
    moreover from this have "gs ! i \<noteq> []" "length (hd (gs ! i)) = UDP_HEADER_SIZE" using gs(2) u(1) by (auto simp: fits_def)
    then have "length (concat (gs ! i)) = UDP_HEADER_SIZE + length (concat (tl (gs ! i)))" by (cases "gs ! i") auto
    ultimately show ?thesis by (simp add: bytes_in_def UDP_MAX_PAYLOAD_SIZE_def UDP_HEADER_SIZE_def)
  qed
  have "map (\<lambda>i. drop 8 (pending_msg c2 i)) [0..<length gs] = map (\<lambda>g. concat (tl g)) gs"
    using p h by (intro nth_equalityI) auto
  then have "concat (map (\<lambda>i. drop 8 (pending_msg c2 i)) [0..<length gs]) = concat bufs"
    using gs(4) c(2) by (simp add: payload_def)
  moreover have "length (pending_msg c2 i) \<le> 1400" if "i < length gs" for i using p [OF that] b [OF that] by (simp add: h)
  ultimately show ?thesis using c2(1) n p h by auto
qed

section \<open>Witnesses\<close>

definition small_conn :: conn where
  "small_conn = (zero_conn [])\<lparr>wsize := 64, iov := [[]], msglist := [\<lparr>msg_iov = 0, msg_iovlen = 0\<rparr>]\<rparr>"

lemma small_conn_ready: "conn_ready small_conn" "conn_ready (small_conn\<lparr>udp := u\<rparr>)" "\<not> udp small_conn" "\<not> noreply small_conn"
  "wsize small_conn = 64" "write_and_go small_conn = CONN_CLOSING" "sbytes small_conn = 0"
  by (simp_all add: conn_ready_def small_conn_def zero_conn_def answers_ok_def)

lemmas add_iov_code [code] = add_iov_with.simps

theorem reply_sent_witness:
  "\<exists>out c' e'. drive_write (\<lambda>p e. Some (e @ [p])) (\<lambda>b e. Some (e @ [length b])) (replicate 4 (Sent 1, True))
      (reply_state CONN_MWRITE [7] [[32, 48]] (snd (the (add_iovs [[1, 2], [3]] (snd (the (start_reply small_conn)))))), []) = Some (out, c', e')
    \<and> out = [1, 2, 3] \<and> e' = [7, 2]"
proof -
  let ?c0 = "snd (the (start_reply small_conn))" and ?rel = "\<lambda>p e. Some (e @ [p]) :: nat list option"
    and ?fs = "\<lambda>b e. Some (e @ [length b]) :: nat list option"
  let ?c1 = "snd (the (add_iovs [[1, 2], [3]] ?c0))"
  have b: "start_reply small_conn = Some (0, ?c0)" "add_iovs [[1, 2], [3]] ?c0 = Some (0, ?c1)" by code_simp+
  have v: "sends_valid ?rel ?fs (replicate 4 (Sent 1, True)) (reply_state CONN_MWRITE [7] [[32, 48]] ?c1, [])" by code_simp
  have "live_socket (replicate 4 (Sent 1, True))" by (simp add: live_socket_def)
  moreover note reply_sent [OF small_conn_ready(1,3) _ _ b, where release = ?rel and fs = ?fs and its = "[7]" and sfs = "[[32, 48]]" and e = "[]"
      and ?e1.0 = "[7]" and ?e2.0 = "[7, 2]", OF _ _ _ _ v refl]
  ultimately show ?thesis by (simp add: small_conn_ready) blast
qed


theorem udp_datagrams_witness:
  "\<exists>c0 c1 c2. start_reply (small_conn\<lparr>udp := True\<rparr>) = Some (0, c0) \<and> add_iovs [replicate 3000 7] c0 = Some (0, c1)
    \<and> build_udp_headers c1 = Some (0, c2) \<and> (\<forall>i < msgused c2. length (pending_msg c2 i) \<le> 1400)
    \<and> concat (map (\<lambda>i. drop 8 (pending_msg c2 i)) [0..<msgused c2]) = replicate 3000 7"
proof -
  obtain c0 c1 where b: "start_reply (small_conn\<lparr>udp := True\<rparr>) = Some (0, c0)" "add_iovs [replicate 3000 7] c0 = Some (0, c1)"
    using reply_ok [OF small_conn_ready(2)] by blast
  show ?thesis using udp_datagrams [OF small_conn_ready(2) _ b] b by (auto simp: small_conn_def)
qed

end
