(* ===== verification/Spec2Isabelle.thy ===== *)
theory Spec2Isabelle
  imports Engine_Init Storage_Props Topkeys Object_Cache VBucket_Props Config_Parser Hash Prefix_Stats
    Bucket_Props Conn_Props
begin

text \<open>
  \<^bold>\<open>Verification of the storage core of membase.\<close>

  Membase is a distributed cache. A server runs the memcached daemon (\<^verbatim>\<open>memcached/daemon\<close>), which
  speaks the protocols with the clients and calls a storage engine through an interface of function
  pointers; the engine of this development is the default engine
  (\<^verbatim>\<open>memcached/engines/default_engine\<close>). Clients and proxies find the server of a key with
  libvbucket (\<^verbatim>\<open>libvbucket\<close>). This library models the engine, the data structures of the daemon that
  do not depend on sockets and threads, the utilities they share, libvbucket, and the bucket engine
  (\<^verbatim>\<open>bucket_engine\<close>), an engine that runs one underlying engine per bucket.

  \<^bold>\<open>The default engine.\<close> Its state is the record \<open>default_engine\<close> of \<open>Engine_State\<close>: the memory of the
  items as a map from addresses to records, the hash table (\<open>assoc\<close>), the slab classes (\<open>slabs\<close>), the
  LRU queues (\<open>items\<close>), statistics, configuration, the answers of the operating system and of the
  server interface. Every C function is one definition on that state with result type \<open>option\<close>;
  \<open>None\<close> is a failed \<^verbatim>\<open>assert\<close>, a read outside an array, or a loop that does not end. So a theorem that
  says an operation returns \<open>Some\<close> says that none of these happens.

  \<^item> \<open>Chains\<close> and \<open>Interfaces\<close>: linked chains in the memory; the locales \<open>item_index\<close> (a finite map from
    keys to items) and \<open>chunk_allocator\<close>, which state what the items rely on of the hash table and of
    the slab allocator, and which \<open>Assoc\<close> and \<open>Slabs_Rep\<close> interpret on their definitions.
  \<^item> \<open>Assoc\<close> (\<^verbatim>\<open>assoc.c\<close>): the hash table with separate chaining and incremental expansion. Lookup,
    insertion and deletion implement a finite map, also in the middle of an expansion; the
    maintenance thread ends; all interleavings of clients and maintenance passes refine the map.
  \<^item> \<open>Slabs\<close>, \<open>Slabs_Rep\<close> (\<^verbatim>\<open>slabs.c\<close>): size classes, pages and free lists. The representation says which
    chunks are in use, and that they do not overlap.
  \<^item> \<open>Items\<close>, \<open>LRU\<close>, \<open>Items_Inv\<close>, \<open>Items_Alloc\<close>, \<open>Items_Walk\<close> (\<^verbatim>\<open>items.c\<close>): allocation with eviction,
    the queues, lookup with lazy expiration, store, arithmetic, touch, flush, and the cursors of the
    scrubber and the tap walker. \<open>engine_inv\<close> is the invariant of the whole engine: the table, the
    queues and the allocator describe the same set of items.
  \<^item> \<open>Cache\<close>, \<open>Cache_Ops\<close>: the abstract cache, a finite map from keys to entries (value, flags, CAS,
    expiration), what the engine shows of its state, and the effect of every operation on it.
  \<^item> \<open>Engine\<close>, \<open>Engine_Cache\<close>, \<open>Engine_Flush\<close>, \<open>Engine_Init\<close> (\<^verbatim>\<open>default_engine.c\<close>): the operations of the
    engine interface, vbucket states and the administration commands. The theorems are refinements:
    each operation keeps the invariant and does to the abstract cache what the protocol says, on
    every branch, errors included. Initialisation establishes the invariant, a flush empties the cache.
  \<^item> \<open>Storage_Props\<close>: what the allocator and the queues promise on their own.
  \<^item> \<open>Sample_Cache\<close>: a small engine with two items, on which the theorems are instantiated.

  \<^bold>\<open>The daemon's data structures.\<close>

  \<^item> \<open>Hash\<close> (\<^verbatim>\<open>hash.c\<close>): the three ways of reading the key, by its alignment, all compute the same
    function of the bytes of the key.
  \<^item> \<open>Topkeys\<close> (\<^verbatim>\<open>topkeys.c\<close>): the circular list of the most recent keys and its table; counting refines a
    bounded list of counters. The locale \<open>key_table\<close> is what it needs of the table, interpreted on
    the generic hash table.
  \<^item> \<open>Object_Cache\<close> (\<^verbatim>\<open>cache.c\<close>): a stack of free objects with red zones around each object.
  \<^item> \<open>Prefix_Stats\<close> (\<^verbatim>\<open>stats.c\<close>): counters by key prefix; the dump fits its buffer.

  \<^bold>\<open>The bucket engine\<close> (\<^verbatim>\<open>bucket_engine.c\<close>). A connection belongs to a bucket, and its calls are passed
  on to the engine of the bucket; buckets come and go while calls are inside them.

  \<^item> \<open>Bucket_Engine\<close>: the state (the record \<open>bucket_engine\<close>: the table of the buckets, the handles by
    address, the data of the connections, the point each shutdown thread has reached) and every
    function of the module; \<open>None\<close> is a failed \<^verbatim>\<open>assert\<close> or the use of a freed handle. The engine that is
    called, with its arguments, is a parameter of the functions that pass calls on.
  \<^item> \<open>Bucket_Inv\<close>, \<open>Bucket_Ops\<close>: the invariant of the reference counts and of the states of the handles,
    and for every operation that it returns and keeps it.
  \<^item> \<open>Bucket_Machine\<close>, \<open>Bucket_Props\<close>: the start and the steps in any order, with a call into an engine
    as two steps, its entry and its exit; what holds in all reachable states; a shutdown runs to its
    end in at most seven critical sections once nothing refers to the bucket. The steps leave out what
    the code gets wrong for connections that are reserved; the manifest lists these findings.

  \<^bold>\<open>Utilities.\<close> \<open>Util\<close> (\<^verbatim>\<open>util.c\<close>: reading numbers, byte order), \<open>Genhash\<close> (\<^verbatim>\<open>genhash.c\<close>: a multimap with
  callbacks as parameters), \<open>Config_Parser\<close> (\<^verbatim>\<open>config_parser.c\<close>).

  \<^bold>\<open>libvbucket.\<close> \<open>VBucket\<close> and \<open>VBucket_Props\<close> (\<^verbatim>\<open>vbucket.c\<close>): a parsed configuration is well-formed and
  says what its document says; keys are mapped into range; correction and comparison are exact.

  \<^bold>\<open>Representation.\<close> Machine integers are words of their width, so that they wrap around as in C;
  addresses are natural numbers with \<open>NULL\<close> 0; C strings are lists of bytes. Operations run to the end
  one after the other, as they do under the locks of the engine; where threads interleave between
  operations (the maintenance thread of the hash table, the scrubber) the model has the single
  passes as steps. Functions outside the repository are arguments: the server interface of the
  engine, the answers of \<^verbatim>\<open>malloc\<close>, the JSON parser's result, the digest of libhashkit, \<^verbatim>\<open>strtof\<close>.

  \<^bold>\<open>Loops.\<close> Loops over pointers are \<open>partial_function (option)\<close>, so that an endless loop is \<open>None\<close>; the
  theorems show that they return on every state of the invariant. The one bound chosen is the nesting
  depth of configuration files in \<open>Config_Parser\<close>: a file can name itself, and then the C code does
  not return either.

  \<^bold>\<open>Not modelled.\<close> The protocol state machine and the threads of the daemon (sockets, libevent), SASL,
  dynamic loading, the output of log messages; floating point; the big-endian hash; the
  programs written in C++ and Erlang (ep-engine, vbucketmigrator, ns_server); the vendored libraries
  (cJSON's parser, libmemcached, sigar, sqlite); moxi, libconflate and memcachetest.
\<close>

end
